(* ===== verification/Prelude.thy ===== *)
theory Prelude
  imports Main "HOL-Library.Word"
begin

text \<open>
  Shared vocabulary of the development: the machine types of the Rust sources, the result type
  \<open>'e + 'a\<close> with its bind (Rust's \<^verbatim>\<open>?\<close> operator), the checked slice operations of the
  standard library (\<^verbatim>\<open>get\<close>, \<^verbatim>\<open>checked_add\<close>, \<^verbatim>\<open>to_be_bytes\<close>, \<^verbatim>\<open>from_be_bytes\<close>,
  ASCII case folding) and the predicate \<open>occurs\<close>, "these bytes stand at this offset", over
  which every codec lemma of the library is stated.  \<open>usize\<close> is \<open>nat\<close>: a Rust slice is never
  longer than \<open>isize::MAX\<close> (predicate \<open>rust_slice\<close>), so offsets into it do not wrap; the one
  place where the source computes an offset from an untrusted length uses \<^verbatim>\<open>checked_add\<close>,
  which is modelled with its 64-bit bound.
\<close>

unbundle bit_operations_syntax

section \<open>Machine types\<close>

type_synonym u8 = "8 word"
type_synonym u16 = "16 word"
type_synonym u32 = "32 word"
type_synonym u64 = "64 word"
type_synonym u128 = "128 word"
type_synonym usize = nat
type_synonym bytes = "u8 list"

named_theorems wire_reads \<open>what a checked read returns where the bytes are known\<close>
named_theorems wire_sizes \<open>lengths of encoded fields\<close>

section \<open>Results\<close>

abbreviation Ok :: "'a \<Rightarrow> 'e + 'a" where "Ok \<equiv> Inr"
abbreviation Err :: "'e \<Rightarrow> 'e + 'a" where "Err \<equiv> Inl"

definition rbind :: "'e + 'a \<Rightarrow> ('a \<Rightarrow> 'e + 'b) \<Rightarrow> 'e + 'b" where
  "rbind m f = (case m of Inl e \<Rightarrow> Inl e | Inr x \<Rightarrow> f x)"

definition ok_or :: "'e \<Rightarrow> 'a option \<Rightarrow> 'e + 'a" where
  "ok_or e m = (case m of None \<Rightarrow> Inl e | Some x \<Rightarrow> Inr x)"

definition map_err :: "('e \<Rightarrow> 'f) \<Rightarrow> 'e + 'a \<Rightarrow> 'f + 'a" where
  "map_err g m = (case m of Inl e \<Rightarrow> Inl (g e) | Inr x \<Rightarrow> Inr x)"

lemma rbind_simps [simp]: "rbind (Inl e) f = Inl e" "rbind (Inr x) f = f x"
  by (simp_all add: rbind_def)

lemma rbind_cong [fundef_cong]:
  "m = m' \<Longrightarrow> (\<And>x. m' = Inr x \<Longrightarrow> f x = g x) \<Longrightarrow> rbind m f = rbind m' g"
  by (cases m') auto

lemma rbind_weak_cong [cong]: "m = m' \<Longrightarrow> rbind m f = rbind m' f"
  by simp

lemma rbind_eq_Ok [simp]: "rbind m f = Inr y \<longleftrightarrow> (\<exists>x. m = Inr x \<and> f x = Inr y)"
  by (cases m) auto

lemma rbind_eq_Err: "rbind m f = Inl e \<longleftrightarrow> m = Inl e \<or> (\<exists>x. m = Inr x \<and> f x = Inl e)"
  by (cases m) auto

lemma ok_or_simps [simp]: "ok_or e None = Inl e" "ok_or e (Some x) = Inr x"
  by (simp_all add: ok_or_def)

lemma ok_or_eq_Ok [simp]: "ok_or e m = Inr x \<longleftrightarrow> m = Some x"
  by (cases m) auto

lemma map_err_simps [simp]: "map_err g (Inl e) = Inl (g e)" "map_err g (Inr x) = Inr x"
  by (simp_all add: map_err_def)

lemma map_err_eq_Ok [simp]: "map_err g m = Inr x \<longleftrightarrow> m = Inr x"
  by (cases m) auto

section \<open>Slices and checked arithmetic\<close>

definition usize_bound :: nat where "usize_bound = 2 ^ 64"

definition rust_slice :: "'a list \<Rightarrow> bool" where
  "rust_slice xs \<longleftrightarrow> length xs < 2 ^ 63"

definition checked_add :: "usize \<Rightarrow> usize \<Rightarrow> usize option" where
  "checked_add a b = (if a + b < usize_bound then Some (a + b) else None)"

definition get_range :: "'a list \<Rightarrow> usize \<Rightarrow> usize \<Rightarrow> 'a list option" where
  "get_range xs a b = (if a \<le> b \<and> b \<le> length xs then Some (take (b - a) (drop a xs)) else None)"

definition get_from :: "'a list \<Rightarrow> usize \<Rightarrow> 'a list option" where
  "get_from xs a = (if a \<le> length xs then Some (drop a xs) else None)"

definition get_to :: "'a list \<Rightarrow> usize \<Rightarrow> 'a list option" where
  "get_to xs b = (if b \<le> length xs then Some (take b xs) else None)"

definition get_at :: "'a list \<Rightarrow> usize \<Rightarrow> 'a option" where
  "get_at xs i = (if i < length xs then Some (xs ! i) else None)"

lemma get_to_length [simp]: "get_to (xs @ ys) (length xs) = Some xs"
  by (simp add: get_to_def)

section \<open>Big-endian integers\<close>

definition to_be_bytes :: "nat \<Rightarrow> 'a::len word \<Rightarrow> bytes" where
  "to_be_bytes n w = map (\<lambda>i. ucast (drop_bit (8 * i) w)) (rev [0..<n])"

definition from_be_bytes :: "bytes \<Rightarrow> 'a::len word" where
  "from_be_bytes bs = foldl (\<lambda>v b. push_bit 8 v OR ucast b) 0 bs"

lemma to_be_bytes_0 [simp]: "to_be_bytes 0 w = []"
  by (simp add: to_be_bytes_def)

lemma to_be_bytes_Suc: "to_be_bytes (Suc n) w = ucast (drop_bit (8 * n) w) # to_be_bytes n w"
  by (simp add: to_be_bytes_def)

lemma length_to_be_bytes [simp]: "length (to_be_bytes n w) = n"
  by (simp add: to_be_bytes_def)

lemma foldl_be_bytes:
  fixes w acc :: "'a::len word"
  shows "foldl (\<lambda>v b. push_bit 8 v OR ucast b) acc (to_be_bytes n w)
    = push_bit (8 * n) acc OR take_bit (8 * n) w"
proof (induction n arbitrary: acc)
  case 0
  show ?case by simp
next
  case (Suc n)
  let ?b = "ucast (ucast (drop_bit (8 * n) w) :: u8) :: 'a word"
  have "push_bit (8 * n) (push_bit 8 acc OR ?b) OR take_bit (8 * n) w
      = push_bit (8 * Suc n) acc OR take_bit (8 * Suc n) w"
    by (rule bit_word_eqI) (auto simp: bit_simps algebra_simps)
  with Suc.IH show ?case by (simp add: to_be_bytes_Suc)
qed

lemma from_to_be_bytes: "from_be_bytes (to_be_bytes n w) = take_bit (8 * n) w"
  by (simp add: from_be_bytes_def foldl_be_bytes)

lemma from_to_be_bytes_16 [simp]: "from_be_bytes (to_be_bytes 2 (w :: u16)) = w"
  using from_to_be_bytes [of 2 w] by (simp add: take_bit_word_eq_self)

lemma from_to_be_bytes_32 [simp]: "from_be_bytes (to_be_bytes 4 (w :: u32)) = w"
  using from_to_be_bytes [of 4 w] by (simp add: take_bit_word_eq_self)

section \<open>Bytes at an offset\<close>

definition occurs :: "'a list \<Rightarrow> nat \<Rightarrow> 'a list \<Rightarrow> bool" where
  "occurs buf p bs \<longleftrightarrow> p + length bs \<le> length buf \<and> take (length bs) (drop p buf) = bs"

lemma occursI: "occurs (pre @ bs @ post) (length pre) bs"
  by (simp add: occurs_def)

lemma occurs_Nil [simp]: "occurs buf p [] \<longleftrightarrow> p \<le> length buf"
  by (simp add: occurs_def)

lemma occurs_append [simp]:
  "occurs buf p (xs @ ys) \<longleftrightarrow> occurs buf p xs \<and> occurs buf (p + length xs) ys"
proof -
  have "take (length xs + length ys) (drop p buf)
      = take (length xs) (drop p buf) @ take (length ys) (drop (p + length xs) buf)"
    by (simp add: take_add add.commute)
  moreover have "take (length xs) (drop p buf) @ take (length ys) (drop (p + length xs) buf) = xs @ ys
      \<longleftrightarrow> take (length xs) (drop p buf) = xs \<and> take (length ys) (drop (p + length xs) buf) = ys"
    if "p + (length xs + length ys) \<le> length buf"
    using that by (subst append_eq_append_conv) auto
  ultimately show ?thesis
    by (auto simp: occurs_def add.assoc)
qed

lemma occurs_Cons:
  "occurs buf p (x # xs) \<longleftrightarrow> p < length buf \<and> buf ! p = x \<and> occurs buf (Suc p) xs"
proof -
  have "occurs buf p [x] \<longleftrightarrow> p < length buf \<and> buf ! p = x"
    by (auto simp: occurs_def take_Suc hd_drop_conv_nth)
  moreover have "occurs buf p ([x] @ xs) \<longleftrightarrow> occurs buf p [x] \<and> occurs buf (Suc p) xs"
    by (subst occurs_append) simp
  ultimately show ?thesis by simp
qed

lemma occurs_mono: "occurs buf p bs \<Longrightarrow> occurs (buf @ ext) p bs"
  by (auto simp: occurs_def)

lemma occurs_bound: "occurs buf p bs \<Longrightarrow> p + length bs \<le> length buf"
  by (simp add: occurs_def)

lemma occurs_appended: "n = length xs \<Longrightarrow> occurs (xs @ bs) n bs"
  by (simp add: occurs_def)

lemma occurs_take_drop: "occurs buf p bs \<Longrightarrow> n = length bs \<Longrightarrow> take n (drop p buf) = bs"
  by (simp add: occurs_def)

section \<open>Octets\<close>

lemma all_bytes: "list_all (\<lambda>n. P (word_of_nat n :: u8)) [0..<256] \<Longrightarrow> P b"
proof -
  assume "list_all (\<lambda>n. P (word_of_nat n :: u8)) [0..<256]"
  moreover have "unat b \<in> set [0..<256]" using unsigned_less [of b] by simp
  ultimately have "P (word_of_nat (unat b))" unfolding list_all_iff by blast
  then show "P b" by simp
qed

lemma or_shifted: "unat (push_bit 8 (ucast (a :: u8) :: u16) OR ucast (b :: u8)) = unat a * 256 + unat b"
proof -
  have "push_bit 8 (ucast a :: u16) AND ucast b = 0"
    by (rule bit_word_eqI) (auto simp: bit_simps dest: bit_imp_le_length)
  then have "push_bit 8 (ucast a :: u16) OR ucast b = push_bit 8 (ucast a) + ucast b"
    by (simp add: disjunctive_add_eq_or)
  moreover have "unat a < 256" "unat b < 256" using unsigned_less [of a] unsigned_less [of b] by simp_all
  ultimately show ?thesis
    by (simp add: unat_word_ariths push_bit_eq_mult unsigned_ucast_eq take_bit_eq_mod)
qed

lemma unat_u8_less: "unat (b :: u8) < 256"
  using unsigned_less [of b] by simp

section \<open>ASCII letters\<close>

definition is_ascii_uppercase :: "u8 \<Rightarrow> bool" where
  "is_ascii_uppercase b \<longleftrightarrow> 65 \<le> b \<and> b \<le> 90"

definition is_ascii_lowercase :: "u8 \<Rightarrow> bool" where
  "is_ascii_lowercase b \<longleftrightarrow> 97 \<le> b \<and> b \<le> 122"

definition is_ascii_alphabetic :: "u8 \<Rightarrow> bool" where
  "is_ascii_alphabetic b \<longleftrightarrow> is_ascii_uppercase b \<or> is_ascii_lowercase b"

definition is_ascii_digit :: "u8 \<Rightarrow> bool" where
  "is_ascii_digit b \<longleftrightarrow> 48 \<le> b \<and> b \<le> 57"

definition to_ascii_lowercase :: "u8 \<Rightarrow> u8" where
  "to_ascii_lowercase b = (if is_ascii_uppercase b then b + 32 else b)"

definition to_ascii_uppercase :: "u8 \<Rightarrow> u8" where
  "to_ascii_uppercase b = (if is_ascii_lowercase b then b - 32 else b)"

lemma lowercase_not_upper: "\<not> is_ascii_uppercase (to_ascii_lowercase b)"
  unfolding to_ascii_lowercase_def is_ascii_uppercase_def by (auto; unat_arith)

lemma lowercase_id [simp]: "\<not> is_ascii_uppercase b \<Longrightarrow> to_ascii_lowercase b = b"
  by (simp add: to_ascii_lowercase_def)

lemma lowercase_idem [simp]: "to_ascii_lowercase (to_ascii_lowercase b) = to_ascii_lowercase b"
  by (simp add: lowercase_not_upper)

lemma lowercase_uppercase: "to_ascii_lowercase (to_ascii_uppercase b) = to_ascii_lowercase b"
  unfolding to_ascii_lowercase_def to_ascii_uppercase_def is_ascii_uppercase_def is_ascii_lowercase_def
  by (auto; unat_arith)

lemma map_lowercase_id:
  "(\<And>b. b \<in> set bs \<Longrightarrow> \<not> is_ascii_uppercase b) \<Longrightarrow> map to_ascii_lowercase bs = bs"
  by (simp add: map_idI)

end
