(* ===== verification/Errors.thy ===== *)
theory Errors
  imports Prelude
begin

text \<open>
  \<^verbatim>\<open>src/src/error.rs\<close>: the resolver's error is a stable category and a message.  Every
  fallible function of the model returns \<open>error + 'a\<close>.  A message that the source builds with
  \<^verbatim>\<open>format!\<close> is represented by its literal format string.
\<close>

datatype error_kind =
    Wire | Truncated | Timeout | Io | Transport | Servfail | Refused | NoData | NxDomain
  | Dnssec | RateLimited | Policy | NoUpstream | Config | Canceled | Internal | Unsupported

record error =
  kind :: error_kind
  msg :: string

type_synonym 'a result = "error + 'a"

definition error_new :: "error_kind \<Rightarrow> string \<Rightarrow> error" where
  "error_new k m = \<lparr>kind = k, msg = m\<rparr>"

definition error_wire :: "string \<Rightarrow> error" where
  "error_wire m = error_new Wire m"

definition error_internal :: "string \<Rightarrow> error" where
  "error_internal m = error_new Internal m"

definition error_transport :: "string \<Rightarrow> error" where
  "error_transport m = error_new Transport m"

definition error_io :: "string \<Rightarrow> error" where
  "error_io m = error_new Io m"

definition error_config :: "string \<Rightarrow> error" where
  "error_config m = error_new Config m"

definition is_transient :: "error \<Rightarrow> bool" where
  "is_transient e \<longleftrightarrow> kind e \<in> {Timeout, Io, Transport, Servfail}"

lemmas error_ctors = error_new_def error_wire_def error_internal_def error_transport_def
  error_io_def error_config_def

lemma error_kind_simps [simp]:
  "kind (error_wire m) = Wire" "kind (error_internal m) = Internal" "kind (error_config m) = Config"
  by (simp_all add: error_ctors)

lemma error_ctor_eqs [simp]:
  "error_wire m = error_wire m' \<longleftrightarrow> m = m'" "error_internal m = error_internal m' \<longleftrightarrow> m = m'"
  "error_wire m \<noteq> error_internal m'" "error_internal m \<noteq> error_wire m'"
  by (simp_all add: error_ctors)

end
