(* ===== verification/Wire_Bytes.thy ===== *)
theory Wire_Bytes
  imports Errors
begin

text \<open>
  \<^verbatim>\<open>src/src/wire.rs\<close>: the bounds-checked reads every parser of the crate goes through.  Each
  read is a decision "are these bytes there?" whose negative answer is an error.  The theory
  states each reader as the code has it, what it computes as a function of the range
  (\<open>slice_at_spec\<close>), and the two laws of the interface \<open>wire_reader\<close>: a reader returns what an
  encoder wrote at that offset, and it succeeds only inside the message.
\<close>

section \<open>The readers\<close>

definition out_of_range :: error where
  "out_of_range = error_wire ''read past the end of the message''"

definition byte_at :: "bytes \<Rightarrow> usize \<Rightarrow> u8 result" where
  "byte_at buf at = ok_or out_of_range (get_at buf at)"

definition slice_at :: "bytes \<Rightarrow> usize \<Rightarrow> usize \<Rightarrow> bytes result" where
  "slice_at buf at len =
     rbind (ok_or out_of_range (checked_add at len)) (\<lambda>e.
     ok_or out_of_range (get_range buf at e))"

definition array_at :: "bytes \<Rightarrow> usize \<Rightarrow> usize \<Rightarrow> bytes result" where
  "array_at buf at n =
     rbind (slice_at buf at n) (\<lambda>bs.
     if length bs = n then Ok bs
     else Err (error_internal ''wire read returned the wrong length''))"

definition u16_at :: "bytes \<Rightarrow> usize \<Rightarrow> u16 result" where
  "u16_at buf at = rbind (array_at buf at 2) (\<lambda>bs. Ok (from_be_bytes bs))"

definition u32_at :: "bytes \<Rightarrow> usize \<Rightarrow> u32 result" where
  "u32_at buf at = rbind (array_at buf at 4) (\<lambda>bs. Ok (from_be_bytes bs))"

definition u24_at :: "bytes \<Rightarrow> usize \<Rightarrow> u32 result" where
  "u24_at buf at =
     rbind (array_at buf at 3) (\<lambda>b.
     Ok (push_bit 16 (ucast (b ! 0)) OR push_bit 8 (ucast (b ! 1)) OR ucast (b ! 2)))"

definition u48_at :: "bytes \<Rightarrow> usize \<Rightarrow> u64 result" where
  "u48_at buf at =
     rbind (array_at buf at 6) (\<lambda>b. Ok (foldl (\<lambda>v x. push_bit 8 v OR ucast x) 0 b))"

definition rest_at :: "bytes \<Rightarrow> usize \<Rightarrow> bytes result" where
  "rest_at buf at = ok_or out_of_range (get_from buf at)"

definition capped :: "bytes \<Rightarrow> usize \<Rightarrow> bytes" where
  "capped bs limit = (case get_to bs limit of Some s \<Rightarrow> s | None \<Rightarrow> bs)"

section \<open>What they compute\<close>

lemma capped_take: "capped bs limit = take limit bs"
  by (simp add: capped_def get_to_def)

lemma byte_at_eq_Ok [simp]: "byte_at buf p = Ok b \<longleftrightarrow> p < length buf \<and> b = buf ! p"
  by (auto simp: byte_at_def get_at_def)

lemma byte_at_nth: "p < length buf \<Longrightarrow> byte_at buf p = Ok (buf ! p)"
  by simp

lemma byte_at_Err: "length buf \<le> p \<Longrightarrow> byte_at buf p = Err out_of_range"
  by (simp add: byte_at_def get_at_def)

lemma slice_at_eq_Ok_D:
  "slice_at buf p n = Ok bs \<Longrightarrow> p + n \<le> length buf \<and> bs = take n (drop p buf) \<and> length bs = n"
  by (auto simp: slice_at_def get_range_def checked_add_def split: if_splits)

lemma slice_at_cases:
  assumes "rust_slice buf"
  shows "slice_at buf p n =
    (if p + n \<le> length buf then Ok (take n (drop p buf)) else Err out_of_range)"
  using assms by (auto simp: slice_at_def get_range_def checked_add_def usize_bound_def rust_slice_def)

lemma array_at_slice_at: "array_at buf p n = slice_at buf p n"
  by (cases "slice_at buf p n") (auto simp: array_at_def dest: slice_at_eq_Ok_D)

lemma rest_at_eq_Ok [simp]: "rest_at buf p = Ok bs \<longleftrightarrow> p \<le> length buf \<and> bs = drop p buf"
  by (auto simp: rest_at_def get_from_def)

lemma u16_at_bound: "u16_at buf p = Ok v \<Longrightarrow> p + 2 \<le> length buf"
  by (auto simp: u16_at_def array_at_slice_at dest: slice_at_eq_Ok_D)

lemma u32_at_bound: "u32_at buf p = Ok v \<Longrightarrow> p + 4 \<le> length buf"
  by (auto simp: u32_at_def array_at_slice_at dest: slice_at_eq_Ok_D)

lemma slice_at_occurs [wire_reads]:
  "occurs buf p bs \<Longrightarrow> n = length bs \<Longrightarrow> rust_slice buf \<Longrightarrow> slice_at buf p n = Ok bs"
  by (simp add: slice_at_cases occurs_def)

lemma array_at_occurs [wire_reads]:
  "occurs buf p bs \<Longrightarrow> n = length bs \<Longrightarrow> rust_slice buf \<Longrightarrow> array_at buf p n = Ok bs"
  by (simp add: array_at_slice_at slice_at_occurs)

lemma byte_at_occurs [wire_reads]: "occurs buf p [b] \<Longrightarrow> byte_at buf p = Ok b"
  by (simp add: occurs_Cons)

lemma u16_at_occurs [wire_reads]:
  "occurs buf p (to_be_bytes 2 v) \<Longrightarrow> rust_slice buf \<Longrightarrow> u16_at buf p = Ok v"
  by (simp add: u16_at_def array_at_occurs)

lemma u32_at_occurs [wire_reads]:
  "occurs buf p (to_be_bytes 4 v) \<Longrightarrow> rust_slice buf \<Longrightarrow> u32_at buf p = Ok v"
  by (simp add: u32_at_def array_at_occurs)

section \<open>The interface of a fixed-width field\<close>

locale wire_reader =
  fixes read :: "bytes \<Rightarrow> usize \<Rightarrow> 'a result"
    and encode :: "'a \<Rightarrow> bytes"
    and width :: nat
  assumes read_occurs: "occurs buf p (encode v) \<Longrightarrow> rust_slice buf \<Longrightarrow> read buf p = Ok v"
    and read_bound: "read buf p = Ok v \<Longrightarrow> p + width \<le> length buf"
    and read_short: "length buf < p + width \<Longrightarrow> rust_slice buf \<Longrightarrow> read buf p = Err out_of_range"
    and encode_width: "length (encode v) = width"
    and width_small: "width < 2 ^ 63"
begin

lemma read_written: "rust_slice (pre @ encode v @ post) \<Longrightarrow>
    read (pre @ encode v @ post) (length pre) = Ok v"
  by (rule read_occurs [OF occursI])

lemma encode_inj:
  assumes eq: "encode v = encode v'"
  shows "v = v'"
proof -
  have "rust_slice (encode v)"
    using encode_width width_small by (simp add: rust_slice_def)
  then have "read (encode v) 0 = Ok v" "read (encode v) 0 = Ok v'"
    using read_written [of "[]" v "[]"] read_written [of "[]" v' "[]"] eq by simp_all
  then show ?thesis by simp
qed

lemma read_in_range:
  assumes "rust_slice buf" and "\<And>bs. length bs = width \<Longrightarrow> \<exists>v. encode v = bs"
  shows "(\<exists>v. read buf p = Ok v) \<longleftrightarrow> p + width \<le> length buf"
proof
  assume le: "p + width \<le> length buf"
  obtain v where "encode v = take width (drop p buf)"
    using assms(2) [of "take width (drop p buf)"] le by auto
  with le have "occurs buf p (encode v)" by (simp add: occurs_def encode_width)
  then show "\<exists>v. read buf p = Ok v" using read_occurs assms(1) by blast
qed (auto dest: read_bound)

end

interpretation byte_reader: wire_reader byte_at "\<lambda>b. [b]" 1
  by unfold_locales (auto simp: wire_reads byte_at_Err)

interpretation u16_reader: wire_reader u16_at "to_be_bytes 2" 2
  by unfold_locales
    (auto simp: wire_reads u16_at_def array_at_slice_at slice_at_cases dest: slice_at_eq_Ok_D)

interpretation u32_reader: wire_reader u32_at "to_be_bytes 4" 4
  by unfold_locales
    (auto simp: wire_reads u32_at_def array_at_slice_at slice_at_cases dest: slice_at_eq_Ok_D)

end
