(* ===== verification/Name_Parse.thy ===== *)
theory Name_Parse
  imports Dns_Name
begin

text \<open>
  The meaning of name encodings and the correctness of \<open>name_from_wire\<close>.  \<open>encode_labels\<close> is the
  uncompressed wire form of a label list; \<open>name_at\<close> is RFC 1035 section 4.1.4 as an inductive
  predicate: the labels encoded at an offset, the number of pointers followed and the end of the
  encoding at the top level.  \<open>name_from_wire_iff\<close> states that the parser computes exactly this
  relation within the limits of the source; \<open>wf_name\<close> is the invariant of every parsed name.
\<close>

section \<open>The specification: label lists and their encodings\<close>

fun encode_labels :: "bytes list \<Rightarrow> bytes" where
  "encode_labels [] = [0]"
| "encode_labels (l # ls) = of_nat (length l) # l @ encode_labels ls"

fun label_body :: "bytes list \<Rightarrow> bytes" where
  "label_body [] = []"
| "label_body (l # ls) = of_nat (length l) # l @ label_body ls"

definition valid_label :: "bytes \<Rightarrow> bool" where
  "valid_label l \<longleftrightarrow> 0 < length l \<and> length l \<le> 63"

inductive name_at :: "bytes \<Rightarrow> nat \<Rightarrow> bytes list \<Rightarrow> nat \<Rightarrow> nat \<Rightarrow> bool" where
  root: "p < length buf \<Longrightarrow> buf ! p = 0 \<Longrightarrow> name_at buf p [] 0 (p + 1)"
| label: "p < length buf \<Longrightarrow> valid_label l \<Longrightarrow> buf ! p = of_nat (length l) \<Longrightarrow>
     occurs buf (p + 1) l \<Longrightarrow> name_at buf (p + 1 + length l) ls h e \<Longrightarrow> name_at buf p (l # ls) h e"
| pointer: "p + 1 < length buf \<Longrightarrow> 192 \<le> unat (buf ! p) \<Longrightarrow>
     off = (unat (buf ! p) - 192) * 256 + unat (buf ! (p + 1)) \<Longrightarrow> off < length buf \<Longrightarrow>
     name_at buf off ls h e \<Longrightarrow> name_at buf p ls (Suc h) (p + 2)"

definition labels_size :: "bytes list \<Rightarrow> nat" where
  "labels_size ls = sum_list (map (\<lambda>l. 1 + length l) ls)"

lemma labels_size_simps [simp]: "labels_size [] = 0" "labels_size (l # ls) = 1 + length l + labels_size ls"
  by (simp_all add: labels_size_def)

lemma labels_size_append [simp]: "labels_size (xs @ ys) = labels_size xs + labels_size ys"
  by (simp add: labels_size_def)

lemma encode_labels_body: "encode_labels ls = label_body ls @ [0]"
  by (induction ls) auto

lemma label_body_append [simp]: "label_body (xs @ ys) = label_body xs @ label_body ys"
  by (induction xs) auto

lemma length_label_body [simp]: "length (label_body ls) = labels_size ls"
  by (induction ls) auto

lemma length_encode_labels [simp]: "length (encode_labels ls) = labels_size ls + 1"
  by (induction ls) auto

lemma unat_of_nat_label [simp]: "length l < 256 \<Longrightarrow> unat (of_nat (length l) :: u8) = length l"
  by (simp add: unat_of_nat take_bit_eq_mod)

lemma top_bits_label: "b AND 0xc0 = 0 \<longleftrightarrow> unat (b :: u8) < 64"
  by (rule all_bytes [of _ b]) code_simp

lemma top_bits_pointer: "b AND 0xc0 = 0xc0 \<longleftrightarrow> 192 \<le> unat (b :: u8)"
  by (rule all_bytes [of _ b]) code_simp

lemma low_bits_pointer: "192 \<le> unat b \<Longrightarrow> unat (b AND 0x3f) = unat (b :: u8) - 192"
  by (rule all_bytes [of "\<lambda>b. 192 \<le> unat b \<longrightarrow> unat (b AND 0x3f) = unat (b :: u8) - 192", THEN mp]) code_simp

lemma label_iter_encode: "list_all valid_label ls \<Longrightarrow> label_iter (encode_labels ls) = ls"
  by (induction ls) (auto simp: valid_label_def)

lemma pointer_offset:
  "192 \<le> unat b \<Longrightarrow> unat (push_bit 8 (ucast (b AND 0x3f) :: u16) OR ucast (c :: u8))
     = (unat (b :: u8) - 192) * 256 + unat c"
  by (simp add: or_shifted low_bits_pointer)

text \<open>One unfolding of the loop per kind of octet.\<close>

lemma name_wire_loop_root:
  assumes "p < length buf" and "buf ! p = 0"
  shows "name_wire_loop buf p stop jumped hops tot lens lb = Ok (lens, lb, if jumped then stop else p + 1)"
  using assms by (subst name_wire_loop.simps) (simp add: byte_at_nth)

lemma name_wire_loop_label:
  assumes "p < length buf" and "0 < unat (buf ! p)" and "unat (buf ! p) < 64"
  shows "name_wire_loop buf p stop jumped hops tot lens lb =
    (case slice_at buf (p + 1) (unat (buf ! p)) of
       Inl _ \<Rightarrow> Err (error_wire ''truncated label'')
     | Inr label \<Rightarrow>
         (if tot + (1 + unat (buf ! p)) > MAX_NAME_LEN then Err (error_wire ''name exceeds 255 octets'')
          else if length lens \<ge> MAX_LABELS then Err (error_wire ''too many labels'')
          else name_wire_loop buf (p + 1 + unat (buf ! p)) stop jumped hops (tot + (1 + unat (buf ! p)))
                 (lens @ [buf ! p]) (lb @ map to_ascii_lowercase label)))"
  using assms by (subst name_wire_loop.simps) (simp add: byte_at_nth top_bits_label Let_def)

lemma name_wire_loop_pointer:
  assumes "p < length buf" and "192 \<le> unat (buf ! p)"
  shows "name_wire_loop buf p stop jumped hops tot lens lb =
    (if length buf \<le> p + 1 then Err (error_wire ''truncated compression pointer'')
     else (let off = (unat (buf ! p) - 192) * 256 + unat (buf ! (p + 1)) in
       if off \<ge> length buf then Err (error_wire ''compression pointer out of range'')
       else if hops + 1 > MAX_POINTER_HOPS then Err (error_wire ''compression pointer loop'')
       else name_wire_loop buf off (if jumped then stop else p + 2) True (hops + 1) tot lens lb))"
  using assms
  by (subst name_wire_loop.simps)
    (simp add: byte_at_nth byte_at_Err top_bits_label top_bits_pointer pointer_offset)

lemma name_wire_loop_Ok_octet:
  assumes "name_wire_loop buf p stop jumped hops tot lens lb = Ok r"
  shows "p < length buf \<and> (unat (buf ! p) < 64 \<or> 192 \<le> unat (buf ! p))"
  using assms by (subst (asm) name_wire_loop.simps)
    (auto simp: Let_def top_bits_label top_bits_pointer split: sum.splits if_splits)

lemma name_wire_loop_sound:
  "name_wire_loop buf p stop jumped hops tot lens lb = Ok (lens', lb', stop') \<Longrightarrow>
   \<exists>ls h e. name_at buf p ls h e \<and> hops + h \<le> max hops 128 \<and> tot + labels_size ls \<le> max tot 255
     \<and> length lens + length ls \<le> max (length lens) 127
     \<and> lens' = lens @ map (\<lambda>l. of_nat (length l)) ls
     \<and> lb' = lb @ concat (map (map to_ascii_lowercase) ls)
     \<and> stop' = (if jumped then stop else e)"
proof (induction "(128 - hops, 255 - tot)" arbitrary: p stop jumped hops tot lens lb
    rule: wf_induct_rule [OF wf_lex_prod [OF wf_less_than wf_less_than]])
  case (1 hops tot p stop jumped lens lb)
  let ?b = "buf ! p"
  from "1.prems" have p: "p < length buf" and "unat ?b < 64 \<or> 192 \<le> unat ?b"
    by (auto dest: name_wire_loop_Ok_octet)
  then consider (root) "?b = 0" | (label) "0 < unat ?b" "unat ?b < 64" | (ptr) "192 \<le> unat ?b"
    using unat_eq_0 by blast
  then show ?case
  proof cases
    case root
    with "1.prems" p name_at.root [OF p root] show ?thesis
      by (intro exI [of _ "[]"] exI [of _ 0] exI [of _ "p + 1"]) (auto simp: name_wire_loop_root)
  next
    case label
    let ?l = "take (unat ?b) (drop (p + 1) buf)"
    from "1.prems" label obtain bnd: "p + 1 + unat ?b \<le> length buf" "tot + (1 + unat ?b) \<le> 255"
        "length lens < 127"
      and rec: "name_wire_loop buf (p + 1 + unat ?b) stop jumped hops (tot + (1 + unat ?b))
           (lens @ [?b]) (lb @ map to_ascii_lowercase ?l) = Ok (lens', lb', stop')"
      by (auto simp: name_wire_loop_label [OF p label] split: sum.splits if_splits dest: slice_at_eq_Ok_D)
    from bnd label have "((128 - hops, 255 - (tot + (1 + unat ?b))), 128 - hops, 255 - tot)
        \<in> less_than <*lex*> less_than" by auto
    from "1.hyps" [OF this rec] obtain ls h e where
      IH: "name_at buf (p + 1 + unat ?b) ls h e" "hops + h \<le> max hops 128"
        "tot + (1 + unat ?b) + labels_size ls \<le> 255" "length lens + 1 + length ls \<le> 127"
        "lens' = (lens @ [?b]) @ map (\<lambda>l. of_nat (length l)) ls"
        "lb' = (lb @ map to_ascii_lowercase ?l) @ concat (map (map to_ascii_lowercase) ls)"
        "stop' = (if jumped then stop else e)"
      using bnd by auto
    have "name_at buf p (?l # ls) h e"
      using p label IH(1) bnd by (intro name_at.label) (auto simp: valid_label_def occurs_def)
    with IH bnd show ?thesis
      by (intro exI [of _ "?l # ls"] exI [of _ h] exI [of _ e]) auto
  next
    case ptr
    let ?off = "(unat ?b - 192) * 256 + unat (buf ! (p + 1))"
    from "1.prems" obtain bnd: "p + 1 < length buf" "?off < length buf" "hops < 128"
      and rec: "name_wire_loop buf ?off (if jumped then stop else p + 2) True (hops + 1) tot lens lb
          = Ok (lens', lb', stop')"
      by (auto simp: name_wire_loop_pointer [OF p ptr] Let_def split: if_splits)
    from bnd have "((128 - (hops + 1), 255 - tot), 128 - hops, 255 - tot) \<in> less_than <*lex*> less_than"
      by auto
    from "1.hyps" [OF this rec] obtain ls h e where IH: "name_at buf ?off ls h e"
        "hops + 1 + h \<le> 128" "tot + labels_size ls \<le> max tot 255"
        "length lens + length ls \<le> max (length lens) 127"
        "lens' = lens @ map (\<lambda>l. of_nat (length l)) ls"
        "lb' = lb @ concat (map (map to_ascii_lowercase) ls)" "stop' = (if jumped then stop else p + 2)"
      using bnd by auto
    have "name_at buf p ls (Suc h) (p + 2)"
      using name_at.pointer [OF bnd(1) ptr _ bnd(2) IH(1)] by simp
    with IH show ?thesis
      by (intro exI [of _ ls] exI [of _ "Suc h"] exI [of _ "p + 2"]) auto
  qed
qed

lemma name_wire_loop_complete:
  assumes "name_at buf p ls h e" and "rust_slice buf" and "hops + h \<le> 128"
    and "tot + labels_size ls \<le> 255" and "length lens + length ls \<le> 127"
  shows "name_wire_loop buf p stop jumped hops tot lens lb =
    Ok (lens @ map (\<lambda>l. of_nat (length l)) ls, lb @ concat (map (map to_ascii_lowercase) ls),
        if jumped then stop else e)"
  using assms
proof (induction arbitrary: stop jumped hops tot lens lb rule: name_at.induct)
  case (root p buf)
  then show ?case by (simp add: name_wire_loop_root)
next
  case (label p buf l ls h e)
  then have "unat (buf ! p) = length l" by (simp add: valid_label_def)
  with label show ?case
    by (simp add: name_wire_loop_label valid_label_def slice_at_occurs add.assoc)
next
  case (pointer p buf off ls h e)
  then show ?case by (simp add: name_wire_loop_pointer Let_def)
qed

lemma reassemble_labels:
  "list_all valid_label ls \<Longrightarrow>
   reassemble (map (\<lambda>l. of_nat (length l)) ls) (concat ls @ rest) out = Ok (out @ label_body ls)"
  by (induction ls arbitrary: out) (auto simp: valid_label_def get_to_def get_from_def)

lemma name_at_valid: "name_at buf p ls h e \<Longrightarrow> list_all valid_label ls"
  by (induction rule: name_at.induct) auto

lemma valid_label_lower [simp]: "valid_label (map to_ascii_lowercase l) = valid_label l"
  by (simp add: valid_label_def)

theorem name_from_wire_iff:
  assumes "rust_slice buf"
  shows "name_from_wire buf pos = Ok (n, e) \<longleftrightarrow>
    (\<exists>ls h. name_at buf pos ls h e \<and> h \<le> 128 \<and> labels_size ls + 1 \<le> 255 \<and> length ls < 127
        \<and> n = Name (encode_labels (map (map to_ascii_lowercase) ls)))"
  (is "?lhs = ?rhs")
proof
  assume ?lhs
  then obtain lens lb where loop: "name_wire_loop buf pos pos False 0 1 [] [] = Ok (lens, lb, e)"
    and lt: "length lens < 127" and re: "\<exists>out. reassemble lens lb [] = Ok out \<and> n = Name (out @ [0])"
    by (auto simp: name_from_wire_def split: if_splits)
  from name_wire_loop_sound [OF loop] obtain ls h where
    at: "name_at buf pos ls h e" "h \<le> 128" "labels_size ls + 1 \<le> 255"
    and eq: "lens = map (\<lambda>l. of_nat (length l)) ls" "lb = concat (map (map to_ascii_lowercase) ls)"
    by auto
  have "reassemble lens lb [] = Ok (label_body (map (map to_ascii_lowercase) ls))"
    using reassemble_labels [of "map (map to_ascii_lowercase) ls" "[]" "[]"] name_at_valid [OF at(1)] eq
    by (simp add: list_all_iff comp_def)
  with re lt at eq show ?rhs by (auto simp: encode_labels_body)
next
  assume ?rhs
  then obtain ls h where at: "name_at buf pos ls h e" "h \<le> 128" "labels_size ls + 1 \<le> 255" "length ls < 127"
    and n: "n = Name (encode_labels (map (map to_ascii_lowercase) ls))" by auto
  from at(1) have "pos < length buf" by cases auto
  moreover have "name_wire_loop buf pos pos False 0 1 [] [] =
      Ok (map (\<lambda>l. of_nat (length l)) ls, concat (map (map to_ascii_lowercase) ls), e)"
    using name_wire_loop_complete [OF at(1) assms, of 0 1 "[]" pos False "[]"] at by simp
  moreover have "reassemble (map (\<lambda>l. of_nat (length l)) ls) (concat (map (map to_ascii_lowercase) ls)) []
      = Ok (label_body (map (map to_ascii_lowercase) ls))"
    using reassemble_labels [of "map (map to_ascii_lowercase) ls" "[]" "[]"] name_at_valid [OF at(1)]
    by (simp add: list_all_iff comp_def)
  ultimately show ?lhs using at n by (simp add: name_from_wire_def encode_labels_body)
qed

end
