(* ===== verification/Name_Labels.thy ===== *)
theory Name_Labels
  imports Name_Parse
begin

text \<open>
  Names as label lists: the invariant \<open>wf_name\<close> of every name the parser produces, the
  uncompressed round trip, and what the accessors of \<^verbatim>\<open>Name\<close> (\<^verbatim>\<open>parent\<close>, \<^verbatim>\<open>apex\<close>,
  \<^verbatim>\<open>is_subdomain_of\<close>, \<^verbatim>\<open>common_suffix\<close>) compute on the label list.
\<close>

section \<open>The invariant of names\<close>

definition lower_label :: "bytes \<Rightarrow> bool" where
  "lower_label l \<longleftrightarrow> list_all (\<lambda>b. \<not> is_ascii_uppercase b) l"

definition wf_labels :: "bytes list \<Rightarrow> bool" where
  "wf_labels ls \<longleftrightarrow> list_all valid_label ls \<and> list_all lower_label ls
     \<and> labels_size ls + 1 \<le> MAX_NAME_LEN \<and> length ls < MAX_LABELS"

definition wf_name :: "name \<Rightarrow> bool" where
  "wf_name n \<longleftrightarrow> name_bytes n = encode_labels (name_labels n) \<and> wf_labels (name_labels n)"

lemma name_labels_encode [simp]: "list_all valid_label ls \<Longrightarrow> name_labels (Name (encode_labels ls)) = ls"
  by (simp add: name_labels_def label_iter_encode)

lemma wf_name_encode: "wf_labels ls \<Longrightarrow> wf_name (Name (encode_labels ls))"
  by (simp add: wf_name_def wf_labels_def)

lemma wf_nameE:
  assumes "wf_name n"
  obtains ls where "n = Name (encode_labels ls)" and "wf_labels ls" and "name_labels n = ls"
  using assms by (metis name.exhaust_sel wf_name_def)

lemma lower_label_lower [simp]: "lower_label (map to_ascii_lowercase l)"
  by (simp add: lower_label_def list_all_iff lowercase_not_upper)

lemma lower_label_id: "lower_label l \<Longrightarrow> map to_ascii_lowercase l = l"
  by (rule map_lowercase_id) (simp add: lower_label_def list_all_iff)

lemma lower_labels_id: "list_all lower_label ls \<Longrightarrow> map (map to_ascii_lowercase) ls = ls"
  by (induction ls) (auto simp: lower_label_id)

lemma labels_size_lower [simp]: "labels_size (map (map to_ascii_lowercase) ls) = labels_size ls"
  by (induction ls) auto

lemma name_from_wire_wf:
  assumes "rust_slice buf" and "name_from_wire buf p = Ok (n, e)"
  shows "wf_name n"
proof -
  from assms obtain ls h where "name_at buf p ls h e" "labels_size ls + 1 \<le> 255" "length ls < 127"
    and n: "n = Name (encode_labels (map (map to_ascii_lowercase) ls))"
    by (auto simp: name_from_wire_iff)
  then have "wf_labels (map (map to_ascii_lowercase) ls)"
    by (auto simp: wf_labels_def list_all_iff dest!: name_at_valid)
  with n show ?thesis by (simp add: wf_name_encode)
qed

lemma name_at_end: "name_at buf p ls h e \<Longrightarrow> p < e \<and> e \<le> length buf"
  by (induction rule: name_at.induct) auto

lemma name_at_encode:
  "occurs buf p (encode_labels ls) \<Longrightarrow> list_all valid_label ls \<Longrightarrow>
   name_at buf p ls 0 (p + labels_size ls + 1)"
proof (induction ls arbitrary: p)
  case Nil
  then show ?case using name_at.root [of p buf] by (simp add: occurs_Cons)
next
  case (Cons l ls)
  then have "name_at buf (p + 1 + length l) ls 0 (p + 1 + length l + labels_size ls + 1)"
    using Cons.IH [of "p + 1 + length l"] by (simp add: occurs_Cons)
  with Cons.prems show ?case
    using name_at.label [of p buf l ls 0] by (simp add: occurs_Cons add.assoc)
qed

lemma name_from_wire_occurs [wire_reads]:
  assumes "occurs buf p (name_bytes n)" and "wf_name n" and "rust_slice buf"
  shows "name_from_wire buf p = Ok (n, p + length (name_bytes n))"
proof -
  from assms(2) obtain ls where n: "n = Name (encode_labels ls)" and wf: "wf_labels ls"
    by (rule wf_nameE)
  then have "name_at buf p ls 0 (p + labels_size ls + 1)"
    using name_at_encode assms(1) by (simp add: wf_labels_def)
  with n wf show ?thesis
    unfolding name_from_wire_iff [OF assms(3)]
    by (intro exI [of _ ls] exI [of _ 0]) (auto simp: wf_labels_def lower_labels_id)
qed

section \<open>Accessors on label lists\<close>

lemma name_parent_Cons [simp]:
  "valid_label l \<Longrightarrow> name_parent (Name (encode_labels (l # ls))) = Some (Name (encode_labels ls))"
  by (simp add: name_parent_def get_at_def get_from_def valid_label_def)

lemma name_parent_root [simp]: "name_parent (Name [0]) = None"
  by (simp add: name_parent_def)

lemma name_is_root_encode [simp]: "name_is_root (Name (encode_labels ls)) \<longleftrightarrow> ls = []"
  by (cases ls) (auto simp: name_is_root_def get_at_def)

lemma push_labels_encode: "push_labels out ls @ [0] = out @ encode_labels ls"
  by (induction ls arbitrary: out) auto

lemma name_apex_labels:
  assumes "wf_name n"
  shows "name_labels (name_apex n) = drop (length (name_labels n) - 2) (name_labels n)"
proof -
  from assms obtain ls where n: "n = Name (encode_labels ls)" "wf_labels ls" "name_labels n = ls"
    by (rule wf_nameE)
  then have v: "list_all valid_label ls" "label_iter (encode_labels ls) = ls"
    by (auto simp: wf_labels_def label_iter_encode)
  moreover have "list_all valid_label (drop k ls)" for k
    using v by (auto simp: list_all_iff dest: in_set_dropD)
  ultimately show ?thesis
    using n by (simp add: name_apex_def name_label_count_def push_labels_encode Let_def)
qed

lemma ends_with_suffix: "ends_with xs ys \<longleftrightarrow> suffix ys xs"
  by (auto simp: ends_with_def suffix_def) (metis append_take_drop_id)

lemma encode_labels_append: "encode_labels (xs @ ys) = label_body xs @ encode_labels ys"
  by (simp add: encode_labels_body)

lemma suffix_encode_labels: "suffix ys xs \<Longrightarrow> suffix (encode_labels ys) (encode_labels xs)"
  by (auto simp: suffix_def encode_labels_append)

lemma subdomain_if_labels_nest:
  assumes "wf_name n" and "wf_name m" and "suffix (name_labels m) (name_labels n)"
  shows "is_subdomain_of n m"
  using assms unfolding is_subdomain_of_def ends_with_suffix wf_name_def
  by (metis suffix_encode_labels)

lemma encode_labels_inj:
  "list_all valid_label xs \<Longrightarrow> list_all valid_label ys \<Longrightarrow> encode_labels xs = encode_labels ys \<Longrightarrow> xs = ys"
  by (metis label_iter_encode)

text \<open>
  A byte suffix that starts with the length octet \<open>k\<close> of a label starts at a length octet of the
  longer name, if \<open>k\<close> is no octet inside its labels.
\<close>

lemma suffix_encode_labels_conv:
  assumes "suffix (encode_labels (y # ys)) (encode_labels xs)"
    and "list_all valid_label xs" and "list_all valid_label (y # ys)"
    and "\<forall>l \<in> set xs. of_nat (length y) \<notin> set l"
  shows "suffix (y # ys) xs"
  using assms
proof (induction xs)
  case Nil
  then show ?case by (auto simp: suffix_def Cons_eq_append_conv valid_label_def)
next
  case (Cons x xs)
  let ?k = "of_nat (length y) :: u8"
  from Cons.prems(1) obtain zs where zs: "of_nat (length x) # x @ encode_labels xs
      = zs @ ?k # y @ encode_labels ys" by (auto simp: suffix_def)
  show ?case
  proof (cases zs)
    case Nil
    with zs have "encode_labels (x # xs) = encode_labels (y # ys)" by simp
    from encode_labels_inj [OF Cons.prems(2,3) this] show ?thesis by simp
  next
    case (Cons z zs')
    with zs have "x @ encode_labels xs = zs' @ ?k # y @ encode_labels ys" by simp
    then consider us where "x = zs' @ us" "us @ encode_labels xs = ?k # y @ encode_labels ys"
      | us where "zs' = x @ us" "encode_labels xs = us @ ?k # y @ encode_labels ys"
      by (auto simp: append_eq_append_conv2)
    then have "suffix (encode_labels (y # ys)) (encode_labels xs)"
    proof cases
      case 1
      with Cons.prems(4) have "us = []" by (cases us) auto
      with 1 show ?thesis by (simp add: suffix_def)
    next
      case 2
      then show ?thesis by (auto simp: suffix_def)
    qed
    with Cons.IH Cons.prems show ?thesis by (auto intro: suffix_ConsI)
  qed
qed

theorem is_subdomain_of_iff:
  assumes "wf_name n" and "wf_name m"
    and "\<forall>k \<in> set (take 1 (name_labels m)). \<forall>l \<in> set (name_labels n). of_nat (length k) \<notin> set l"
  shows "is_subdomain_of n m \<longleftrightarrow> suffix (name_labels m) (name_labels n)"
proof
  assume sub: "is_subdomain_of n m"
  show "suffix (name_labels m) (name_labels n)"
  proof (cases "name_labels m")
    case (Cons y ys)
    with sub assms show ?thesis
      using suffix_encode_labels_conv [of y ys "name_labels n"]
      by (auto simp: is_subdomain_of_def ends_with_suffix wf_name_def wf_labels_def)
  qed simp
qed (use assms subdomain_if_labels_nest in blast)

lemma common_suffix_loop_lcp:
  "common_suffix_loop as bs (label_body cs) = label_body (rev (longest_common_prefix as bs) @ cs)"
proof (induction as bs arbitrary: cs rule: longest_common_prefix.induct)
  case (1 a as b bs)
  then show ?case using "1.IH" [of "b # cs"] by simp
qed auto

lemma common_suffix_labels:
  assumes "wf_name n" and "wf_name m"
  shows "name_labels (common_suffix n m)
    = rev (longest_common_prefix (rev (name_labels n)) (rev (name_labels m)))"
proof -
  let ?cs = "rev (longest_common_prefix (rev (name_labels n)) (rev (name_labels m)))"
  have "suffix ?cs (name_labels n)"
    using longest_common_prefix_prefix1 [of "rev (name_labels n)"] by (simp add: suffix_to_prefix)
  then have "list_all valid_label ?cs"
    using assms by (auto simp: wf_name_def wf_labels_def list_all_iff simp del: set_rev dest!: set_mono_suffix)
  then show ?thesis
    using common_suffix_loop_lcp [of _ _ "[]"] by (simp add: common_suffix_def flip: encode_labels_body)
qed

end
