(* ===== verification/Name_Compress.thy ===== *)
theory Name_Compress
  imports Name_Labels
begin

text \<open>
  \<^verbatim>\<open>NameCompressor\<close> of \<^verbatim>\<open>src/src/name.rs\<close>: the table of the offsets at which name suffixes were
  written and the writer that emits pointers to them.  The invariant \<open>comp_inv\<close> says that every
  entry of the table points at an encoding of its name in the bytes written so far, within the
  14 bits of a pointer and with no more pointer hops than the name has labels.
\<close>

section \<open>Definitions\<close>

definition MAX_POINTER_OFFSET :: usize where "MAX_POINTER_OFFSET = 0x3fff"

record name_compressor =
  offsets :: "name \<rightharpoonup> usize"

definition compressor_new :: name_compressor where
  "compressor_new = \<lparr>offsets = Map.empty\<rparr>"

lemma name_parent_shorter:
  "name_parent n = Some p \<Longrightarrow> length (name_bytes p) < length (name_bytes n)"
  by (auto simp: name_parent_def get_from_def get_at_def Let_def split: if_splits option.splits)

function suffixes_loop :: "usize \<Rightarrow> name \<Rightarrow> (name \<times> usize) list" where
  "suffixes_loop tot cur =
     (if name_is_root cur then []
      else (cur, tot - name_wire_len cur) #
        (case name_parent cur of Some p \<Rightarrow> suffixes_loop tot p | None \<Rightarrow> []))"
  by pat_completeness auto
termination
  by (relation "measure (\<lambda>(tot, cur). length (name_bytes cur))") (auto dest: name_parent_shorter)

declare suffixes_loop.simps [simp del]

fun find_hit :: "(name \<rightharpoonup> usize) \<Rightarrow> nat \<Rightarrow> (name \<times> usize) list \<Rightarrow> (nat \<times> name \<times> usize) option" where
  "find_hit offs i [] = None"
| "find_hit offs i ((suff, rel) # rest) =
     (case offs suff of Some off \<Rightarrow> Some (i, suff, off) | None \<Rightarrow> find_hit offs (i + 1) rest)"

definition compressor_record :: "usize \<Rightarrow> name_compressor \<Rightarrow> name \<times> usize \<Rightarrow> name_compressor" where
  "compressor_record base c s =
     (let abs = base + snd s in
      if abs \<le> MAX_POINTER_OFFSET then
        (case offsets c (fst s) of
           Some _ \<Rightarrow> c
         | None \<Rightarrow> c\<lparr>offsets := (offsets c)(fst s \<mapsto> abs)\<rparr>)
      else c)"

definition strip_suffix :: "bytes \<Rightarrow> bytes \<Rightarrow> bytes option" where
  "strip_suffix xs ys = (if ends_with xs ys then Some (take (length xs - length ys) xs) else None)"

definition compressor_write :: "name_compressor \<Rightarrow> name \<Rightarrow> bytes \<Rightarrow> name_compressor \<times> bytes" where
  "compressor_write c n out =
     (let suffixes = suffixes_loop (name_wire_len n) n;
          base = length out
      in case find_hit (offsets c) 0 suffixes of
        None \<Rightarrow> (foldl (compressor_record base) c suffixes, name_write_wire n out)
      | Some (i, suff, off) \<Rightarrow>
          (foldl (compressor_record base) c (take i suffixes),
           case strip_suffix (name_bytes n) (name_bytes suff) of
             Some pre \<Rightarrow> out @ pre @ [0xc0 OR of_nat (drop_bit 8 off), of_nat (off AND 0xff)]
           | None \<Rightarrow> name_write_wire n out))"

section \<open>Suffixes of a name\<close>

lemma suffixes_loop_encode:
  "list_all valid_label ls \<Longrightarrow>
   suffixes_loop tot (Name (encode_labels ls)) =
     map (\<lambda>k. (Name (encode_labels (drop k ls)), tot - (labels_size (drop k ls) + 1))) [0..<length ls]"
proof (induction ls)
  case Nil
  show ?case by (subst suffixes_loop.simps) (simp add: name_is_root_def get_at_def)
next
  case (Cons l ls)
  have "suffixes_loop tot (Name (encode_labels (l # ls))) =
      (Name (encode_labels (l # ls)), tot - (labels_size (l # ls) + 1)) # suffixes_loop tot (Name (encode_labels ls))"
    using Cons.prems name_is_root_encode [of "l # ls"] name_parent_Cons [of l ls]
    by (subst suffixes_loop.simps) (simp add: name_wire_len_def del: encode_labels.simps)
  also have "\<dots> = map (\<lambda>k. (Name (encode_labels (drop k (l # ls))), tot - (labels_size (drop k (l # ls)) + 1)))
      (0 # map Suc [0..<length ls])"
    using Cons by (simp add: comp_def del: encode_labels.simps)
  finally show ?case by (simp add: upt_conv_Cons map_Suc_upt del: upt_Suc)
qed

definition name_suffixes :: "bytes list \<Rightarrow> (name \<times> usize) list" where
  "name_suffixes ls = map (\<lambda>k. (Name (encode_labels (drop k ls)), labels_size (take k ls))) [0..<length ls]"

lemma labels_size_take: "labels_size (take k ls) = labels_size ls - labels_size (drop k ls)"
  by (metis append_take_drop_id diff_add_inverse2 labels_size_append)

lemma suffixes_of_name:
  "list_all valid_label ls \<Longrightarrow>
   suffixes_loop (name_wire_len (Name (encode_labels ls))) (Name (encode_labels ls)) = name_suffixes ls"
  by (simp add: suffixes_loop_encode name_suffixes_def name_wire_len_def labels_size_take)

lemma find_hit_Some:
  "find_hit offs i xs = Some (j, s, off) \<Longrightarrow>
   i \<le> j \<and> j - i < length xs \<and> fst (xs ! (j - i)) = s \<and> offs s = Some off"
proof (induction offs i xs rule: find_hit.induct)
  case (2 offs i suff rel rest)
  show ?case
  proof (cases "offs suff")
    case None
    with 2 have "i + 1 \<le> j \<and> j - (i + 1) < length rest \<and> fst (rest ! (j - (i + 1))) = s \<and> offs s = Some off"
      by simp
    then show ?thesis by (auto simp: nth_Cons' )
  next
    case (Some a)
    with 2 show ?thesis by auto
  qed
qed simp

lemma foldl_record:
  "offsets (foldl (compressor_record base) c xs) n = Some off \<Longrightarrow>
   offsets c n = Some off \<or> (\<exists>rel. (n, rel) \<in> set xs \<and> off = base + rel \<and> off \<le> MAX_POINTER_OFFSET)"
proof (induction xs arbitrary: c)
  case (Cons x xs)
  have "offsets (compressor_record base c x) n = Some off \<Longrightarrow>
      offsets c n = Some off \<or> (n = fst x \<and> off = base + snd x \<and> off \<le> MAX_POINTER_OFFSET)"
    by (auto simp: compressor_record_def Let_def split: if_splits option.splits)
  with Cons show ?case by (cases x) fastforce
qed simp

section \<open>The invariant\<close>

lemma name_at_mono: "name_at buf p ls h e \<Longrightarrow> name_at (buf @ ext) p ls h e"
proof (induction rule: name_at.induct)
  case (root p buf)
  then show ?case using name_at.root [of p "buf @ ext"] by (simp add: nth_append)
next
  case (label p buf l ls h e)
  then show ?case using name_at.label [of p "buf @ ext" l ls h e] by (simp add: nth_append occurs_mono)
next
  case (pointer p buf off ls h e)
  then show ?case using name_at.pointer [of p "buf @ ext" off ls h e] by (simp add: nth_append)
qed

lemma name_at_prefix:
  "occurs buf p (label_body ps) \<Longrightarrow> list_all valid_label ps \<Longrightarrow>
   name_at buf (p + labels_size ps) ss h e \<Longrightarrow> name_at buf p (ps @ ss) h e"
proof (induction ps arbitrary: p)
  case (Cons l ps)
  then have "name_at buf (p + 1 + length l) (ps @ ss) h e"
    using Cons.IH [of "p + 1 + length l"] by (simp add: occurs_Cons add.assoc)
  with Cons.prems show ?case using name_at.label [of p buf l "ps @ ss"] by (simp add: occurs_Cons)
qed simp

lemma pointer_high: "unat x < 64 \<longrightarrow> unat (0xc0 OR x) = 192 + unat (x :: u8)"
  by (rule all_bytes [of _ x]) code_simp

lemma name_at_pointer:
  assumes "occurs buf p [0xc0 OR of_nat (drop_bit 8 off), of_nat (off AND 0xff)]"
    and "off \<le> MAX_POINTER_OFFSET" and "name_at buf off ss h e"
  shows "name_at buf p ss (Suc h) (p + 2)"
proof -
  from assms(2) have "off div 256 < 64" by (simp add: MAX_POINTER_OFFSET_def)
  then have hi: "unat (0xc0 OR of_nat (drop_bit 8 off) :: u8) = 192 + off div 256"
    using pointer_high [of "of_nat (drop_bit 8 off)"]
    by (simp add: drop_bit_eq_div unat_of_nat take_bit_eq_mod)
  have "off AND 0xff = take_bit 8 off" by (simp add: take_bit_eq_mask mask_eq_exp_minus_1)
  then have lo: "unat (of_nat (off AND 0xff) :: u8) = off mod 256"
    by (simp add: unat_of_nat take_bit_eq_mod)
  from assms(3) have "off < length buf" by (auto dest: name_at_end elim: name_at.cases)
  moreover from assms(1) have "p + 1 < length buf" "unat (buf ! p) = 192 + off div 256"
      "unat (buf ! (p + 1)) = off mod 256"
    using hi lo by (simp_all add: occurs_Cons)
  ultimately show ?thesis using assms(3) by (intro name_at.pointer [of p buf off ss h e]) simp_all
qed

definition comp_inv :: "name_compressor \<Rightarrow> bytes \<Rightarrow> bool" where
  "comp_inv c out \<longleftrightarrow> (\<forall>n off. offsets c n = Some off \<longrightarrow>
     off \<le> MAX_POINTER_OFFSET \<and>
     (\<exists>ls h e. name_at out off ls h e \<and> n = Name (encode_labels ls) \<and> h \<le> length ls))"

lemma comp_inv_new [simp]: "comp_inv compressor_new out"
  by (simp add: comp_inv_def compressor_new_def)

lemma comp_inv_mono: "comp_inv c out \<Longrightarrow> comp_inv c (out @ ext)"
  unfolding comp_inv_def using name_at_mono by blast

lemma name_at_suffixes:
  assumes "occurs buf base (label_body (take i ls))" and "list_all valid_label ls"
    and "name_at buf (base + labels_size (take i ls)) (drop i ls) h e" and "k \<le> i"
  shows "name_at buf (base + labels_size (take k ls)) (drop k ls) h e"
proof -
  have "take k (take i ls) = take k ls" using assms(4) by (simp add: min_absorb1)
  then have t: "take i ls = take k ls @ drop k (take i ls)"
    using append_take_drop_id [of k "take i ls"] by simp
  have "drop k (take i ls @ drop i ls) = drop k (take i ls) @ drop i ls"
    using assms(4) by (cases "i \<le> length ls") (simp_all only: drop_append length_take min_absorb2, simp_all)
  then have d: "drop k ls = drop k (take i ls) @ drop i ls" by simp
  have "occurs buf (base + labels_size (take k ls)) (label_body (drop k (take i ls)))"
    using assms(1) by (subst (asm) t) simp
  moreover have "name_at buf (base + labels_size (take k ls) + labels_size (drop k (take i ls))) (drop i ls) h e"
    using assms(3) by (subst (asm) t) (simp add: add.assoc)
  moreover have "list_all valid_label (drop k (take i ls))"
    using assms(2) by (auto simp: list_all_iff dest: in_set_dropD in_set_takeD)
  ultimately show ?thesis unfolding d by (intro name_at_prefix)
qed

lemma comp_inv_recorded:
  assumes "comp_inv c out"
    and "\<And>k. k < i \<Longrightarrow> k < length ls \<Longrightarrow>
      \<exists>h e. name_at (out @ bs) (length out + labels_size (take k ls)) (drop k ls) h e \<and> h \<le> length (drop k ls)"
  shows "comp_inv (foldl (compressor_record (length out)) c (take i (name_suffixes ls))) (out @ bs)"
  unfolding comp_inv_def
proof (intro allI impI)
  fix n off
  assume "offsets (foldl (compressor_record (length out)) c (take i (name_suffixes ls))) n = Some off"
  then consider "offsets c n = Some off"
    | rel where "(n, rel) \<in> set (take i (name_suffixes ls))" "off = length out + rel" "off \<le> MAX_POINTER_OFFSET"
    using foldl_record by blast
  then show "off \<le> MAX_POINTER_OFFSET \<and>
      (\<exists>ls h e. name_at (out @ bs) off ls h e \<and> n = Name (encode_labels ls) \<and> h \<le> length ls)"
  proof cases
    case 1
    with comp_inv_mono [OF assms(1)] show ?thesis unfolding comp_inv_def by blast
  next
    case 2
    then obtain k where "k < i" "k < length ls" "n = Name (encode_labels (drop k ls))"
        "rel = labels_size (take k ls)"
      by (fastforce simp: name_suffixes_def in_set_conv_nth)
    with 2 assms(2) [of k] show ?thesis by blast
  qed
qed

lemma strip_suffix_encode:
  "strip_suffix (encode_labels ls) (encode_labels (drop i ls)) = Some (label_body (take i ls))"
proof -
  have "encode_labels ls = label_body (take i ls) @ encode_labels (drop i ls)"
    using encode_labels_append [of "take i ls" "drop i ls"] by simp
  then show ?thesis by (simp add: strip_suffix_def ends_with_def labels_size_take)
qed

text \<open>
  The writer's contract: it only appends, what it appended denotes the name, and the table stays
  right.
\<close>

lemma compressor_write_correct:
  assumes "comp_inv c out" and v: "list_all valid_label ls"
    and w: "compressor_write c (Name (encode_labels ls)) out = (c', out')"
  shows "\<exists>bs h. out' = out @ bs \<and> name_at out' (length out) ls h (length out') \<and> h \<le> length ls + 1 \<and> comp_inv c' out'"
proof (cases "find_hit (offsets c) 0 (name_suffixes ls)")
  case None
  let ?buf = "out @ encode_labels ls"
  from None w v have c': "out' = ?buf"
      "c' = foldl (compressor_record (length out)) c (take (length ls) (name_suffixes ls))"
    by (auto simp: compressor_write_def suffixes_of_name name_write_wire_def name_suffixes_def)
  have occ: "occurs ?buf (length out) (label_body (take (length ls) ls))"
    by (simp add: encode_labels_body occurs_def)
  have "name_at ?buf (length out + labels_size (take (length ls) ls)) (drop (length ls) ls) 0 (length ?buf)"
    using name_at.root [of "length out + labels_size ls" ?buf] by (simp add: encode_labels_body nth_append)
  then have at: "name_at ?buf (length out + labels_size (take k ls)) (drop k ls) 0 (length ?buf)"
    if "k \<le> length ls" for k using name_at_suffixes [OF occ v] that by blast
  then have "comp_inv c' ?buf" unfolding c' by (intro comp_inv_recorded assms(1)) (meson le0 less_imp_le)
  with c' at [of 0] show ?thesis by auto
next
  case (Some r)
  obtain i s off where r: "r = (i, s, off)" by (cases r)
  with find_hit_Some [of "offsets c" 0 "name_suffixes ls" i s off] Some
  have i: "i < length ls" and s: "s = Name (encode_labels (drop i ls))" and off: "offsets c s = Some off"
    by (auto simp: name_suffixes_def)
  let ?ptr = "[0xc0 OR of_nat (drop_bit 8 off), of_nat (off AND 0xff)] :: bytes"
  let ?buf = "out @ label_body (take i ls) @ ?ptr"
  from Some r s w v have c': "out' = ?buf" "c' = foldl (compressor_record (length out)) c (take i (name_suffixes ls))"
    by (auto simp: compressor_write_def suffixes_of_name strip_suffix_encode)
  from assms(1) off obtain ls' h e where off14: "off \<le> MAX_POINTER_OFFSET" and "name_at out off ls' h e"
      "s = Name (encode_labels ls')" and h: "h \<le> length ls'"
    unfolding comp_inv_def by blast
  moreover from this v s have "ls' = drop i ls"
    by (intro encode_labels_inj) (auto simp: list_all_iff dest: in_set_dropD dest!: name_at_valid)
  ultimately have tl: "name_at ?buf off (drop i ls) h e" "h \<le> length (drop i ls)"
    using name_at_mono by auto
  have "occurs ?buf (length out + labels_size (take i ls)) ?ptr" by (simp add: occurs_def)
  with tl(1) off14 have p: "name_at ?buf (length out + labels_size (take i ls)) (drop i ls) (Suc h)
      (length out + labels_size (take i ls) + 2)" by (intro name_at_pointer)
  have occ: "occurs ?buf (length out) (label_body (take i ls))" by (rule occursI)
  have at: "name_at ?buf (length out + labels_size (take k ls)) (drop k ls) (Suc h) (length ?buf)" if "k \<le> i" for k
    using name_at_suffixes [OF occ v p that] by simp
  have "comp_inv c' ?buf" unfolding c'
  proof (rule comp_inv_recorded [OF assms(1)])
    fix k
    assume "k < i"
    with at [of k] tl(2) i show "\<exists>h e. name_at ?buf (length out + labels_size (take k ls)) (drop k ls) h e
        \<and> h \<le> length (drop k ls)"
      by (intro exI [of _ "Suc h"] exI [of _ "length ?buf"]) auto
  qed
  with c' at [of 0] tl(2) show ?thesis by auto
qed

lemma compressor_write_roundtrip:
  assumes "comp_inv c out" and "wf_name n" and "compressor_write c n out = (c', out')"
    and "rust_slice (out' @ rest)"
  shows "name_from_wire (out' @ rest) (length out) = Ok (n, length out')"
proof -
  from assms(2) obtain ls where n: "n = Name (encode_labels ls)" and wf: "wf_labels ls" by (rule wf_nameE)
  with compressor_write_correct [OF assms(1), of ls c' out'] assms(3) obtain h where
    "name_at out' (length out) ls h (length out')" "h \<le> length ls + 1"
    by (auto simp: wf_labels_def)
  with n wf show ?thesis
    unfolding name_from_wire_iff [OF assms(4)]
    by (intro exI [of _ ls] exI [of _ h]) (auto simp: wf_labels_def lower_labels_id intro: name_at_mono)
qed

lemma compressor_write_inv:
  assumes "comp_inv c out" and "wf_name n" and "compressor_write c n out = (c', out')"
  shows "comp_inv c' out'"
  using assms compressor_write_correct by (metis wf_labels_def wf_nameE)

text \<open>The bytes and the new table depend on the length of the buffer only, not on its contents.\<close>

lemma compressor_write_shape:
  "\<exists>c' bs. \<forall>out. length out = k \<longrightarrow> compressor_write c n out = (c', out @ bs)"
proof (cases "find_hit (offsets c) 0 (suffixes_loop (name_wire_len n) n)")
  case None
  then show ?thesis by (auto simp: compressor_write_def Let_def name_write_wire_def)
next
  case (Some r)
  then show ?thesis
    by (cases r; cases "strip_suffix (name_bytes n) (name_bytes (fst (snd r)))")
      (auto simp: compressor_write_def Let_def name_write_wire_def)
qed

lemma compressor_write_root: "compressor_write c name_root out = (c, out @ [0])"
proof -
  have "suffixes_loop t (Name [0]) = []" for t
    by (subst suffixes_loop.simps) (simp add: name_is_root_def get_at_def)
  then show ?thesis by (simp add: compressor_write_def name_root_def name_write_wire_def)
qed

end
