(* ===== verification/Qtype.thy ===== *)
theory Qtype
  imports Wire_Bytes
begin

text \<open>
  \<^verbatim>\<open>src/src/qtype.rs\<close>: the wire constants.  Record types, classes, opcodes, response codes and
  DNSSEC numbers are newtypes over their wire integer, as in the source, so unknown values are
  carried unchanged.
\<close>

section \<open>Record types\<close>

datatype rr_type = RrType (rr_type_to_u16: u16)

definition RrType_A :: rr_type where "RrType_A = RrType 1"
definition RrType_NS :: rr_type where "RrType_NS = RrType 2"
definition RrType_CNAME :: rr_type where "RrType_CNAME = RrType 5"
definition RrType_SOA :: rr_type where "RrType_SOA = RrType 6"
definition RrType_PTR :: rr_type where "RrType_PTR = RrType 12"
definition RrType_MX :: rr_type where "RrType_MX = RrType 15"
definition RrType_TXT :: rr_type where "RrType_TXT = RrType 16"
definition RrType_SIG :: rr_type where "RrType_SIG = RrType 24"
definition RrType_AAAA :: rr_type where "RrType_AAAA = RrType 28"
definition RrType_SRV :: rr_type where "RrType_SRV = RrType 33"
definition RrType_NAPTR :: rr_type where "RrType_NAPTR = RrType 35"
definition RrType_DNAME :: rr_type where "RrType_DNAME = RrType 39"
definition RrType_OPT :: rr_type where "RrType_OPT = RrType 41"
definition RrType_DS :: rr_type where "RrType_DS = RrType 43"
definition RrType_RRSIG :: rr_type where "RrType_RRSIG = RrType 46"
definition RrType_NSEC :: rr_type where "RrType_NSEC = RrType 47"
definition RrType_DNSKEY :: rr_type where "RrType_DNSKEY = RrType 48"
definition RrType_NSEC3 :: rr_type where "RrType_NSEC3 = RrType 50"
definition RrType_NSEC3PARAM :: rr_type where "RrType_NSEC3PARAM = RrType 51"
definition RrType_TLSA :: rr_type where "RrType_TLSA = RrType 52"
definition RrType_SMIMEA :: rr_type where "RrType_SMIMEA = RrType 53"
definition RrType_CDS :: rr_type where "RrType_CDS = RrType 59"
definition RrType_CDNSKEY :: rr_type where "RrType_CDNSKEY = RrType 60"
definition RrType_SVCB :: rr_type where "RrType_SVCB = RrType 64"
definition RrType_HTTPS :: rr_type where "RrType_HTTPS = RrType 65"
definition RrType_CAA :: rr_type where "RrType_CAA = RrType 257"

lemmas rr_type_consts = RrType_A_def RrType_NS_def RrType_CNAME_def RrType_SOA_def RrType_PTR_def RrType_MX_def RrType_TXT_def RrType_SIG_def RrType_AAAA_def RrType_SRV_def RrType_NAPTR_def RrType_DNAME_def RrType_OPT_def RrType_DS_def RrType_RRSIG_def RrType_NSEC_def RrType_DNSKEY_def RrType_NSEC3_def RrType_NSEC3PARAM_def RrType_TLSA_def RrType_SMIMEA_def RrType_CDS_def RrType_CDNSKEY_def RrType_SVCB_def RrType_HTTPS_def RrType_CAA_def

text \<open>\<^verbatim>\<open>#[derive(PartialOrd, Ord)]\<close>: the order of the wire values.\<close>

instantiation rr_type :: linorder
begin

definition less_eq_rr_type :: "rr_type \<Rightarrow> rr_type \<Rightarrow> bool" where
  "less_eq_rr_type a b \<longleftrightarrow> rr_type_to_u16 a \<le> rr_type_to_u16 b"

definition less_rr_type :: "rr_type \<Rightarrow> rr_type \<Rightarrow> bool" where
  "less_rr_type a b \<longleftrightarrow> rr_type_to_u16 a < rr_type_to_u16 b"

instance
  by standard (auto simp: less_eq_rr_type_def less_rr_type_def rr_type.expand)

end

definition rr_type_is_known :: "rr_type \<Rightarrow> bool" where
  "rr_type_is_known t \<longleftrightarrow>
     (let v = rr_type_to_u16 t in
      1 \<le> v \<and> v \<le> 65 \<or> 99 \<le> v \<and> v \<le> 109 \<or> 249 \<le> v \<and> v \<le> 260 \<or> 32768 \<le> v \<and> v \<le> 32769)"

definition is_rrset_type :: "rr_type \<Rightarrow> bool" where
  "is_rrset_type t \<longleftrightarrow> rr_type_to_u16 t \<notin> {41, 250, 249, 251, 252, 255}"

definition permits_compression :: "rr_type \<Rightarrow> bool" where
  "permits_compression t \<longleftrightarrow> rr_type_to_u16 t \<in> {2, 5, 6, 12, 15, 39}"

definition rr_type_names :: "(u16 \<times> string) list" where
  "rr_type_names =
   [
    (1, ''A''), (2, ''NS''), (3, ''MD''), (4, ''MF''), (5, ''CNAME''), (6, ''SOA''), (7, ''MB''),
    (8, ''MG''), (9, ''MR''), (10, ''NULL''), (11, ''WKS''), (12, ''PTR''), (13, ''HINFO''),
    (14, ''MINFO''), (15, ''MX''), (16, ''TXT''), (17, ''RP''), (18, ''AFSDB''), (24, ''SIG''),
    (25, ''KEY''), (28, ''AAAA''), (29, ''LOC''), (33, ''SRV''), (35, ''NAPTR''), (36, ''KX''),
    (37, ''CERT''), (39, ''DNAME''), (41, ''OPT''), (42, ''APL''), (43, ''DS''), (44, ''SSHFP''),
    (45, ''IPSECKEY''), (46, ''RRSIG''), (47, ''NSEC''), (48, ''DNSKEY''), (49, ''DHCID''),
    (50, ''NSEC3''), (51, ''NSEC3PARAM''), (52, ''TLSA''), (53, ''SMIMEA''), (55, ''HIP''),
    (59, ''CDS''), (60, ''CDNSKEY''), (61, ''OPENPGPKEY''), (62, ''CSYNC''), (63, ''ZONEMD''),
    (64, ''SVCB''), (65, ''HTTPS''), (99, ''SPF''), (249, ''TKEY''), (250, ''TSIG''),
    (251, ''IXFR''), (252, ''AXFR''), (255, ''ANY''), (256, ''URI''), (257, ''CAA''),
    (32768, ''TA''), (32769, ''DLV'')]"

definition rr_type_as_str :: "rr_type \<Rightarrow> string" where
  "rr_type_as_str t = (case map_of rr_type_names (rr_type_to_u16 t) of Some s \<Rightarrow> s | None \<Rightarrow> ''TYPE'')"

fun decimal :: "nat \<Rightarrow> string" where
  "decimal n = (if n < 10 then [char_of (48 + n)] else decimal (n div 10) @ [char_of (48 + n mod 10)])"

declare decimal.simps [simp del]

definition rr_type_display :: "rr_type \<Rightarrow> string" where
  "rr_type_display t =
     (if rr_type_to_u16 t \<le> 32769 \<and> \<not> rr_type_is_known t \<and> rr_type_as_str t = ''TYPE''
      then ''TYPE'' @ decimal (unat (rr_type_to_u16 t))
      else rr_type_as_str t)"

section \<open>Classes, opcodes, response codes\<close>

datatype rr_class = RrClass (rr_class_to_u16: u16)

definition RrClass_IN :: rr_class where "RrClass_IN = RrClass 1"

definition rr_class_display :: "rr_class \<Rightarrow> string" where
  "rr_class_display c =
     (let v = rr_class_to_u16 c in
      if v = 1 then ''IN'' else if v = 2 then ''CS'' else if v = 3 then ''CH'' else if v = 4 then ''HS''
      else if v = 254 then ''NONE'' else if v = 255 then ''ANY''
      else ''CLASS'' @ decimal (unat v))"

datatype opcode = Opcode (opcode_to_u8: u8)

definition Opcode_QUERY :: opcode where "Opcode_QUERY = Opcode 0"

definition opcode_from :: "u8 \<Rightarrow> opcode" where
  "opcode_from v = Opcode (v AND 0x0f)"

definition opcode_display :: "opcode \<Rightarrow> string" where
  "opcode_display c =
     (let v = opcode_to_u8 c in
      if v = 0 then ''QUERY'' else if v = 1 then ''IQUERY'' else if v = 2 then ''STATUS''
      else if v = 4 then ''NOTIFY'' else if v = 5 then ''UPDATE''
      else ''OPCODE'' @ decimal (unat v))"

datatype rcode = Rcode (rcode_to_u8: u8)

definition Rcode_NOERROR :: rcode where "Rcode_NOERROR = Rcode 0"
definition Rcode_SERVFAIL :: rcode where "Rcode_SERVFAIL = Rcode 2"
definition Rcode_NXDOMAIN :: rcode where "Rcode_NXDOMAIN = Rcode 3"

definition is_nxdomain :: "rcode \<Rightarrow> bool" where
  "is_nxdomain r \<longleftrightarrow> rcode_to_u8 r = 3"

definition is_noerror :: "rcode \<Rightarrow> bool" where
  "is_noerror r \<longleftrightarrow> rcode_to_u8 r = 0"

definition is_failure :: "rcode \<Rightarrow> bool" where
  "is_failure r \<longleftrightarrow> rcode_to_u8 r \<in> {1, 2, 4, 5, 9, 10}"

definition rcode_names :: "(u8 \<times> string) list" where
  "rcode_names =
   [(0, ''NOERROR''), (1, ''FORMERR''), (2, ''SERVFAIL''), (3, ''NXDOMAIN''), (4, ''NOTIMP''),
    (5, ''REFUSED''), (6, ''YXDOMAIN''), (7, ''YXRRSET''), (8, ''NXRRSET''), (9, ''NOTAUTH''), (10, ''NOTZONE'')]"

definition rcode_display :: "rcode \<Rightarrow> string" where
  "rcode_display r =
     (case map_of rcode_names (rcode_to_u8 r) of Some s \<Rightarrow> s | None \<Rightarrow> ''RCODE'' @ decimal (unat (rcode_to_u8 r)))"

section \<open>DNSSEC numbers\<close>

datatype dnssec_algorithm = DnssecAlgorithm (dnssec_algorithm_to_u8: u8)

definition algorithm_supported :: "dnssec_algorithm \<Rightarrow> bool" where
  "algorithm_supported a \<longleftrightarrow> dnssec_algorithm_to_u8 a = 8"

definition algorithm_names :: "(u8 \<times> string) list" where
  "algorithm_names =
   [
    (1, ''RSAMD5''), (2, ''DH''), (3, ''DSA''), (4, ''ECC''), (5, ''RSASHA1''),
    (6, ''DSA-NSEC3-SHA1''), (7, ''RSASHA1-NSEC3-SHA1''), (8, ''RSASHA256''),
    (10, ''RSASHA512''), (12, ''ECC-GOST''), (13, ''ECDSA-P256-SHA256''),
    (14, ''ECDSA-P384-SHA384''), (15, ''ED25519''), (16, ''ED448''), (252, ''INDIRECT''),
    (253, ''PRIVATE-DNS''), (254, ''PRIVATE-OID'')]"

definition algorithm_as_str :: "dnssec_algorithm \<Rightarrow> string" where
  "algorithm_as_str a =
     (case map_of algorithm_names (dnssec_algorithm_to_u8 a) of Some s \<Rightarrow> s | None \<Rightarrow> ''UNKNOWN'')"

datatype ds_digest_type = DsDigestType (ds_digest_type_to_u8: u8)

end
