(* ===== verification/Type_Bitmap.thy ===== *)
theory Type_Bitmap
  imports Qtype
begin

text \<open>
  The NSEC/NSEC3 type bitmap of \<^verbatim>\<open>src/src/rdata.rs\<close> (RFC 4034 section 4.1.2): the parser
  \<^verbatim>\<open>parse_type_bitmap\<close> and the serializer \<^verbatim>\<open>write_type_bitmap\<close>.  Parsing what the serializer
  wrote gives the types in increasing order, each once.
\<close>

section \<open>Definitions\<close>

definition window_types :: "u8 \<Rightarrow> bytes \<Rightarrow> rr_type list" where
  "window_types window bs =
     concat (map (\<lambda>(i, b).
       map (\<lambda>bit. RrType (ucast window * 256 + of_nat i * 8 + of_nat bit))
         (filter (\<lambda>bit. b AND drop_bit bit 0x80 \<noteq> 0) [0..<8])) (enumerate 0 bs))"

function parse_type_bitmap_loop :: "bytes \<Rightarrow> usize \<Rightarrow> usize \<Rightarrow> rr_type list \<Rightarrow> (rr_type list \<times> usize) result" where
  "parse_type_bitmap_loop buf pos stop types =
     (if pos < stop then
        (if pos + 2 > stop then Err (error_wire ''type bitmap window truncated'')
         else case byte_at buf pos of
           Inl _ \<Rightarrow> Err (error_wire ''type bitmap window truncated'')
         | Inr window \<Rightarrow>
             (case byte_at buf (pos + 1) of
                Inl _ \<Rightarrow> Err (error_wire ''type bitmap window truncated'')
              | Inr l \<Rightarrow>
                  (let len = unat l in
                   if len = 0 \<or> len > 32 \<or> pos + 2 + len > stop
                   then Err (error_wire ''type bitmap window length invalid'')
                   else case get_range buf (pos + 2) (pos + 2 + len) of
                     None \<Rightarrow> Err (error_wire ''type bitmap window truncated'')
                   | Some window_bytes \<Rightarrow>
                       parse_type_bitmap_loop buf (pos + 2 + len) stop (types @ window_types window window_bytes))))
      else Ok (types, pos))"
  by pat_completeness auto
termination
  by (relation "measure (\<lambda>(buf, pos, stop, types). stop - pos)") auto

declare parse_type_bitmap_loop.simps [simp del]

definition parse_type_bitmap :: "bytes \<Rightarrow> usize \<Rightarrow> usize \<Rightarrow> (rr_type list \<times> usize) result" where
  "parse_type_bitmap buf pos stop = parse_type_bitmap_loop buf pos stop []"

type_synonym bitmap_window = "u8 \<times> bytes \<times> usize"

definition type_window :: "u16 \<Rightarrow> u8" where "type_window t = ucast (drop_bit 8 t)"
definition type_idx :: "u16 \<Rightarrow> nat" where "type_idx t = unat (t AND 0xff) div 8"
definition type_bit :: "u16 \<Rightarrow> nat" where "type_bit t = unat (t AND 0xff) mod 8"

definition set_slot :: "bytes \<Rightarrow> nat \<Rightarrow> nat \<Rightarrow> bytes" where
  "set_slot bs idx sh = (if idx < length bs then bs[idx := bs ! idx OR drop_bit sh 0x80] else bs)"

fun add_type :: "bitmap_window list \<Rightarrow> u16 \<Rightarrow> bitmap_window list" where
  "add_type [] t = [(type_window t, set_slot (replicate 32 0) (type_idx t) (type_bit t), type_idx t + 1)]"
| "add_type ((w, bs, used) # ws) t =
     (if w = type_window t
      then (w, set_slot bs (type_idx t) (type_bit t), max used (type_idx t + 1)) # ws
      else (w, bs, used) # add_type ws t)"

fun write_windows :: "bytes \<Rightarrow> bitmap_window list \<Rightarrow> bytes" where
  "write_windows out [] = out"
| "write_windows out ((w, bs, used) # ws) = write_windows (out @ [w, of_nat used] @ capped bs used) ws"

definition write_type_bitmap :: "bytes \<Rightarrow> rr_type list \<Rightarrow> bytes" where
  "write_type_bitmap out types =
     (if types = [] then out
      else let ts = remdups_adj (sort (map rr_type_to_u16 types))
           in write_windows out (foldl add_type [] ts))"

section \<open>Positions in the bitmap\<close>

lemma low_octet: "unat (t AND 0xff) = unat (t :: u16) mod 256"
proof -
  have "t AND 0xff = take_bit 8 t" by (simp add: take_bit_eq_mask mask_eq_exp_minus_1)
  then have "unat (t AND 0xff) = take_bit 8 (unat t)" by (simp only: unsigned_take_bit_eq)
  then show ?thesis by (simp add: take_bit_eq_mod)
qed

lemma type_window_div: "unat (type_window t) = unat t div 256"
proof -
  have "unat t < 65536" using unsigned_less [of t] by simp
  then show ?thesis
    by (simp add: type_window_def unsigned_ucast_eq unsigned_drop_bit_eq drop_bit_eq_div take_bit_eq_mod
        unat_div_distrib)
qed

lemma type_position: "unat t = unat (type_window t) * 256 + type_idx t * 8 + type_bit t"
proof -
  note low = low_octet [of t]
  note high = type_window_div [of t]
  show ?thesis unfolding type_idx_def type_bit_def low high by simp
qed

lemma type_idx_less [simp]: "type_idx t < 32" and type_bit_less [simp]: "type_bit t < 8"
proof -
  have "unat (t AND 0xff) < 256" by (simp add: low_octet)
  then show "type_idx t < 32" "type_bit t < 8" by (simp_all add: type_idx_def type_bit_def)
qed

lemma type_of_position:
  assumes "i < 32" and "b < 8"
  shows "unat (ucast w * 256 + of_nat i * 8 + of_nat b :: u16) = unat (w :: u8) * 256 + i * 8 + b"
proof -
  have "ucast w * 256 + of_nat i * 8 + of_nat b = (of_nat (unat w * 256 + i * 8 + b) :: u16)"
    by (simp add: of_nat_unat)
  moreover have "unat w * 256 + i * 8 + b < 65536" using assms unat_u8_less [of w] by linarith
  ultimately show ?thesis by (simp add: unat_of_nat take_bit_eq_mod del: of_nat_add of_nat_mult)
qed

lemma type_eqI: "type_window s = type_window t \<Longrightarrow> type_idx s = type_idx t \<Longrightarrow> type_bit s = type_bit t \<Longrightarrow> s = t"
  by (metis type_position word_unat_eq_iff)

lemma drop_bit_0x80: "j < 8 \<Longrightarrow> drop_bit j (0x80 :: u8) = push_bit (7 - j) 1"
proof -
  assume "j < 8"
  then have "j \<in> {0, 1, 2, 3, 4, 5, 6, 7}" by auto
  then show ?thesis by (elim insertE emptyE) simp_all
qed

lemma mask_bit: "j < 8 \<Longrightarrow> b AND drop_bit j (0x80 :: u8) \<noteq> 0 \<longleftrightarrow> bit b (7 - j)"
  by (simp add: drop_bit_0x80 and_exp_eq_0_iff_not_bit push_bit_eq_mult)

section \<open>What a list of windows holds\<close>

definition window_has :: "bytes \<Rightarrow> u16 \<Rightarrow> bool" where
  "window_has bs t \<longleftrightarrow> bit (bs ! type_idx t) (7 - type_bit t)"

definition windows_hold :: "bitmap_window list \<Rightarrow> u16 \<Rightarrow> bool" where
  "windows_hold ws t \<longleftrightarrow> (\<exists>(w, bs, used) \<in> set ws. w = type_window t \<and> window_has bs t)"

definition window_ok :: "bitmap_window \<Rightarrow> bool" where
  "window_ok x \<longleftrightarrow> (case x of (w, bs, used) \<Rightarrow>
     length bs = 32 \<and> 0 < used \<and> used \<le> 32 \<and> (\<forall>i < 32. used \<le> i \<longrightarrow> bs ! i = 0))"

lemma set_slot_has:
  assumes "length bs = 32" and "type_window s = type_window t"
  shows "window_has (set_slot bs (type_idx t) (type_bit t)) s \<longleftrightarrow> window_has bs s \<or> s = t"
proof (cases "type_idx s = type_idx t")
  case True
  have "bit (drop_bit (type_bit t) 0x80 :: u8) (7 - type_bit s) \<longleftrightarrow> type_bit s = type_bit t"
    using type_bit_less [of s] type_bit_less [of t]
    by (auto simp: drop_bit_0x80 bit_simps simp del: type_bit_less)
  with True assms show ?thesis
    by (auto simp: window_has_def set_slot_def bit_or_iff dest: type_eqI)
next
  case False
  with assms show ?thesis by (auto simp: window_has_def set_slot_def)
qed

lemma zero_slots_has: "window_has (replicate 32 0) t \<longleftrightarrow> False"
  by (simp add: window_has_def)

lemma set_slot_length [simp]: "length (set_slot bs i j) = length bs"
  by (simp add: set_slot_def)

lemma add_type_holds:
  "distinct (map fst ws) \<Longrightarrow> list_all window_ok ws \<Longrightarrow>
   windows_hold (add_type ws t) s \<longleftrightarrow> windows_hold ws s \<or> s = t"
proof (induction ws t rule: add_type.induct)
  case (1 t)
  then show ?case
    using set_slot_has [of "replicate 32 0" s t] by (auto simp: windows_hold_def zero_slots_has)
next
  case (2 w bs used ws t)
  then have l: "length bs = 32" by (simp add: window_ok_def)
  show ?case
  proof (cases "w = type_window t")
    case True
    then show ?thesis using 2 set_slot_has [OF l, of s t]
      by (auto simp: windows_hold_def)
  next
    case False
    with 2 show ?thesis by (auto simp: windows_hold_def)
  qed
qed

lemma add_type_ok: "list_all window_ok ws \<Longrightarrow> list_all window_ok (add_type ws t)"
  by (induction ws t rule: add_type.induct)
    (auto simp: window_ok_def set_slot_def nth_list_update Suc_le_eq)

lemma add_type_windows: "set (map fst (add_type ws t)) = insert (type_window t) (set (map fst ws))"
  by (induction ws t rule: add_type.induct) auto

lemma add_type_sorted:
  "sorted_wrt (<) (map fst ws) \<Longrightarrow> \<forall>w \<in> set (map fst ws). w \<le> type_window t \<Longrightarrow>
   sorted_wrt (<) (map fst (add_type ws t))"
proof (induction ws t rule: add_type.induct)
  case (2 w bs used ws t)
  then show ?case using add_type_windows [of ws t] by (auto simp: order_less_le)
qed simp

lemma type_window_mono: "s \<le> t \<Longrightarrow> type_window s \<le> type_window t"
  by (simp add: word_le_nat_alt type_window_div div_le_mono)

lemma foldl_add_type:
  "sorted ts \<Longrightarrow> sorted_wrt (<) (map fst ws) \<Longrightarrow> list_all window_ok ws \<Longrightarrow>
   \<forall>w \<in> set (map fst ws). \<forall>t \<in> set ts. w \<le> type_window t \<Longrightarrow>
   sorted_wrt (<) (map fst (foldl add_type ws ts)) \<and> list_all window_ok (foldl add_type ws ts)
   \<and> (\<forall>s. windows_hold (foldl add_type ws ts) s \<longleftrightarrow> windows_hold ws s \<or> s \<in> set ts)"
proof (induction ts arbitrary: ws)
  case (Cons t ts)
  have "sorted_wrt (<) (map fst (add_type ws t))" using Cons.prems by (intro add_type_sorted) auto
  moreover have "list_all window_ok (add_type ws t)" using Cons.prems by (intro add_type_ok)
  moreover have "\<forall>w \<in> set (map fst (add_type ws t)). \<forall>t \<in> set ts. w \<le> type_window t"
    using Cons.prems unfolding add_type_windows by (auto simp: type_window_mono)
  moreover have "distinct (map fst ws)" using Cons.prems(2) strict_sorted_iff by blast
  ultimately show ?case using Cons add_type_holds [of ws t] by auto
qed simp

section \<open>Reading the windows back\<close>

fun windows_types :: "bitmap_window list \<Rightarrow> rr_type list" where
  "windows_types [] = []"
| "windows_types ((w, bs, used) # ws) = window_types w (take used bs) @ windows_types ws"

fun windows_bytes :: "bitmap_window list \<Rightarrow> bytes" where
  "windows_bytes [] = []"
| "windows_bytes ((w, bs, used) # ws) = w # of_nat used # take used bs @ windows_bytes ws"

lemma write_windows_append: "write_windows out ws = out @ windows_bytes ws"
  by (induction out ws rule: write_windows.induct) (auto simp: capped_take)

lemma parse_windows:
  "occurs buf p (windows_bytes ws) \<Longrightarrow> list_all window_ok ws \<Longrightarrow>
   parse_type_bitmap_loop buf p (p + length (windows_bytes ws)) types
     = Ok (types @ windows_types ws, p + length (windows_bytes ws))"
proof (induction ws arbitrary: p types)
  case Nil
  then show ?case by (subst parse_type_bitmap_loop.simps) simp
next
  case (Cons x ws)
  obtain w bs used where x: "x = (w, bs, used)" by (cases x)
  with Cons.prems have u: "length bs = 32" "0 < used" "used \<le> 32" by (auto simp: window_ok_def)
  with Cons.prems x have occ: "p < length buf" "buf ! p = w" "Suc p < length buf" "buf ! Suc p = of_nat used"
      "occurs buf (Suc (Suc p)) (take used bs)" "occurs buf (Suc (Suc p) + used) (windows_bytes ws)"
    by (auto simp: occurs_Cons)
  have n: "unat (of_nat used :: u8) = used" using u by (simp add: unat_of_nat take_bit_eq_mod)
  have rng: "get_range buf (Suc (Suc p)) (Suc (Suc p) + used) = Some (take used bs)"
    using occ(5) u by (simp add: get_range_def occurs_def)
  show ?case
    using Cons.IH [OF occ(6)] Cons.prems x u occ n rng
    by (subst parse_type_bitmap_loop.simps) (simp add: add.assoc Let_def byte_at_nth)
qed

lemma digits_unique:
  fixes a a' i i' b b' :: nat
  assumes "a * 256 + i * 8 + b = a' * 256 + i' * 8 + b'" and "i < 32" "i' < 32" "b < 8" "b' < 8"
  shows "a = a' \<and> i = i' \<and> b = b'"
proof -
  have "\<not> a < a'" "\<not> a' < a" using assms by linarith+
  then have "a = a'" by simp
  moreover from this have "\<not> i < i'" "\<not> i' < i" using assms by linarith+
  ultimately show ?thesis using assms(1) by simp
qed

lemma enumerate_nth: "enumerate 0 bs = map (\<lambda>i. (i, bs ! i)) [0..<length bs]"
  by (rule nth_equalityI) (simp_all add: nth_enumerate_eq)

lemma window_types_set:
  assumes "length bs \<le> 32"
  shows "RrType t \<in> set (window_types w bs) \<longleftrightarrow>
    w = type_window t \<and> type_idx t < length bs \<and> bit (bs ! type_idx t) (7 - type_bit t)"
proof -
  have eq: "t = ucast w * 256 + of_nat i * 8 + of_nat b \<longleftrightarrow> w = type_window t \<and> i = type_idx t \<and> b = type_bit t"
    if "i < 32" "b < 8" for i b
  proof -
    have "unat t = unat w * 256 + i * 8 + b \<longleftrightarrow> unat w = unat (type_window t) \<and> i = type_idx t \<and> b = type_bit t"
      unfolding type_position [of t]
      using digits_unique [of "unat (type_window t)" "type_idx t" "type_bit t" "unat w" i b] that by auto
    then show ?thesis
      using type_of_position [OF that, of w] by (simp add: word_unat_eq_iff)
  qed
  have "RrType t \<in> set (window_types w bs) \<longleftrightarrow>
      (\<exists>i b. i < length bs \<and> b < 8 \<and> bit (bs ! i) (7 - b) \<and> t = ucast w * 256 + of_nat i * 8 + of_nat b)"
    (is "_ \<longleftrightarrow> ?rhs")
  proof
    assume "RrType t \<in> set (window_types w bs)"
    then obtain i b where "i < length bs" "b < 8" "bs ! i AND drop_bit b 0x80 \<noteq> 0"
        "t = ucast w * 256 + of_nat i * 8 + of_nat b"
      unfolding window_types_def enumerate_nth by auto
    then show ?rhs using mask_bit [of b "bs ! i"] by blast
  next
    assume ?rhs
    then obtain i b where ib: "i < length bs" "b < 8" "bs ! i AND drop_bit b 0x80 \<noteq> 0"
        "t = ucast w * 256 + of_nat i * 8 + of_nat b"
      using mask_bit by blast
    then have "RrType t \<in> set (map (\<lambda>j. RrType (ucast w * 256 + of_nat i * 8 + of_nat j))
        (filter (\<lambda>j. bs ! i AND drop_bit j 0x80 \<noteq> 0) [0..<8]))"
      by (simp only: set_map set_filter set_upt) (rule image_eqI [of _ _ b], simp_all)
    with ib(1) have "RrType t \<in> (\<Union>k\<in>{0..<length bs}. set (map (\<lambda>j. RrType (ucast w * 256 + of_nat k * 8 + of_nat j))
        (filter (\<lambda>j. bs ! k AND drop_bit j 0x80 \<noteq> 0) [0..<8])))"
      by (intro UN_I [of i]) (simp_all only: atLeastLessThan_iff, simp)
    then show "RrType t \<in> set (window_types w bs)"
      by (simp only: window_types_def enumerate_nth set_concat set_map map_map comp_def prod.case set_upt image_image)
  qed
  also have "\<dots> \<longleftrightarrow> (\<exists>i b. i < length bs \<and> b < 8 \<and> bit (bs ! i) (7 - b) \<and>
      w = type_window t \<and> i = type_idx t \<and> b = type_bit t)"
    by (intro ex_cong1 conj_cong refl, rule eq) (use assms in linarith)+
  finally show ?thesis by auto
qed

lemma windows_types_set:
  assumes "list_all window_ok ws"
  shows "RrType t \<in> set (windows_types ws) \<longleftrightarrow> windows_hold ws t"
  using assms
proof (induction ws rule: windows_types.induct)
  case (2 w bs used ws)
  then have ok: "length bs = 32" "used \<le> 32" "\<forall>i<32. used \<le> i \<longrightarrow> bs ! i = 0" by (auto simp: window_ok_def)
  have "type_idx t < used \<and> bit (take used bs ! type_idx t) (7 - type_bit t) \<longleftrightarrow> window_has bs t"
    using ok type_idx_less [of t] by (auto simp: window_has_def not_less [symmetric] simp del: type_idx_less) 
  with 2 ok window_types_set [of "take used bs" t w] show ?case by (auto simp: windows_hold_def)
qed (simp add: windows_hold_def)

lemma filter_bits_sorted: "sorted_wrt (<) (filter P [0..<8 :: nat])"
  by (simp add: sorted_wrt_filter)

lemma window_types_sorted:
  assumes "length bs \<le> 32"
  shows "sorted_wrt (<) (map (unat \<circ> rr_type_to_u16) (window_types w bs))
    \<and> (\<forall>t \<in> set (window_types w bs). unat (rr_type_to_u16 t) div 256 = unat w)"
proof -
  have "sorted_wrt (<) (map (unat \<circ> rr_type_to_u16) (concat (map (\<lambda>(i, b).
       map (\<lambda>j. RrType (ucast w * 256 + of_nat i * 8 + of_nat j)) (filter (\<lambda>j. b AND drop_bit j 0x80 \<noteq> 0) [0..<8]))
       (enumerate k bs))))"
    if "k + length bs \<le> 32" for k using that
  proof (induction bs arbitrary: k)
    case (Cons b bs)
    have "sorted_wrt (<) (map (\<lambda>j. unat (ucast w * 256 + of_nat k * 8 + of_nat j :: u16))
        (filter (\<lambda>j. b AND drop_bit j 0x80 \<noteq> 0) [0..<8]))"
      unfolding sorted_wrt_map
      by (rule sorted_wrt_mono_rel [OF _ filter_bits_sorted]) (use Cons.prems in \<open>auto simp: type_of_position\<close>)
    with Cons.IH [of "Suc k"] Cons.prems show ?case
      by (auto simp: sorted_wrt_append comp_def in_set_enumerate_eq type_of_position)
  qed simp
  then have "sorted_wrt (<) (map (unat \<circ> rr_type_to_u16) (window_types w bs))"
    using assms by (simp add: window_types_def)
  moreover have "unat (rr_type_to_u16 t) div 256 = unat w" if "t \<in> set (window_types w bs)" for t
    using that window_types_set [OF assms, of "rr_type_to_u16 t" w] by (simp add: type_window_div)
  ultimately show ?thesis by blast
qed

lemma windows_types_sorted:
  "list_all window_ok ws \<Longrightarrow> sorted_wrt (<) (map fst ws) \<Longrightarrow>
   sorted_wrt (<) (map (unat \<circ> rr_type_to_u16) (windows_types ws))
   \<and> (\<forall>t \<in> set (windows_types ws). type_window (rr_type_to_u16 t) \<in> set (map fst ws))"
proof (induction ws rule: windows_types.induct)
  case (2 w bs used ws)
  then have l: "length (take used bs) \<le> 32" by (auto simp: window_ok_def)
  have win: "type_window (rr_type_to_u16 t) = w" if "t \<in> set (window_types w (take used bs))" for t
    using that window_types_set [OF l, of "rr_type_to_u16 t" w] by simp
  have "unat (rr_type_to_u16 s) < unat (rr_type_to_u16 t)"
    if "s \<in> set (window_types w (take used bs))" "t \<in> set (windows_types ws)" for s t
  proof -
    from 2 that(2) win [OF that(1)] have "type_window (rr_type_to_u16 s) < type_window (rr_type_to_u16 t)"
      by fastforce
    then have "\<not> rr_type_to_u16 t \<le> rr_type_to_u16 s" using type_window_mono leD by blast
    then show ?thesis by (simp add: word_le_nat_alt not_le)
  qed
  with 2 window_types_sorted [OF l, of w] win show ?case by (auto simp: sorted_wrt_append comp_def)
qed simp

lemma distinct_remdups_adj_sorted: "sorted xs \<Longrightarrow> distinct (remdups_adj xs)"
  by (induction xs rule: remdups_adj.induct) fastforce+

lemma parse_write_type_bitmap:
  assumes "occurs buf p bs" and "write_type_bitmap [] types = bs"
  shows "parse_type_bitmap buf p (p + length bs)
    = Ok (map RrType (remdups_adj (sort (map rr_type_to_u16 types))), p + length bs)"
proof -
  let ?ts = "remdups_adj (sort (map rr_type_to_u16 types))"
  let ?ws = "foldl add_type [] ?ts"
  have bs: "bs = windows_bytes ?ws"
    using assms(2) by (auto simp: write_type_bitmap_def write_windows_append split: if_splits)
  have "sorted ?ts" by (simp add: sorted_remdups_adj)
  from foldl_add_type [OF this, of "[]"] have
    ws: "sorted_wrt (<) (map fst ?ws)" "list_all window_ok ?ws" "\<And>s. windows_hold ?ws s \<longleftrightarrow> s \<in> set ?ts"
    by (auto simp: windows_hold_def)
  let ?us = "map rr_type_to_u16 (windows_types ?ws)"
  have "sorted_wrt (<) ?us"
    using windows_types_sorted [OF ws(2,1)] by (simp add: sorted_wrt_map comp_def word_less_nat_alt)
  then have "sorted ?us" "distinct ?us" by (auto simp: strict_sorted_iff)
  moreover have "sorted ?ts" "distinct ?ts"
    by (auto simp: sorted_remdups_adj distinct_remdups_adj_sorted)
  moreover have "set ?us = set ?ts"
  proof (rule set_eqI)
    fix s
    have "s \<in> set ?us \<longleftrightarrow> RrType s \<in> set (windows_types ?ws)" by (force simp: image_iff)
    then show "s \<in> set ?us \<longleftrightarrow> s \<in> set ?ts" using windows_types_set [OF ws(2)] ws(3) by blast
  qed
  ultimately have "?us = ?ts" by (intro sorted_distinct_set_unique)
  then have "windows_types ?ws = map RrType ?ts" by (metis (no_types, lifting) list.map_comp list.map_id0
        comp_def rr_type.collapse map_idI)
  then show ?thesis
    using parse_windows [of buf p ?ws "[]"] assms(1) ws(2) by (simp add: bs parse_type_bitmap_def)
qed

end
