(* ===== verification/Rdata.thy ===== *)
theory Rdata
  imports Name_Compress Type_Bitmap
begin

text \<open>
  \<^verbatim>\<open>src/src/rdata.rs\<close>: the payload of a resource record, its parser and its serializer, and the
  record itself.  Each arm of \<^verbatim>\<open>RData::parse\<close> is a definition of its own, over the closures of
  the source (\<^verbatim>\<open>need\<close>, \<^verbatim>\<open>u16_at\<close>, \<^verbatim>\<open>b_at\<close>, \<^verbatim>\<open>tail\<close>, \<^verbatim>\<open>read_name\<close>, \<^verbatim>\<open>name_exact\<close>), which
  take the message, the end of the RDATA and a cursor.  A parser returns the value and the cursor
  behind it; the serializer threads the output buffer and the optional compression table.
\<close>

section \<open>Data\<close>

datatype rdata =
    A u32
  | Aaaa u128
  | Cname name
  | Dname name
  | Ns name
  | Ptr name
  | Mx u16 name
  | Soa name name u32 u32 u32 u32 u32
  | Txt "bytes list"
  | Srv u16 u16 u16 name
  | Naptr u16 u16 bytes bytes bytes name
  | Ds u16 dnssec_algorithm ds_digest_type bytes
  | Dnskey u16 u8 dnssec_algorithm bytes
  | Rrsig rr_type dnssec_algorithm u8 u32 u32 u32 u16 name bytes
  | Nsec name "rr_type list"
  | Nsec3 u8 u8 u16 bytes bytes "rr_type list"
  | Nsec3Param u8 u8 u16 bytes
  | Caa u8 bytes bytes
  | Tlsa u8 u8 u8 bytes
  | Svcb u16 name "(u16 \<times> bytes) list"
  | Unknown bytes

record dns_record =
  rec_name :: name
  rec_type :: rr_type
  rec_class :: rr_class
  rec_ttl :: u32
  rec_rdata :: rdata

section \<open>The closures of the parser\<close>

abbreviation rdata_truncated :: error where
  "rdata_truncated \<equiv> error_wire ''RDATA truncated''"

definition need :: "usize \<Rightarrow> usize \<Rightarrow> unit result" where
  "need rdlen n = (if rdlen < n then Err rdata_truncated else Ok ())"

definition rd_u16_at :: "bytes \<Rightarrow> usize \<Rightarrow> usize \<Rightarrow> u16 result" where
  "rd_u16_at buf stop p = (if p + 2 > stop then Err rdata_truncated else u16_at buf p)"

definition rd_u32_at :: "bytes \<Rightarrow> usize \<Rightarrow> usize \<Rightarrow> u32 result" where
  "rd_u32_at buf stop p = (if p + 4 > stop then Err rdata_truncated else u32_at buf p)"

definition rd_b_at :: "bytes \<Rightarrow> usize \<Rightarrow> usize \<Rightarrow> u8 result" where
  "rd_b_at buf stop p = (if p \<ge> stop then Err rdata_truncated else map_err (\<lambda>_. rdata_truncated) (byte_at buf p))"

definition rd_tail :: "bytes \<Rightarrow> usize \<Rightarrow> usize \<Rightarrow> bytes result" where
  "rd_tail buf stop p = (if p > stop then Err rdata_truncated else ok_or rdata_truncated (get_range buf p stop))"

definition rd_read_name :: "bytes \<Rightarrow> usize \<Rightarrow> usize \<Rightarrow> (name \<times> usize) result" where
  "rd_read_name buf stop p =
     rbind (name_from_wire buf p) (\<lambda>(n, next).
     if next > stop then Err (error_wire ''name in RDATA overruns RDATA length'') else Ok (n, next))"

definition rd_name_exact :: "bytes \<Rightarrow> usize \<Rightarrow> usize \<Rightarrow> (name \<times> usize) result" where
  "rd_name_exact buf stop p =
     rbind (rd_read_name buf stop p) (\<lambda>(n, p').
     if p' \<noteq> stop then Err (error_wire ''trailing bytes after name in RDATA'') else Ok (n, p'))"

definition read_char_string :: "bytes \<Rightarrow> usize \<Rightarrow> usize \<Rightarrow> (bytes \<times> usize) result" where
  "read_char_string buf pos stop =
     (if pos \<ge> stop then Err (error_wire ''character-string truncated'')
      else rbind (map_err (\<lambda>_. error_wire ''character-string truncated'') (byte_at buf pos)) (\<lambda>l.
        if pos + 1 + unat l > stop then Err (error_wire ''character-string truncated'')
        else rbind (ok_or (error_wire ''character-string truncated'')
                     (get_range buf (pos + 1) (pos + 1 + unat l))) (\<lambda>s.
             Ok (s, pos + 1 + unat l))))"

section \<open>One parser per record type\<close>

definition parse_a :: "bytes \<Rightarrow> usize \<Rightarrow> usize \<Rightarrow> (rdata \<times> usize) result" where
  "parse_a buf pos stop =
     rbind (need (stop - pos) 4) (\<lambda>_.
     rbind (map_err (\<lambda>_. rdata_truncated) (array_at buf pos 4)) (\<lambda>oct.
     Ok (A (from_be_bytes oct), pos + 4)))"

definition parse_aaaa :: "bytes \<Rightarrow> usize \<Rightarrow> usize \<Rightarrow> (rdata \<times> usize) result" where
  "parse_aaaa buf pos stop =
     rbind (need (stop - pos) 16) (\<lambda>_.
     rbind (map_err (\<lambda>_. rdata_truncated) (array_at buf pos 16)) (\<lambda>oct.
     Ok (Aaaa (from_be_bytes oct), pos + 16)))"

definition parse_name_rdata :: "(name \<Rightarrow> rdata) \<Rightarrow> bytes \<Rightarrow> usize \<Rightarrow> usize \<Rightarrow> (rdata \<times> usize) result" where
  "parse_name_rdata mk buf pos stop = rbind (rd_name_exact buf stop pos) (\<lambda>(n, p). Ok (mk n, p))"

definition parse_mx :: "bytes \<Rightarrow> usize \<Rightarrow> usize \<Rightarrow> (rdata \<times> usize) result" where
  "parse_mx buf pos stop =
     rbind (need (stop - pos) 2) (\<lambda>_.
     rbind (rd_u16_at buf stop pos) (\<lambda>pref.
     rbind (rd_name_exact buf stop (pos + 2)) (\<lambda>(exchange, p).
     Ok (Mx pref exchange, p))))"

definition parse_soa :: "bytes \<Rightarrow> usize \<Rightarrow> usize \<Rightarrow> (rdata \<times> usize) result" where
  "parse_soa buf pos stop =
     rbind (need (stop - pos) 20) (\<lambda>_.
     rbind (rd_read_name buf stop pos) (\<lambda>(mname, p1).
     rbind (rd_read_name buf stop p1) (\<lambda>(rname, p).
     if p + 20 > stop then Err (error_wire ''SOA RDATA truncated'')
     else rbind (rd_u32_at buf stop p) (\<lambda>serial.
       rbind (rd_u32_at buf stop (p + 4)) (\<lambda>refresh.
       rbind (rd_u32_at buf stop (p + 8)) (\<lambda>retry.
       rbind (rd_u32_at buf stop (p + 12)) (\<lambda>expire.
       rbind (rd_u32_at buf stop (p + 16)) (\<lambda>minimum.
       Ok (Soa mname rname serial refresh retry expire minimum, p + 20)))))))))"

function parse_txt_loop :: "bytes \<Rightarrow> usize \<Rightarrow> usize \<Rightarrow> bytes list \<Rightarrow> (rdata \<times> usize) result" where
  "parse_txt_loop buf pos stop strings =
     (if pos < stop then
        (case byte_at buf pos of
           Inl _ \<Rightarrow> Err (error_wire ''TXT string truncated'')
         | Inr b \<Rightarrow>
             (let l = unat b in
              if pos + 1 + l > stop then Err (error_wire ''TXT string truncated'')
              else case get_range buf (pos + 1) (pos + 1 + l) of
                None \<Rightarrow> Err (error_wire ''TXT string truncated'')
              | Some s \<Rightarrow> parse_txt_loop buf (pos + 1 + l) stop (strings @ [s])))
      else Ok (Txt strings, pos))"
  by pat_completeness auto
termination
  by (relation "measure (\<lambda>(buf, pos, stop, strings). stop - pos)") auto

declare parse_txt_loop.simps [simp del]

definition parse_srv :: "bytes \<Rightarrow> usize \<Rightarrow> usize \<Rightarrow> (rdata \<times> usize) result" where
  "parse_srv buf pos stop =
     rbind (need (stop - pos) 6) (\<lambda>_.
     rbind (rd_u16_at buf stop pos) (\<lambda>priority.
     rbind (rd_u16_at buf stop (pos + 2)) (\<lambda>weight.
     rbind (rd_u16_at buf stop (pos + 4)) (\<lambda>port.
     rbind (rd_name_exact buf stop (pos + 6)) (\<lambda>(target, p).
     Ok (Srv priority weight port target, p))))))"

definition parse_naptr :: "bytes \<Rightarrow> usize \<Rightarrow> usize \<Rightarrow> (rdata \<times> usize) result" where
  "parse_naptr buf pos stop =
     rbind (need (stop - pos) 4) (\<lambda>_.
     rbind (rd_u16_at buf stop pos) (\<lambda>ord.
     rbind (rd_u16_at buf stop (pos + 2)) (\<lambda>preference.
     rbind (read_char_string buf (pos + 4) stop) (\<lambda>(flags, p1).
     rbind (read_char_string buf p1 stop) (\<lambda>(services, p2).
     rbind (read_char_string buf p2 stop) (\<lambda>(regexp, p3).
     rbind (rd_name_exact buf stop p3) (\<lambda>(replacement, p).
     Ok (Naptr ord preference flags services regexp replacement, p))))))))"

definition parse_ds :: "bytes \<Rightarrow> usize \<Rightarrow> usize \<Rightarrow> (rdata \<times> usize) result" where
  "parse_ds buf pos stop =
     rbind (need (stop - pos) 4) (\<lambda>_.
     rbind (rd_u16_at buf stop pos) (\<lambda>key_tag.
     rbind (rd_b_at buf stop (pos + 2)) (\<lambda>alg.
     rbind (rd_b_at buf stop (pos + 3)) (\<lambda>dig.
     if pos + 4 > stop then Err (error_wire ''DS digest truncated'')
     else rbind (rd_tail buf stop (pos + 4)) (\<lambda>digest.
       Ok (Ds key_tag (DnssecAlgorithm alg) (DsDigestType dig) digest, stop))))))"

definition parse_dnskey :: "bytes \<Rightarrow> usize \<Rightarrow> usize \<Rightarrow> (rdata \<times> usize) result" where
  "parse_dnskey buf pos stop =
     rbind (need (stop - pos) 4) (\<lambda>_.
     rbind (rd_u16_at buf stop pos) (\<lambda>flags.
     rbind (rd_b_at buf stop (pos + 2)) (\<lambda>protocol.
     rbind (rd_b_at buf stop (pos + 3)) (\<lambda>alg.
     if pos + 4 > stop then Err (error_wire ''DNSKEY public key truncated'')
     else rbind (rd_tail buf stop (pos + 4)) (\<lambda>public_key.
       Ok (Dnskey flags protocol (DnssecAlgorithm alg) public_key, stop))))))"

definition parse_rrsig :: "bytes \<Rightarrow> usize \<Rightarrow> usize \<Rightarrow> (rdata \<times> usize) result" where
  "parse_rrsig buf pos stop =
     rbind (need (stop - pos) 18) (\<lambda>_.
     rbind (rd_u16_at buf stop pos) (\<lambda>type_covered.
     rbind (rd_b_at buf stop (pos + 2)) (\<lambda>alg.
     rbind (rd_b_at buf stop (pos + 3)) (\<lambda>labels.
     rbind (rd_u32_at buf stop (pos + 4)) (\<lambda>original_ttl.
     rbind (rd_u32_at buf stop (pos + 8)) (\<lambda>expiration.
     rbind (rd_u32_at buf stop (pos + 12)) (\<lambda>inception.
     rbind (rd_u16_at buf stop (pos + 16)) (\<lambda>key_tag.
     rbind (rd_read_name buf stop (pos + 18)) (\<lambda>(signer, p).
     if p > stop then Err (error_wire ''RRSIG signature truncated'')
     else rbind (rd_tail buf stop p) (\<lambda>signature.
       Ok (Rrsig (RrType type_covered) (DnssecAlgorithm alg) labels original_ttl expiration inception
             key_tag signer signature, stop)))))))))))"

definition parse_nsec :: "bytes \<Rightarrow> usize \<Rightarrow> usize \<Rightarrow> (rdata \<times> usize) result" where
  "parse_nsec buf pos stop =
     rbind (rd_read_name buf stop pos) (\<lambda>(next, p1).
     rbind (parse_type_bitmap buf p1 stop) (\<lambda>(types, p).
     Ok (Nsec next types, p)))"

definition parse_nsec3 :: "bytes \<Rightarrow> usize \<Rightarrow> usize \<Rightarrow> (rdata \<times> usize) result" where
  "parse_nsec3 buf pos stop =
     rbind (need (stop - pos) 5) (\<lambda>_.
     rbind (rd_b_at buf stop pos) (\<lambda>hash_alg.
     rbind (rd_b_at buf stop (pos + 1)) (\<lambda>flags.
     rbind (rd_u16_at buf stop (pos + 2)) (\<lambda>iterations.
     rbind (rd_b_at buf stop (pos + 4)) (\<lambda>salt_len.
     let p1 = pos + 5; p2 = p1 + unat salt_len in
     if p2 > stop then Err (error_wire ''NSEC3 salt truncated'')
     else rbind (ok_or (error_wire ''NSEC3 salt truncated'') (get_range buf p1 p2)) (\<lambda>salt.
     if p2 \<ge> stop then Err (error_wire ''NSEC3 next-hashed length missing'')
     else rbind (rd_b_at buf stop p2) (\<lambda>next_len.
     let p3 = p2 + 1; p4 = p3 + unat next_len in
     if p4 > stop then Err (error_wire ''NSEC3 next-hashed truncated'')
     else rbind (ok_or (error_wire ''NSEC3 next-hashed truncated'') (get_range buf p3 p4)) (\<lambda>next_hashed.
     rbind (parse_type_bitmap buf p4 stop) (\<lambda>(types, p).
     Ok (Nsec3 hash_alg flags iterations salt next_hashed types, p))))))))))"

definition parse_nsec3param :: "bytes \<Rightarrow> usize \<Rightarrow> usize \<Rightarrow> (rdata \<times> usize) result" where
  "parse_nsec3param buf pos stop =
     rbind (need (stop - pos) 5) (\<lambda>_.
     rbind (rd_b_at buf stop pos) (\<lambda>hash_alg.
     rbind (rd_b_at buf stop (pos + 1)) (\<lambda>flags.
     rbind (rd_u16_at buf stop (pos + 2)) (\<lambda>iterations.
     rbind (rd_b_at buf stop (pos + 4)) (\<lambda>salt_len.
     let p1 = pos + 5; p2 = p1 + unat salt_len in
     if p2 > stop then Err (error_wire ''NSEC3PARAM salt truncated'')
     else rbind (ok_or (error_wire ''NSEC3PARAM salt truncated'') (get_range buf p1 p2)) (\<lambda>salt.
     Ok (Nsec3Param hash_alg flags iterations salt, p2)))))))"

definition parse_caa :: "bytes \<Rightarrow> usize \<Rightarrow> usize \<Rightarrow> (rdata \<times> usize) result" where
  "parse_caa buf pos stop =
     rbind (need (stop - pos) 2) (\<lambda>_.
     rbind (rd_b_at buf stop pos) (\<lambda>flags.
     rbind (rd_b_at buf stop (pos + 1)) (\<lambda>tag_len.
     let p1 = pos + 2; p2 = p1 + unat tag_len in
     if p2 > stop then Err (error_wire ''CAA tag truncated'')
     else rbind (ok_or (error_wire ''CAA tag truncated'') (get_range buf p1 p2)) (\<lambda>tag.
     rbind (rd_tail buf stop p2) (\<lambda>val.
     Ok (Caa flags tag val, stop))))))"

definition parse_tlsa :: "bytes \<Rightarrow> usize \<Rightarrow> usize \<Rightarrow> (rdata \<times> usize) result" where
  "parse_tlsa buf pos stop =
     rbind (need (stop - pos) 3) (\<lambda>_.
     rbind (rd_b_at buf stop pos) (\<lambda>usage.
     rbind (rd_b_at buf stop (pos + 1)) (\<lambda>selector.
     rbind (rd_b_at buf stop (pos + 2)) (\<lambda>matching_type.
     rbind (rd_tail buf stop (pos + 3)) (\<lambda>data.
     Ok (Tlsa usage selector matching_type data, stop))))))"

function parse_svcb_loop ::
  "bytes \<Rightarrow> usize \<Rightarrow> usize \<Rightarrow> (u16 \<times> bytes) list \<Rightarrow> ((u16 \<times> bytes) list \<times> usize) result"
where
  "parse_svcb_loop buf pos stop params =
     (if pos < stop then
        (if pos + 4 > stop then Err (error_wire ''SVCB param header truncated'')
         else case rd_u16_at buf stop pos of
           Inl e \<Rightarrow> Err e
         | Inr key \<Rightarrow>
             (case rd_u16_at buf stop (pos + 2) of
                Inl e \<Rightarrow> Err e
              | Inr l \<Rightarrow>
                  (let len = unat l in
                   if pos + 4 + len > stop then Err (error_wire ''SVCB param value truncated'')
                   else case get_range buf (pos + 4) (pos + 4 + len) of
                     None \<Rightarrow> Err (error_wire ''SVCB param value truncated'')
                   | Some v \<Rightarrow> parse_svcb_loop buf (pos + 4 + len) stop (params @ [(key, v)]))))
      else Ok (params, pos))"
  by pat_completeness auto
termination
  by (relation "measure (\<lambda>(buf, pos, stop, params). stop - pos)") auto

declare parse_svcb_loop.simps [simp del]

definition parse_svcb :: "bytes \<Rightarrow> usize \<Rightarrow> usize \<Rightarrow> (rdata \<times> usize) result" where
  "parse_svcb buf pos stop =
     rbind (need (stop - pos) 2) (\<lambda>_.
     rbind (rd_u16_at buf stop pos) (\<lambda>priority.
     rbind (rd_read_name buf stop (pos + 2)) (\<lambda>(target, p1).
     rbind (parse_svcb_loop buf p1 stop []) (\<lambda>(params, p).
     Ok (Svcb priority target params, p)))))"

definition parse_unknown :: "bytes \<Rightarrow> usize \<Rightarrow> usize \<Rightarrow> (rdata \<times> usize) result" where
  "parse_unknown buf pos stop = rbind (rd_tail buf stop pos) (\<lambda>data. Ok (Unknown data, stop))"

section \<open>Dispatch\<close>

definition rdata_parser :: "rr_type \<Rightarrow> bytes \<Rightarrow> usize \<Rightarrow> usize \<Rightarrow> (rdata \<times> usize) result" where
  "rdata_parser t buf pos stop =
     (if t = RrType_A then parse_a buf pos stop
      else if t = RrType_AAAA then parse_aaaa buf pos stop
      else if t = RrType_CNAME then parse_name_rdata Cname buf pos stop
      else if t = RrType_DNAME then parse_name_rdata Dname buf pos stop
      else if t = RrType_NS then parse_name_rdata Ns buf pos stop
      else if t = RrType_PTR then parse_name_rdata Ptr buf pos stop
      else if t = RrType_MX then parse_mx buf pos stop
      else if t = RrType_SOA then parse_soa buf pos stop
      else if t = RrType_TXT then parse_txt_loop buf pos stop []
      else if t = RrType_SRV then parse_srv buf pos stop
      else if t = RrType_NAPTR then parse_naptr buf pos stop
      else if t = RrType_DS \<or> t = RrType_CDS then parse_ds buf pos stop
      else if t = RrType_DNSKEY \<or> t = RrType_CDNSKEY then parse_dnskey buf pos stop
      else if t = RrType_RRSIG \<or> t = RrType_SIG then parse_rrsig buf pos stop
      else if t = RrType_NSEC then parse_nsec buf pos stop
      else if t = RrType_NSEC3 then parse_nsec3 buf pos stop
      else if t = RrType_NSEC3PARAM then parse_nsec3param buf pos stop
      else if t = RrType_CAA then parse_caa buf pos stop
      else if t = RrType_TLSA \<or> t = RrType_SMIMEA then parse_tlsa buf pos stop
      else if t = RrType_SVCB \<or> t = RrType_HTTPS then parse_svcb buf pos stop
      else parse_unknown buf pos stop)"

definition rdata_parse :: "bytes \<Rightarrow> usize \<Rightarrow> usize \<Rightarrow> rr_type \<Rightarrow> (rdata \<times> usize) result" where
  "rdata_parse buf pos stop t =
     (if stop > length buf then Err (error_wire ''RDATA length exceeds message'')
      else if pos > stop then Err (error_wire ''RDATA cursor past end'')
      else rdata_parser t buf pos stop)"

section \<open>Serialization\<close>

type_synonym wire_out = "name_compressor option \<times> bytes"

definition put_bytes :: "bytes \<Rightarrow> wire_out \<Rightarrow> wire_out" where
  "put_bytes bs w = (fst w, snd w @ bs)"

definition put_name :: "name \<Rightarrow> bool \<Rightarrow> wire_out \<Rightarrow> wire_out" where
  "put_name n allow w =
     (case fst w of
        Some c \<Rightarrow> if allow then (let (c', out) = compressor_write c n (snd w) in (Some c', out))
                  else (Some c, name_write_wire n (snd w))
      | None \<Rightarrow> (None, name_write_wire n (snd w)))"

definition char_string :: "bytes \<Rightarrow> bytes" where
  "char_string s = of_nat (min (length s) 255) # capped s 255"

fun svcb_params :: "(u16 \<times> bytes) list \<Rightarrow> bytes" where
  "svcb_params [] = []"
| "svcb_params ((key, v) # ps) =
     to_be_bytes 2 key @ to_be_bytes 2 (of_nat (min (length v) 0xffff) :: u16) @ capped v 0xffff @ svcb_params ps"

fun rdata_to_wire :: "rdata \<Rightarrow> wire_out \<Rightarrow> wire_out" where
  "rdata_to_wire (A ip) w = put_bytes (to_be_bytes 4 ip) w"
| "rdata_to_wire (Aaaa ip) w = put_bytes (to_be_bytes 16 ip) w"
| "rdata_to_wire (Cname n) w = put_name n True w"
| "rdata_to_wire (Dname n) w = put_name n True w"
| "rdata_to_wire (Ns n) w = put_name n True w"
| "rdata_to_wire (Ptr n) w = put_name n True w"
| "rdata_to_wire (Mx preference exchange) w = put_name exchange True (put_bytes (to_be_bytes 2 preference) w)"
| "rdata_to_wire (Soa mname rname serial refresh retry expire minimum) w =
     put_bytes (to_be_bytes 4 serial @ to_be_bytes 4 refresh @ to_be_bytes 4 retry
                @ to_be_bytes 4 expire @ to_be_bytes 4 minimum)
       (put_name rname True (put_name mname True w))"
| "rdata_to_wire (Txt strings) w = put_bytes (concat (map char_string strings)) w"
| "rdata_to_wire (Srv priority weight port target) w =
     put_name target False (put_bytes (to_be_bytes 2 priority @ to_be_bytes 2 weight @ to_be_bytes 2 port) w)"
| "rdata_to_wire (Naptr ord preference flags services regexp replacement) w =
     put_name replacement False
       (put_bytes (to_be_bytes 2 ord @ to_be_bytes 2 preference
                   @ char_string flags @ char_string services @ char_string regexp) w)"
| "rdata_to_wire (Ds key_tag alg dig digest) w =
     put_bytes (to_be_bytes 2 key_tag @ [dnssec_algorithm_to_u8 alg, ds_digest_type_to_u8 dig] @ digest) w"
| "rdata_to_wire (Dnskey flags protocol alg public_key) w =
     put_bytes (to_be_bytes 2 flags @ [protocol, dnssec_algorithm_to_u8 alg] @ public_key) w"
| "rdata_to_wire (Rrsig type_covered alg labels original_ttl expiration inception key_tag signer signature) w =
     put_bytes signature (put_name signer False
       (put_bytes (to_be_bytes 2 (rr_type_to_u16 type_covered) @ [dnssec_algorithm_to_u8 alg, labels]
          @ to_be_bytes 4 original_ttl @ to_be_bytes 4 expiration @ to_be_bytes 4 inception
          @ to_be_bytes 2 key_tag) w))"
| "rdata_to_wire (Nsec next types) w = (let (c, out) = put_name next False w in (c, write_type_bitmap out types))"
| "rdata_to_wire (Nsec3 hash_alg flags iterations salt next_hashed types) w =
     (let (c, out) = put_bytes ([hash_alg, flags] @ to_be_bytes 2 iterations
                       @ char_string salt @ char_string next_hashed) w
      in (c, write_type_bitmap out types))"
| "rdata_to_wire (Nsec3Param hash_alg flags iterations salt) w =
     put_bytes ([hash_alg, flags] @ to_be_bytes 2 iterations @ char_string salt) w"
| "rdata_to_wire (Caa flags tag val) w = put_bytes ([flags] @ char_string tag @ val) w"
| "rdata_to_wire (Tlsa usage selector matching_type data) w = put_bytes ([usage, selector, matching_type] @ data) w"
| "rdata_to_wire (Svcb priority target params) w =
     put_bytes (svcb_params params) (put_name target False (put_bytes (to_be_bytes 2 priority) w))"
| "rdata_to_wire (Unknown data) w = put_bytes data w"

definition rdata_wire_len :: "rdata \<Rightarrow> usize" where
  "rdata_wire_len rd = length (snd (rdata_to_wire rd (None, [])))"

definition rdata_type_hint :: "rdata \<Rightarrow> rr_type option" where
  "rdata_type_hint rd =
     (case rd of
        A _ \<Rightarrow> Some RrType_A | Aaaa _ \<Rightarrow> Some RrType_AAAA | Cname _ \<Rightarrow> Some RrType_CNAME
      | Dname _ \<Rightarrow> Some RrType_DNAME | Ns _ \<Rightarrow> Some RrType_NS | Ptr _ \<Rightarrow> Some RrType_PTR
      | Mx _ _ \<Rightarrow> Some RrType_MX | Soa _ _ _ _ _ _ _ \<Rightarrow> Some RrType_SOA | Txt _ \<Rightarrow> Some RrType_TXT
      | Srv _ _ _ _ \<Rightarrow> Some RrType_SRV | Naptr _ _ _ _ _ _ \<Rightarrow> Some RrType_NAPTR
      | Ds _ _ _ _ \<Rightarrow> Some RrType_DS | Dnskey _ _ _ _ \<Rightarrow> Some RrType_DNSKEY
      | Rrsig _ _ _ _ _ _ _ _ _ \<Rightarrow> Some RrType_RRSIG | Nsec _ _ \<Rightarrow> Some RrType_NSEC
      | Nsec3 _ _ _ _ _ _ \<Rightarrow> Some RrType_NSEC3 | Nsec3Param _ _ _ _ \<Rightarrow> Some RrType_NSEC3PARAM
      | Caa _ _ _ \<Rightarrow> Some RrType_CAA | Tlsa _ _ _ _ \<Rightarrow> Some RrType_TLSA
      | Svcb _ _ _ \<Rightarrow> Some RrType_SVCB | Unknown _ \<Rightarrow> None)"

section \<open>Records\<close>

definition record_parse :: "bytes \<Rightarrow> usize \<Rightarrow> (dns_record \<times> usize) result" where
  "record_parse buf pos =
     rbind (name_from_wire buf pos) (\<lambda>(n, p0).
     if p0 + 10 > length buf then Err (error_wire ''record header truncated'')
     else rbind (map_err (\<lambda>_. error_wire ''record header truncated'') (u16_at buf p0)) (\<lambda>ty.
     rbind (map_err (\<lambda>_. error_wire ''record header truncated'') (u16_at buf (p0 + 2))) (\<lambda>cl.
     rbind (map_err (\<lambda>_. error_wire ''record header truncated'') (u32_at buf (p0 + 4))) (\<lambda>ttl.
     rbind (map_err (\<lambda>_. error_wire ''record header truncated'') (u16_at buf (p0 + 8))) (\<lambda>rdlen.
     let p = p0 + 10; stop = p + unat rdlen in
     if stop > length buf then Err (error_wire ''record RDATA overruns message'')
     else rbind (if RrType ty = RrType_OPT
                 then rbind (ok_or (error_wire ''RDATA length exceeds the message'') (get_range buf p stop)) (\<lambda>d.
                        Ok (Unknown d))
                 else rbind (rdata_parse buf p stop (RrType ty)) (\<lambda>(rd, _). Ok rd)) (\<lambda>rd.
     Ok (\<lparr>rec_name = n, rec_type = RrType ty, rec_class = RrClass cl, rec_ttl = ttl, rec_rdata = rd\<rparr>, stop)))))))"

definition record_to_wire :: "dns_record \<Rightarrow> wire_out \<Rightarrow> wire_out result" where
  "record_to_wire r w =
     (let w1 = put_bytes (to_be_bytes 2 (rr_type_to_u16 (rec_type r)) @ to_be_bytes 2 (rr_class_to_u16 (rec_class r))
                 @ to_be_bytes 4 (rec_ttl r)) (put_name (rec_name r) True w);
          rdlen_pos = length (snd w1);
          (c, out) = rdata_to_wire (rec_rdata r) (put_bytes [0, 0] w1);
          rdlen = length out - rdlen_pos - 2
      in if rdlen > 65535 then Err (error_wire ''RDATA exceeds the 16-bit length field'')
         else if rdlen_pos + 2 \<le> length out
         then Ok (c, take rdlen_pos out @ to_be_bytes 2 (of_nat rdlen :: u16) @ drop (rdlen_pos + 2) out)
         else Err (error_internal ''RDLENGTH offset out of range''))"

end
