(* ===== verification/Wire_Out.thy ===== *)
theory Wire_Out
  imports Rdata
begin

text \<open>
  The writing side of the codec as an interface.  Output is a pair of the compression table (or
  none) and the bytes written so far.  \<open>out_inv\<close> is the invariant of that pair; \<open>put_bytes\<close> and
  \<open>put_name\<close> keep it and only append, and what they append can be read back from every longer
  buffer.  The locale \<open>wire_codec\<close> states this contract for a serializer with its parser, and
  derives once that a list of items written one after the other is read back item by item; it is
  interpreted for records and for questions.
\<close>

section \<open>Invariant of the output\<close>

definition out_inv :: "wire_out \<Rightarrow> bool" where
  "out_inv w = (case fst w of None \<Rightarrow> True | Some c \<Rightarrow> comp_inv c (snd w))"

abbreviation written :: "wire_out \<Rightarrow> usize" where
  "written w \<equiv> length (snd w)"

lemma snd_put_bytes [simp]: "snd (put_bytes bs w) = snd w @ bs"
  by (simp add: put_bytes_def)

lemma fst_put_bytes [simp]: "fst (put_bytes bs w) = fst w"
  by (simp add: put_bytes_def)

lemma put_bytes_inv [simp]: "out_inv w \<Longrightarrow> out_inv (put_bytes bs w)"
  by (auto simp: out_inv_def comp_inv_mono split: option.splits)

lemma name_wf_nonempty: "wf_name n \<Longrightarrow> name_bytes n \<noteq> []"
  by (elim wf_nameE) (auto simp: encode_labels_body)

lemma read_put_name:
  assumes "out_inv w" and "wf_name n" and "rust_slice buf" and "prefix (snd (put_name n allow w)) buf"
  shows "name_from_wire buf (written w) = Ok (n, written (put_name n allow w))"
proof -
  from assms(4) obtain rest where buf: "buf = snd (put_name n allow w) @ rest" by (auto elim: prefixE)
  show ?thesis
  proof (cases "\<exists>c. fst w = Some c \<and> allow")
    case True
    then obtain c where c: "fst w = Some c" "allow" by blast
    obtain c' out' where wr: "compressor_write c n (snd w) = (c', out')" by fastforce
    with c have "snd (put_name n allow w) = out'" by (simp add: put_name_def)
    with compressor_write_roundtrip [of c "snd w" n c' out' rest] wr c assms buf show ?thesis
      by (simp add: out_inv_def)
  next
    case False
    then have "snd (put_name n allow w) = snd w @ name_bytes n"
      by (auto simp: put_name_def name_write_wire_def split: option.splits)
    moreover from this buf have "occurs buf (written w) (name_bytes n)" using occursI by auto
    ultimately show ?thesis using assms by (simp add: wire_reads)
  qed
qed

lemma put_name_inv [simp]:
  assumes "out_inv w" and "wf_name n"
  shows "out_inv (put_name n allow w)"
proof (cases w)
  case (Pair co out)
  from assms have "comp_inv c (out @ name_bytes n)" if "co = Some c" for c
    using that Pair comp_inv_mono by (auto simp: out_inv_def)
  with Pair assms show ?thesis
    by (auto simp: out_inv_def put_name_def name_write_wire_def dest: compressor_write_inv
        split: option.splits prod.splits)
qed

section \<open>Uniform writers\<close>

text \<open>
  A writer is uniform when the bytes it appends and the table it leaves are a function of the
  table and of the \<^emph>\<open>number\<close> of bytes already written: what those bytes are does not matter.  This
  is what makes it sound for \<^verbatim>\<open>Record::to_wire\<close> to write a placeholder for RDLENGTH and to patch it
  afterwards.
\<close>

definition uniform :: "(wire_out \<Rightarrow> wire_out) \<Rightarrow> bool" where
  "uniform f \<longleftrightarrow> (\<forall>c k. \<exists>c' bs. \<forall>out. length out = k \<longrightarrow> f (c, out) = (c', out @ bs))"

lemma uniform_put_bytes [intro, simp]: "uniform (put_bytes bs)"
  by (auto simp: uniform_def put_bytes_def)

lemma uniform_put_name [intro, simp]: "uniform (put_name n allow)"
  unfolding uniform_def
proof (intro allI)
  fix co :: "name_compressor option" and k :: nat
  show "\<exists>c' bs. \<forall>out. length out = k \<longrightarrow> put_name n allow (co, out) = (c', out @ bs)"
  proof (cases "\<exists>c. co = Some c \<and> allow")
    case True
    then obtain c where "co = Some c" "allow" by blast
    moreover obtain c' bs where "\<forall>out. length out = k \<longrightarrow> compressor_write c n out = (c', out @ bs)"
      using compressor_write_shape by blast
    ultimately show ?thesis by (auto simp: put_name_def intro!: exI [of _ "Some c'"] exI [of _ bs])
  next
    case False
    then show ?thesis
      by (auto simp: put_name_def name_write_wire_def split: option.splits
          intro!: exI [of _ co] exI [of _ "name_bytes n"])
  qed
qed

lemma uniform_comp [intro]:
  assumes "uniform f" and "uniform g"
  shows "uniform (\<lambda>w. f (g w))"
  unfolding uniform_def
proof (intro allI)
  fix c k
  obtain c1 b1 where g: "\<forall>out. length out = k \<longrightarrow> g (c, out) = (c1, out @ b1)"
    using assms(2) unfolding uniform_def by blast
  obtain c2 b2 where f: "\<forall>out. length out = k + length b1 \<longrightarrow> f (c1, out) = (c2, out @ b2)"
    using assms(1) unfolding uniform_def by blast
  from f g show "\<exists>c' bs. \<forall>out. length out = k \<longrightarrow> f (g (c, out)) = (c', out @ bs)"
    by (auto intro!: exI [of _ c2] exI [of _ "b1 @ b2"])
qed

lemma uniform_prefix:
  assumes "uniform f"
  shows "prefix (snd w) (snd (f w))"
proof (cases w)
  case (Pair c out)
  then show ?thesis using assms by (metis prefixI snd_conv uniform_def)
qed

lemma uniform_rebase:
  assumes "uniform f" and "length out = length out'" and "f (c, out) = (c', out @ bs)"
  shows "f (c, out') = (c', out' @ bs)"
  using assms unfolding uniform_def by (metis Pair_inject same_append_eq)

lemma write_type_bitmap_appends: "write_type_bitmap out types = out @ write_type_bitmap [] types"
  by (simp add: write_type_bitmap_def write_windows_append)

lemma put_bitmap:
  "(let (c, out) = w in (c, write_type_bitmap out types)) = put_bytes (write_type_bitmap [] types) w"
  using write_type_bitmap_appends [of "snd w" types] by (cases w) (simp add: put_bytes_def)

lemma uniform_eq: "uniform g \<Longrightarrow> (\<And>w. f w = g w) \<Longrightarrow> uniform f"
  by (simp add: uniform_def)

lemma uniform_id: "uniform (\<lambda>w. w)"
  by (simp add: uniform_def)

lemmas uniform_puts = uniform_id
  uniform_comp [where f = "put_bytes bs" for bs, OF uniform_put_bytes]
  uniform_comp [where f = "put_name n allow" for n allow, OF uniform_put_name]

lemma uniform_rdata: "uniform (rdata_to_wire rd)"
  by (cases rd; rule uniform_eq [rotated], simp only: rdata_to_wire.simps put_bitmap)
    (rule uniform_puts uniform_put_bytes uniform_put_name)+

section \<open>Fallible writers and lists of items\<close>

definition uniform_result :: "(wire_out \<Rightarrow> wire_out result) \<Rightarrow> bool" where
  "uniform_result f \<longleftrightarrow> (\<forall>c k. (\<exists>e. \<forall>out. length out = k \<longrightarrow> f (c, out) = Err e) \<or>
     (\<exists>c' bs. \<forall>out. length out = k \<longrightarrow> f (c, out) = Ok (c', out @ bs)))"

fun put_all :: "('a \<Rightarrow> wire_out \<Rightarrow> wire_out result) \<Rightarrow> 'a list \<Rightarrow> wire_out \<Rightarrow> wire_out result" where
  "put_all put [] w = Ok w"
| "put_all put (x # xs) w = rbind (put x w) (put_all put xs)"

fun get_many :: "(bytes \<Rightarrow> usize \<Rightarrow> ('a \<times> usize) result) \<Rightarrow> nat \<Rightarrow> bytes \<Rightarrow> usize \<Rightarrow> ('a list \<times> usize) result" where
  "get_many get 0 buf pos = Ok ([], pos)"
| "get_many get (Suc n) buf pos =
     rbind (get buf pos) (\<lambda>(x, p). rbind (get_many get n buf p) (\<lambda>(xs, q). Ok (x # xs, q)))"

lemma uniform_resultD:
  assumes "uniform_result f" and "f (c, out) = Ok w'"
  obtains bs where "w' = (fst w', out @ bs)"
    and "\<And>out'. length out' = length out \<Longrightarrow> f (c, out') = Ok (fst w', out' @ bs)"
proof -
  from assms(1) consider e where "\<forall>out'. length out' = length out \<longrightarrow> f (c, out') = Err e"
    | c' bs where "\<forall>out'. length out' = length out \<longrightarrow> f (c, out') = Ok (c', out' @ bs)"
    unfolding uniform_result_def by metis
  then show thesis using assms(2) that by cases auto
qed

lemma uniform_result_prefix: "uniform_result f \<Longrightarrow> f w = Ok w' \<Longrightarrow> prefix (snd w) (snd w')"
  by (cases w; cases w') (auto elim: uniform_resultD)

lemma uniform_result_Ok [intro]: "uniform f \<Longrightarrow> uniform_result (\<lambda>w. Ok (f w))"
  unfolding uniform_def uniform_result_def by simp

lemma uniform_result_bind [intro]:
  assumes "uniform_result f" and "uniform_result g"
  shows "uniform_result (\<lambda>w. rbind (f w) g)"
  unfolding uniform_result_def
proof (intro allI)
  fix c k
  show "(\<exists>e. \<forall>out. length out = k \<longrightarrow> rbind (f (c, out)) g = Err e) \<or>
      (\<exists>c' bs. \<forall>out. length out = k \<longrightarrow> rbind (f (c, out)) g = Ok (c', out @ bs))"
  proof (cases "\<exists>e. \<forall>out. length out = k \<longrightarrow> f (c, out) = Err e")
    case True
    then show ?thesis by auto
  next
    case False
    with assms(1) obtain c1 b1 where f: "\<forall>out. length out = k \<longrightarrow> f (c, out) = Ok (c1, out @ b1)"
      unfolding uniform_result_def by blast
    from assms(2) consider e where "\<forall>out. length out = k + length b1 \<longrightarrow> g (c1, out) = Err e"
      | c2 b2 where "\<forall>out. length out = k + length b1 \<longrightarrow> g (c1, out) = Ok (c2, out @ b2)"
      unfolding uniform_result_def by metis
    then show ?thesis
    proof cases
      case 2
      with f show ?thesis by (intro disjI2 exI [of _ c2] exI [of _ "b1 @ b2"]) simp
    qed (use f in auto)
  qed
qed

locale wire_codec =
  fixes put :: "'a \<Rightarrow> wire_out \<Rightarrow> wire_out result"
    and get :: "bytes \<Rightarrow> usize \<Rightarrow> ('a \<times> usize) result"
    and ok :: "'a \<Rightarrow> bool"
    and norm :: "'a \<Rightarrow> 'a"
  assumes put_uniform: "uniform_result (put x)"
    and put_inv: "out_inv w \<Longrightarrow> ok x \<Longrightarrow> put x w = Ok w' \<Longrightarrow> out_inv w'"
    and get_put: "out_inv w \<Longrightarrow> ok x \<Longrightarrow> put x w = Ok w' \<Longrightarrow> rust_slice buf \<Longrightarrow> prefix (snd w') buf \<Longrightarrow>
      get buf (written w) = Ok (norm x, written w')"
    and get_ok: "rust_slice buf \<Longrightarrow> get buf p = Ok (x, q) \<Longrightarrow> ok x"
begin

lemma put_all_uniform: "uniform_result (put_all put xs)"
proof (induction xs)
  case Nil
  show ?case using uniform_result_Ok [OF uniform_id] by simp
next
  case (Cons x xs)
  have "put_all put (x # xs) = (\<lambda>w. rbind (put x w) (put_all put xs))" by auto
  with Cons put_uniform [of x] show ?case by auto
qed

lemma put_all_inv: "out_inv w \<Longrightarrow> list_all ok xs \<Longrightarrow> put_all put xs w = Ok w' \<Longrightarrow> out_inv w'"
  by (induction xs arbitrary: w) (auto dest: put_inv)

lemma get_put_all:
  "out_inv w \<Longrightarrow> list_all ok xs \<Longrightarrow> put_all put xs w = Ok w' \<Longrightarrow> rust_slice buf \<Longrightarrow> prefix (snd w') buf \<Longrightarrow>
   get_many get (length xs) buf (written w) = Ok (map norm xs, written w')"
proof (induction xs arbitrary: w)
  case (Cons x xs)
  then obtain w1 where w1: "put x w = Ok w1" "put_all put xs w1 = Ok w'" by auto
  then have "prefix (snd w1) buf"
    using uniform_result_prefix [OF put_all_uniform] Cons.prems(5) prefix_order.trans by blast
  with w1 Cons.prems have "get buf (written w) = Ok (norm x, written w1)"
    by (intro get_put) auto
  moreover have "get_many get (length xs) buf (written w1) = Ok (map norm xs, written w')"
    using w1 Cons.prems put_inv [OF Cons.prems(1) _ w1(1)] by (intro Cons.IH) simp_all
  ultimately show ?case by simp
qed simp

lemma get_many_ok: "rust_slice buf \<Longrightarrow> get_many get n buf p = Ok (xs, q) \<Longrightarrow> list_all ok xs \<and> length xs = n"
  by (induction n arbitrary: p xs) (fastforce dest: get_ok)+

end

end
