(* ===== verification/Rdata_Roundtrip.thy ===== *)
theory Rdata_Roundtrip
  imports Wire_Out
begin

text \<open>
  What \<^verbatim>\<open>RData::parse\<close> and \<^verbatim>\<open>Record::parse\<close> make of the bytes that \<^verbatim>\<open>to_wire\<close> wrote.  \<open>rdata_fits t rd\<close>
  says which payloads are encodable as type \<open>t\<close>: the constructor is the one \<open>t\<close> selects, names
  are well formed and strings fit their length octets.  For those the parser returns the
  payload that was written, up to the order and repetition of the types of an NSEC bitmap
  (\<open>rdata_norm\<close>).
\<close>

section \<open>Encodable payloads\<close>

definition parsed_types :: "rr_type list" where
  "parsed_types = [RrType_A, RrType_AAAA, RrType_CNAME, RrType_DNAME, RrType_NS, RrType_PTR, RrType_MX,
     RrType_SOA, RrType_TXT, RrType_SRV, RrType_NAPTR, RrType_DS, RrType_CDS, RrType_DNSKEY, RrType_CDNSKEY,
     RrType_RRSIG, RrType_SIG, RrType_NSEC, RrType_NSEC3, RrType_NSEC3PARAM, RrType_CAA, RrType_TLSA,
     RrType_SMIMEA, RrType_SVCB, RrType_HTTPS]"

abbreviation short_string :: "bytes \<Rightarrow> bool" where
  "short_string s \<equiv> length s \<le> 255"

fun rdata_fits :: "rr_type \<Rightarrow> rdata \<Rightarrow> bool" where
  "rdata_fits t (A _) \<longleftrightarrow> t = RrType_A"
| "rdata_fits t (Aaaa _) \<longleftrightarrow> t = RrType_AAAA"
| "rdata_fits t (Cname n) \<longleftrightarrow> t = RrType_CNAME \<and> wf_name n"
| "rdata_fits t (Dname n) \<longleftrightarrow> t = RrType_DNAME \<and> wf_name n"
| "rdata_fits t (Ns n) \<longleftrightarrow> t = RrType_NS \<and> wf_name n"
| "rdata_fits t (Ptr n) \<longleftrightarrow> t = RrType_PTR \<and> wf_name n"
| "rdata_fits t (Mx _ n) \<longleftrightarrow> t = RrType_MX \<and> wf_name n"
| "rdata_fits t (Soa m r _ _ _ _ _) \<longleftrightarrow> t = RrType_SOA \<and> wf_name m \<and> wf_name r"
| "rdata_fits t (Txt strings) \<longleftrightarrow> t = RrType_TXT \<and> list_all short_string strings"
| "rdata_fits t (Srv _ _ _ n) \<longleftrightarrow> t = RrType_SRV \<and> wf_name n"
| "rdata_fits t (Naptr _ _ a b c n) \<longleftrightarrow>
     t = RrType_NAPTR \<and> short_string a \<and> short_string b \<and> short_string c \<and> wf_name n"
| "rdata_fits t (Ds _ _ _ _) \<longleftrightarrow> t = RrType_DS \<or> t = RrType_CDS"
| "rdata_fits t (Dnskey _ _ _ _) \<longleftrightarrow> t = RrType_DNSKEY \<or> t = RrType_CDNSKEY"
| "rdata_fits t (Rrsig _ _ _ _ _ _ _ n _) \<longleftrightarrow> (t = RrType_RRSIG \<or> t = RrType_SIG) \<and> wf_name n"
| "rdata_fits t (Nsec n _) \<longleftrightarrow> t = RrType_NSEC \<and> wf_name n"
| "rdata_fits t (Nsec3 _ _ _ a b _) \<longleftrightarrow> t = RrType_NSEC3 \<and> short_string a \<and> short_string b"
| "rdata_fits t (Nsec3Param _ _ _ a) \<longleftrightarrow> t = RrType_NSEC3PARAM \<and> short_string a"
| "rdata_fits t (Caa _ a _) \<longleftrightarrow> t = RrType_CAA \<and> short_string a"
| "rdata_fits t (Tlsa _ _ _ _) \<longleftrightarrow> t = RrType_TLSA \<or> t = RrType_SMIMEA"
| "rdata_fits t (Svcb _ n ps) \<longleftrightarrow>
     (t = RrType_SVCB \<or> t = RrType_HTTPS) \<and> wf_name n \<and> list_all (\<lambda>(k, v). length v \<le> 65535) ps"
| "rdata_fits t (Unknown _) \<longleftrightarrow> t \<notin> set parsed_types"

definition norm_types :: "rr_type list \<Rightarrow> rr_type list" where
  "norm_types ts = map RrType (remdups_adj (sort (map rr_type_to_u16 ts)))"

fun rdata_norm :: "rdata \<Rightarrow> rdata" where
  "rdata_norm (Nsec n ts) = Nsec n (norm_types ts)"
| "rdata_norm (Nsec3 h f i s nx ts) = Nsec3 h f i s nx (norm_types ts)"
| "rdata_norm rd = rd"

section \<open>Reading fields back\<close>

lemma rd_u16_at_occurs [wire_reads]:
  "occurs buf p (to_be_bytes 2 v) \<Longrightarrow> rust_slice buf \<Longrightarrow> p + 2 \<le> stop \<Longrightarrow> rd_u16_at buf stop p = Ok v"
  by (simp add: rd_u16_at_def u16_at_occurs)

lemma rd_u32_at_occurs [wire_reads]:
  "occurs buf p (to_be_bytes 4 v) \<Longrightarrow> rust_slice buf \<Longrightarrow> p + 4 \<le> stop \<Longrightarrow> rd_u32_at buf stop p = Ok v"
  by (simp add: rd_u32_at_def u32_at_occurs)

lemma rd_b_at_nth [wire_reads]: "p < length buf \<Longrightarrow> p < stop \<Longrightarrow> rd_b_at buf stop p = Ok (buf ! p)"
  by (simp add: rd_b_at_def byte_at_nth)

lemma get_range_occurs [wire_reads]: "occurs buf p bs \<Longrightarrow> q = p + length bs \<Longrightarrow> get_range buf p q = Some bs"
  by (simp add: get_range_def occurs_def)

lemma rd_tail_occurs [wire_reads]: "occurs buf p bs \<Longrightarrow> stop = p + length bs \<Longrightarrow> rd_tail buf stop p = Ok bs"
  by (simp add: rd_tail_def get_range_occurs)

lemma need_ok [simp]: "need l n = Ok u \<longleftrightarrow> n \<le> l"
  by (simp add: need_def)

lemma need_enough [wire_reads]: "n \<le> l \<Longrightarrow> need l n = Ok ()"
  by simp

lemma length_char_string [simp]: "short_string s \<Longrightarrow> length (char_string s) = length s + 1"
  by (simp add: char_string_def capped_take)

lemma char_string_occurs:
  "short_string s \<Longrightarrow> occurs buf p (char_string s) \<longleftrightarrow>
     p < length buf \<and> unat (buf ! p) = length s \<and> occurs buf (Suc p) s"
  by (auto simp: char_string_def capped_take occurs_Cons unat_of_nat take_bit_eq_mod word_unat_eq_iff)

lemma read_char_string_occurs [wire_reads]:
  "occurs buf p (char_string s) \<Longrightarrow> short_string s \<Longrightarrow> p + length s + 1 \<le> stop \<Longrightarrow>
   read_char_string buf p stop = Ok (s, p + length s + 1)"
  by (auto simp: read_char_string_def char_string_occurs byte_at_nth wire_reads)

lemma prefix_occurs: "prefix (out @ bs) buf \<Longrightarrow> occurs buf (length out) bs"
  by (auto simp: prefix_def occurs_def)

lemma put_name_longer:
  assumes "out_inv w" and "wf_name n"
  shows "written w < written (put_name n allow w)"
proof -
  from assms(2) obtain ls where n: "n = Name (encode_labels ls)" "wf_labels ls" by (rule wf_nameE)
  obtain co out where w: "w = (co, out)" by (cases w)
  have "length out < length out'" if "comp_inv c out" "compressor_write c n out = (c', out')" for c c' out'
    using compressor_write_correct [OF that(1), of ls c' out'] that(2) n name_at_end [of _ "length out" ls]
    by (fastforce simp: wf_labels_def)
  moreover have "name_bytes n \<noteq> []" using assms(2) by (rule name_wf_nonempty)
  ultimately show ?thesis using assms(1) w
    by (auto simp: put_name_def name_write_wire_def out_inv_def split: option.splits prod.splits)
qed

lemma put_name_prefix: "prefix (snd (put_name n allow w)) buf \<Longrightarrow> prefix (snd w) buf"
  using uniform_prefix [OF uniform_put_name] prefix_order.trans by blast

lemma rd_name_exact_all [wire_reads]:
  "rd_read_name buf stop p = Ok (n, stop) \<Longrightarrow> rd_name_exact buf stop p = Ok (n, stop)"
  by (simp add: rd_name_exact_def)

lemma put_bytes_Nil: "w = put_bytes [] w"
  by (simp add: put_bytes_def)

text \<open>The layout of most payloads: fixed fields, a name, and more fields.\<close>

lemma framed_name:
  assumes "out_inv w" and "wf_name n" and "rust_slice buf"
    and w': "w' = put_bytes post (put_name n allow (put_bytes pre w))" and buf: "prefix (snd w') buf"
  obtains p where "occurs buf (written w) pre" and "written w + length pre < p"
    and "rd_read_name buf (written w') (written w + length pre) = Ok (n, p)"
    and "occurs buf p post" and "written w' = p + length post"
proof -
  let ?w1 = "put_bytes pre w"
  let ?w2 = "put_name n allow ?w1"
  have w2: "prefix (snd ?w2) buf" using buf w' by (auto dest: append_prefixD)
  then have "occurs buf (written w) pre"
    using put_name_prefix prefix_occurs by fastforce
  moreover have "written ?w1 < written ?w2" by (intro put_name_longer put_bytes_inv assms)
  moreover have "name_from_wire buf (written ?w1) = Ok (n, written ?w2)"
    using assms w2 by (intro read_put_name) simp_all
  moreover have "occurs buf (written ?w2) post" using buf w' by (auto intro: prefix_occurs)
  ultimately show thesis using that [of "written ?w2"] w' by (simp add: rd_read_name_def)
qed

lemma parse_type_bitmap_occurs [wire_reads]:
  "occurs buf p (write_type_bitmap [] types) \<Longrightarrow> stop = p + length (write_type_bitmap [] types) \<Longrightarrow>
   parse_type_bitmap buf p stop = Ok (norm_types types, stop)"
  using parse_write_type_bitmap [of buf p "write_type_bitmap [] types" types] by (simp add: norm_types_def)

section \<open>Each parser reads what was written\<close>

lemma parse_a_put:
  "rust_slice buf \<Longrightarrow> occurs buf p (to_be_bytes 4 ip) \<Longrightarrow> parse_a buf p (p + 4) = Ok (A ip, p + 4)"
  by (simp add: parse_a_def wire_reads)

lemma from_to_be_bytes_128 [simp]: "from_be_bytes (to_be_bytes 16 (w :: u128)) = w"
  using from_to_be_bytes [of 16 w] by (simp add: take_bit_word_eq_self)

lemma parse_aaaa_put:
  "rust_slice buf \<Longrightarrow> occurs buf p (to_be_bytes 16 ip) \<Longrightarrow> parse_aaaa buf p (p + 16) = Ok (Aaaa ip, p + 16)"
  by (simp add: parse_aaaa_def wire_reads)

lemma parse_name_rdata_put:
  assumes "out_inv w" "wf_name n" "rust_slice buf" and "w' = put_name n allow w" and "prefix (snd w') buf"
  shows "parse_name_rdata mk buf (written w) (written w') = Ok (mk n, written w')"
proof -
  have "w' = put_bytes [] (put_name n allow (put_bytes [] w))" using assms(4) by (simp add: put_bytes_def)
  from framed_name [OF assms(1-3) this assms(5)] show ?thesis
    by (force simp: parse_name_rdata_def wire_reads)
qed

lemma parse_mx_put:
  assumes "out_inv w" "wf_name n" "rust_slice buf" and "w' = rdata_to_wire (Mx pref n) w" and "prefix (snd w') buf"
  shows "parse_mx buf (written w) (written w') = Ok (Mx pref n, written w')"
proof -
  have w': "w' = put_bytes [] (put_name n True (put_bytes (to_be_bytes 2 pref) w))"
    using assms(4) by (simp add: put_bytes_def)
  show ?thesis
    by (rule framed_name [OF assms(1-3) w' assms(5)]) (use assms(3) in \<open>clarsimp simp: parse_mx_def wire_reads ac_simps simp del: rbind_eq_Ok add_2_eq_Suc'\<close>)
qed

lemma parse_srv_put:
  assumes "out_inv w" "wf_name n" "rust_slice buf" and "w' = rdata_to_wire (Srv prio weight port n) w" and "prefix (snd w') buf"
  shows "parse_srv buf (written w) (written w') = Ok (Srv prio weight port n, written w')"
proof -
  have w': "w' = put_bytes [] (put_name n False (put_bytes (to_be_bytes 2 prio @ to_be_bytes 2 weight @ to_be_bytes 2 port) w))"
    using assms(4) by (simp add: put_bytes_def)
  show ?thesis
    by (rule framed_name [OF assms(1-3) w' assms(5)]) (use assms(3) in \<open>clarsimp simp: parse_srv_def wire_reads ac_simps simp del: rbind_eq_Ok add_2_eq_Suc'\<close>)
qed

lemma parse_naptr_put:
  assumes "out_inv w" "wf_name n" "rust_slice buf" and "w' = rdata_to_wire (Naptr ord pref flags services regexp n) w" and "prefix (snd w') buf"
    and "short_string flags" "short_string services" "short_string regexp"
  shows "parse_naptr buf (written w) (written w') = Ok (Naptr ord pref flags services regexp n, written w')"
proof -
  have w': "w' = put_bytes [] (put_name n False (put_bytes (to_be_bytes 2 ord @ to_be_bytes 2 pref
      @ char_string flags @ char_string services @ char_string regexp) w))"
    using assms(4) by (simp add: put_bytes_def)
  show ?thesis
    by (rule framed_name [OF assms(1-3) w' assms(5)]) (use assms(3,6-8) in \<open>clarsimp simp: parse_naptr_def wire_reads ac_simps simp del: rbind_eq_Ok add_2_eq_Suc'\<close>)
qed

lemma parse_rrsig_put:
  assumes "out_inv w" "wf_name n" "rust_slice buf" and "w' = rdata_to_wire (Rrsig ty alg labels ottl expiry inception tag n sig) w" and "prefix (snd w') buf"
  shows "parse_rrsig buf (written w) (written w') = Ok (Rrsig ty alg labels ottl expiry inception tag n sig, written w')"
proof -
  have w': "w' = put_bytes sig (put_name n False (put_bytes (to_be_bytes 2 (rr_type_to_u16 ty) @ [dnssec_algorithm_to_u8 alg, labels]
      @ to_be_bytes 4 ottl @ to_be_bytes 4 expiry @ to_be_bytes 4 inception @ to_be_bytes 2 tag) w))"
    using assms(4) by (simp add: put_bytes_def)
  show ?thesis
    by (rule framed_name [OF assms(1-3) w' assms(5)]) (use assms(3) in \<open>clarsimp simp: parse_rrsig_def wire_reads ac_simps occurs_Cons simp del: rbind_eq_Ok add_2_eq_Suc'\<close>)
qed

lemma parse_nsec_put:
  assumes "out_inv w" "wf_name n" "rust_slice buf" and "w' = rdata_to_wire (Nsec n types) w" and "prefix (snd w') buf"
  shows "parse_nsec buf (written w) (written w') = Ok (Nsec n (norm_types types), written w')"
proof -
  have w': "w' = put_bytes (write_type_bitmap [] types) (put_name n False (put_bytes [] w))"
    using assms(4) by (simp add: put_bitmap put_bytes_Nil [symmetric])
  show ?thesis
    by (rule framed_name [OF assms(1-3) w' assms(5)]) (use assms(3) in \<open>clarsimp simp: parse_nsec_def wire_reads ac_simps simp del: rbind_eq_Ok add_2_eq_Suc'\<close>)
qed

lemma numeral_4_eq_4: "4 = Suc (Suc (Suc (Suc 0)))" and numeral_5_eq_5: "5 = Suc (Suc (Suc (Suc (Suc 0))))"
  by simp_all

lemmas small_numerals = numeral_2_eq_2 numeral_3_eq_3 numeral_4_eq_4 numeral_5_eq_5

lemma parse_soa_put:
  assumes "out_inv w" "wf_name m" "wf_name r" "rust_slice buf"
    and "w' = rdata_to_wire (Soa m r serial refresh retry expire minimum) w" and "prefix (snd w') buf"
  shows "parse_soa buf (written w) (written w') = Ok (Soa m r serial refresh retry expire minimum, written w')"
proof -
  let ?w1 = "put_name m True w"
  let ?fixed = "to_be_bytes 4 serial @ to_be_bytes 4 refresh @ to_be_bytes 4 retry @ to_be_bytes 4 expire
    @ to_be_bytes 4 minimum"
  have w': "w' = put_bytes ?fixed (put_name r True (put_bytes [] ?w1))"
    using assms(5) by (simp flip: put_bytes_Nil)
  have inv: "out_inv ?w1" using assms by simp
  have w1: "prefix (snd ?w1) buf"
    using assms(6) unfolding w' put_bytes_Nil [symmetric] snd_put_bytes
    by (blast dest: append_prefixD put_name_prefix)
  define p1 where "p1 = written ?w1"
  have n: "name_from_wire buf (written w) = Ok (m, p1)"
    unfolding p1_def using assms w1 by (intro read_put_name)
  have l: "written w < p1" unfolding p1_def using assms by (intro put_name_longer)
  obtain p where p: "p1 < p" "rd_read_name buf (written w') p1 = Ok (r, p)" "occurs buf p ?fixed" "written w' = p + 20"
    by (rule framed_name [OF inv assms(3,4) w' assms(6)]) (simp add: p1_def)
  from n l p(1,4) have "rd_read_name buf (written w') (written w) = Ok (m, p1)"
    by (simp add: rd_read_name_def)
  with p l assms(4) show ?thesis by (clarsimp simp: parse_soa_def wire_reads ac_simps simp del: rbind_eq_Ok)
qed

lemma parse_txt_loop_put:
  "rust_slice buf \<Longrightarrow> occurs buf p (concat (map char_string ss)) \<Longrightarrow> list_all short_string ss \<Longrightarrow>
   stop = p + length (concat (map char_string ss)) \<Longrightarrow>
   parse_txt_loop buf p stop strings = Ok (Txt (strings @ ss), stop)"
proof (induction ss arbitrary: p strings)
  case Nil
  then show ?case by (subst parse_txt_loop.simps) simp
next
  case (Cons s ss)
  from Cons.prems have "unat (buf ! p) = length s" "p < length buf" "occurs buf (Suc p) s"
    by (auto simp: char_string_occurs)
  moreover have "parse_txt_loop buf (p + 1 + length s) stop (strings @ [s]) = Ok (Txt (strings @ s # ss), stop)"
    using Cons.IH [of "p + 1 + length s" "strings @ [s]"] Cons.prems by (simp add: ac_simps)
  ultimately show ?case using Cons.prems
    by (subst parse_txt_loop.simps) (simp add: byte_at_nth get_range_occurs [of _ _ s] Let_def ac_simps)
qed

lemma svcb_params_length:
  "list_all (\<lambda>(k, v). length v \<le> 65535) ps \<Longrightarrow> length (svcb_params ps) = sum_list (map (\<lambda>(k, v). 4 + length v) ps)"
  by (induction ps) (auto simp: capped_take)

lemma parse_svcb_loop_put:
  "rust_slice buf \<Longrightarrow> occurs buf p (svcb_params ps) \<Longrightarrow> list_all (\<lambda>(k, v). length v \<le> 65535) ps \<Longrightarrow>
   stop = p + length (svcb_params ps) \<Longrightarrow>
   parse_svcb_loop buf p stop params = Ok (params @ ps, stop)"
proof (induction ps arbitrary: p params)
  case Nil
  then show ?case by (subst parse_svcb_loop.simps) simp
next
  case (Cons kv ps)
  obtain k v where kv: "kv = (k, v)" by (cases kv)
  from Cons.prems kv have v: "length v \<le> 65535" by simp
  then have l: "unat (of_nat (length v) :: u16) = length v" by (simp add: unat_of_nat take_bit_eq_mod)
  from Cons.prems kv v have occ: "occurs buf p (to_be_bytes 2 k)" "occurs buf (p + 2) (to_be_bytes 2 (of_nat (length v) :: u16))"
      "occurs buf (p + 4) v" and stop: "p + 4 + length v \<le> stop"
    by (simp_all add: capped_take numeral_4_eq_4)
  have "parse_svcb_loop buf (p + 4 + length v) stop (params @ [(k, v)]) = Ok (params @ kv # ps, stop)"
    using Cons.IH [of "p + 4 + length v" "params @ [(k, v)]"] Cons.prems kv v by (simp add: capped_take numeral_4_eq_4 ac_simps)
  moreover have "rd_u16_at buf stop p = Ok k" "rd_u16_at buf stop (p + 2) = Ok (of_nat (length v))"
    using occ stop Cons.prems(1) by (simp_all add: wire_reads)
  moreover have "get_range buf (p + 4) (p + 4 + length v) = Some v" using occ by (simp add: wire_reads)
  ultimately show ?case using stop l by (subst parse_svcb_loop.simps) (simp add: Let_def)
qed

lemma parse_ds_put:
  "rust_slice buf \<Longrightarrow> occurs buf p (to_be_bytes 2 tag @ [dnssec_algorithm_to_u8 alg, ds_digest_type_to_u8 dig] @ digest) \<Longrightarrow> stop = p + length (to_be_bytes 2 tag @ [dnssec_algorithm_to_u8 alg, ds_digest_type_to_u8 dig] @ digest) \<Longrightarrow>
   parse_ds buf p stop = Ok (Ds tag alg dig digest, stop)"
  by (clarsimp simp: parse_ds_def occurs_Cons wire_reads small_numerals ac_simps simp del: rbind_eq_Ok)

lemma parse_dnskey_put:
  "rust_slice buf \<Longrightarrow> occurs buf p (to_be_bytes 2 flags @ [protocol, dnssec_algorithm_to_u8 alg] @ key) \<Longrightarrow> stop = p + length (to_be_bytes 2 flags @ [protocol, dnssec_algorithm_to_u8 alg] @ key) \<Longrightarrow>
   parse_dnskey buf p stop = Ok (Dnskey flags protocol alg key, stop)"
  by (clarsimp simp: parse_dnskey_def occurs_Cons wire_reads small_numerals ac_simps simp del: rbind_eq_Ok)

lemma parse_tlsa_put:
  "rust_slice buf \<Longrightarrow> occurs buf p ([usage, selector, mtype] @ data) \<Longrightarrow> stop = p + length ([usage, selector, mtype] @ data) \<Longrightarrow>
   parse_tlsa buf p stop = Ok (Tlsa usage selector mtype data, stop)"
  by (clarsimp simp: parse_tlsa_def occurs_Cons wire_reads small_numerals ac_simps simp del: rbind_eq_Ok)

lemma parse_unknown_put:
  "rust_slice buf \<Longrightarrow> occurs buf p (data) \<Longrightarrow> stop = p + length (data) \<Longrightarrow>
   parse_unknown buf p stop = Ok (Unknown data, stop)"
  by (clarsimp simp: parse_unknown_def occurs_Cons wire_reads small_numerals ac_simps simp del: rbind_eq_Ok)

lemma parse_caa_put:
  "rust_slice buf \<Longrightarrow> occurs buf p ([flags] @ char_string tag @ val) \<Longrightarrow> stop = p + length ([flags] @ char_string tag @ val) \<Longrightarrow> short_string tag \<Longrightarrow>
   parse_caa buf p stop = Ok (Caa flags tag val, stop)"
  by (clarsimp simp: parse_caa_def occurs_Cons wire_reads small_numerals ac_simps char_string_occurs Let_def simp del: rbind_eq_Ok)

lemma parse_nsec3param_put:
  "rust_slice buf \<Longrightarrow> occurs buf p ([h, flags] @ to_be_bytes 2 iters @ char_string salt) \<Longrightarrow> stop = p + length ([h, flags] @ to_be_bytes 2 iters @ char_string salt) \<Longrightarrow> short_string salt \<Longrightarrow>
   parse_nsec3param buf p stop = Ok (Nsec3Param h flags iters salt, stop)"
  by (clarsimp simp: parse_nsec3param_def occurs_Cons wire_reads small_numerals ac_simps char_string_occurs Let_def simp del: rbind_eq_Ok)

lemma parse_nsec3_put:
  "rust_slice buf \<Longrightarrow> occurs buf p ([h, flags] @ to_be_bytes 2 iters @ char_string salt @ char_string nxt @ write_type_bitmap [] types) \<Longrightarrow> stop = p + length ([h, flags] @ to_be_bytes 2 iters @ char_string salt @ char_string nxt @ write_type_bitmap [] types) \<Longrightarrow> short_string salt \<Longrightarrow> short_string nxt \<Longrightarrow>
   parse_nsec3 buf p stop = Ok (Nsec3 h flags iters salt nxt (norm_types types), stop)"
  by (clarsimp simp: parse_nsec3_def occurs_Cons wire_reads small_numerals ac_simps char_string_occurs Let_def simp del: rbind_eq_Ok)

lemma parse_svcb_put:
  assumes "out_inv w" "wf_name n" "rust_slice buf" and "w' = rdata_to_wire (Svcb prio n ps) w" and "prefix (snd w') buf"
    and "list_all (\<lambda>(k, v). length v \<le> 65535) ps"
  shows "parse_svcb buf (written w) (written w') = Ok (Svcb prio n ps, written w')"
proof -
  have w': "w' = put_bytes (svcb_params ps) (put_name n False (put_bytes (to_be_bytes 2 prio) w))"
    using assms(4) by simp
  show ?thesis
    by (rule framed_name [OF assms(1-3) w' assms(5)])
      (use assms(3,6) in \<open>clarsimp simp: parse_svcb_def parse_svcb_loop_put wire_reads ac_simps
         simp del: rbind_eq_Ok add_2_eq_Suc'\<close>)
qed

section \<open>RDATA\<close>

fun parser_for :: "rdata \<Rightarrow> bytes \<Rightarrow> usize \<Rightarrow> usize \<Rightarrow> (rdata \<times> usize) result" where
  "parser_for (A _) = parse_a"
| "parser_for (Aaaa _) = parse_aaaa"
| "parser_for (Cname _) = parse_name_rdata Cname"
| "parser_for (Dname _) = parse_name_rdata Dname"
| "parser_for (Ns _) = parse_name_rdata Ns"
| "parser_for (Ptr _) = parse_name_rdata Ptr"
| "parser_for (Mx _ _) = parse_mx"
| "parser_for (Soa _ _ _ _ _ _ _) = parse_soa"
| "parser_for (Txt _) = (\<lambda>buf pos stop. parse_txt_loop buf pos stop [])"
| "parser_for (Srv _ _ _ _) = parse_srv"
| "parser_for (Naptr _ _ _ _ _ _) = parse_naptr"
| "parser_for (Ds _ _ _ _) = parse_ds"
| "parser_for (Dnskey _ _ _ _) = parse_dnskey"
| "parser_for (Rrsig _ _ _ _ _ _ _ _ _) = parse_rrsig"
| "parser_for (Nsec _ _) = parse_nsec"
| "parser_for (Nsec3 _ _ _ _ _ _) = parse_nsec3"
| "parser_for (Nsec3Param _ _ _ _) = parse_nsec3param"
| "parser_for (Caa _ _ _) = parse_caa"
| "parser_for (Tlsa _ _ _ _) = parse_tlsa"
| "parser_for (Svcb _ _ _) = parse_svcb"
| "parser_for (Unknown _) = parse_unknown"

lemma rdata_parser_of: "rdata_fits t rd \<Longrightarrow> rdata_parser t buf pos stop = parser_for rd buf pos stop"
  by (cases rd) (auto simp: rdata_parser_def rr_type_consts parsed_types_def)

lemma put_bytes_puts: "put_bytes bs (put_bytes as w) = put_bytes (as @ bs) w"
  by (simp add: put_bytes_def)

lemma flat_written:
  assumes "prefix (snd w') buf" and "w' = put_bytes bs w"
  shows "occurs buf (written w) bs" and "written w' = written w + length bs"
  using assms prefix_occurs by fastforce+

lemma parse_a_flat:
  "rust_slice buf \<Longrightarrow> occurs buf p (to_be_bytes 4 ip) \<Longrightarrow> stop = p + length (to_be_bytes 4 ip) \<Longrightarrow>
   parse_a buf p stop = Ok (A ip, stop)"
  by (simp add: parse_a_put)

lemma parse_aaaa_flat:
  "rust_slice buf \<Longrightarrow> occurs buf p (to_be_bytes 16 ip) \<Longrightarrow> stop = p + length (to_be_bytes 16 ip) \<Longrightarrow>
   parse_aaaa buf p stop = Ok (Aaaa ip, stop)"
  by (simp add: parse_aaaa_put)

lemma parse_txt_flat:
  "rust_slice buf \<Longrightarrow> occurs buf p (concat (map char_string ss)) \<Longrightarrow>
   stop = p + length (concat (map char_string ss)) \<Longrightarrow> list_all short_string ss \<Longrightarrow>
   parse_txt_loop buf p stop [] = Ok (Txt ss, stop)"
  using parse_txt_loop_put [of buf p ss stop "[]"] by simp

lemmas put_arms = parse_name_rdata_put [where allow = True] parse_mx_put parse_soa_put parse_srv_put parse_naptr_put
  parse_rrsig_put parse_nsec_put parse_svcb_put
  parse_a_flat [OF _ flat_written] parse_aaaa_flat [OF _ flat_written] parse_txt_flat [OF _ flat_written]
  parse_ds_put [OF _ flat_written] parse_dnskey_put [OF _ flat_written] parse_tlsa_put [OF _ flat_written]
  parse_unknown_put [OF _ flat_written] parse_caa_put [OF _ flat_written]
  parse_nsec3param_put [OF _ flat_written] parse_nsec3_put [OF _ flat_written]

lemma parser_for_put:
  assumes "out_inv w" and "rdata_fits t rd" and "rust_slice buf" and "prefix (snd w') buf" and "w' = rdata_to_wire rd w"
  shows "parser_for rd buf (written w) (written w') = Ok (rdata_norm rd, written w')"
  by (cases rd; simp only: parser_for.simps rdata_norm.simps; rule put_arms)
    (use assms in \<open>simp_all only: rdata_fits.simps rdata_to_wire.simps put_bitmap put_bytes_puts append_assoc simp_thms\<close>)

lemma rdata_parse_roundtrip:
  assumes "out_inv w" and "rdata_fits t rd" and "rust_slice buf" and "prefix (snd w') buf" and "w' = rdata_to_wire rd w"
  shows "rdata_parse buf (written w) (written w') t = Ok (rdata_norm rd, written w')"
proof -
  have "written w \<le> written w'" "written w' \<le> length buf"
    using assms(4,5) uniform_prefix [OF uniform_rdata, of w rd] by (simp_all add: prefix_length_le)
  then show ?thesis using parser_for_put [OF assms] rdata_parser_of [OF assms(2)] by (simp add: rdata_parse_def)
qed

section \<open>What the parser can return\<close>

lemma rd_read_name_wf [dest]: "rd_read_name buf stop p = Ok (n, q) \<Longrightarrow> rust_slice buf \<Longrightarrow> wf_name n \<and> q \<le> stop"
  by (auto simp: rd_read_name_def split: if_splits dest: name_from_wire_wf)

lemma rd_name_exact_wf [dest]: "rd_name_exact buf stop p = Ok (n, q) \<Longrightarrow> rust_slice buf \<Longrightarrow> wf_name n \<and> q = stop"
  by (auto simp: rd_name_exact_def split: if_splits)

lemma get_range_length: "get_range buf a b = Some bs \<Longrightarrow> length bs = b - a"
  by (auto simp: get_range_def split: if_splits)

lemma read_char_string_short: "read_char_string buf p stop = Ok (s, q) \<Longrightarrow> short_string s \<and> q \<le> stop"
  using unat_u8_less [of "buf ! p"]
  by (auto simp: read_char_string_def split: if_splits dest!: get_range_length)

lemma parse_txt_loop_short:
  "parse_txt_loop buf p stop strings = Ok (rd, q) \<Longrightarrow> list_all short_string strings \<Longrightarrow> p \<le> stop \<Longrightarrow>
   \<exists>ss. rd = Txt ss \<and> list_all short_string ss \<and> q = stop"
proof (induction buf p stop strings rule: parse_txt_loop.induct)
  case (1 buf p stop strings)
  show ?case
  proof (cases "p < stop")
    case False
    with "1.prems" show ?thesis by (subst (asm) parse_txt_loop.simps) auto
  next
    case True
    with "1.prems"(1) obtain s where "byte_at buf p = Ok (buf ! p)" and le: "p + 1 + unat (buf ! p) \<le> stop"
      and s: "get_range buf (p + 1) (p + 1 + unat (buf ! p)) = Some s"
      and rec: "parse_txt_loop buf (p + 1 + unat (buf ! p)) stop (strings @ [s]) = Ok (rd, q)"
      by (subst (asm) parse_txt_loop.simps) (auto simp: Let_def split: sum.splits if_splits option.splits)
    moreover have "short_string s" using get_range_length [OF s] unat_u8_less [of "buf ! p"] by simp
    ultimately show ?thesis using True "1.IH" [OF True _ refl _ s] "1.prems"(2) by simp
  qed
qed

lemma parse_svcb_loop_short:
  "parse_svcb_loop buf p stop params = Ok (ps, q) \<Longrightarrow> list_all (\<lambda>(k, v). length v \<le> 65535) params \<Longrightarrow> p \<le> stop \<Longrightarrow>
   list_all (\<lambda>(k, v). length v \<le> 65535) ps \<and> q = stop"
proof (induction buf p stop params rule: parse_svcb_loop.induct)
  case (1 buf p stop params)
  show ?case
  proof (cases "p < stop")
    case False
    with "1.prems" show ?thesis by (subst (asm) parse_svcb_loop.simps) auto
  next
    case True
    with "1.prems"(1) obtain k l v where p4: "p + 4 \<le> stop" and k: "rd_u16_at buf stop p = Ok k"
      and l: "rd_u16_at buf stop (p + 2) = Ok l" and le: "p + 4 + unat l \<le> stop"
      and v: "get_range buf (p + 4) (p + 4 + unat l) = Some v"
      and rec: "parse_svcb_loop buf (p + 4 + unat l) stop (params @ [(k, v)]) = Ok (ps, q)"
      by (subst (asm) parse_svcb_loop.simps) (auto simp: Let_def split: sum.splits if_splits option.splits)
    have "length v \<le> 65535" using get_range_length [OF v] unsigned_less [where 'a = nat, of l] by simp
    with rec le "1.IH" [OF True _ k l refl _ v] p4 "1.prems"(2) show ?thesis by simp
  qed
qed

lemma parse_type_bitmap_end: "parse_type_bitmap buf p stop = Ok (ts, q) \<Longrightarrow> p \<le> stop \<Longrightarrow> q = stop"
proof -
  have "p \<le> stop \<Longrightarrow> parse_type_bitmap_loop buf p stop acc = Ok (ts, q) \<Longrightarrow> q = stop" for acc
  proof (induction buf p stop acc rule: parse_type_bitmap_loop.induct)
    case (1 buf p stop acc)
    show ?case
    proof (cases "p < stop")
      case False
      with "1.prems" show ?thesis by (subst (asm) parse_type_bitmap_loop.simps) auto
    next
      case True
      with 1 show ?thesis
        by (subst (asm) (2) parse_type_bitmap_loop.simps) (auto simp: Let_def split: sum.splits if_splits option.splits)
    qed
  qed
  then show "parse_type_bitmap buf p stop = Ok (ts, q) \<Longrightarrow> p \<le> stop \<Longrightarrow> q = stop"
    by (simp add: parse_type_bitmap_def)
qed

lemmas rdata_arm_defs = parse_a_def parse_aaaa_def parse_name_rdata_def parse_mx_def parse_soa_def parse_srv_def
  parse_naptr_def parse_ds_def parse_dnskey_def parse_rrsig_def parse_nsec_def parse_nsec3_def parse_nsec3param_def
  parse_caa_def parse_tlsa_def parse_svcb_def parse_unknown_def

lemma unat_u8_le: "unat (b :: u8) \<le> 255"
  using unat_u8_less [of b] by simp

lemma rdata_arms_fit:
  assumes "rust_slice buf" and "pos \<le> stop"
  shows "parse_a buf pos stop = Ok (rd, q) \<Longrightarrow> rdata_fits RrType_A rd \<and> q \<le> stop"
    and "parse_aaaa buf pos stop = Ok (rd, q) \<Longrightarrow> rdata_fits RrType_AAAA rd \<and> q \<le> stop"
    and "parse_mx buf pos stop = Ok (rd, q) \<Longrightarrow> rdata_fits RrType_MX rd \<and> q \<le> stop"
    and "parse_soa buf pos stop = Ok (rd, q) \<Longrightarrow> rdata_fits RrType_SOA rd \<and> q \<le> stop"
    and "parse_srv buf pos stop = Ok (rd, q) \<Longrightarrow> rdata_fits RrType_SRV rd \<and> q \<le> stop"
    and "parse_naptr buf pos stop = Ok (rd, q) \<Longrightarrow> rdata_fits RrType_NAPTR rd \<and> q \<le> stop"
    and "parse_ds buf pos stop = Ok (rd, q) \<Longrightarrow> rdata_fits RrType_DS rd \<and> rdata_fits RrType_CDS rd \<and> q \<le> stop"
    and "parse_dnskey buf pos stop = Ok (rd, q) \<Longrightarrow>
      rdata_fits RrType_DNSKEY rd \<and> rdata_fits RrType_CDNSKEY rd \<and> q \<le> stop"
    and "parse_rrsig buf pos stop = Ok (rd, q) \<Longrightarrow> rdata_fits RrType_RRSIG rd \<and> rdata_fits RrType_SIG rd \<and> q \<le> stop"
    and "parse_nsec buf pos stop = Ok (rd, q) \<Longrightarrow> rdata_fits RrType_NSEC rd \<and> q \<le> stop"
    and "parse_nsec3 buf pos stop = Ok (rd, q) \<Longrightarrow> rdata_fits RrType_NSEC3 rd \<and> q \<le> stop"
    and "parse_nsec3param buf pos stop = Ok (rd, q) \<Longrightarrow> rdata_fits RrType_NSEC3PARAM rd \<and> q \<le> stop"
    and "parse_caa buf pos stop = Ok (rd, q) \<Longrightarrow> rdata_fits RrType_CAA rd \<and> q \<le> stop"
    and "parse_tlsa buf pos stop = Ok (rd, q) \<Longrightarrow> rdata_fits RrType_TLSA rd \<and> rdata_fits RrType_SMIMEA rd \<and> q \<le> stop"
    and "parse_svcb buf pos stop = Ok (rd, q) \<Longrightarrow> rdata_fits RrType_SVCB rd \<and> rdata_fits RrType_HTTPS rd \<and> q \<le> stop"
  using assms
  by (auto simp: rdata_arm_defs Let_def unat_u8_le split: if_splits
      dest!: rd_read_name_wf rd_name_exact_wf read_char_string_short get_range_length
      dest: parse_svcb_loop_short parse_type_bitmap_end)

lemma rdata_parse_fits:
  assumes "rust_slice buf" and "rdata_parse buf pos stop t = Ok (rd, q)"
  shows "rdata_fits t rd \<and> q \<le> stop"
proof -
  have le: "pos \<le> stop" and p: "rdata_parser t buf pos stop = Ok (rd, q)"
    using assms(2) by (auto simp: rdata_parse_def split: if_splits)
  note fit = rdata_arms_fit [OF assms(1) le]
  have named: "\<exists>n. rd = mk n \<and> wf_name n \<and> q = stop" if "parse_name_rdata mk buf pos stop = Ok (rd, q)" for mk
    using that assms(1) by (auto simp: parse_name_rdata_def)
  have strings: "\<exists>ss. rd = Txt ss \<and> list_all short_string ss \<and> q = stop" if "parse_txt_loop buf pos stop [] = Ok (rd, q)"
    using parse_txt_loop_short [OF that] le by simp
  have unknown: "\<exists>d. rd = Unknown d \<and> q = stop" if "parse_unknown buf pos stop = Ok (rd, q)"
    using that by (auto simp: parse_unknown_def)
  show ?thesis
    using p unfolding rdata_parser_def
    by (auto split: if_split_asm dest!: fit named strings unknown simp: parsed_types_def)
qed

end
