(* ===== verification/Records.thy ===== *)
theory Records
  imports Rdata_Roundtrip
begin

text \<open>
  \<^verbatim>\<open>Record::parse\<close> and \<^verbatim>\<open>Record::to_wire\<close> of \<^verbatim>\<open>src/src/rdata.rs\<close> as an instance of \<open>wire_codec\<close>: the
  RDLENGTH placeholder is patched with the length of what was written behind it, and the parser
  returns the record that was serialized.
\<close>

definition record_head :: "dns_record \<Rightarrow> wire_out \<Rightarrow> wire_out" where
  "record_head r w =
     put_bytes (to_be_bytes 2 (rr_type_to_u16 (rec_type r)) @ to_be_bytes 2 (rr_class_to_u16 (rec_class r))
       @ to_be_bytes 4 (rec_ttl r)) (put_name (rec_name r) True w)"

definition record_ok :: "dns_record \<Rightarrow> bool" where
  "record_ok r \<longleftrightarrow> wf_name (rec_name r) \<and> rdata_fits (rec_type r) (rec_rdata r)"

definition record_norm :: "dns_record \<Rightarrow> dns_record" where
  "record_norm r = r\<lparr>rec_rdata := rdata_norm (rec_rdata r)\<rparr>"

lemma record_head_uniform: "uniform (record_head r)"
  by (rule uniform_eq [OF _ record_head_def]) (rule uniform_puts)+

text \<open>
  The patched length is right: writing the record is the same as writing the header, then the
  length of the RDATA, then the RDATA.
\<close>

lemma record_to_wire_head:
  "record_to_wire r w =
     (let w1 = record_head r w;
          (c, out) = rdata_to_wire (rec_rdata r) (fst w1, snd w1 @ [0, 0]);
          rdlen = length out - written w1 - 2
      in if rdlen > 65535 then Err (error_wire ''RDATA exceeds the 16-bit length field'')
         else if written w1 + 2 \<le> length out
         then Ok (c, take (written w1) out @ to_be_bytes 2 (of_nat rdlen :: u16) @ drop (written w1 + 2) out)
         else Err (error_internal ''RDLENGTH offset out of range''))"
  by (simp only: record_to_wire_def record_head_def put_bytes_def [of "[0, 0]"] Let_def)

lemma record_to_wire_patched:
  obtains (long) e where "\<And>out. length out = k \<Longrightarrow> record_to_wire r (c, out) = Err e"
  | (fits) c1 c2 hb bs where "length bs \<le> 65535"
      and "\<And>out. length out = k \<Longrightarrow> record_head r (c, out) = (c1, out @ hb)"
      and "\<And>out. length out = k \<Longrightarrow>
        rdata_to_wire (rec_rdata r) (c1, out @ hb @ to_be_bytes 2 (of_nat (length bs) :: u16))
        = (c2, out @ hb @ to_be_bytes 2 (of_nat (length bs) :: u16) @ bs)"
      and "\<And>out. length out = k \<Longrightarrow>
        record_to_wire r (c, out) = Ok (c2, out @ hb @ to_be_bytes 2 (of_nat (length bs) :: u16) @ bs)"
proof -
  obtain c1 hb where h: "\<And>out. length out = k \<Longrightarrow> record_head r (c, out) = (c1, out @ hb)"
    using record_head_uniform [of r] unfolding uniform_def by metis
  obtain c2 bs where b: "\<And>out. length out = k + length hb + 2 \<Longrightarrow> rdata_to_wire (rec_rdata r) (c1, out) = (c2, out @ bs)"
    using uniform_rdata [of "rec_rdata r"] unfolding uniform_def by metis
  have wr: "record_to_wire r (c, out) = (if length bs > 65535 then Err (error_wire ''RDATA exceeds the 16-bit length field'')
      else Ok (c2, out @ hb @ to_be_bytes 2 (of_nat (length bs) :: u16) @ bs))" if "length out = k" for out
    using h [OF that] b [of "out @ hb @ [0, 0]"] that
    by (simp add: record_to_wire_head Let_def)
  show thesis
  proof (cases "length bs > 65535")
    case True
    then show thesis by (intro long) (simp add: wr)
  next
    case False
    then show thesis by (intro fits [of bs c1 hb c2]) (simp_all add: wr h b)
  qed
qed

lemma record_to_wire_uniform: "uniform_result (record_to_wire r)"
  unfolding uniform_result_def
proof (intro allI)
  fix c k
  show "(\<exists>e. \<forall>out. length out = k \<longrightarrow> record_to_wire r (c, out) = Err e) \<or>
    (\<exists>c' bs. \<forall>out. length out = k \<longrightarrow> record_to_wire r (c, out) = Ok (c', out @ bs))"
    by (rule record_to_wire_patched [of k r c]) (metis append.assoc)+
qed

lemma record_written:
  assumes "record_to_wire r w = Ok w'"
  obtains w1 bs where "w1 = record_head r w" and "length bs \<le> 65535"
    and "w' = rdata_to_wire (rec_rdata r) (put_bytes (to_be_bytes 2 (of_nat (length bs) :: u16)) w1)"
    and "snd w' = snd w1 @ to_be_bytes 2 (of_nat (length bs) :: u16) @ bs"
proof (cases w)
  case (Pair c out)
  show thesis
    by (rule record_to_wire_patched [of "length out" r c]; rule that)
      (use assms Pair in \<open>auto simp: put_bytes_def\<close>)
qed

lemma record_head_inv: "out_inv w \<Longrightarrow> wf_name (rec_name r) \<Longrightarrow> out_inv (record_head r w)"
  by (simp add: record_head_def)

lemma rdata_to_wire_inv:
  "out_inv w \<Longrightarrow> rdata_fits t rd \<Longrightarrow> out_inv (rdata_to_wire rd w)"
  by (cases rd) (simp_all add: put_bitmap)

lemma record_to_wire_inv: "out_inv w \<Longrightarrow> record_ok r \<Longrightarrow> record_to_wire r w = Ok w' \<Longrightarrow> out_inv w'"
  by (elim record_written) (auto simp: record_ok_def intro!: rdata_to_wire_inv put_bytes_inv record_head_inv)

section \<open>Round trip\<close>

lemma rdata_written_last:
  assumes "out_inv w" and "rdata_fits t rd" and "rust_slice buf" and "prefix (snd w') buf" and "w' = rdata_to_wire rd w"
  shows "rbind (if t = RrType_OPT
      then rbind (ok_or (error_wire ''RDATA length exceeds the message'') (get_range buf (written w) (written w'))) (\<lambda>d. Ok (Unknown d))
      else rbind (rdata_parse buf (written w) (written w') t) (\<lambda>(rd, _). Ok rd)) f = f (rdata_norm rd)"
proof (cases "t = RrType_OPT")
  case True
  with assms(2) obtain d where d: "rd = Unknown d" by (cases rd) (auto simp: rr_type_consts)
  with flat_written [OF assms(4), of d w] assms(5) have "get_range buf (written w) (written w') = Some d"
    by (simp add: get_range_occurs)
  with True d show ?thesis by simp
next
  case False
  with rdata_parse_roundtrip [OF assms(1-5)] show ?thesis by simp
qed

lemma record_parse_written:
  assumes "out_inv w" and "record_ok r" and wr: "record_to_wire r w = Ok w'" and "rust_slice buf" and "prefix (snd w') buf"
  shows "record_parse buf (written w) = Ok (record_norm r, written w')"
proof -
  from wr obtain w1 bs where w1: "w1 = record_head r w" and bs: "length bs \<le> 65535"
    and w': "w' = rdata_to_wire (rec_rdata r) (put_bytes (to_be_bytes 2 (of_nat (length bs) :: u16)) w1)"
    and out: "snd w' = snd w1 @ to_be_bytes 2 (of_nat (length bs) :: u16) @ bs" by (rule record_written)
  let ?head = "to_be_bytes 2 (rr_type_to_u16 (rec_type r)) @ to_be_bytes 2 (rr_class_to_u16 (rec_class r))
    @ to_be_bytes 4 (rec_ttl r)"
  let ?w2 = "put_bytes (to_be_bytes 2 (of_nat (length bs) :: u16)) w1"
  define p where "p = written (put_name (rec_name r) True w)"
  from out assms(5) w1 have pre: "prefix (snd (put_name (rec_name r) True w) @ ?head @ to_be_bytes 2 (of_nat (length bs) :: u16) @ bs) buf"
    by (simp add: record_head_def)
  then have name: "name_from_wire buf (written w) = Ok (rec_name r, p)"
    unfolding p_def using assms by (intro read_put_name) (auto simp: record_ok_def dest: append_prefixD)
  from prefix_occurs [OF pre] have occ: "occurs buf p (to_be_bytes 2 (rr_type_to_u16 (rec_type r)))"
    "occurs buf (p + 2) (to_be_bytes 2 (rr_class_to_u16 (rec_class r)))" "occurs buf (p + 4) (to_be_bytes 4 (rec_ttl r))"
    "occurs buf (p + 8) (to_be_bytes 2 (of_nat (length bs) :: u16))" "p + 10 + length bs \<le> length buf"
    by (auto simp: p_def ac_simps simp del: add_2_eq_Suc add_2_eq_Suc' dest: occurs_bound)
  have at: "written ?w2 = p + 10" "written w' = p + 10 + length bs"
    using out w1 by (simp_all add: p_def record_head_def)
  have inv: "out_inv ?w2" using assms(1,2) w1 by (simp add: record_head_inv record_ok_def)
  have len: "unat (of_nat (length bs) :: u16) = length bs" using bs by (simp add: unat_of_nat take_bit_eq_mod)
  have fits: "rdata_fits (rec_type r) (rec_rdata r)" using assms(2) by (simp add: record_ok_def)
  show ?thesis
    using name occ len assms(4)
    by (simp add: record_parse_def wire_reads Let_def at del: rbind_eq_Ok split del: if_split cong: if_cong)
      (simp add: rdata_written_last [OF inv fits assms(4,5) w', unfolded at] record_norm_def)
qed

lemma record_parse_ok:
  assumes "rust_slice buf" and "record_parse buf p = Ok (r, q)"
  shows "record_ok r \<and> q \<le> length buf"
  using assms
  by (auto simp: record_parse_def record_ok_def Let_def parsed_types_def rr_type_consts split: if_splits
      dest: name_from_wire_wf rdata_parse_fits)

interpretation record_codec: wire_codec record_to_wire record_parse record_ok record_norm
  by unfold_locales
    (auto simp: record_to_wire_uniform record_parse_written dest: record_to_wire_inv record_parse_ok)

end
