(* ===== verification/Edns.thy ===== *)
theory Edns
  imports Wire_Bytes
begin

text \<open>
  \<^verbatim>\<open>src/src/edns.rs\<close>: the EDNS(0) pseudo-record and its options.  \<open>parse_options\<close> is the loop over the
  option payload; \<open>options_wire\<close> the writer.  The theory shows that what the writer emits is read
  back option by option, except that the length of a padding option is not written
  (\<open>option_norm\<close>), that whatever the parser returns can be written and read again, and that a
  client subnet is built canonically: exactly the first \<open>prefix\<close> bits of the address survive.
\<close>

section \<open>Data\<close>

definition OPT_NSID :: u16 where "OPT_NSID = 3"
definition OPT_ECS :: u16 where "OPT_ECS = 8"
definition OPT_COOKIE :: u16 where "OPT_COOKIE = 10"
definition OPT_KEEPALIVE :: u16 where "OPT_KEEPALIVE = 11"
definition OPT_PADDING :: u16 where "OPT_PADDING = 12"
definition OPT_KEY_TAG :: u16 where "OPT_KEY_TAG = 14"
definition OPT_EDE :: u16 where "OPT_EDE = 15"

lemmas opt_codes = OPT_NSID_def OPT_ECS_def OPT_COOKIE_def OPT_KEEPALIVE_def OPT_PADDING_def OPT_KEY_TAG_def OPT_EDE_def

record ecs =
  ecs_family :: u16
  source_prefix :: u8
  scope_prefix :: u8
  ecs_address :: bytes

datatype edns_option =
    Ecs ecs
  | Cookie bytes bytes
  | TcpKeepalive "u16 option"
  | Padding u16
  | KeyTag "u16 list"
  | Nsid bytes
  | Ede u16 bytes
  | UnknownOption u16 bytes

fun option_code :: "edns_option \<Rightarrow> u16" where
  "option_code (Ecs _) = OPT_ECS"
| "option_code (Cookie _ _) = OPT_COOKIE"
| "option_code (TcpKeepalive _) = OPT_KEEPALIVE"
| "option_code (Padding _) = OPT_PADDING"
| "option_code (KeyTag _) = OPT_KEY_TAG"
| "option_code (Nsid _) = OPT_NSID"
| "option_code (Ede _ _) = OPT_EDE"
| "option_code (UnknownOption code _) = code"

record edns =
  udp_payload_size :: u16
  ext_rcode :: u8
  edns_version :: u8
  dnssec_ok :: bool
  edns_options :: "edns_option list"

section \<open>Client subnet\<close>

definition div_ceil :: "nat \<Rightarrow> nat \<Rightarrow> nat" where
  "div_ceil a b = (a + b - 1) div b"

fun zip_copy :: "bytes \<Rightarrow> bytes \<Rightarrow> bytes" where
  "zip_copy (d # ds) (s # ss) = s # zip_copy ds ss"
| "zip_copy ds _ = ds"

definition prefix_mask :: "u8 \<Rightarrow> u8" where
  "prefix_mask valid = push_bit (8 - unat valid) 0xff"

definition mask_last :: "u8 \<Rightarrow> bytes \<Rightarrow> bytes" where
  "mask_last m bs = (if bs = [] then [] else butlast bs @ [last bs AND m])"

definition ecs_mask :: "bytes \<Rightarrow> u8 \<Rightarrow> bytes" where
  "ecs_mask addr pre =
     (let n = div_ceil (unat pre) 8;
          out = zip_copy (replicate n 0) addr
      in if pre mod 8 \<noteq> 0 then mask_last (prefix_mask (pre mod 8)) out else out)"

definition ecs_ipv4 :: "u32 \<Rightarrow> u8 \<Rightarrow> ecs result" where
  "ecs_ipv4 ip pre =
     (if pre > 32 then Err (error_wire ''ECS IPv4 prefix > 32'')
      else Ok \<lparr>ecs_family = 1, source_prefix = pre, scope_prefix = 0, ecs_address = ecs_mask (to_be_bytes 4 ip) pre\<rparr>)"

definition ecs_ipv6 :: "u128 \<Rightarrow> u8 \<Rightarrow> ecs result" where
  "ecs_ipv6 ip pre =
     (if pre > 128 then Err (error_wire ''ECS IPv6 prefix > 128'')
      else Ok \<lparr>ecs_family = 2, source_prefix = pre, scope_prefix = 0, ecs_address = ecs_mask (to_be_bytes 16 ip) pre\<rparr>)"

definition ecs_full_address :: "ecs \<Rightarrow> bytes" where
  "ecs_full_address e =
     (let full = (if ecs_family e = 1 then 4 else if ecs_family e = 2 then 16 else 0)
      in if full = 0 then ecs_address e else zip_copy (replicate full 0) (ecs_address e))"

definition ecs_is_none :: "ecs \<Rightarrow> bool" where
  "ecs_is_none e \<longleftrightarrow> ecs_family e = 0 \<or> source_prefix e = 0"

definition ecs_canonical :: "bytes \<Rightarrow> u8 \<Rightarrow> bool" where
  "ecs_canonical addr pre \<longleftrightarrow>
     addr = [] \<or> pre mod 8 = 0 \<or> last addr AND NOT (prefix_mask (pre mod 8)) = 0"

definition ecs_parse :: "bytes \<Rightarrow> ecs result" where
  "ecs_parse data =
     (if length data < 4 then Err (error_wire ''ECS option too short'')
      else rbind (u16_at data 0) (\<lambda>family.
        rbind (byte_at data 2) (\<lambda>source.
        rbind (byte_at data 3) (\<lambda>scope.
        rbind (if family = 1 then Ok 32 else if family = 2 then Ok 128 else Err (error_wire ''ECS unknown family'')) (\<lambda>max_prefix.
        if source > max_prefix \<or> scope > max_prefix then Err (error_wire ''ECS prefix out of range'')
        else if length data \<noteq> 4 + div_ceil (unat source) 8 then Err (error_wire ''ECS address length mismatch'')
        else rbind (rest_at data 4) (\<lambda>addr.
          if \<not> ecs_canonical addr source then Err (error_wire ''ECS non-canonical address'')
          else Ok \<lparr>ecs_family = family, source_prefix = source, scope_prefix = scope, ecs_address = addr\<rparr>))))))"

definition ecs_to_wire :: "ecs \<Rightarrow> bytes" where
  "ecs_to_wire e = to_be_bytes 2 (ecs_family e) @ [source_prefix e, scope_prefix e] @ ecs_address e"

section \<open>The pseudo-record\<close>

definition edns_new :: "u16 \<Rightarrow> edns" where
  "edns_new payload = \<lparr>udp_payload_size = payload, ext_rcode = 0, edns_version = 0, dnssec_ok = False, edns_options = []\<rparr>"

definition extended_rcode :: "edns \<Rightarrow> u8 \<Rightarrow> u16" where
  "extended_rcode e base = push_bit 4 (ucast (ext_rcode e)) OR ucast (base AND 0x0f)"

fun key_tags :: "bytes \<Rightarrow> u16 list" where
  "key_tags (a # b # rest) = from_be_bytes [a, b] # key_tags rest"
| "key_tags _ = []"

definition parse_option :: "u16 \<Rightarrow> bytes \<Rightarrow> edns_option result" where
  "parse_option code data =
     (if code = OPT_ECS then rbind (ecs_parse data) (\<lambda>e. Ok (Ecs e))
      else if code = OPT_COOKIE then
        rbind (map_err (\<lambda>_. error_wire ''cookie option too short'') (array_at data 0 8)) (\<lambda>client.
        rbind (rest_at data 8) (\<lambda>server. Ok (Cookie client server)))
      else if code = OPT_KEEPALIVE then
        (if length data = 0 then Ok (TcpKeepalive None)
         else if length data = 2 then rbind (u16_at data 0) (\<lambda>t. Ok (TcpKeepalive (Some t)))
         else Err (error_wire ''keepalive option malformed''))
      else if code = OPT_PADDING then Ok (Padding (of_nat (length data)))
      else if code = OPT_KEY_TAG then
        (if length data mod 2 \<noteq> 0 then Err (error_wire ''key-tag option malformed'') else Ok (KeyTag (key_tags data)))
      else if code = OPT_NSID then Ok (Nsid data)
      else if code = OPT_EDE then
        rbind (map_err (\<lambda>_. error_wire ''EDE option too short'') (u16_at data 0)) (\<lambda>info.
        rbind (rest_at data 2) (\<lambda>extra. Ok (Ede info extra)))
      else Ok (UnknownOption code data))"

function parse_options_loop :: "bytes \<Rightarrow> usize \<Rightarrow> edns_option list \<Rightarrow> edns_option list result" where
  "parse_options_loop rdata pos options =
     (if pos < length rdata then
        (case u16_at rdata pos of
           Inl _ \<Rightarrow> Err (error_wire ''EDNS option header truncated'')
         | Inr code \<Rightarrow>
             (case u16_at rdata (pos + 2) of
                Inl _ \<Rightarrow> Err (error_wire ''EDNS option header truncated'')
              | Inr l \<Rightarrow>
                  (let len = unat l in
                   case slice_at rdata (pos + 4) len of
                     Inl _ \<Rightarrow> Err (error_wire ''EDNS option data truncated'')
                   | Inr data \<Rightarrow>
                       (case parse_option code data of
                          Inl e \<Rightarrow> Err e
                        | Inr opt \<Rightarrow> parse_options_loop rdata (pos + 4 + len) (options @ [opt])))))
      else Ok options)"
  by pat_completeness auto
termination
  by (relation "measure (\<lambda>(rdata, pos, options). length rdata - pos)") auto

declare parse_options_loop.simps [simp del]

definition parse_options :: "bytes \<Rightarrow> edns_option list result" where
  "parse_options rdata = parse_options_loop rdata 0 []"

definition edns_parse :: "u16 \<Rightarrow> u32 \<Rightarrow> bytes \<Rightarrow> edns result" where
  "edns_parse cls ttl rdata =
     rbind (parse_options rdata) (\<lambda>options.
     Ok \<lparr>udp_payload_size = cls, ext_rcode = ucast (drop_bit 24 ttl AND 0xff),
          edns_version = ucast (drop_bit 16 ttl AND 0xff), dnssec_ok = (ttl AND 0x8000 \<noteq> 0), edns_options = options\<rparr>)"

definition ttl_field :: "edns \<Rightarrow> u32" where
  "ttl_field e =
     (let ttl = push_bit 24 (ucast (ext_rcode e)) OR push_bit 16 (ucast (edns_version e))
      in if dnssec_ok e then ttl OR 0x8000 else ttl)"

fun option_data :: "edns_option \<Rightarrow> bytes" where
  "option_data (Ecs e) = ecs_to_wire e"
| "option_data (Cookie client server) = client @ server"
| "option_data (TcpKeepalive (Some t)) = to_be_bytes 2 t"
| "option_data (TcpKeepalive None) = []"
| "option_data (Padding _) = []"
| "option_data (KeyTag tags) = concat (map (to_be_bytes 2) tags)"
| "option_data (Nsid v) = v"
| "option_data (Ede info extra) = to_be_bytes 2 info @ extra"
| "option_data (UnknownOption _ d) = d"

definition option_wire :: "edns_option \<Rightarrow> bytes" where
  "option_wire opt =
     (let data = option_data opt in
      to_be_bytes 2 (option_code opt) @ to_be_bytes 2 (of_nat (length data) :: u16) @ data)"

definition options_wire :: "edns \<Rightarrow> bytes" where
  "options_wire e = concat (map option_wire (edns_options e))"

fun find_ecs :: "edns_option list \<Rightarrow> ecs option" where
  "find_ecs [] = None"
| "find_ecs (Ecs e # _) = Some e"
| "find_ecs (_ # os) = find_ecs os"

fun find_cookie :: "edns_option list \<Rightarrow> bytes option" where
  "find_cookie [] = None"
| "find_cookie (Cookie client _ # _) = Some client"
| "find_cookie (_ # os) = find_cookie os"

definition edns_ecs :: "edns \<Rightarrow> ecs option" where "edns_ecs e = find_ecs (edns_options e)"
definition client_cookie :: "edns \<Rightarrow> bytes option" where "client_cookie e = find_cookie (edns_options e)"

section \<open>Bits of an octet\<close>

lemma bit_u8_less: "bit (b :: u8) n \<Longrightarrow> n < 8"
  by (auto dest: bit_imp_le_length)

lemma bit_low_byte: "bit (0xff :: int) n \<longleftrightarrow> n < 8"
proof -
  have "(0xff :: int) = mask 8" by (simp add: mask_eq_exp_minus_1)
  then show ?thesis by (simp only: bit_mask_iff) auto
qed

lemma bit_do_flag: "bit (0x8000 :: int) n \<longleftrightarrow> n = 15"
proof -
  have "(0x8000 :: int) = 2 ^ 15" by simp
  then show ?thesis by (simp only: bit_exp_iff) auto
qed

lemma bit_ttl_field:
  "bit (ttl_field e) n \<longleftrightarrow>
     n = 15 \<and> dnssec_ok e \<or> 16 \<le> n \<and> bit (edns_version e) (n - 16) \<or> 24 \<le> n \<and> bit (ext_rcode e) (n - 24)"
  by (auto simp: ttl_field_def Let_def bit_simps bit_do_flag dest: bit_u8_less)

lemma ttl_field_fields:
  shows "ucast (drop_bit 24 (ttl_field e) AND 0xff) = ext_rcode e"
    and "ucast (drop_bit 16 (ttl_field e) AND 0xff) = edns_version e"
    and "(ttl_field e AND 0x8000 \<noteq> 0) = dnssec_ok e"
proof -
  show "ucast (drop_bit 24 (ttl_field e) AND 0xff) = ext_rcode e"
    by (rule bit_word_eqI) (auto simp: bit_simps bit_ttl_field bit_low_byte dest: bit_u8_less)
  show "ucast (drop_bit 16 (ttl_field e) AND 0xff) = edns_version e"
    by (rule bit_word_eqI) (auto simp: bit_simps bit_ttl_field bit_low_byte dest: bit_u8_less)
  show "(ttl_field e AND 0x8000 \<noteq> 0) = dnssec_ok e"
    unfolding bit_eq_iff [of "ttl_field e AND 0x8000"] by (auto simp: bit_simps bit_ttl_field bit_do_flag)
qed

section \<open>Round trip of the options\<close>

definition ecs_ok :: "ecs \<Rightarrow> bool" where
  "ecs_ok e \<longleftrightarrow>
     (ecs_family e = 1 \<and> source_prefix e \<le> 32 \<and> scope_prefix e \<le> 32 \<or>
      ecs_family e = 2 \<and> source_prefix e \<le> 128 \<and> scope_prefix e \<le> 128) \<and>
     length (ecs_address e) = div_ceil (unat (source_prefix e)) 8 \<and> ecs_canonical (ecs_address e) (source_prefix e)"

lemma div_ceil_8: "div_ceil n 8 = (n + 7) div 8"
  by (simp add: div_ceil_def)

lemma occurs_self [simp]: "occurs bs 0 bs"
  by (simp add: occurs_def)

lemma short_slice: "length bs \<le> 70000 \<Longrightarrow> rust_slice bs"
  by (simp add: rust_slice_def)

lemma ecs_address_short: "ecs_ok e \<Longrightarrow> length (ecs_address e) \<le> 16"
  by (auto simp: ecs_ok_def div_ceil_8 word_le_nat_alt)

lemma ecs_parse_to_wire:
  assumes "ecs_ok e"
  shows "ecs_parse (ecs_to_wire e) = Ok e"
proof -
  let ?d = "ecs_to_wire e"
  have "rust_slice ?d" using ecs_address_short [OF assms] by (simp add: ecs_to_wire_def rust_slice_def)
  moreover have occ: "occurs ?d 0 (to_be_bytes 2 (ecs_family e) @ [source_prefix e, scope_prefix e] @ ecs_address e)"
    unfolding ecs_to_wire_def by (rule occurs_self)
  ultimately have "u16_at ?d 0 = Ok (ecs_family e)" by (simp add: u16_at_occurs)
  moreover have "byte_at ?d 2 = Ok (source_prefix e)" "byte_at ?d 3 = Ok (scope_prefix e)"
    using occ by (simp_all add: occurs_Cons numeral_2_eq_2 numeral_3_eq_3)
  moreover have "rest_at ?d 4 = Ok (ecs_address e)" "length ?d = 4 + length (ecs_address e)"
    by (simp_all add: ecs_to_wire_def)
  ultimately show ?thesis using assms
    by (auto simp: ecs_parse_def ecs_ok_def simp del: rbind_eq_Ok byte_at_eq_Ok rest_at_eq_Ok)
qed

fun option_ok :: "edns_option \<Rightarrow> bool" where
  "option_ok (Ecs e) \<longleftrightarrow> ecs_ok e"
| "option_ok (Cookie client server) \<longleftrightarrow> length client = 8 \<and> length server \<le> 65527"
| "option_ok (TcpKeepalive _) \<longleftrightarrow> True"
| "option_ok (Padding _) \<longleftrightarrow> True"
| "option_ok (KeyTag tags) \<longleftrightarrow> length tags \<le> 32767"
| "option_ok (Nsid v) \<longleftrightarrow> length v \<le> 65535"
| "option_ok (Ede _ extra) \<longleftrightarrow> length extra \<le> 65533"
| "option_ok (UnknownOption code d) \<longleftrightarrow>
     code \<notin> {OPT_ECS, OPT_COOKIE, OPT_KEEPALIVE, OPT_PADDING, OPT_KEY_TAG, OPT_NSID, OPT_EDE} \<and> length d \<le> 65535"

fun option_norm :: "edns_option \<Rightarrow> edns_option" where
  "option_norm (Padding _) = Padding 0"
| "option_norm opt = opt"

definition edns_ok :: "edns \<Rightarrow> bool" where
  "edns_ok e \<longleftrightarrow> list_all option_ok (edns_options e) \<and> length (options_wire e) \<le> 65535"

definition edns_norm :: "edns \<Rightarrow> edns" where
  "edns_norm e = e\<lparr>edns_options := map option_norm (edns_options e)\<rparr>"

lemma option_data_length: "option_ok opt \<Longrightarrow> length (option_data opt) \<le> 65535"
  by (cases opt rule: option_ok.cases; cases "case opt of TcpKeepalive x \<Rightarrow> x | _ \<Rightarrow> None")
    (auto simp: ecs_to_wire_def length_concat comp_def sum_list_triv dest: ecs_address_short)

lemma key_tags_concat: "key_tags (concat (map (to_be_bytes 2) ts)) = ts"
proof (induction ts)
  case (Cons t ts)
  have "to_be_bytes 2 t = [ucast (drop_bit 8 t), ucast t]" by (simp add: to_be_bytes_def numeral_2_eq_2)
  moreover from this have "from_be_bytes [ucast (drop_bit 8 t), ucast t] = t" using from_to_be_bytes_16 [of t] by simp
  ultimately show ?case using Cons by simp
qed simp

lemma key_tags_even: "length (concat (map (to_be_bytes 2) ts)) mod 2 = 0"
  by (induction ts) simp_all

lemma parse_option_data:
  assumes "option_ok opt"
  shows "parse_option (option_code opt) (option_data opt) = Ok (option_norm opt)"
proof -
  have r: "rust_slice (option_data opt)" using option_data_length [OF assms] by (intro short_slice) simp
  show ?thesis
  proof (cases opt)
    case (Cookie client server)
    with r assms have "array_at (option_data opt) 0 8 = Ok client" by (intro array_at_occurs) (simp_all add: occurs_def)
    with Cookie assms show ?thesis
      by (simp add: parse_option_def opt_codes rest_at_def get_from_def del: rbind_eq_Ok)
  next
    case (TcpKeepalive t)
    with r u16_at_occurs [OF occurs_self] show ?thesis
      by (cases t) (simp_all add: parse_option_def opt_codes del: rbind_eq_Ok)
  next
    case (Ede info extra)
    with r have "u16_at (option_data opt) 0 = Ok info" by (intro u16_at_occurs) (simp_all add: occurs_def)
    with Ede show ?thesis by (simp add: parse_option_def opt_codes rest_at_def get_from_def del: rbind_eq_Ok)
  qed (use assms in \<open>auto simp: parse_option_def opt_codes ecs_parse_to_wire key_tags_concat key_tags_even\<close>)
qed

lemma parse_options_loop_written:
  "rust_slice buf \<Longrightarrow> occurs buf p (concat (map option_wire os)) \<Longrightarrow> list_all option_ok os \<Longrightarrow>
   length buf = p + length (concat (map option_wire os)) \<Longrightarrow>
   parse_options_loop buf p acc = Ok (acc @ map option_norm os)"
proof (induction os arbitrary: p acc)
  case Nil
  then show ?case by (subst parse_options_loop.simps) simp
next
  case (Cons opt os)
  let ?d = "option_data opt"
  have ok: "option_ok opt" using Cons.prems by simp
  then have len: "unat (of_nat (length ?d) :: u16) = length ?d"
    using option_data_length [OF ok] by (simp add: unat_of_nat take_bit_eq_mod)
  have occ: "occurs buf p (to_be_bytes 2 (option_code opt))" "occurs buf (p + 2) (to_be_bytes 2 (of_nat (length ?d) :: u16))"
      "occurs buf (p + 4) ?d" "occurs buf (p + 4 + length ?d) (concat (map option_wire os))"
      "length buf = p + 4 + length ?d + length (concat (map option_wire os))"
    using Cons.prems by (simp_all add: option_wire_def [of opt] Let_def ac_simps del: add_2_eq_Suc add_2_eq_Suc')
  then have "u16_at buf p = Ok (option_code opt)" "u16_at buf (p + 2) = Ok (of_nat (length ?d))"
      "slice_at buf (p + 4) (length ?d) = Ok ?d"
    using Cons.prems(1) by (simp_all add: wire_reads)
  moreover have "parse_options_loop buf (p + 4 + length ?d) (acc @ [option_norm opt]) = Ok (acc @ map option_norm (opt # os))"
    using Cons.IH [of "p + 4 + length ?d" "acc @ [option_norm opt]"] Cons.prems(1,3) occ by simp
  ultimately show ?case using occ(5) ok len
    by (subst parse_options_loop.simps) (simp add: parse_option_data Let_def)
qed

lemma parse_options_wire:
  "edns_ok e \<Longrightarrow> parse_options (options_wire e) = Ok (map option_norm (edns_options e))"
  using parse_options_loop_written [of "options_wire e" 0 "edns_options e" "[]"]
  by (simp add: parse_options_def options_wire_def edns_ok_def short_slice)

lemma edns_parse_written:
  "edns_ok e \<Longrightarrow> edns_parse (udp_payload_size e) (ttl_field e) (options_wire e) = Ok (edns_norm e)"
  by (simp add: edns_parse_def parse_options_wire ttl_field_fields edns_norm_def)

section \<open>Building a client subnet\<close>

lemma length_zip_copy [simp]: "length (zip_copy ds ss) = length ds"
  by (induction ds ss rule: zip_copy.induct) auto

lemma length_mask_last [simp]: "length (mask_last m bs) = length bs"
  by (cases bs rule: rev_cases) (simp_all add: mask_last_def)

lemma length_ecs_mask: "length (ecs_mask addr pre) = div_ceil (unat pre) 8"
  by (simp add: ecs_mask_def Let_def)

lemma ecs_mask_canonical: "ecs_canonical (ecs_mask addr pre) pre"
proof -
  have "(x AND m) AND NOT m = 0" for x m :: u8
    by (rule bit_word_eqI) (auto simp: bit_simps)
  then show ?thesis by (auto simp: ecs_canonical_def ecs_mask_def Let_def mask_last_def)
qed

lemma ecs_ipv4_ok: "ecs_ipv4 ip pre = Ok e \<Longrightarrow> ecs_ok e"
  by (auto simp: ecs_ipv4_def ecs_ok_def length_ecs_mask ecs_mask_canonical split: if_splits)

lemma ecs_ipv6_ok: "ecs_ipv6 ip pre = Ok e \<Longrightarrow> ecs_ok e"
  by (auto simp: ecs_ipv6_def ecs_ok_def length_ecs_mask ecs_mask_canonical split: if_splits)

lemma ceil_8: "0 < m mod 8 \<Longrightarrow> (m + 7) div 8 = Suc (m div 8)" for m :: nat
proof -
  assume pos: "0 < m mod 8"
  define q r where "q = m div 8" and "r = m mod 8"
  have "m = 8 * q + r" "r < 8" "0 < r" using pos by (simp_all add: q_def r_def)
  then have "8 * Suc q \<le> m + 7" "m + 7 < 8 * Suc (Suc q)" by simp_all
  then show ?thesis unfolding q_def [symmetric] by (rule div_nat_eqI)
qed

lemma nth_zip_copy: "i < length ds \<Longrightarrow> zip_copy ds ss ! i = (if i < length ss then ss ! i else ds ! i)"
  by (induction ds ss arbitrary: i rule: zip_copy.induct) (auto simp: nth_Cons split: nat.splits)

lemma nth_mask_last:
  "i < length bs \<Longrightarrow> mask_last m bs ! i = (if Suc i = length bs then bs ! i AND m else bs ! i)"
  by (cases bs rule: rev_cases) (auto simp: mask_last_def nth_append)

lemma bit_prefix_mask:
  "unat v < 8 \<Longrightarrow> j < 8 \<Longrightarrow> bit (prefix_mask v) j \<longleftrightarrow> 8 - unat v \<le> j"
proof -
  assume j: "j < 8"
  have "bit (0xff :: int) k" if "k < 8" for k using bit_low_byte that by blast
  with j show ?thesis by (auto simp: prefix_mask_def bit_simps)
qed

text \<open>The masked address keeps exactly the first \<open>pre\<close> bits, in network order, and zeroes the rest.\<close>

lemma bit_ecs_mask:
  assumes "i < div_ceil (unat pre) 8" and "div_ceil (unat pre) 8 \<le> length addr" and "j < 8"
  shows "bit (ecs_mask addr pre ! i) j \<longleftrightarrow> bit (addr ! i) j \<and> 8 * i + (7 - j) < unat pre"
proof -
  let ?n = "div_ceil (unat pre) 8"
  let ?v = "pre mod 8"
  have v: "unat ?v = unat pre mod 8" by (simp add: unat_mod)
  have copy: "zip_copy (replicate ?n 0) addr ! i = addr ! i" using assms by (simp add: nth_zip_copy)
  show ?thesis
  proof (cases "?v = 0")
    case True
    with v have "unat pre mod 8 = 0" by (metis unsigned_0)
    then have "8 * ?n = unat pre" by (auto simp: div_ceil_8)
    then have "8 * i + 8 \<le> unat pre" using assms(1) by simp
    then have "8 * i + (7 - j) < unat pre" by linarith
    with True copy show ?thesis by (simp add: ecs_mask_def Let_def)
  next
    case False
    with v have "0 < unat pre mod 8" by (metis gr0I unat_eq_zero)
    then have "?n = Suc (unat pre div 8)" unfolding div_ceil_8 by (rule ceil_8)
    then have n: "unat pre = 8 * (?n - 1) + unat ?v" "0 < ?n" using v by simp_all
    have m: "ecs_mask addr pre ! i = (if Suc i = ?n then addr ! i AND prefix_mask ?v else addr ! i)"
      using False assms(1) copy by (simp add: ecs_mask_def Let_def nth_mask_last)
    have v8: "unat ?v < 8" using v by simp
    show ?thesis
    proof (cases "Suc i = ?n")
      case True
      with n have "unat pre = 8 * i + unat ?v" by simp
      with True m bit_prefix_mask [OF v8 assms(3)] assms(3) show ?thesis by (auto simp: bit_simps)
    next
      case False
      with assms(1) have "Suc i \<le> ?n - 1" by simp
      with n have "8 * Suc i \<le> unat pre" by simp
      then have "8 * i + (7 - j) < unat pre" by simp
      with False m show ?thesis by simp
    qed
  qed
qed

section \<open>What the option parser can return\<close>

lemma to_from_be_bytes_16: "length bs = 2 \<Longrightarrow> to_be_bytes 2 (from_be_bytes bs :: u16) = bs"
proof -
  assume "length bs = 2"
  then obtain a b where bs: "bs = [a, b]" by (auto simp: numeral_2_eq_2 length_Suc_conv)
  have "ucast (drop_bit 8 (push_bit 8 (ucast a) OR ucast b :: u16)) = a"
    by (rule bit_word_eqI) (auto simp: bit_simps dest: bit_u8_less)
  moreover have "ucast (push_bit 8 (ucast a) OR ucast b :: u16) = b"
    by (rule bit_word_eqI) (auto simp: bit_simps)
  ultimately show ?thesis by (simp add: bs to_be_bytes_def from_be_bytes_def numeral_2_eq_2)
qed

lemma u16_at_bytes: "u16_at buf p = Ok v \<Longrightarrow> to_be_bytes 2 v = take 2 (drop p buf)"
  by (auto simp: u16_at_def array_at_slice_at to_from_be_bytes_16 dest!: slice_at_eq_Ok_D)

lemma ecs_parse_ok:
  assumes "ecs_parse data = Ok e"
  shows "ecs_ok e \<and> ecs_to_wire e = data"
proof -
  from assms obtain f where f: "u16_at data 0 = Ok f" and
    e: "e = \<lparr>ecs_family = f, source_prefix = data ! 2, scope_prefix = data ! 3, ecs_address = drop 4 data\<rparr>"
    and ok: "ecs_ok e" and len: "4 \<le> length data"
    by (auto simp: ecs_parse_def ecs_ok_def not_less split: if_splits)
  have "take 2 data @ [data ! 2, data ! 3] @ drop 4 data = data"
    using len by (metis Cons_nth_drop_Suc Suc_1 Suc_le_lessD append_Cons append_Nil append_take_drop_id
        eval_nat_numeral(2,3) less_imp_le_nat numeral_3_eq_3 semiring_norm(26) semiring_norm(27) semiring_norm(28))
  with ok e u16_at_bytes [OF f] show ?thesis by (simp add: ecs_to_wire_def)
qed

lemma length_key_tags: "length (key_tags bs) = length bs div 2"
  by (induction bs rule: key_tags.induct) simp_all

lemma parse_option_ok:
  assumes "parse_option code data = Ok opt" and "length data \<le> 65535"
  shows "option_ok opt \<and> option_code opt = code \<and> length (option_data opt) \<le> length data"
proof -
  have ecs: "ecs_ok e \<and> length (ecs_to_wire e) = length data" if "ecs_parse data = Ok e" for e
    using ecs_parse_ok [OF that] by simp
  have tags: "length (concat (map (to_be_bytes 2) (key_tags data))) \<le> length data"
    by (simp add: length_concat comp_def sum_list_triv length_key_tags)
  have arr: "length c = 8 \<and> 8 \<le> length data" if "array_at data 0 8 = Ok c" for c
    using that by (auto simp: array_at_slice_at dest: slice_at_eq_Ok_D)
  show ?thesis
    using assms tags ecs
    by (auto simp: parse_option_def length_key_tags split: if_splits dest!: arr dest: u16_at_bound)
qed

lemma parse_options_loop_ok:
  "parse_options_loop rdata pos acc = Ok os \<Longrightarrow> list_all option_ok acc \<Longrightarrow> pos \<le> length rdata \<Longrightarrow>
   list_all option_ok os \<and>
   length (concat (map option_wire os)) + pos \<le> length (concat (map option_wire acc)) + length rdata"
proof (induction rdata pos acc rule: parse_options_loop.induct)
  case (1 rdata pos acc)
  show ?case
  proof (cases "pos < length rdata")
    case False
    with "1.prems" show ?thesis by (subst (asm) parse_options_loop.simps) auto
  next
    case True
    with "1.prems"(1) obtain code l data opt where code: "u16_at rdata pos = Ok code"
      and l: "u16_at rdata (pos + 2) = Ok l" and d: "slice_at rdata (pos + 4) (unat l) = Ok data"
      and opt: "parse_option code data = Ok opt"
      and rec: "parse_options_loop rdata (pos + 4 + unat l) (acc @ [opt]) = Ok os"
      by (subst (asm) parse_options_loop.simps) (auto simp: Let_def split: sum.splits)
    from slice_at_eq_Ok_D [OF d] have len: "length data = unat l" "pos + 4 + unat l \<le> length rdata" by blast+
    moreover have "unat l \<le> 65535" using unsigned_less [where 'a = nat, of l] by simp
    ultimately have ok: "option_ok opt" "length (option_wire opt) \<le> 4 + unat l"
      using parse_option_ok [OF opt] by (auto simp: option_wire_def Let_def)
    with "1.IH" [OF True code l refl d opt rec] "1.prems"(2) len show ?thesis by simp
  qed
qed

lemma edns_parse_ok: "edns_parse cls ttl rdata = Ok e \<Longrightarrow> length rdata \<le> 65535 \<Longrightarrow> edns_ok e"
  by (force simp: edns_parse_def edns_ok_def options_wire_def parse_options_def dest: parse_options_loop_ok)

end
