(* ===== verification/Message.thy ===== *)
theory Message
  imports Records Edns
begin

text \<open>
  \<^verbatim>\<open>src/src/message.rs\<close>: the DNS message, its header flags, \<^verbatim>\<open>Message::parse\<close>, \<^verbatim>\<open>Message::to_bytes\<close> and the
  truncation of a response for UDP.  The loops over the sections are \<open>get_many\<close> and \<open>put_all\<close> of
  \<open>Wire_Out\<close>, so that the section round trips are the lemmas of \<open>wire_codec\<close>.
\<close>

section \<open>Header flags\<close>

record header_flags =
  hf_qr :: bool
  hf_opcode :: opcode
  hf_aa :: bool
  hf_tc :: bool
  hf_rd :: bool
  hf_ra :: bool
  hf_ad :: bool
  hf_cd :: bool
  hf_rcode :: rcode

definition header_flags_default :: header_flags where
  "header_flags_default =
     \<lparr>hf_qr = False, hf_opcode = Opcode_QUERY, hf_aa = False, hf_tc = False, hf_rd = True, hf_ra = False,
      hf_ad = False, hf_cd = False, hf_rcode = Rcode_NOERROR\<rparr>"

definition set_if :: "bool \<Rightarrow> u16 \<Rightarrow> u16 \<Rightarrow> u16" where
  "set_if b f v = (if b then v OR f else v)"

definition flags_to_u16 :: "header_flags \<Rightarrow> u16" where
  "flags_to_u16 h =
     (let v = set_if (hf_qr h) 0x8000 0;
          v = v OR push_bit 11 (ucast (opcode_to_u8 (hf_opcode h)) AND 0x0f);
          v = set_if (hf_aa h) 0x0400 v;
          v = set_if (hf_tc h) 0x0200 v;
          v = set_if (hf_rd h) 0x0100 v;
          v = set_if (hf_ra h) 0x0080 v;
          v = set_if (hf_ad h) 0x0020 v;
          v = set_if (hf_cd h) 0x0010 v
      in v OR ucast (rcode_to_u8 (hf_rcode h) AND 0x0f))"

definition flags_from_u16 :: "u16 \<Rightarrow> header_flags" where
  "flags_from_u16 v =
     \<lparr>hf_qr = (v AND 0x8000 \<noteq> 0), hf_opcode = Opcode (ucast (drop_bit 11 v AND 0x0f)), hf_aa = (v AND 0x0400 \<noteq> 0),
      hf_tc = (v AND 0x0200 \<noteq> 0), hf_rd = (v AND 0x0100 \<noteq> 0), hf_ra = (v AND 0x0080 \<noteq> 0),
      hf_ad = (v AND 0x0020 \<noteq> 0), hf_cd = (v AND 0x0010 \<noteq> 0), hf_rcode = Rcode (ucast (v AND 0x0f))\<rparr>"

section \<open>Messages\<close>

definition MAX_SECTION_RECORDS :: usize where "MAX_SECTION_RECORDS = 4096"
definition MAX_QUESTIONS :: usize where "MAX_QUESTIONS = 16"

record question =
  qname :: name
  qtype :: rr_type
  qclass :: rr_class

record message =
  msg_id :: u16
  msg_flags :: header_flags
  questions :: "question list"
  answers :: "dns_record list"
  authorities :: "dns_record list"
  additionals :: "dns_record list"
  msg_edns :: "edns option"

definition message_new :: "u16 \<Rightarrow> message" where
  "message_new i =
     \<lparr>msg_id = i, msg_flags = header_flags_default, questions = [], answers = [], authorities = [],
      additionals = [], msg_edns = None\<rparr>"

definition message_query :: "u16 \<Rightarrow> name \<Rightarrow> rr_type \<Rightarrow> bool \<Rightarrow> message" where
  "message_query i n t recurse =
     (let m = message_new i
      in m\<lparr>msg_flags := (msg_flags m)\<lparr>hf_rd := recurse\<rparr>, questions := [\<lparr>qname = n, qtype = t, qclass = RrClass_IN\<rparr>]\<rparr>)"

definition message_question :: "message \<Rightarrow> question option" where
  "message_question m = (case questions m of [] \<Rightarrow> None | q # _ \<Rightarrow> Some q)"

definition message_rcode :: "message \<Rightarrow> u16" where
  "message_rcode m =
     (case msg_edns m of
        Some e \<Rightarrow> extended_rcode e (rcode_to_u8 (hf_rcode (msg_flags m)))
      | None \<Rightarrow> ucast (rcode_to_u8 (hf_rcode (msg_flags m))))"

definition is_response :: "message \<Rightarrow> bool" where "is_response m = hf_qr (msg_flags m)"
definition is_truncated :: "message \<Rightarrow> bool" where "is_truncated m = hf_tc (msg_flags m)"

section \<open>Parsing\<close>

definition question_parse :: "bytes \<Rightarrow> usize \<Rightarrow> (question \<times> usize) result" where
  "question_parse buf pos =
     rbind (name_from_wire buf pos) (\<lambda>(n, p).
     rbind (map_err (\<lambda>_. error_wire ''question truncated'') (u16_at buf p)) (\<lambda>t.
     rbind (map_err (\<lambda>_. error_wire ''question truncated'') (u16_at buf (p + 2))) (\<lambda>c.
     Ok (\<lparr>qname = n, qtype = RrType t, qclass = RrClass c\<rparr>, p + 4))))"

definition opt_options :: "rdata \<Rightarrow> bytes" where
  "opt_options rd = (case rd of Unknown d \<Rightarrow> d | _ \<Rightarrow> [])"

fun parse_additionals :: "nat \<Rightarrow> bytes \<Rightarrow> usize \<Rightarrow> dns_record list \<Rightarrow> edns option \<Rightarrow>
    (dns_record list \<times> edns option) result" where
  "parse_additionals 0 buf pos adds e = Ok (adds, e)"
| "parse_additionals (Suc n) buf pos adds e =
     rbind (record_parse buf pos) (\<lambda>(r, p).
     if rec_type r = RrType_OPT then
       (if e \<noteq> None then Err (error_wire ''multiple OPT records'')
        else rbind (edns_parse (rr_class_to_u16 (rec_class r)) (rec_ttl r) (opt_options (rec_rdata r))) (\<lambda>e'.
             parse_additionals n buf p adds (Some e')))
     else parse_additionals n buf p (adds @ [r]) e)"

definition message_parse :: "bytes \<Rightarrow> message result" where
  "message_parse buf =
     (if length buf < 12 then Err (error_wire ''message shorter than header'')
      else
        rbind (u16_at buf 0) (\<lambda>i.
        rbind (u16_at buf 2) (\<lambda>fl.
        rbind (u16_at buf 4) (\<lambda>qd.
        rbind (u16_at buf 6) (\<lambda>an.
        rbind (u16_at buf 8) (\<lambda>ns.
        rbind (u16_at buf 10) (\<lambda>ar.
        if unat qd > MAX_QUESTIONS \<or> unat an > MAX_SECTION_RECORDS \<or> unat ns > MAX_SECTION_RECORDS
           \<or> unat ar > MAX_SECTION_RECORDS
        then Err (error_wire ''section count exceeds limits'')
        else
          rbind (get_many question_parse (unat qd) buf 12) (\<lambda>(qs, p1).
          rbind (get_many record_parse (unat an) buf p1) (\<lambda>(ans, p2).
          rbind (get_many record_parse (unat ns) buf p2) (\<lambda>(auths, p3).
          rbind (parse_additionals (unat ar) buf p3 [] None) (\<lambda>(adds, e).
          Ok \<lparr>msg_id = i, msg_flags = flags_from_u16 fl, questions = qs, answers = ans, authorities = auths,
               additionals = adds, msg_edns = e\<rparr>)))))))))))"

section \<open>Serialization\<close>

definition put_question :: "question \<Rightarrow> wire_out \<Rightarrow> wire_out" where
  "put_question q w =
     put_bytes (to_be_bytes 2 (rr_type_to_u16 (qtype q)) @ to_be_bytes 2 (rr_class_to_u16 (qclass q)))
       (put_name (qname q) True w)"

definition put_opt :: "edns \<Rightarrow> wire_out \<Rightarrow> wire_out" where
  "put_opt e w =
     (let w = put_name name_root True w;
          data = options_wire e
      in put_bytes (to_be_bytes 2 (rr_type_to_u16 RrType_OPT) @ to_be_bytes 2 (udp_payload_size e)
           @ to_be_bytes 4 (ttl_field e) @ to_be_bytes 2 (of_nat (length data) :: u16) @ data) w)"

definition message_start :: "message \<Rightarrow> wire_out" where
  "message_start m =
     (Some compressor_new, to_be_bytes 2 (msg_id m) @ to_be_bytes 2 (flags_to_u16 (msg_flags m)) @ [0, 0, 0, 0, 0, 0, 0, 0])"

definition put_questions :: "question list \<Rightarrow> wire_out \<Rightarrow> wire_out" where
  "put_questions qs w = foldl (\<lambda>w q. put_question q w) w qs"

definition put_sections :: "message \<Rightarrow> wire_out \<Rightarrow> wire_out result" where
  "put_sections m w =
     rbind (put_all record_to_wire (answers m) (put_questions (questions m) w)) (\<lambda>w.
     rbind (put_all record_to_wire (authorities m) w) (\<lambda>w.
     rbind (put_all record_to_wire (additionals m) w) (\<lambda>w.
     Ok (case msg_edns m of Some e \<Rightarrow> put_opt e w | None \<Rightarrow> w))))"

definition header_counts :: "message \<Rightarrow> bytes" where
  "header_counts m =
     (let extra = length (additionals m) + (if msg_edns m \<noteq> None then 1 else 0)
      in to_be_bytes 2 (of_nat (length (questions m)) :: u16) @ to_be_bytes 2 (of_nat (length (answers m)) :: u16)
         @ to_be_bytes 2 (of_nat (length (authorities m)) :: u16) @ to_be_bytes 2 (of_nat extra :: u16))"

definition to_bytes :: "message \<Rightarrow> bytes result" where
  "to_bytes m =
     rbind (put_sections m (message_start m)) (\<lambda>(c, out).
     if 4 + 8 \<le> length out then Ok (take 4 out @ header_counts m @ drop (4 + 8) out)
     else Err (error_internal ''header count offset out of range''))"

definition message_wire_len :: "message \<Rightarrow> usize" where
  "message_wire_len m = (case to_bytes m of Inr b \<Rightarrow> length b | Inl _ \<Rightarrow> usize_bound - 1)"

section \<open>Truncation\<close>

fun fit_records :: "usize \<Rightarrow> dns_record list \<Rightarrow> wire_out \<Rightarrow> usize \<Rightarrow> usize \<times> wire_out option" where
  "fit_records budget [] w n = (n, Some w)"
| "fit_records budget (r # rs) w n =
     (case record_to_wire r w of
        Inl _ \<Rightarrow> (n, None)
      | Inr w' \<Rightarrow> if written w' > budget then (n, None) else fit_records budget rs w' (n + 1))"

definition opt_footprint :: "message \<Rightarrow> usize" where
  "opt_footprint m = (case msg_edns m of Some e \<Rightarrow> 1 + 10 + length (options_wire e) | None \<Rightarrow> 0)"

definition fit_sections :: "message \<Rightarrow> usize \<Rightarrow> usize \<times> usize \<times> usize" where
  "fit_sections m limit =
     (let budget = limit - opt_footprint m in
      case fit_records budget (answers m) (put_questions (questions m) (message_start m)) 0 of
        (a, None) \<Rightarrow> (a, 0, 0)
      | (a, Some w) \<Rightarrow>
          (case fit_records budget (authorities m) w 0 of
             (b, None) \<Rightarrow> (a, b, 0)
           | (b, Some w) \<Rightarrow> (a, b, fst (fit_records budget (additionals m) w 0))))"

definition truncate_for_udp :: "usize \<Rightarrow> message \<Rightarrow> message" where
  "truncate_for_udp limit m =
     (let limit = max limit 512 in
      if message_wire_len m \<le> limit then m
      else
        (let m = m\<lparr>msg_flags := (msg_flags m)\<lparr>hf_tc := True\<rparr>\<rparr>;
             (a, b, c) = fit_sections m limit
         in m\<lparr>answers := take a (answers m), authorities := take b (authorities m),
              additionals := take c (additionals m)\<rparr>))"

section \<open>Derived messages and accessors\<close>

definition error_response :: "message \<Rightarrow> rcode \<Rightarrow> message" where
  "error_response m code =
     (let r = message_new (msg_id m)
      in r\<lparr>msg_flags := (msg_flags r)\<lparr>hf_qr := True, hf_rd := hf_rd (msg_flags m), hf_ra := True, hf_rcode := code\<rparr>,
           questions := questions m,
           msg_edns := (case msg_edns m of
              Some e \<Rightarrow> Some ((edns_new (udp_payload_size e))\<lparr>udp_payload_size := udp_payload_size e\<rparr>)
            | None \<Rightarrow> None)\<rparr>)"

definition matches_question :: "message \<Rightarrow> name \<Rightarrow> rr_type \<Rightarrow> bool" where
  "matches_question m n t = (case message_question m of Some q \<Rightarrow> qname q = n \<and> qtype q = t | None \<Rightarrow> False)"

definition answers_of_type :: "message \<Rightarrow> rr_type \<Rightarrow> dns_record list" where
  "answers_of_type m t = filter (\<lambda>r. rec_type r = t) (answers m)"

definition authority_soa :: "message \<Rightarrow> dns_record option" where
  "authority_soa m = find (\<lambda>r. rec_type r = RrType_SOA) (authorities m)"

definition encode_query :: "u16 \<Rightarrow> name \<Rightarrow> rr_type \<Rightarrow> edns option \<Rightarrow> bytes result" where
  "encode_query i n t e =
     (let m = message_query i n t True
      in to_bytes (case e of Some e \<Rightarrow> m\<lparr>msg_edns := Some e\<rparr> | None \<Rightarrow> m))"

end
