(* ===== verification/Message_Roundtrip.thy ===== *)
theory Message_Roundtrip
  imports Message
begin

text \<open>
  The codec theorems of \<^verbatim>\<open>message.rs\<close>.  Header flags survive the round trip except the Z bit; every
  message whose fields fit the format is parsed back from its serialization, up to
  \<open>message_norm\<close> (sorted NSEC bitmaps, padding lengths); whatever the parser returns fits.
\<close>

section \<open>Header flags\<close>

lemma bit_powers:
  "bit (0x8000 :: int) n \<longleftrightarrow> n = 15" "bit (0x0400 :: int) n \<longleftrightarrow> n = 10" "bit (0x0200 :: int) n \<longleftrightarrow> n = 9"
  "bit (0x0100 :: int) n \<longleftrightarrow> n = 8" "bit (0x0080 :: int) n \<longleftrightarrow> n = 7" "bit (0x0040 :: int) n \<longleftrightarrow> n = 6"
  "bit (0x0020 :: int) n \<longleftrightarrow> n = 5" "bit (0x0010 :: int) n \<longleftrightarrow> n = 4"
proof -
  have p: "bit (2 ^ k :: int) n \<longleftrightarrow> n = k" for k by (auto simp: bit_exp_iff)
  show "bit (0x8000 :: int) n \<longleftrightarrow> n = 15" "bit (0x0400 :: int) n \<longleftrightarrow> n = 10" "bit (0x0200 :: int) n \<longleftrightarrow> n = 9"
    "bit (0x0100 :: int) n \<longleftrightarrow> n = 8" "bit (0x0080 :: int) n \<longleftrightarrow> n = 7" "bit (0x0040 :: int) n \<longleftrightarrow> n = 6"
    "bit (0x0020 :: int) n \<longleftrightarrow> n = 5" "bit (0x0010 :: int) n \<longleftrightarrow> n = 4"
    using p [of 15] p [of 10] p [of 9] p [of 8] p [of 7] p [of 6] p [of 5] p [of 4] by simp_all
qed

lemma bit_nibble: "bit (0x0f :: int) n \<longleftrightarrow> n < 4"
proof -
  have "(0x0f :: int) = mask 4" by (simp add: mask_eq_exp_minus_1)
  then show ?thesis by (simp only: bit_mask_iff) auto
qed

definition flags_ok :: "header_flags \<Rightarrow> bool" where
  "flags_ok h \<longleftrightarrow> opcode_to_u8 (hf_opcode h) < 16 \<and> rcode_to_u8 (hf_rcode h) < 16"

lemma bit_flags_consts:
  "bit (0x8000 :: u16) n \<longleftrightarrow> n = 15" "bit (0x0400 :: u16) n \<longleftrightarrow> n = 10" "bit (0x0200 :: u16) n \<longleftrightarrow> n = 9"
  "bit (0x0100 :: u16) n \<longleftrightarrow> n = 8" "bit (0x0080 :: u16) n \<longleftrightarrow> n = 7" "bit (0x0020 :: u16) n \<longleftrightarrow> n = 5"
  "bit (0x0010 :: u16) n \<longleftrightarrow> n = 4" "bit (0x0040 :: u16) n \<longleftrightarrow> n = 6"
  by (auto simp: bit_simps bit_powers)

lemma bit_set_if: "bit (set_if b f v) n \<longleftrightarrow> b \<and> bit f n \<or> bit v n"
  by (auto simp: set_if_def bit_simps)

lemma bit_nibble_16: "bit (0x0f :: u16) n \<longleftrightarrow> n < 4"
  by (auto simp: bit_simps bit_nibble)

lemma bit_opcode_field: "bit (push_bit 11 (ucast (x :: u8) AND 0x0f) :: u16) n \<longleftrightarrow> 11 \<le> n \<and> n < 15 \<and> bit x (n - 11)"
  unfolding bit_push_bit_iff bit_and_iff bit_nibble_16 bit_unsigned_iff by auto

lemma bit_rcode_field: "bit (ucast (x AND 0x0f :: u8) :: u16) n \<longleftrightarrow> n < 4 \<and> bit x n"
  by (auto simp: bit_simps bit_nibble)

lemma bit_flags_to_u16:
  "bit (flags_to_u16 h) n \<longleftrightarrow>
     n < 4 \<and> bit (rcode_to_u8 (hf_rcode h)) n \<or> hf_cd h \<and> n = 4 \<or> hf_ad h \<and> n = 5 \<or> hf_ra h \<and> n = 7 \<or>
     hf_rd h \<and> n = 8 \<or> hf_tc h \<and> n = 9 \<or> hf_aa h \<and> n = 10 \<or>
     11 \<le> n \<and> n < 15 \<and> bit (opcode_to_u8 (hf_opcode h)) (n - 11) \<or> hf_qr h \<and> n = 15"
  unfolding flags_to_u16_def Let_def bit_or_iff bit_set_if bit_opcode_field bit_rcode_field bit_flags_consts
  by (simp only: bit_0_eq bot_apply bot_bool_def) blast

lemma and_bit_nonzero:
  fixes v w :: u16
  assumes "\<And>n. bit w n \<longleftrightarrow> n = k"
  shows "(v AND w \<noteq> 0) \<longleftrightarrow> bit v k"
  unfolding bit_eq_iff [of "v AND w"] bit_and_iff assms by (auto dest: bit_imp_le_length)

lemma bit_small: "(x :: u8) < 16 \<Longrightarrow> bit x n \<Longrightarrow> n < 4"
proof -
  assume "x < 16" "bit x n"
  then have "take_bit 4 x = x" by (simp add: take_bit_eq_mod word_less_nat_alt word_unat_eq_iff unat_mod)
  with \<open>bit x n\<close> show "n < 4" by (metis bit_take_bit_iff)
qed

lemmas flag_tests = and_bit_nonzero [OF bit_flags_consts(1)] and_bit_nonzero [OF bit_flags_consts(2)]
  and_bit_nonzero [OF bit_flags_consts(3)] and_bit_nonzero [OF bit_flags_consts(4)]
  and_bit_nonzero [OF bit_flags_consts(5)] and_bit_nonzero [OF bit_flags_consts(6)]
  and_bit_nonzero [OF bit_flags_consts(7)]

lemma flags_from_to:
  assumes "flags_ok h"
  shows "flags_from_u16 (flags_to_u16 h) = h"
proof -
  have "ucast (drop_bit 11 (flags_to_u16 h) AND 0x0f) = opcode_to_u8 (hf_opcode h)"
    using assms by (intro bit_word_eqI)
      (auto simp: bit_simps bit_flags_to_u16 bit_nibble flags_ok_def dest: bit_small)
  moreover have "ucast (flags_to_u16 h AND 0x0f) = rcode_to_u8 (hf_rcode h)"
    using assms by (intro bit_word_eqI)
      (auto simp: bit_simps bit_flags_to_u16 bit_nibble flags_ok_def dest: bit_small)
  ultimately show ?thesis unfolding flags_from_u16_def flag_tests by (simp add: bit_flags_to_u16)
qed

lemma bit_from_opcode: "bit (ucast (drop_bit 11 v AND 0x0f :: u16) :: u8) n \<longleftrightarrow> n < 4 \<and> bit v (11 + n)"
  by (auto simp: bit_simps bit_nibble)

lemma bit_from_rcode: "bit (ucast (v AND 0x0f :: u16) :: u8) n \<longleftrightarrow> n < 4 \<and> bit v n"
  by (auto simp: bit_simps bit_nibble)

lemma flags_to_from: "flags_to_u16 (flags_from_u16 v) = v AND NOT 0x40"
proof (rule bit_word_eqI)
  fix n
  assume "n < LENGTH(16)"
  then have n: "bit (NOT 0x40 :: u16) n \<longleftrightarrow> n \<noteq> 6" by (simp only: bit_not_iff bit_flags_consts possible_bit_word) simp
  from \<open>n < LENGTH(16)\<close> have "n \<in> {0, 1, 2, 3, 4, 5, 6, 7, 8, 9, 10, 11, 12, 13, 14, 15}"
    by (simp, presburger)
  then have "bit (flags_to_u16 (flags_from_u16 v)) n \<longleftrightarrow> bit v n \<and> n \<noteq> 6"
    unfolding bit_flags_to_u16 flags_from_u16_def flag_tests header_flags.simps opcode.sel rcode.sel bit_from_opcode bit_from_rcode
    by (elim insertE emptyE) (simp_all add: bit_drop_bit_eq)
  with n show "bit (flags_to_u16 (flags_from_u16 v)) n = bit (v AND NOT 0x40) n" by (simp only: bit_and_iff)
qed

lemma small_if_bits:
  fixes x :: u8
  assumes "\<And>n. bit x n \<Longrightarrow> n < 4"
  shows "x < 16"
proof -
  have "take_bit 4 x = x" by (rule bit_word_eqI) (use assms in \<open>auto simp: bit_simps\<close>)
  moreover have "unat (take_bit 4 x) < 16" by (simp add: take_bit_eq_mod unat_mod)
  ultimately show ?thesis by (simp add: word_less_nat_alt)
qed

lemma flags_from_ok: "flags_ok (flags_from_u16 v)"
  by (auto simp: flags_ok_def flags_from_u16_def bit_from_opcode bit_from_rcode intro!: small_if_bits simp del: bit_and_iff)

section \<open>Questions\<close>

abbreviation question_ok :: "question \<Rightarrow> bool" where
  "question_ok q \<equiv> wf_name (qname q)"

lemma put_question_uniform: "uniform (put_question q)"
  by (rule uniform_eq [OF _ put_question_def]) (rule uniform_puts)+

lemma question_parse_written:
  assumes "out_inv w" and "question_ok q" and "rust_slice buf" and "prefix (snd (put_question q w)) buf"
  shows "question_parse buf (written w) = Ok (q, written (put_question q w))"
proof -
  let ?w1 = "put_name (qname q) True w"
  have pre: "prefix (snd ?w1 @ to_be_bytes 2 (rr_type_to_u16 (qtype q)) @ to_be_bytes 2 (rr_class_to_u16 (qclass q))) buf"
    using assms(4) by (simp add: put_question_def)
  have "name_from_wire buf (written w) = Ok (qname q, written ?w1)"
    using pre assms by (intro read_put_name) (auto dest: append_prefixD)
  moreover from prefix_occurs [OF pre] have "u16_at buf (written ?w1) = Ok (rr_type_to_u16 (qtype q))"
    "u16_at buf (written ?w1 + 2) = Ok (rr_class_to_u16 (qclass q))"
    using assms(3) by (simp_all add: wire_reads)
  ultimately show ?thesis by (simp add: question_parse_def put_question_def del: rbind_eq_Ok)
qed

lemma question_parse_ok: "rust_slice buf \<Longrightarrow> question_parse buf p = Ok (q, p') \<Longrightarrow> question_ok q"
  by (auto simp: question_parse_def dest: name_from_wire_wf)

lemma put_question_inv: "out_inv w \<Longrightarrow> question_ok q \<Longrightarrow> out_inv (put_question q w)"
  by (simp add: put_question_def)

interpretation question_codec: wire_codec "\<lambda>q w. Ok (put_question q w)" question_parse question_ok "\<lambda>q. q"
proof unfold_locales
  fix q w w'
  show "uniform_result (\<lambda>w. Ok (put_question q w))" using put_question_uniform by (rule uniform_result_Ok)
  assume "out_inv w" "question_ok q" "Ok (put_question q w) = Ok w'"
  then show "out_inv w'" using put_question_inv by blast
qed (use question_parse_written question_parse_ok in blast)+

lemma put_questions_all: "put_all (\<lambda>q w. Ok (put_question q w)) qs w = Ok (put_questions qs w)"
  by (induction qs arbitrary: w) (simp_all add: put_questions_def)

section \<open>The OPT record\<close>

definition opt_record :: "edns \<Rightarrow> dns_record" where
  "opt_record e = \<lparr>rec_name = name_root, rec_type = RrType_OPT, rec_class = RrClass (udp_payload_size e),
     rec_ttl = ttl_field e, rec_rdata = Unknown (options_wire e)\<rparr>"

lemma put_opt_record: "length (options_wire e) \<le> 65535 \<Longrightarrow> record_to_wire (opt_record e) w = Ok (put_opt e w)"
  by (simp add: record_to_wire_head record_head_def opt_record_def put_opt_def put_bytes_def Let_def)

lemma wf_name_root: "wf_name name_root"
  using wf_name_encode [of "[]"] by (simp add: name_root_def wf_labels_def)

lemma opt_record_ok: "record_ok (opt_record e)"
  by (simp add: record_ok_def opt_record_def wf_name_root parsed_types_def rr_type_consts)

lemma record_norm_opt: "record_norm (opt_record e) = opt_record e"
  by (simp add: record_norm_def opt_record_def)

section \<open>Additional section\<close>

lemma parse_additionals_written:
  "out_inv w \<Longrightarrow> list_all record_ok rs \<Longrightarrow> list_all (\<lambda>r. rec_type r \<noteq> RrType_OPT) rs \<Longrightarrow>
   put_all record_to_wire rs w = Ok w' \<Longrightarrow> rust_slice buf \<Longrightarrow> prefix (snd w') buf \<Longrightarrow>
   parse_additionals (length rs + k) buf (written w) acc e
     = parse_additionals k buf (written w') (acc @ map record_norm rs) e"
proof (induction rs arbitrary: w acc)
  case (Cons r rs)
  then obtain w1 where w1: "record_to_wire r w = Ok w1" "put_all record_to_wire rs w1 = Ok w'" by auto
  then have "prefix (snd w1) buf"
    using uniform_result_prefix [OF record_codec.put_all_uniform] Cons.prems(6) prefix_order.trans by blast
  with w1 Cons.prems have "record_parse buf (written w) = Ok (record_norm r, written w1)"
    by (intro record_parse_written) auto
  moreover have "out_inv w1" using w1(1) Cons.prems(1,2) by (auto intro: record_to_wire_inv)
  ultimately show ?case
    using Cons.IH [of w1 "acc @ [record_norm r]"] w1(2) Cons.prems by (simp add: record_norm_def)
qed simp

section \<open>Messages\<close>

definition message_ok :: "message \<Rightarrow> bool" where
  "message_ok m \<longleftrightarrow>
     flags_ok (msg_flags m) \<and>
     list_all question_ok (questions m) \<and> length (questions m) \<le> MAX_QUESTIONS \<and>
     list_all record_ok (answers m) \<and> length (answers m) \<le> MAX_SECTION_RECORDS \<and>
     list_all record_ok (authorities m) \<and> length (authorities m) \<le> MAX_SECTION_RECORDS \<and>
     list_all record_ok (additionals m) \<and> list_all (\<lambda>r. rec_type r \<noteq> RrType_OPT) (additionals m) \<and>
     length (additionals m) + (if msg_edns m \<noteq> None then 1 else 0) \<le> MAX_SECTION_RECORDS \<and>
     (case msg_edns m of None \<Rightarrow> True | Some e \<Rightarrow> edns_ok e)"

definition message_norm :: "message \<Rightarrow> message" where
  "message_norm m =
     m\<lparr>answers := map record_norm (answers m), authorities := map record_norm (authorities m),
       additionals := map record_norm (additionals m), msg_edns := map_option edns_norm (msg_edns m)\<rparr>"

lemma put_opt_uniform: "uniform (put_opt e)"
  by (rule uniform_eq [of "\<lambda>w. put_bytes _ (put_name name_root True w)"]) 
    ((rule uniform_puts)+, simp add: put_opt_def Let_def)

lemma put_questions_uniform: "uniform (put_questions qs)"
proof (induction qs)
  case Nil
  show ?case by (rule uniform_eq [OF uniform_id]) (simp add: put_questions_def)
next
  case (Cons q qs)
  show ?case
    by (rule uniform_eq [OF uniform_comp [OF Cons put_question_uniform [of q]]]) (simp add: put_questions_def)
qed

lemma put_sections_uniform: "uniform_result (put_sections m)"
proof -
  have e: "uniform_result (\<lambda>w. Ok (case msg_edns m of Some e \<Rightarrow> put_opt e w | None \<Rightarrow> w))"
    by (cases "msg_edns m") (auto intro: put_opt_uniform uniform_id)
  have chain: "put_sections m = (\<lambda>w. rbind (rbind (rbind (rbind (Ok (put_questions (questions m) w))
      (put_all record_to_wire (answers m))) (put_all record_to_wire (authorities m)))
      (put_all record_to_wire (additionals m))) (\<lambda>w. Ok (case msg_edns m of Some e \<Rightarrow> put_opt e w | None \<Rightarrow> w)))"
    by (auto simp: put_sections_def rbind_def fun_eq_iff split: sum.splits)
  show ?thesis
    unfolding chain
    by (intro uniform_result_bind uniform_result_Ok [OF put_questions_uniform] record_codec.put_all_uniform e)
qed

text \<open>The counts are patched into the header: the bytes are those of a run that starts with them.\<close>

definition message_header :: "message \<Rightarrow> bytes" where
  "message_header m = to_be_bytes 2 (msg_id m) @ to_be_bytes 2 (flags_to_u16 (msg_flags m)) @ header_counts m"

lemma length_header_counts [simp]: "length (header_counts m) = 8"
  by (simp add: header_counts_def Let_def)

lemma to_bytes_patched:
  assumes "to_bytes m = Ok bs"
  obtains c where "put_sections m (Some compressor_new, message_header m) = Ok (c, bs)"
proof -
  let ?h = "to_be_bytes 2 (msg_id m) @ to_be_bytes 2 (flags_to_u16 (msg_flags m))"
  from assms obtain c out where w: "put_sections m (Some compressor_new, ?h @ [0, 0, 0, 0, 0, 0, 0, 0]) = Ok (c, out)"
    and bs: "bs = take 4 out @ header_counts m @ drop 12 out"
    by (auto simp: to_bytes_def message_start_def split: if_splits)
  from uniform_resultD [OF put_sections_uniform w] obtain body where body:
    "out = ?h @ [0, 0, 0, 0, 0, 0, 0, 0] @ body"
    "\<And>out'. length out' = 12 \<Longrightarrow> put_sections m (Some compressor_new, out') = Ok (c, out' @ body)"
    by (auto simp: length_Cons)
  have "put_sections m (Some compressor_new, message_header m) = Ok (c, message_header m @ body)"
    by (rule body(2)) (simp add: message_header_def)
  moreover have "bs = message_header m @ body" using bs body(1) by (simp add: message_header_def)
  ultimately show thesis using that by simp
qed

lemma prefix_chain: "uniform_result f \<Longrightarrow> f w = Ok w' \<Longrightarrow> prefix (snd w') buf \<Longrightarrow> prefix (snd w) buf"
  using uniform_result_prefix prefix_order.trans by blast

lemma message_header_reads:
  assumes "prefix (message_header m) buf" and "rust_slice buf"
  shows "u16_at buf 0 = Ok (msg_id m)" "u16_at buf 2 = Ok (flags_to_u16 (msg_flags m))"
    "u16_at buf 4 = Ok (of_nat (length (questions m)))" "u16_at buf 6 = Ok (of_nat (length (answers m)))"
    "u16_at buf 8 = Ok (of_nat (length (authorities m)))"
    "u16_at buf 10 = Ok (of_nat (length (additionals m) + (if msg_edns m \<noteq> None then 1 else 0)))"
  using prefix_occurs [of "[]" "message_header m" buf] assms
  by (auto simp: message_header_def header_counts_def Let_def numeral_2_eq_2 [symmetric] intro!: u16_at_occurs)

lemma edns_written:
  assumes "out_inv w" and "edns_ok e" and "rust_slice buf" and "prefix (snd (put_opt e w)) buf"
  shows "parse_additionals 1 buf (written w) acc None = Ok (acc, Some (edns_norm e))"
proof -
  have "record_to_wire (opt_record e) w = Ok (put_opt e w)" using assms(2) by (intro put_opt_record) (simp add: edns_ok_def)
  from record_parse_written [OF assms(1) opt_record_ok this assms(3,4)]
  have "record_parse buf (written w) = Ok (opt_record e, written (put_opt e w))" by (simp add: record_norm_opt)
  moreover have "edns_parse (udp_payload_size e) (ttl_field e) (options_wire e) = Ok (edns_norm e)"
    using assms(2) by (rule edns_parse_written)
  ultimately show ?thesis by (simp add: opt_record_def opt_options_def)
qed

declare parse_additionals.simps(2) [simp del]

lemma additionals_written:
  assumes i3: "out_inv w3" and w4: "put_all record_to_wire rs w3 = Ok w4" and r: "rust_slice bs" and p4: "prefix (snd w4) bs"
    and ok: "list_all record_ok rs" "list_all (\<lambda>r. rec_type r \<noteq> RrType_OPT) rs" "\<And>e. oe = Some e \<Longrightarrow> edns_ok e"
    and w5: "bs = snd (case oe of Some e \<Rightarrow> put_opt e w4 | None \<Rightarrow> w4)"
  shows "parse_additionals (length rs + (if oe \<noteq> None then 1 else 0)) bs (written w3) [] None
    = Ok (map record_norm rs, map_option edns_norm oe)"
proof (cases oe)
  case None
  with parse_additionals_written [OF i3 ok(1,2) w4 r p4, of 0 "[]" None] show ?thesis by simp
next
  case (Some e)
  have i4: "out_inv w4" using record_codec.put_all_inv [OF i3 ok(1) w4] .
  have "parse_additionals 1 bs (written w4) (map record_norm rs) None = Ok (map record_norm rs, Some (edns_norm e))"
    using edns_written [OF i4 ok(3) [OF Some] r] w5 Some by simp
  with Some parse_additionals_written [OF i3 ok(1,2) w4 r p4, of 1 "[]" None] show ?thesis
    by (simp only: option.simps append_Nil if_True not_False_eq_True option.distinct)
qed

lemma message_parse_written:
  assumes ok: "message_ok m" and bs: "to_bytes m = Ok bs" and r: "rust_slice bs"
  shows "message_parse bs = Ok (message_norm m)"
proof -
  from bs obtain c where "put_sections m (Some compressor_new, message_header m) = Ok (c, bs)" by (rule to_bytes_patched)
  define w0 where "w0 = (Some compressor_new, message_header m)"
  define w1 where "w1 = put_questions (questions m) w0"
  obtain w2 w3 w4 where w2: "put_all record_to_wire (answers m) w1 = Ok w2"
    and w3: "put_all record_to_wire (authorities m) w2 = Ok w3"
    and w4: "put_all record_to_wire (additionals m) w3 = Ok w4"
    and w5: "bs = snd (case msg_edns m of Some e \<Rightarrow> put_opt e w4 | None \<Rightarrow> w4)"
    using \<open>put_sections m _ = _\<close> unfolding put_sections_def w1_def w0_def by auto
  have w1: "put_all (\<lambda>q w. Ok (put_question q w)) (questions m) w0 = Ok w1" by (simp add: put_questions_all w1_def)
  note prefix_all = prefix_chain [OF record_codec.put_all_uniform]
  have p4: "prefix (snd w4) bs" using w5 uniform_prefix [OF put_opt_uniform] by (auto split: option.splits)
  have p3: "prefix (snd w3) bs" using prefix_all [OF w4 p4] .
  have p2: "prefix (snd w2) bs" using prefix_all [OF w3 p3] .
  have p1: "prefix (snd w1) bs" using prefix_all [OF w2 p2] .
  have p0: "prefix (message_header m) bs"
    using prefix_chain [OF question_codec.put_all_uniform w1 p1] by (simp add: w0_def)
  note ok' = ok [unfolded message_ok_def]
  have i0: "out_inv w0" by (simp add: w0_def out_inv_def)
  have i1: "out_inv w1" using question_codec.put_all_inv [OF i0 _ w1] ok' by blast
  have i2: "out_inv w2" using record_codec.put_all_inv [OF i1 _ w2] ok' by blast
  have i3: "out_inv w3" using record_codec.put_all_inv [OF i2 _ w3] ok' by blast
  have i4: "out_inv w4" using record_codec.put_all_inv [OF i3 _ w4] ok' by blast
  have q: "get_many question_parse (length (questions m)) bs 12 = Ok (questions m, written w1)"
    using question_codec.get_put_all [OF i0 _ w1 r p1] ok' by (simp add: w0_def message_header_def)
  have a: "get_many record_parse (length (answers m)) bs (written w1) = Ok (map record_norm (answers m), written w2)"
    using record_codec.get_put_all [OF i1 _ w2 r p2] ok' by blast
  have n: "get_many record_parse (length (authorities m)) bs (written w2) = Ok (map record_norm (authorities m), written w3)"
    using record_codec.get_put_all [OF i2 _ w3 r p3] ok' by blast
  define k where "k = length (additionals m) + (if msg_edns m \<noteq> None then 1 else 0)"
  have x: "parse_additionals k bs (written w3) [] None
      = Ok (map record_norm (additionals m), map_option edns_norm (msg_edns m))"
    unfolding k_def by (rule additionals_written [OF i3 w4 r p4 _ _ _ w5]) (use ok' in \<open>auto split: option.splits\<close>)
  note hdr = message_header_reads [OF p0 r, folded k_def]
  have "12 \<le> length bs" using prefix_length_le [OF p0] by (simp add: message_header_def)
  moreover have "unat (of_nat n :: u16) = n" if "n \<le> 4096" for n
    using that by (simp add: unat_of_nat take_bit_eq_mod)
  moreover have "length (questions m) \<le> 16" "length (answers m) \<le> 4096" "length (authorities m) \<le> 4096" "k \<le> 4096"
    "flags_ok (msg_flags m)"
    using ok' by (simp_all add: MAX_QUESTIONS_def MAX_SECTION_RECORDS_def k_def)
  ultimately show ?thesis
    using hdr q a n x
    by (simp add: message_parse_def message_norm_def flags_from_to MAX_QUESTIONS_def MAX_SECTION_RECORDS_def del: rbind_eq_Ok)
qed

section \<open>What the parser can return\<close>

lemma opt_options_bound:
  assumes "rust_slice buf" and "record_parse buf p = Ok (r, q)" and "rec_type r = RrType_OPT"
  shows "length (opt_options (rec_rdata r)) \<le> 65535"
proof -
  have "unat (l :: u16) \<le> 65535" for l using unsigned_less [where 'a = nat, of l] by simp
  then show ?thesis
    using assms by (auto simp: record_parse_def opt_options_def Let_def split: if_splits dest!: get_range_length)
qed

lemma parse_additionals_ok:
  assumes "rust_slice buf"
  shows "parse_additionals n buf p acc e = Ok (rs, e') \<Longrightarrow>
    list_all record_ok acc \<Longrightarrow> list_all (\<lambda>r. rec_type r \<noteq> RrType_OPT) acc \<Longrightarrow> (\<And>x. e = Some x \<Longrightarrow> edns_ok x) \<Longrightarrow>
    list_all record_ok rs \<and> list_all (\<lambda>r. rec_type r \<noteq> RrType_OPT) rs \<and> (\<forall>x. e' = Some x \<longrightarrow> edns_ok x) \<and>
    length rs + (if e' \<noteq> None then 1 else 0) = length acc + (if e \<noteq> None then 1 else 0) + n"
proof (induction n arbitrary: p acc e)
  case (Suc n)
  from Suc.prems(1) obtain r q where r: "record_parse buf p = Ok (r, q)" by (auto simp: parse_additionals.simps)
  note ok = record_parse_ok [OF assms r]
  show ?case
  proof (cases "rec_type r = RrType_OPT")
    case True
    with Suc.prems(1) r obtain x where x: "e = None"
      "edns_parse (rr_class_to_u16 (rec_class r)) (rec_ttl r) (opt_options (rec_rdata r)) = Ok x"
      "parse_additionals n buf q acc (Some x) = Ok (rs, e')"
      by (auto simp: parse_additionals.simps split: if_splits)
    with edns_parse_ok [OF x(2) opt_options_bound [OF assms r True]] Suc.IH [OF x(3) Suc.prems(2,3)] show ?thesis by auto
  next
    case False
    with Suc.prems(1) r have x: "parse_additionals n buf q (acc @ [r]) e = Ok (rs, e')" by (simp add: parse_additionals.simps)
    show ?thesis using Suc.IH [OF x _ _ Suc.prems(4)] Suc.prems(2,3) ok False by simp
  qed
qed simp

lemma message_parse_ok:
  assumes r: "rust_slice buf" and "message_parse buf = Ok m"
  shows "message_ok m"
proof -
  from assms(2) obtain i fl qd an ns ar qs ans auths adds e p1 p2 p3 where
    m: "m = \<lparr>msg_id = i, msg_flags = flags_from_u16 fl, questions = qs, answers = ans, authorities = auths,
        additionals = adds, msg_edns = e\<rparr>" and
    lim: "unat (qd :: u16) \<le> MAX_QUESTIONS" "unat (an :: u16) \<le> MAX_SECTION_RECORDS"
      "unat (ns :: u16) \<le> MAX_SECTION_RECORDS" "unat (ar :: u16) \<le> MAX_SECTION_RECORDS" and
    q: "get_many question_parse (unat qd) buf 12 = Ok (qs, p1)" and a: "get_many record_parse (unat an) buf p1 = Ok (ans, p2)" and
    n: "get_many record_parse (unat ns) buf p2 = Ok (auths, p3)" and x: "parse_additionals (unat ar) buf p3 [] None = Ok (adds, e)"
    by (auto simp: message_parse_def not_less split: if_splits)
  show ?thesis
    using question_codec.get_many_ok [OF r q] record_codec.get_many_ok [OF r a] record_codec.get_many_ok [OF r n]
      parse_additionals_ok [OF r x] lim
    by (auto simp: m message_ok_def flags_from_ok split: option.splits if_splits)
qed

end
