(* ===== verification/Truncation.thy ===== *)
theory Truncation
  imports Message_Roundtrip
begin

text \<open>
  \<^verbatim>\<open>Message::truncate_for_udp\<close> and \<^verbatim>\<open>fit_sections\<close> of \<^verbatim>\<open>src/src/message.rs\<close>: the single serialization pass
  that decides how many records of each section fit, and what the truncated message serializes to.
\<close>

section \<open>The pass over one section\<close>

lemma fit_records_take:
  "fit_records budget rs w n = (k, res) \<Longrightarrow>
   n \<le> k \<and> k - n \<le> length rs \<and>
   (\<exists>w'. put_all record_to_wire (take (k - n) rs) w = Ok w' \<and> written w' \<le> max budget (written w) \<and>
      (\<forall>w''. res = Some w'' \<longrightarrow> w'' = w' \<and> k - n = length rs))"
proof (induction rs arbitrary: w n)
  case (Cons r rs)
  show ?case
  proof (cases "record_to_wire r w")
    case (Inl e)
    with Cons.prems show ?thesis by auto
  next
    case (Inr w1)
    show ?thesis
    proof (cases "written w1 > budget")
      case True
      with Inr Cons.prems show ?thesis by auto
    next
      case False
      with Inr Cons.prems have "fit_records budget rs w1 (n + 1) = (k, res)" by simp
      from Cons.IH [OF this] obtain w' where "n + 1 \<le> k" "k - (n + 1) \<le> length rs"
        "put_all record_to_wire (take (k - (n + 1)) rs) w1 = Ok w'" "written w' \<le> max budget (written w1)"
        "\<forall>w''. res = Some w'' \<longrightarrow> w'' = w' \<and> k - (n + 1) = length rs" by blast
      moreover from this have "k - n = Suc (k - (n + 1))" by simp
      ultimately show ?thesis using Inr False by (auto simp: max_def split: if_splits)
    qed
  qed
qed auto

lemma fit_records_prefix:
  assumes "fit_records budget rs w 0 = (k, res)"
  obtains w' where "put_all record_to_wire (take k rs) w = Ok w'" and "written w' \<le> max budget (written w)"
    and "\<forall>w''. res = Some w'' \<longrightarrow> w'' = w'"
  using fit_records_take [OF assms] unfolding diff_zero by blast

text \<open>The pass stops only at a record that cannot be written or does not fit.\<close>

lemma fit_records_stop:
  "fit_records budget rs w n = (k, None) \<Longrightarrow>
   k - n < length rs \<and>
   (\<forall>w'. put_all record_to_wire (take (k - n) rs @ [rs ! (k - n)]) w = Ok w' \<longrightarrow> written w' > budget)"
proof (induction rs arbitrary: w n)
  case (Cons r rs)
  show ?case
  proof (cases "record_to_wire r w")
    case (Inl e)
    with Cons.prems show ?thesis by auto
  next
    case (Inr w1)
    show ?thesis
    proof (cases "written w1 > budget")
      case True
      with Inr Cons.prems show ?thesis by auto
    next
      case False
      with Inr Cons.prems have f: "fit_records budget rs w1 (n + 1) = (k, None)" by simp
      from fit_records_take [OF f] have "n + 1 \<le> k" by blast
      then have "k - n = Suc (k - (n + 1))" by simp
      with Cons.IH [OF f] Inr show ?thesis by simp
    qed
  qed
qed auto

section \<open>The whole message\<close>

definition base_len :: "message \<Rightarrow> usize" where
  "base_len m = written (put_questions (questions m) (message_start m))"

lemma fit_sections_take:
  assumes "fit_sections m limit = (a, b, c)"
  obtains w1 w2 w3 where
    "put_all record_to_wire (take a (answers m)) (put_questions (questions m) (message_start m)) = Ok w1"
    "put_all record_to_wire (take b (authorities m)) w1 = Ok w2"
    "put_all record_to_wire (take c (additionals m)) w2 = Ok w3"
    "written w3 \<le> max (limit - opt_footprint m) (base_len m)"
proof -
  let ?b = "limit - opt_footprint m"
  let ?w0 = "put_questions (questions m) (message_start m)"
  obtain a' ra where A: "fit_records ?b (answers m) ?w0 0 = (a', ra)" by fastforce
  from A obtain w1 where w1: "put_all record_to_wire (take a' (answers m)) ?w0 = Ok w1"
    "written w1 \<le> max ?b (written ?w0)" and r1: "\<forall>w. ra = Some w \<longrightarrow> w = w1" by (rule fit_records_prefix)
  obtain b' rb where B: "fit_records ?b (authorities m) w1 0 = (b', rb)" by fastforce
  from B obtain w2 where w2: "put_all record_to_wire (take b' (authorities m)) w1 = Ok w2"
    "written w2 \<le> max ?b (written w1)" and r2: "\<forall>w. rb = Some w \<longrightarrow> w = w2" by (rule fit_records_prefix)
  obtain c' rc where C: "fit_records ?b (additionals m) w2 0 = (c', rc)" by fastforce
  from C obtain w3 where w3: "put_all record_to_wire (take c' (additionals m)) w2 = Ok w3"
    "written w3 \<le> max ?b (written w2)" by (rule fit_records_prefix)
  have le: "written w1 \<le> max ?b (base_len m)" "written w2 \<le> max ?b (base_len m)" "written w3 \<le> max ?b (base_len m)"
    using w1(2) w2(2) w3(2) by (simp_all add: base_len_def max_def split: if_splits)
  show thesis
  proof (cases ra)
    case None
    with assms A have "a = a'" "b = 0" "c = 0" by (simp_all add: fit_sections_def)
    with w1(1) le(1) show thesis by (intro that [of w1 w1 w1]) simp_all
  next
    case (Some w)
    with r1 have ra: "ra = Some w1" by simp
    show thesis
    proof (cases rb)
      case None
      with assms A B ra have "a = a'" "b = b'" "c = 0" by (simp_all add: fit_sections_def)
      with w1(1) w2(1) le(2) show thesis by (intro that [of w1 w2 w2]) simp_all
    next
      case (Some w)
      with r2 assms A B C ra have "a = a'" "b = b'" "c = c'" by (simp_all add: fit_sections_def)
      with w1(1) w2(1) w3(1) le(3) show thesis by (intro that [of w1 w2 w3]) simp_all
    qed
  qed
qed

lemma put_root: "put_name name_root True w = (fst w, snd w @ [0])"
proof -
  have "name_bytes name_root = [0]" by (simp add: name_root_def)
  then show ?thesis by (cases "fst w") (simp_all add: put_name_def compressor_write_root name_write_wire_def)
qed

lemma put_opt_length: "written (put_opt e w) = written w + 11 + length (options_wire e)"
  by (simp add: put_opt_def put_root Let_def)

lemma to_bytes_sections:
  assumes "put_sections m (message_start m) = Ok w"
  shows "\<exists>bs. to_bytes m = Ok bs \<and> length bs = written w"
proof -
  have "written (message_start m) \<le> written w"
    using uniform_result_prefix [OF put_sections_uniform assms] by (rule prefix_length_le)
  then have "12 \<le> written w" by (simp add: message_start_def)
  with assms show ?thesis by (cases w) (simp add: to_bytes_def)
qed

lemma message_start_cong: "msg_id m = msg_id m' \<Longrightarrow> msg_flags m = msg_flags m' \<Longrightarrow> message_start m = message_start m'"
  by (simp add: message_start_def)

lemma base_len_flags: "base_len (m\<lparr>msg_flags := f\<rparr>) = base_len m"
proof -
  obtain c bs where "\<forall>out. length out = 12 \<longrightarrow> put_questions (questions m) (Some compressor_new, out) = (c, out @ bs)"
    using put_questions_uniform unfolding uniform_def by blast
  then show ?thesis by (simp add: base_len_def message_start_def)
qed

lemma fitted_to_bytes:
  assumes fit: "fit_sections m limit = (a, b, c)" and base: "base_len m + opt_footprint m \<le> limit"
    and m': "m' = m\<lparr>answers := take a (answers m), authorities := take b (authorities m), additionals := take c (additionals m)\<rparr>"
  shows "\<exists>bs. to_bytes m' = Ok bs \<and> length bs \<le> limit"
proof -
  from fit obtain w1 w2 w3 where
    "put_all record_to_wire (take a (answers m)) (put_questions (questions m) (message_start m)) = Ok w1"
    "put_all record_to_wire (take b (authorities m)) w1 = Ok w2"
    "put_all record_to_wire (take c (additionals m)) w2 = Ok w3"
    and w3: "written w3 \<le> max (limit - opt_footprint m) (base_len m)" by (rule fit_sections_take)
  moreover have "message_start m' = message_start m" by (rule message_start_cong) (simp_all add: m')
  ultimately have "put_sections m' (message_start m')
      = Ok (case msg_edns m of Some e \<Rightarrow> put_opt e w3 | None \<Rightarrow> w3)"
    by (simp add: put_sections_def m' del: rbind_eq_Ok)
  from to_bytes_sections [OF this] show ?thesis
    using w3 base by (auto simp: opt_footprint_def put_opt_length max_def split: option.splits if_splits)
qed

lemma truncate_for_udp_fits:
  assumes "base_len m + opt_footprint m \<le> max limit 512" and "max limit 512 < usize_bound - 1"
  shows "\<exists>bs. to_bytes (truncate_for_udp limit m) = Ok bs \<and> length bs \<le> max limit 512"
proof (cases "message_wire_len m \<le> max limit 512")
  case True
  then show ?thesis using assms(2) by (auto simp: truncate_for_udp_def message_wire_len_def split: sum.splits)
next
  case False
  let ?m = "m\<lparr>msg_flags := (msg_flags m)\<lparr>hf_tc := True\<rparr>\<rparr>"
  obtain a b c where fit: "fit_sections ?m (max limit 512) = (a, b, c)" by (metis prod_cases3)
  have "base_len ?m + opt_footprint ?m \<le> max limit 512" using assms(1) by (simp add: base_len_flags opt_footprint_def)
  from fitted_to_bytes [OF fit this refl] show ?thesis using False fit by (simp add: truncate_for_udp_def Let_def)
qed

lemma truncate_for_udp_cases:
  "truncate_for_udp limit m = m \<and> message_wire_len m \<le> max limit 512 \<or>
   is_truncated (truncate_for_udp limit m) \<and> message_wire_len m > max limit 512 \<and>
   (\<exists>a b c. truncate_for_udp limit m = m\<lparr>msg_flags := (msg_flags m)\<lparr>hf_tc := True\<rparr>, answers := take a (answers m),
     authorities := take b (authorities m), additionals := take c (additionals m)\<rparr>)"
  by (auto simp: truncate_for_udp_def is_truncated_def Let_def not_le split: prod.splits)

end
