(* ===== verification/Name_Ascii.thy ===== *)
theory Name_Ascii
  imports Name_Labels
begin

text \<open>
  The presentation format of \<^verbatim>\<open>src/src/name.rs\<close>: \<^verbatim>\<open>Name::from_ascii\<close> and \<^verbatim>\<open>Name::to_ascii\<close>.
  Strings are their UTF-8 bytes, as in the source (\<^verbatim>\<open>s.as_bytes()\<close>).
\<close>

section \<open>Definitions\<close>

record ascii_state =
  labels :: bytes
  current :: bytes
  total_len :: usize
  label_count :: usize

definition finish_label :: "ascii_state \<Rightarrow> ascii_state result" where
  "finish_label s =
     (if length (current s) > 63 then Err (error_wire ''label longer than 63 octets'')
      else let s' = s\<lparr>total_len := total_len s + (1 + length (current s))\<rparr> in
      if total_len s' > MAX_NAME_LEN then Err (error_wire ''name exceeds 255 octets'')
      else if label_count s' \<ge> MAX_LABELS then Err (error_wire ''too many labels'')
      else Ok (s'\<lparr>label_count := label_count s' + 1,
                  labels := labels s' @ of_nat (length (current s')) # current s',
                  current := []\<rparr>))"

definition digit_value :: "u8 \<Rightarrow> u8 \<Rightarrow> u8 \<Rightarrow> usize" where
  "digit_value d1 d2 d3 = unat (d1 - 48) * 100 + unat (d2 - 48) * 10 + unat (d3 - 48)"

definition push_byte :: "ascii_state \<Rightarrow> u8 \<Rightarrow> ascii_state" where
  "push_byte s b = s\<lparr>current := current s @ [b]\<rparr>"

definition bad_escape :: error where
  "bad_escape = error_wire (''bad '' @ CHR 0x5C # ''DDD escape in name'')"

fun from_ascii_loop :: "bytes \<Rightarrow> ascii_state \<Rightarrow> ascii_state result" where
  "from_ascii_loop [] s = Ok s"
| "from_ascii_loop (b # rest) s =
     (if b = 92 then
        (case rest of
           [] \<Rightarrow> Err (error_wire ''trailing backslash in name'')
         | escaped # rest1 \<Rightarrow>
             if is_ascii_digit escaped then
               (case rest1 of
                  [] \<Rightarrow> Err bad_escape
                | d2 # tl1 \<Rightarrow>
                    (case tl1 of
                       [] \<Rightarrow> Err bad_escape
                     | d3 # rest2 \<Rightarrow>
                         if \<not> is_ascii_digit d2 \<or> \<not> is_ascii_digit d3
                         then Err bad_escape
                         else if digit_value escaped d2 d3 > 255
                         then Err bad_escape
                         else from_ascii_loop rest2 (push_byte s (of_nat (digit_value escaped d2 d3)))))
             else from_ascii_loop rest1 (push_byte s escaped))
      else if b = 46 then
        (if current s = [] then
           (if rest = [] then Ok s else Err (error_wire ''empty label in name''))
         else (case finish_label s of Inl e \<Rightarrow> Inl e | Inr s' \<Rightarrow> from_ascii_loop rest s'))
      else from_ascii_loop rest (push_byte s b))"

definition name_from_ascii :: "bytes \<Rightarrow> name result" where
  "name_from_ascii s =
     rbind (from_ascii_loop s \<lparr>labels = [], current = [], total_len = 0, label_count = 0\<rparr>) (\<lambda>st.
     rbind (if current st \<noteq> [] then finish_label st else Ok st) (\<lambda>st'.
     Ok (Name (map to_ascii_lowercase (labels st') @ [0]))))"

definition format_03 :: "u8 \<Rightarrow> bytes" where
  "format_03 b = map of_nat [48 + unat b div 100, 48 + (unat b div 10) mod 10, 48 + unat b mod 10]"

definition escape_byte :: "u8 \<Rightarrow> bytes" where
  "escape_byte b =
     (if b = 46 then [92, 46]
      else if b = 92 then [92, 92]
      else if b = 32 then [92, 48, 51, 50]
      else if b = 34 then [92, 48, 52, 50]
      else if b = 64 then [92, 48, 54, 52]
      else if b = 40 then [92, 48, 52, 48]
      else if b = 41 then [92, 48, 52, 49]
      else if b = 59 then [92, 48, 53, 57]
      else if \<not> (0x21 \<le> b \<and> b \<le> 0x7e) then 92 # format_03 b
      else [b])"

fun to_ascii_loop :: "bytes list \<Rightarrow> bytes \<Rightarrow> bytes" where
  "to_ascii_loop [] s = s"
| "to_ascii_loop (l # ls) s =
     to_ascii_loop ls ((if s = [] then s else s @ [46]) @ concat (map escape_byte l))"

definition name_to_ascii :: "name \<Rightarrow> bytes" where
  "name_to_ascii n =
     (let s = to_ascii_loop (label_iter (name_bytes n)) [] in if s = [] then [46] else s)"

section \<open>Printing and parsing back\<close>

text \<open>
  Every octet but one, escaped as \<^verbatim>\<open>to_ascii\<close> does, is read back as that octet.  The exception
  is the quotation mark (34), which the source prints as \<^verbatim>\<open>\042\<close>, its octal code, although the
  format is decimal.
\<close>

lemma escape_byte_cases:
  assumes "b \<noteq> 34"
  obtains (plain) "escape_byte b = [b]" "b \<noteq> 92" "b \<noteq> 46"
    | (quoted) "escape_byte b = [92, b]" "\<not> is_ascii_digit b"
    | (decimal) "escape_byte b = 92 # format_03 b"
proof -
  consider "b = 46" | "b = 92" | "b \<in> {32, 64, 40, 41, 59}" | "b \<notin> {46, 92, 32, 64, 40, 41, 59}"
    by blast
  then show thesis
  proof cases
    case 4
    show thesis
    proof (cases "0x21 \<le> b \<and> b \<le> 0x7e")
      case True
      with 4 assms show thesis by (intro plain) (simp_all add: escape_byte_def)
    next
      case False
      with 4 assms show thesis by (intro decimal) (simp add: escape_byte_def)
    qed
  qed (use quoted decimal in \<open>auto simp: escape_byte_def format_03_def is_ascii_digit_def\<close>)
qed

lemma decimal_digit:
  "k < 10 \<Longrightarrow> is_ascii_digit (of_nat (48 + k)) \<and> unat (of_nat (48 + k) - 48 :: u8) = k"
proof -
  assume "k < 10"
  then have "k \<in> {0, 1, 2, 3, 4, 5, 6, 7, 8, 9}" by auto
  then show ?thesis
    by (elim insertE emptyE) (simp_all add: is_ascii_digit_def)
qed

lemma three_digits: "n div 100 * 100 + (n div 10) mod 10 * 10 + n mod 10 = (n :: nat)"
proof -
  have "n div 100 = n div 10 div 10" using div_mult2_eq [of n 10 10] by simp
  moreover have "n div 10 div 10 * 10 + (n div 10) mod 10 = n div 10" "n div 10 * 10 + n mod 10 = n"
    by (simp_all only: div_mult_mod_eq)
  ultimately show ?thesis by linarith
qed

lemma digit_value_format_03:
  "digit_value (of_nat (48 + unat b div 100)) (of_nat (48 + (unat b div 10) mod 10)) (of_nat (48 + unat b mod 10))
     = unat (b :: u8)"
proof -
  have "unat b div 100 < 10" using unat_u8_less [of b] by simp
  then have "digit_value (of_nat (48 + unat b div 100)) (of_nat (48 + (unat b div 10) mod 10))
      (of_nat (48 + unat b mod 10)) = unat b div 100 * 100 + (unat b div 10) mod 10 * 10 + unat b mod 10"
    unfolding digit_value_def by (simp only: decimal_digit mod_less_divisor zero_less_numeral)
  also have "\<dots> = unat b" by (rule three_digits)
  finally show ?thesis .
qed

lemma from_ascii_loop_escape:
  assumes "b \<noteq> 34"
  shows "from_ascii_loop (escape_byte b @ rest) s = from_ascii_loop rest (push_byte s b)"
  using assms
proof (cases rule: escape_byte_cases)
  case decimal
  have "unat b div 100 < 10" "unat b \<le> 255" using unat_u8_less [of b] by simp_all
  with decimal show ?thesis
    by (simp add: format_03_def digit_value_format_03 decimal_digit del: of_nat_add)
qed simp_all

lemma from_ascii_loop_label:
  "34 \<notin> set l \<Longrightarrow>
   from_ascii_loop (concat (map escape_byte l) @ rest) s = from_ascii_loop rest (s\<lparr>current := current s @ l\<rparr>)"
  by (induction l arbitrary: s) (auto simp: from_ascii_loop_escape push_byte_def)

lemma escape_nonempty: "escape_byte b \<noteq> []"
  by (simp add: escape_byte_def)

text \<open>The printed form of a label list, and the state after reading it.\<close>

fun dotted :: "bytes list \<Rightarrow> bytes" where
  "dotted [] = []"
| "dotted [l] = concat (map escape_byte l)"
| "dotted (l # ls) = concat (map escape_byte l) @ 46 # dotted ls"

lemma dotted_nonempty: "valid_label l \<Longrightarrow> dotted (l # ls) \<noteq> []"
  by (cases l; cases ls) (auto simp: valid_label_def escape_nonempty)

lemma to_ascii_loop_dotted:
  "list_all valid_label ls \<Longrightarrow>
   to_ascii_loop ls s = (if ls = [] then s else if s = [] then dotted ls else s @ 46 # dotted ls)"
proof (induction ls arbitrary: s)
  case (Cons l ls)
  have "concat (map escape_byte l) \<noteq> []"
    using Cons.prems by (cases l) (auto simp: valid_label_def escape_nonempty)
  then have "to_ascii_loop (l # ls) s = (let s' = (if s = [] then s else s @ [46]) @ concat (map escape_byte l)
      in if ls = [] then s' else s' @ 46 # dotted ls)"
    using Cons by (auto simp: Let_def)
  then show ?case unfolding Let_def by (cases ls) (simp_all only: dotted.simps, auto)
qed simp

definition ascii_ready :: "bytes list \<Rightarrow> bytes \<Rightarrow> ascii_state" where
  "ascii_ready ls cur = \<lparr>labels = label_body ls, current = cur, total_len = labels_size ls, label_count = length ls\<rparr>"

lemma finish_label_ready:
  "valid_label l \<Longrightarrow> labels_size (ls @ [l]) \<le> 255 \<Longrightarrow> length ls < 127 \<Longrightarrow>
   finish_label (ascii_ready ls l) = Ok (ascii_ready (ls @ [l]) [])"
  by (simp add: finish_label_def ascii_ready_def valid_label_def)

lemma from_ascii_loop_dotted:
  assumes "list_all valid_label (rs @ ls)" and "labels_size (rs @ ls) \<le> 255" and "length (rs @ ls) \<le> 127"
    and "\<forall>l \<in> set ls. 34 \<notin> set l" and "ls \<noteq> []"
  shows "from_ascii_loop (dotted ls) (ascii_ready rs []) = Ok (ascii_ready (rs @ butlast ls) (last ls))"
  using assms
proof (induction ls arbitrary: rs rule: dotted.induct)
  case (2 l)
  then show ?case using from_ascii_loop_label [of l "[]" "ascii_ready rs []"] by (simp add: ascii_ready_def)
next
  case (3 l l' ls)
  have "from_ascii_loop (dotted (l # l' # ls)) (ascii_ready rs [])
      = from_ascii_loop (46 # dotted (l' # ls)) (ascii_ready rs l)"
    using 3 by (simp add: from_ascii_loop_label ascii_ready_def)
  also have "\<dots> = from_ascii_loop (dotted (l' # ls)) (ascii_ready (rs @ [l]) [])"
    using 3 finish_label_ready [of l rs] by (auto simp: valid_label_def ascii_ready_def)
  finally show ?case using 3 by simp
qed simp

lemma label_body_lower:
  "list_all valid_label ls \<Longrightarrow> map to_ascii_lowercase (label_body ls) = label_body (map (map to_ascii_lowercase) ls)"
proof (induction ls)
  case (Cons l ls)
  then have "length l \<le> 63" by (simp add: valid_label_def)
  then have "unat (of_nat (length l) :: u8) \<le> 63" by simp
  then have "to_ascii_lowercase (of_nat (length l)) = (of_nat (length l) :: u8)"
    by (simp add: to_ascii_lowercase_def is_ascii_uppercase_def word_le_nat_alt)
  with Cons show ?case by simp
qed simp

lemma name_from_ascii_dotted:
  assumes "list_all valid_label ls" and "labels_size ls \<le> 255" and "length ls \<le> 127"
    and "\<forall>l \<in> set ls. 34 \<notin> set l"
  shows "name_from_ascii (dotted ls) = Ok (Name (encode_labels (map (map to_ascii_lowercase) ls)))"
proof (cases "ls = []")
  case False
  let ?s0 = "\<lparr>labels = [], current = [], total_len = 0, label_count = 0\<rparr>"
  have "?s0 = ascii_ready [] []" by (simp add: ascii_ready_def)
  then have "from_ascii_loop (dotted ls) ?s0 = Ok (ascii_ready (butlast ls) (last ls))"
    using from_ascii_loop_dotted [of "[]" ls] assms False by simp
  moreover have "finish_label (ascii_ready (butlast ls) (last ls)) = Ok (ascii_ready ls [])"
    using finish_label_ready [of "last ls" "butlast ls"] assms False
    by (simp add: list_all_iff del: labels_size_append)
  moreover have "last ls \<noteq> []"
    using assms(1) last_in_set [OF False] by (auto simp: list_all_iff valid_label_def)
  ultimately have "name_from_ascii (dotted ls) = Ok (Name (map to_ascii_lowercase (label_body ls) @ [0]))"
    by (simp add: name_from_ascii_def ascii_ready_def)
  then show ?thesis using assms(1) by (simp add: label_body_lower flip: encode_labels_body)
qed (simp add: name_from_ascii_def)

lemma name_to_ascii_encode:
  assumes "list_all valid_label ls"
  shows "name_to_ascii (Name (encode_labels ls)) = (if ls = [] then [46] else dotted ls)"
proof -
  have "dotted ls \<noteq> []" if "ls \<noteq> []"
    using that assms dotted_nonempty by (cases ls) auto
  then show ?thesis
    using assms by (simp add: name_to_ascii_def label_iter_encode to_ascii_loop_dotted)
qed

lemma from_to_ascii_roundtrip:
  assumes "wf_name n" and "\<forall>l \<in> set (name_labels n). 34 \<notin> set l"
  shows "name_from_ascii (name_to_ascii n) = Ok n"
proof -
  from assms(1) obtain ls where n: "n = Name (encode_labels ls)" and wf: "wf_labels ls" and nl: "name_labels n = ls"
    by (rule wf_nameE)
  then have "name_from_ascii (dotted ls) = Ok n"
    using name_from_ascii_dotted [of ls] assms(2) by (simp add: wf_labels_def lower_labels_id)
  moreover have "name_from_ascii [46] = Ok (Name [0])" by (simp add: name_from_ascii_def)
  ultimately show ?thesis
    using n wf name_to_ascii_encode [of ls] by (cases "ls = []") (auto simp: wf_labels_def)
qed

section \<open>What the parser accepts\<close>

definition ascii_inv :: "ascii_state \<Rightarrow> bool" where
  "ascii_inv s \<longleftrightarrow> (\<exists>ls. labels s = label_body ls \<and> list_all valid_label ls
     \<and> total_len s = labels_size ls \<and> label_count s = length ls
     \<and> labels_size ls \<le> MAX_NAME_LEN \<and> length ls \<le> MAX_LABELS)"

lemma finish_label_inv:
  assumes "ascii_inv s" and "current s \<noteq> []" and "finish_label s = Ok s'"
  shows "ascii_inv s'"
proof -
  from assms(1) obtain ls where ls: "labels s = label_body ls" "list_all valid_label ls"
      "total_len s = labels_size ls" "label_count s = length ls" by (auto simp: ascii_inv_def)
  with assms(2,3) show ?thesis
    unfolding ascii_inv_def
    by (intro exI [of _ "ls @ [current s]"])
      (auto simp: finish_label_def valid_label_def Let_def split: if_splits)
qed

lemma ascii_inv_push [simp]: "ascii_inv (push_byte s b) = ascii_inv s"
  by (simp add: ascii_inv_def push_byte_def)

lemma from_ascii_loop_inv: "from_ascii_loop bs s = Ok s' \<Longrightarrow> ascii_inv s \<Longrightarrow> ascii_inv s'"
proof (induction bs s rule: from_ascii_loop.induct)
  case (2 b rest s)
  consider (esc) "b = 92" | (dot) "b = 46" | (other) "b \<noteq> 92" "b \<noteq> 46" by blast
  then show ?case
  proof cases
    case esc
    with "2.prems" obtain c rest1 where r: "rest = c # rest1" by (cases rest) auto
    show ?thesis
    proof (cases "is_ascii_digit c")
      case True
      with "2.prems"(1) esc r obtain d2 d3 rest2 where "rest1 = d2 # d3 # rest2"
        and "from_ascii_loop rest2 (push_byte s (of_nat (digit_value c d2 d3))) = Ok s'"
        and "is_ascii_digit d2" "is_ascii_digit d3" "\<not> 255 < digit_value c d2 d3"
        by (simp split: if_splits list.splits)
      then show ?thesis using "2.IH"(1) [of c rest1 d2 "d3 # rest2" d3 rest2] esc r True "2.prems"(2) by simp
    next
      case False
      with "2.prems"(1) esc r have "from_ascii_loop rest1 (push_byte s c) = Ok s'" by simp
      then show ?thesis using "2.IH"(2) [of c rest1] esc r False "2.prems"(2) by simp
    qed
  next
    case dot
    with "2.prems" show ?thesis
      using "2.IH"(3) finish_label_inv [of s] by (simp split: if_splits sum.splits)
  next
    case other
    with 2 show ?thesis by simp
  qed
qed simp

lemma name_from_ascii_labels:
  assumes "name_from_ascii s = Ok n"
  obtains ls where "n = Name (encode_labels ls)" and "list_all valid_label ls" and "list_all lower_label ls"
    and "labels_size ls \<le> 255" and "length ls \<le> 127"
proof -
  let ?s0 = "\<lparr>labels = [], current = [], total_len = 0, label_count = 0\<rparr>"
  from assms obtain st st' where st: "from_ascii_loop s ?s0 = Ok st"
    and st': "(if current st \<noteq> [] then finish_label st else Ok st) = Ok st'"
    and n: "n = Name (map to_ascii_lowercase (labels st') @ [0])"
    by (auto simp: name_from_ascii_def)
  have "ascii_inv ?s0" unfolding ascii_inv_def by (intro exI [of _ "[]"]) simp
  then have "ascii_inv st'"
    using from_ascii_loop_inv [OF st] finish_label_inv [of st st'] st' by (auto split: if_splits)
  then obtain ls where "labels st' = label_body ls" "list_all valid_label ls" "labels_size ls \<le> 255" "length ls \<le> 127"
    by (auto simp: ascii_inv_def)
  with n show thesis
    by (intro that [of "map (map to_ascii_lowercase) ls"])
      (simp_all add: label_body_lower encode_labels_body list_all_iff)
qed

end
