(* ===== verification/Samples.thy ===== *)
theory Samples
  imports Truncation Name_Ascii
begin

text \<open>
  Concrete values on which the theorems of the library are evaluated: a two-label name, a response
  with one compressed answer and an OPT record, and the bytes it serializes to.
\<close>

lemma to_be_bytes_numerals: "to_be_bytes 2 w = [ucast (drop_bit 8 w), ucast w]"
  "to_be_bytes 4 w = [ucast (drop_bit 24 w), ucast (drop_bit 16 w), ucast (drop_bit 8 w), ucast w]"
  by (simp_all add: to_be_bytes_def upt_rec)

definition wit_name :: name where "wit_name = Name [1, 97, 1, 98, 0]"

lemma wit_name_bytes: "name_bytes wit_name = [1, 97, 1, 98, 0]"
  by (simp add: wit_name_def)

lemma wit_suffixes: "suffixes_loop (name_wire_len wit_name) wit_name = [(wit_name, 0), (Name [1, 98, 0], 2)]"
  by (simp add: wit_name_def suffixes_loop.simps name_is_root_def name_parent_def get_at_def get_from_def name_wire_len_def)

definition wit_table :: name_compressor where
  "wit_table = \<lparr>offsets = [wit_name \<mapsto> 12, Name [1, 98, 0] \<mapsto> 14]\<rparr>"

lemma wit_first: "length out = 12 \<Longrightarrow> compressor_write compressor_new wit_name out = (wit_table, out @ [1, 97, 1, 98, 0])"
  by (simp add: compressor_write_def wit_suffixes compressor_new_def Let_def compressor_record_def MAX_POINTER_OFFSET_def
    name_write_wire_def wit_name_bytes wit_table_def) (simp add: wit_name_def)

lemma wit_second: "compressor_write wit_table wit_name out = (wit_table, out @ [192, 12])"
  by (simp add: compressor_write_def wit_suffixes Let_def wit_table_def strip_suffix_def ends_with_def)
    (simp add: wit_name_def drop_bit_eq_div)

definition wit_message :: message where
  "wit_message =
     (message_query 7 wit_name RrType_A True)
       \<lparr>answers := [\<lparr>rec_name = wit_name, rec_type = RrType_A, rec_class = RrClass_IN, rec_ttl = 60, rec_rdata = A 0x7f000001\<rparr>],
        msg_edns := Some (edns_new 1232)\<rparr>"

definition wit_bytes :: bytes where
  "wit_bytes = [0, 7, 1, 0, 0, 1, 0, 1, 0, 0, 0, 1, 1, 97, 1, 98, 0, 0, 1, 0, 1,
     192, 12, 0, 1, 0, 1, 0, 0, 0, 60, 0, 4, 127, 0, 0, 1, 0, 0, 41, 4, 208, 0, 0, 0, 0, 0, 0]"

lemma wit_start: "message_start wit_message = (Some compressor_new, [0, 7, 1, 0, 0, 0, 0, 0, 0, 0, 0, 0])"
  by (simp add: message_start_def wit_message_def message_query_def message_new_def header_flags_default_def
     flags_to_u16_def set_if_def Opcode_QUERY_def Rcode_NOERROR_def to_be_bytes_numerals)

lemma wit_to_bytes: "to_bytes wit_message = Ok wit_bytes"
  unfolding to_bytes_def wit_start
  by (simp add: put_sections_def wit_message_def message_query_def message_new_def put_questions_def put_question_def
    put_name_def wit_first wit_second put_bytes_def to_be_bytes_numerals record_to_wire_def Let_def rr_type_consts RrClass_IN_def
    put_opt_def compressor_write_root edns_new_def ttl_field_def options_wire_def header_counts_def wit_bytes_def del: rbind_eq_Ok)

lemma wit_name_wf: "wf_name wit_name"
proof -
  have "wit_name = Name (encode_labels [[97], [98]])" by (simp add: wit_name_def)
  then show ?thesis
    using wf_name_encode [of "[[97], [98]]"]
    by (simp add: wf_labels_def valid_label_def lower_label_def is_ascii_uppercase_def)
qed

lemma wit_ok: "message_ok wit_message"
  by (simp add: message_ok_def wit_message_def message_query_def message_new_def header_flags_default_def flags_ok_def
     Opcode_QUERY_def Rcode_NOERROR_def wit_name_wf record_ok_def MAX_QUESTIONS_def MAX_SECTION_RECORDS_def edns_ok_def
     edns_new_def options_wire_def)

lemma wit_norm: "message_norm wit_message = wit_message"
  by (simp add: message_norm_def wit_message_def message_query_def message_new_def record_norm_def edns_norm_def edns_new_def)

lemma wit_bytes_slice: "rust_slice wit_bytes"
  by (simp add: rust_slice_def wit_bytes_def)

lemma wit_parse: "message_parse wit_bytes = Ok wit_message"
  using message_parse_written [OF wit_ok wit_to_bytes wit_bytes_slice] by (simp add: wit_norm)

definition wit_record :: dns_record where
  "wit_record = \<lparr>rec_name = wit_name, rec_type = RrType_MX, rec_class = RrClass_IN, rec_ttl = 300, rec_rdata = Mx 10 wit_name\<rparr>"

definition wit_record_bytes :: bytes where
  "wit_record_bytes = [1, 97, 1, 98, 0, 0, 15, 0, 1, 0, 0, 1, 44, 0, 7, 0, 10, 1, 97, 1, 98, 0]"

lemma wit_record_written: "record_to_wire wit_record (None, []) = Ok (None, wit_record_bytes)"
  by (simp add: record_to_wire_def wit_record_def put_name_def put_bytes_def name_write_wire_def wit_name_bytes to_be_bytes_numerals
     rr_type_consts RrClass_IN_def Let_def wit_record_bytes_def)

lemma wit_record_ok: "record_ok wit_record"
  by (simp add: record_ok_def wit_record_def wit_name_wf)

lemma wit_record_norm: "record_norm wit_record = wit_record"
  by (simp add: record_norm_def wit_record_def)

definition wit_big :: message where
  "wit_big = (message_query 7 wit_name RrType_A True)
     \<lparr>answers := [\<lparr>rec_name = wit_name, rec_type = RrType_TXT, rec_class = RrClass_IN, rec_ttl = 0,
        rec_rdata = Txt [replicate 255 0, replicate 255 0]\<rparr>]\<rparr>"

lemma wit_big_base: "base_len wit_big + opt_footprint wit_big = 21"
proof -
  have "message_start wit_big = message_start wit_message"
    by (simp add: message_start_def wit_big_def wit_message_def message_query_def message_new_def)
  then show ?thesis
    by (simp add: base_len_def wit_start)
      (simp add: wit_big_def message_query_def message_new_def put_questions_def put_question_def put_name_def
        wit_first put_bytes_def opt_footprint_def)
qed

lemma wit_big_cut: "fit_sections wit_big 0 = (0, 0, 0)" and wit_big_answers: "length (answers wit_big) = 1"
proof -
  let ?w = "put_questions (questions wit_big) (message_start wit_big)"
  let ?r = "hd (answers wit_big)"
  have a: "answers wit_big = [?r]" by (simp add: wit_big_def)
  show "length (answers wit_big) = 1" by (simp add: wit_big_def)
  have "opt_footprint wit_big = 0" by (simp add: wit_big_def opt_footprint_def message_query_def message_new_def)
  with wit_big_base have "0 < written ?w" by (simp add: base_len_def)
  moreover have "written ?w \<le> written w'" if "record_to_wire ?r ?w = Ok w'" for w'
    using uniform_result_prefix [OF record_to_wire_uniform that] by (rule prefix_length_le)
  ultimately have "fit_records 0 [?r] ?w 0 = (0, None)" by (cases "record_to_wire ?r ?w") fastforce+
  with a show "fit_sections wit_big 0 = (0, 0, 0)" by (simp add: fit_sections_def)
qed

lemma wit_name_labels: "name_labels wit_name = [[97], [98]]"
  by (simp add: name_labels_def wit_name_def)

definition wit_edns :: edns where
  "wit_edns = (edns_new 1232)\<lparr>dnssec_ok := True, edns_options := [KeyTag [5], Nsid [1, 2, 3]]\<rparr>"

lemma wit_edns_ok: "edns_ok wit_edns"
  by (simp add: edns_ok_def wit_edns_def options_wire_def option_wire_def to_be_bytes_numerals)

end
