(* ===== verification/Ordered_Map.thy ===== *)
theory Ordered_Map
  imports Prelude
begin

text \<open>
  Rust's \<^verbatim>\<open>BTreeMap\<close> as the sources use it: a finite map with iteration in ascending key order.
  The model is the list of its entries in that order.  What a client that fills a table relies on is
  the locale \<open>table\<close>; the list operations are its instance \<open>btree\<close>.
\<close>

section \<open>The operations\<close>

type_synonym ('k, 'v) btree = "('k \<times> 'v) list"

abbreviation btree_get :: "('k, 'v) btree \<Rightarrow> 'k \<Rightarrow> 'v option" where
  "btree_get \<equiv> map_of"

definition btree_inv :: "('k :: linorder, 'v) btree \<Rightarrow> bool" where
  "btree_inv m = sorted_wrt (<) (map fst m)"

fun btree_insert :: "'k :: linorder \<Rightarrow> 'v \<Rightarrow> ('k, 'v) btree \<Rightarrow> ('k, 'v) btree" where
  "btree_insert k v [] = [(k, v)]"
| "btree_insert k v ((k', v') # m) =
    (if k < k' then (k, v) # (k', v') # m
     else if k = k' then (k, v) # m
     else (k', v') # btree_insert k v m)"

definition btree_remove :: "'k \<Rightarrow> ('k, 'v) btree \<Rightarrow> ('k, 'v) btree" where
  "btree_remove k m = filter (\<lambda>e. fst e \<noteq> k) m"

definition btree_retain :: "('k \<Rightarrow> 'v \<Rightarrow> bool) \<Rightarrow> ('k, 'v) btree \<Rightarrow> ('k, 'v) btree" where
  "btree_retain P m = filter (\<lambda>(k, v). P k v) m"

fun btree_alter :: "'k \<Rightarrow> ('v \<Rightarrow> 'v) \<Rightarrow> ('k, 'v) btree \<Rightarrow> ('k, 'v) btree" where
  "btree_alter k f [] = []"
| "btree_alter k f ((k', v) # m) = (if k = k' then (k', f v) # m else (k', v) # btree_alter k f m)"

section \<open>Their laws\<close>

lemma btree_inv_simps [simp]:
  "btree_inv []"
  "btree_inv ((k, v) # m) \<longleftrightarrow> (\<forall>k' \<in> fst ` set m. k < k') \<and> btree_inv m"
  by (auto simp: btree_inv_def)

lemma btree_inv_distinct: "btree_inv m \<Longrightarrow> distinct (map fst m)"
  by (simp add: btree_inv_def strict_sorted_iff)

lemma keys_insert [simp]: "fst ` set (btree_insert k v m) = insert k (fst ` set m)"
  by (induction k v m rule: btree_insert.induct) auto

lemma set_btree_insert: "set (btree_insert k v m) \<subseteq> insert (k, v) (set m)"
  by (induction k v m rule: btree_insert.induct) auto

lemma get_insert [simp]: "btree_get (btree_insert k v m) = (btree_get m)(k \<mapsto> v)"
  by (induction k v m rule: btree_insert.induct) auto

lemma inv_insert [simp]: "btree_inv m \<Longrightarrow> btree_inv (btree_insert k v m)"
  by (induction k v m rule: btree_insert.induct) (auto dest: order_le_imp_less_or_eq simp: not_less)

lemma length_insert:
  "btree_inv m \<Longrightarrow> length (btree_insert k v m) = (if k \<in> fst ` set m then length m else Suc (length m))"
  by (induction k v m rule: btree_insert.induct) force+

lemma get_remove [simp]: "btree_get (btree_remove k m) = (btree_get m)(k := None)"
  unfolding btree_remove_def by (induction m) auto

lemma inv_filter: "btree_inv m \<Longrightarrow> btree_inv (filter P m)"
  by (auto simp: btree_inv_def intro: sorted_wrt_filter simp: sorted_wrt_map)

lemma inv_remove [simp]: "btree_inv m \<Longrightarrow> btree_inv (btree_remove k m)"
  by (simp add: btree_remove_def inv_filter)

lemma inv_retain [simp]: "btree_inv m \<Longrightarrow> btree_inv (btree_retain P m)"
  by (simp add: btree_retain_def inv_filter)

lemma get_retain:
  "btree_inv m \<Longrightarrow> btree_get (btree_retain P m) k
     = (case btree_get m k of None \<Rightarrow> None | Some v \<Rightarrow> if P k v then Some v else None)"
  unfolding btree_retain_def
  by (induction m) (force split: option.splits simp: map_of_eq_None_iff image_iff)+

lemma length_retain: "length (btree_retain P m) \<le> length m"
  by (simp add: btree_retain_def)

lemma retain_all: "length (btree_retain P m) = length m \<longleftrightarrow> (\<forall>(k, v) \<in> set m. P k v)"
  by (metis (no_types, lifting) btree_retain_def filter_True length_filter_less nless_le)

lemma keys_alter [simp]: "map fst (btree_alter k f m) = map fst m"
  by (induction k f m rule: btree_alter.induct) auto

lemma get_alter [simp]: "btree_get (btree_alter k f m) k' = (if k = k' then map_option f (btree_get m k) else btree_get m k')"
  by (induction k f m rule: btree_alter.induct) auto

lemma inv_alter [simp]: "btree_inv (btree_alter k f m) = btree_inv m"
  by (simp add: btree_inv_def)

lemma length_alter [simp]: "length (btree_alter k f m) = length m"
  by (metis keys_alter length_map)

lemma card_keys: "btree_inv m \<Longrightarrow> card (dom (btree_get m)) = length m"
  by (metis btree_inv_distinct card_image distinct_card dom_map_of_conv_image_fst length_map set_map)

lemma get_iff: "btree_inv m \<Longrightarrow> btree_get m k = Some v \<longleftrightarrow> (k, v) \<in> set m"
  by (simp add: btree_inv_distinct)

section \<open>Loading a table\<close>

locale table =
  fixes get :: "'m \<Rightarrow> 'k \<Rightarrow> 'v option" and ins :: "'k \<Rightarrow> 'v \<Rightarrow> 'm \<Rightarrow> 'm" and ok :: "'m \<Rightarrow> bool"
  assumes get_ins: "get (ins k v m) = (get m)(k \<mapsto> v)"
    and ok_ins: "ok m \<Longrightarrow> ok (ins k v m)"
begin

lemma load_ok: "ok m \<Longrightarrow> ok (foldl (\<lambda>m (k, v). ins k v m) m es)"
  by (induction es arbitrary: m) (auto simp: ok_ins)

lemma load_get: "distinct (map fst es) \<Longrightarrow> get (foldl (\<lambda>m (k, v). ins k v m) m es) = get m ++ map_of es"
proof (induction es arbitrary: m)
  case (Cons x es)
  obtain k v where x: "x = (k, v)" by fastforce
  with Cons.prems have "map_of es k = None" by (simp add: map_of_eq_None_iff)
  with Cons x show ?case by (auto simp: get_ins map_add_def fun_eq_iff split: option.splits)
qed simp

end

interpretation btree: table btree_get btree_insert btree_inv
  by unfold_locales simp_all

end
