(* ===== verification/Clock.thy ===== *)
theory Clock
  imports Prelude
begin

text \<open>
  \<^verbatim>\<open>src/src/time.rs\<close>: timestamps are \<^verbatim>\<open>i128\<close> nanoseconds.  They are integers here, with the saturation
  of \<^verbatim>\<open>saturating_add\<close> and \<^verbatim>\<open>saturating_sub\<close> and the casts to narrower types written out.
\<close>

type_synonym ts = int

definition i128_max :: int where "i128_max = 2 ^ 127 - 1"
definition i128_min :: int where "i128_min = - (2 ^ 127)"

definition is_i128 :: "int \<Rightarrow> bool" where
  "is_i128 t \<longleftrightarrow> i128_min \<le> t \<and> t \<le> i128_max"

definition i128_saturate :: "int \<Rightarrow> ts" where
  "i128_saturate t = max i128_min (min i128_max t)"

definition saturating_add :: "ts \<Rightarrow> int \<Rightarrow> ts" where
  "saturating_add t d = i128_saturate (t + d)"

definition saturating_sub :: "ts \<Rightarrow> int \<Rightarrow> ts" where
  "saturating_sub t d = i128_saturate (t - d)"

definition NS_PER_SEC :: ts where "NS_PER_SEC = 1000000000"
definition NS_PER_MS :: ts where "NS_PER_MS = 1000000"

definition add_secs :: "ts \<Rightarrow> u32 \<Rightarrow> ts" where
  "add_secs t secs = saturating_add t (uint secs * NS_PER_SEC)"

definition add_ms :: "ts \<Rightarrow> u64 \<Rightarrow> ts" where
  "add_ms t ms = saturating_add t (uint ms * NS_PER_MS)"

definition sub_secs :: "ts \<Rightarrow> u32 \<Rightarrow> ts" where
  "sub_secs t secs = saturating_sub t (uint secs * NS_PER_SEC)"

definition remaining_secs :: "ts \<Rightarrow> ts \<Rightarrow> u32" where
  "remaining_secs now deadline =
    (if deadline \<le> now then 0 else word_of_int (min ((deadline - now) div NS_PER_SEC) (2 ^ 32 - 1)))"

text \<open>Integer division of the source truncates towards zero, and \<^verbatim>\<open>as i64\<close> keeps the low 64 bits.\<close>

definition to_secs :: "ts \<Rightarrow> 64 word" where
  "to_secs t = word_of_int (if 0 \<le> t then t div NS_PER_SEC else - (- t div NS_PER_SEC))"

definition from_secs :: "64 word \<Rightarrow> ts" where
  "from_secs s = sint s * NS_PER_SEC"

section \<open>Facts\<close>

lemma is_i128_saturate [simp]: "is_i128 (i128_saturate t)"
  by (auto simp: is_i128_def i128_saturate_def i128_min_def i128_max_def)

lemma i128_saturate_id: "is_i128 t \<Longrightarrow> i128_saturate t = t"
  by (auto simp: is_i128_def i128_saturate_def)

lemma saturating_sub_le: "is_i128 t \<Longrightarrow> 0 \<le> d \<Longrightarrow> saturating_sub t d \<le> t"
  by (auto simp: saturating_sub_def i128_saturate_def is_i128_def)

lemma saturating_add_ge: "is_i128 t \<Longrightarrow> 0 \<le> d \<Longrightarrow> t \<le> saturating_add t d"
  by (auto simp: saturating_add_def i128_saturate_def is_i128_def)

lemma u32_secs_bound: "uint (secs :: u32) * NS_PER_SEC < 2 ^ 62"
  using unsigned_less [where 'a = int, of secs] by (simp add: NS_PER_SEC_def)

lemma add_secs_exact: "is_i128 (t + uint secs * NS_PER_SEC) \<Longrightarrow> add_secs t secs = t + uint secs * NS_PER_SEC"
  by (simp add: add_secs_def saturating_add_def i128_saturate_id)

lemma remaining_add_secs:
  assumes "is_i128 (t + uint secs * NS_PER_SEC)"
  shows "remaining_secs t (add_secs t secs) = secs"
proof (cases "secs = 0")
  case False
  then have "0 < uint secs" by (metis uint_0_iff uint_ge_0 order_le_imp_less_or_eq)
  moreover have "uint secs < 2 ^ 32" using unsigned_less [where 'a = int, of secs] by simp
  ultimately show ?thesis
    by (simp add: add_secs_exact [OF assms] remaining_secs_def NS_PER_SEC_def)
next
  case True
  with add_secs_exact [OF assms] show ?thesis by (simp add: remaining_secs_def)
qed

lemma remaining_secs_bounds:
  assumes "now < deadline" and "deadline - now < 2 ^ 61"
  shows "uint (remaining_secs now deadline) * NS_PER_SEC \<le> deadline - now
    \<and> deadline - now < (uint (remaining_secs now deadline) + 1) * NS_PER_SEC"
proof -
  let ?q = "(deadline - now) div NS_PER_SEC"
  have q: "0 \<le> ?q" "?q \<le> 2 ^ 32 - 1"
    using assms by (simp_all add: NS_PER_SEC_def pos_imp_zdiv_nonneg_iff)
  then have "uint (remaining_secs now deadline) = ?q"
    using assms(1) by (simp add: remaining_secs_def uint_word_of_int)
  moreover have "?q * NS_PER_SEC \<le> deadline - now" "deadline - now < (?q + 1) * NS_PER_SEC"
    by (simp_all add: NS_PER_SEC_def) 
  ultimately show ?thesis by simp
qed

end
