(* ===== verification/Bounded.thy ===== *)
theory Bounded
  imports Ordered_Map Clock
begin

text \<open>
  \<^verbatim>\<open>src/src/bounded.rs\<close>: making room in a full table.  \<open>evict_for_capacity\<close> returns the table and the
  number of entries dropped.
\<close>

fun stride_pass :: "nat \<Rightarrow> usize \<Rightarrow> ('k \<times> 'v) list \<Rightarrow> ('k \<times> 'v) list" where
  "stride_pass stride idx [] = []"
| "stride_pass stride idx (e # m) =
    (if (idx + 1) mod stride \<noteq> 0 then e # stride_pass stride (idx + 1) m else stride_pass stride (idx + 1) m)"

text \<open>\<^verbatim>\<open>Iterator::min_by_key\<close>: the first of the entries with the least key.\<close>

fun min_by_key :: "('a \<Rightarrow> ts) \<Rightarrow> 'a list \<Rightarrow> 'a option" where
  "min_by_key f [] = None"
| "min_by_key f (x # xs) = (case min_by_key f xs of
      None \<Rightarrow> Some x
    | Some y \<Rightarrow> Some (if f x \<le> f y then x else y))"

definition evict_for_capacity ::
  "('k, 'v) btree \<Rightarrow> ts \<Rightarrow> usize \<Rightarrow> ('v \<Rightarrow> ts) \<Rightarrow> ('k, 'v) btree \<times> usize" where
  "evict_for_capacity m stale_before stride stamp =
    (if m = [] then (m, 0)
     else let before = length m; stride = max stride 2;
              m1 = btree_retain (\<lambda>_ v. stamp v \<ge> stale_before) m in
       if length m1 < before then (m1, before - length m1)
       else let m2 = stride_pass stride 0 m1 in
         if length m2 < before then (m2, before - length m2)
         else let m3 = (case min_by_key (\<lambda>e. stamp (snd e)) m2 of
                          Some e \<Rightarrow> btree_remove (fst e) m2
                        | None \<Rightarrow> m2)
           in (m3, before - length m3))"

section \<open>What it guarantees\<close>

lemma stride_pass_sub: "set (stride_pass stride idx m) \<subseteq> set m"
  by (induction stride idx m rule: stride_pass.induct) auto

lemma stride_pass_inv: "btree_inv m \<Longrightarrow> btree_inv (stride_pass stride idx m)"
proof (induction stride idx m rule: stride_pass.induct)
  case (2 stride idx e m)
  obtain k v where "e = (k, v)" by fastforce
  with 2 show ?case using stride_pass_sub [of stride "idx + 1" m] by auto
qed simp

lemma stride_pass_length:
  assumes "2 \<le> stride"
  shows "length (stride_pass stride idx m) + (idx + length m) div stride = length m + idx div stride"
  using assms
proof (induction stride idx m rule: stride_pass.induct)
  case (2 stride idx e m)
  have "Suc idx div stride = (if Suc idx mod stride = 0 then Suc (idx div stride) else idx div stride)"
    by (simp add: div_Suc)
  with 2 show ?case by (auto split: if_splits)
qed simp

lemma min_by_key_Some: "xs \<noteq> [] \<Longrightarrow> \<exists>y. min_by_key f xs = Some y \<and> y \<in> set xs \<and> (\<forall>x \<in> set xs. f y \<le> f x)"
  by (induction f xs rule: min_by_key.induct) (auto split: option.splits, fastforce+)

lemma btree_remove_length:
  assumes "btree_inv m" and "k \<in> fst ` set m"
  shows "Suc (length (btree_remove k m)) = length m"
  using assms unfolding btree_remove_def
proof (induction m)
  case (Cons e m)
  show ?case
  proof (cases "fst e = k")
    case True
    with Cons.prems have "filter (\<lambda>e. fst e \<noteq> k) m = m"
      by (cases e) (auto simp: filter_id_conv)
    with True show ?thesis by simp
  next
    case False
    with Cons show ?thesis by (cases e) auto
  qed
qed simp

text \<open>The stale entries go first, and alone when there are any.\<close>

lemma evict_stale:
  assumes "e \<in> set m" and "stamp (snd e) < cutoff"
  shows "evict_for_capacity m cutoff stride stamp
    = (btree_retain (\<lambda>_ v. stamp v \<ge> cutoff) m, length m - length (btree_retain (\<lambda>_ v. stamp v \<ge> cutoff) m))
    \<and> length (btree_retain (\<lambda>_ v. stamp v \<ge> cutoff) m) < length m"
proof -
  have "length (btree_retain (\<lambda>_ v. stamp v \<ge> cutoff) m) < length m"
    using assms unfolding btree_retain_def by (intro length_filter_less [of e]) auto
  with assms(1) show ?thesis by (auto simp: evict_for_capacity_def Let_def)
qed

lemma evict_fresh:
  assumes "btree_inv m" and "m \<noteq> []" and "\<forall>e \<in> set m. cutoff \<le> stamp (snd e)"
    and "evict_for_capacity m cutoff stride stamp = (m', n)"
  shows "n = max 1 (length m div max stride 2) \<and> length m' + n = length m \<and> set m' \<subseteq> set m \<and> btree_inv m'"
proof -
  let ?s = "max stride 2"
  have m1: "btree_retain (\<lambda>_ v. stamp v \<ge> cutoff) m = m"
    using assms(3) by (auto simp: btree_retain_def filter_id_conv)
  have len: "length (stride_pass ?s 0 m) + length m div ?s = length m"
    using stride_pass_length [of ?s 0 m] by simp
  show ?thesis
  proof (cases "length m div ?s = 0")
    case False
    with assms(2,4) len m1 have "m' = stride_pass ?s 0 m" "n = length m div ?s"
      by (auto simp: evict_for_capacity_def Let_def split: if_splits)
    with False len assms(1) show ?thesis by (auto simp: stride_pass_inv dest: stride_pass_sub [THEN subsetD])
  next
    case True
    let ?m = "stride_pass ?s 0 m"
    have ne: "?m \<noteq> []" using True len assms(2) by auto
    obtain e where e: "min_by_key (\<lambda>e. stamp (snd e)) ?m = Some e" "e \<in> set ?m"
      using min_by_key_Some [OF ne] by blast
    then have "Suc (length (btree_remove (fst e) ?m)) = length ?m"
      using assms(1) by (intro btree_remove_length) (auto simp: stride_pass_inv)
    with True len assms(2,4) m1 e have "m' = btree_remove (fst e) ?m" "n = 1"
      by (auto simp: evict_for_capacity_def Let_def)
    with True len \<open>Suc (length _) = _\<close> assms(1) show ?thesis
      by (auto simp: stride_pass_inv btree_remove_def intro: inv_filter dest: stride_pass_sub [THEN subsetD])
  qed
qed

lemma evict_for_capacity_ok:
  assumes "btree_inv m" and "m \<noteq> []" and "evict_for_capacity m cutoff stride stamp = (m', n)"
  shows "0 < n \<and> length m' + n = length m \<and> set m' \<subseteq> set m \<and> btree_inv m'"
proof (cases "\<forall>e \<in> set m. cutoff \<le> stamp (snd e)")
  case True
  with evict_fresh [OF assms(1,2) _ assms(3)] show ?thesis by auto
next
  case False
  then obtain e where "e \<in> set m" "stamp (snd e) < cutoff" by force
  from evict_stale [where e = e and m = m and stamp = stamp and cutoff = cutoff, OF this, of stride] assms show ?thesis by (auto simp: btree_retain_def inv_filter)
qed

end
