(* ===== verification/Rust_Str.thy ===== *)
theory Rust_Str
  imports Prelude
begin

text \<open>
  What the configuration parsers use of Rust's \<^verbatim>\<open>str\<close> and of the address parsers of its standard
  library.  A string is the list of its Unicode scalar values; \<open>utf8\<close> gives its octets.
\<close>

type_synonym rust_str = "u32 list"

unbundle bit_operations_syntax

definition utf8_char :: "u32 \<Rightarrow> bytes" where
  "utf8_char c =
    (if c < 0x80 then [ucast c]
     else if c < 0x800 then [0xc0 OR ucast (drop_bit 6 c), 0x80 OR ucast (c AND 0x3f)]
     else if c < 0x10000 then
       [0xe0 OR ucast (drop_bit 12 c), 0x80 OR ucast (drop_bit 6 c AND 0x3f), 0x80 OR ucast (c AND 0x3f)]
     else
       [0xf0 OR ucast (drop_bit 18 c), 0x80 OR ucast (drop_bit 12 c AND 0x3f),
        0x80 OR ucast (drop_bit 6 c AND 0x3f), 0x80 OR ucast (c AND 0x3f)])"

definition utf8 :: "rust_str \<Rightarrow> bytes" where
  "utf8 s = concat (map utf8_char s)"

text \<open>\<^verbatim>\<open>char::is_whitespace\<close>, the Unicode property White\_Space, and \<^verbatim>\<open>u8::is_ascii_whitespace\<close>.\<close>

definition is_whitespace :: "u32 \<Rightarrow> bool" where
  "is_whitespace c \<longleftrightarrow> 9 \<le> c \<and> c \<le> 13 \<or> 0x2000 \<le> c \<and> c \<le> 0x200a
     \<or> c \<in> {0x20, 0x85, 0xa0, 0x1680, 0x2028, 0x2029, 0x202f, 0x205f, 0x3000}"

definition is_ascii_whitespace :: "u8 \<Rightarrow> bool" where
  "is_ascii_whitespace b \<longleftrightarrow> b \<in> {9, 10, 12, 13, 32}"

definition str_trim :: "rust_str \<Rightarrow> rust_str" where
  "str_trim s = rev (dropWhile is_whitespace (rev (dropWhile is_whitespace s)))"

definition trim_end_matches :: "u32 \<Rightarrow> rust_str \<Rightarrow> rust_str" where
  "trim_end_matches c s = rev (dropWhile (\<lambda>d. d = c) (rev s))"

fun strip_str_prefix :: "rust_str \<Rightarrow> rust_str \<Rightarrow> rust_str option" where
  "strip_str_prefix [] s = Some s"
| "strip_str_prefix (p # ps) [] = None"
| "strip_str_prefix (p # ps) (c # s) = (if p = c then strip_str_prefix ps s else None)"

fun split_once :: "u32 \<Rightarrow> rust_str \<Rightarrow> (rust_str \<times> rust_str) option" where
  "split_once d [] = None"
| "split_once d (c # s) = (if c = d then Some ([], s)
     else case split_once d s of None \<Rightarrow> None | Some (a, b) \<Rightarrow> Some (c # a, b))"

fun split_at_char :: "u32 \<Rightarrow> rust_str \<Rightarrow> rust_str list" where
  "split_at_char d [] = [[]]"
| "split_at_char d (c # s) = (if c = d then [] # split_at_char d s
     else case split_at_char d s of [] \<Rightarrow> [[c]] | p # ps \<Rightarrow> (c # p) # ps)"

section \<open>Numbers\<close>

definition to_digit :: "nat \<Rightarrow> u32 \<Rightarrow> nat option" where
  "to_digit radix c =
    (let v = (if 48 \<le> c \<and> c \<le> 57 then unat c - 48
              else if 97 \<le> c \<and> c \<le> 122 then unat c - 87
              else if 65 \<le> c \<and> c \<le> 90 then unat c - 55 else radix)
     in if v < radix then Some v else None)"

text \<open>\<^verbatim>\<open>str::parse::<u8>\<close>: an optional plus sign and at least one digit, without overflow.\<close>

fun parse_digits :: "nat \<Rightarrow> rust_str \<Rightarrow> nat option" where
  "parse_digits acc [] = Some acc"
| "parse_digits acc (c # s) = (case to_digit 10 c of None \<Rightarrow> None | Some d \<Rightarrow> parse_digits (acc * 10 + d) s)"

definition parse_u8 :: "rust_str \<Rightarrow> u8 option" where
  "parse_u8 s =
    (let t = (if length s > 1 \<and> hd s = 43 then tl s else s) in
     if t = [] then None
     else case parse_digits 0 t of None \<Rightarrow> None | Some n \<Rightarrow> if n \<le> 255 then Some (of_nat n) else None)"

section \<open>Addresses\<close>

text \<open>
  The recursive-descent parser of \<^verbatim>\<open>core::net\<close>: a reader returns the value and the unread rest.
\<close>

fun take_digits :: "nat \<Rightarrow> rust_str \<Rightarrow> nat list \<times> rust_str" where
  "take_digits radix [] = ([], [])"
| "take_digits radix (c # s) = (case to_digit radix c of
      None \<Rightarrow> ([], c # s)
    | Some d \<Rightarrow> let (ds, r) = take_digits radix s in (d # ds, r))"

definition digits_value :: "nat \<Rightarrow> nat list \<Rightarrow> nat" where
  "digits_value radix ds = foldl (\<lambda>a d. a * radix + d) 0 ds"

definition read_number :: "nat \<Rightarrow> nat \<Rightarrow> bool \<Rightarrow> nat \<Rightarrow> rust_str \<Rightarrow> (nat \<times> rust_str) option" where
  "read_number radix max_digits zero_prefix bound s =
    (let (ds, r) = take_digits radix s in
     if ds = [] \<or> length ds > max_digits then None
     else if \<not> zero_prefix \<and> hd ds = 0 \<and> length ds > 1 then None
     else if digits_value radix ds > bound then None
     else Some (digits_value radix ds, r))"

definition read_separator :: "u32 \<Rightarrow> nat \<Rightarrow> (rust_str \<Rightarrow> ('a \<times> rust_str) option) \<Rightarrow> rust_str \<Rightarrow> ('a \<times> rust_str) option" where
  "read_separator sep i rd s =
    (if i = 0 then rd s else case s of [] \<Rightarrow> None | c # r \<Rightarrow> if c = sep then rd r else None)"

fun read_octets :: "nat \<Rightarrow> nat \<Rightarrow> rust_str \<Rightarrow> (nat list \<times> rust_str) option" where
  "read_octets 0 i s = Some ([], s)"
| "read_octets (Suc n) i s = (case read_separator 46 i (read_number 10 3 False 255) s of
      None \<Rightarrow> None
    | Some (v, r) \<Rightarrow> (case read_octets n (Suc i) r of None \<Rightarrow> None | Some (vs, r') \<Rightarrow> Some (v # vs, r')))"

definition read_ipv4 :: "rust_str \<Rightarrow> (u32 \<times> rust_str) option" where
  "read_ipv4 s = (case read_octets 4 0 s of
      None \<Rightarrow> None
    | Some (vs, r) \<Rightarrow> Some (from_be_bytes (map of_nat vs), r))"

definition parse_ipv4 :: "rust_str \<Rightarrow> u32 option" where
  "parse_ipv4 s = (if length (utf8 s) > 15 then None
     else case read_ipv4 s of Some (a, []) \<Rightarrow> Some a | _ \<Rightarrow> None)"

text \<open>
  Up to \<open>limit\<close> groups from index \<open>i\<close> on; a trailing IPv4 address fills two.  The flag says whether
  it was one.
\<close>

fun read_groups :: "nat \<Rightarrow> nat \<Rightarrow> rust_str \<Rightarrow> u16 list \<times> bool \<times> rust_str" where
  "read_groups 0 i s = ([], False, s)"
| "read_groups (Suc n) i s =
    (case (if n > 0 then read_separator 58 i read_ipv4 s else None) of
       Some (a, r) \<Rightarrow> ([ucast (drop_bit 16 a), ucast a], True, r)
     | None \<Rightarrow> (case read_separator 58 i (read_number 16 4 True 65535) s of
         None \<Rightarrow> ([], False, s)
       | Some (g, r) \<Rightarrow> (let (gs, f, r') = read_groups n (Suc i) r in (of_nat g # gs, f, r'))))"

definition groups_address :: "u16 list \<Rightarrow> u128" where
  "groups_address gs = foldl (\<lambda>a g. push_bit 16 a OR ucast g) 0 gs"

definition read_ipv6 :: "rust_str \<Rightarrow> (u128 \<times> rust_str) option" where
  "read_ipv6 s =
    (let (hs, v4, r) = read_groups 8 0 s in
     if length hs = 8 then Some (groups_address hs, r)
     else if v4 then None
     else case strip_str_prefix [58, 58] r of
       None \<Rightarrow> None
     | Some r' \<Rightarrow>
        (let (ts, _, r'') = read_groups (8 - (length hs + 1)) 0 r' in
         Some (groups_address (hs @ replicate (8 - length hs - length ts) 0 @ ts), r'')))"

definition parse_ipv6 :: "rust_str \<Rightarrow> u128 option" where
  "parse_ipv6 s = (case read_ipv6 s of Some (a, []) \<Rightarrow> Some a | _ \<Rightarrow> None)"

text \<open>\<^verbatim>\<open>IpAddr\<close> tries the first family, then the second.\<close>

datatype ip_addr = IpV4 u32 | IpV6 u128

definition parse_ip :: "rust_str \<Rightarrow> ip_addr option" where
  "parse_ip s = (case read_ipv4 s of
      Some (a, r) \<Rightarrow> if r = [] then Some (IpV4 a) else None
    | None \<Rightarrow> map_option IpV6 (parse_ipv6 s))"

text \<open>The display of numbers and of IPv4 addresses.\<close>

fun decimal_str :: "nat \<Rightarrow> rust_str" where
  "decimal_str n = (if n < 10 then [of_nat (48 + n)] else decimal_str (n div 10) @ [of_nat (48 + n mod 10)])"

declare decimal_str.simps [simp del]

definition ipv4_str :: "u32 \<Rightarrow> rust_str" where
  "ipv4_str a = (case map (\<lambda>b. decimal_str (unat b)) (to_be_bytes 4 a) of
     [w, x, y, z] \<Rightarrow> w @ [46] @ x @ [46] @ y @ [46] @ z | _ \<Rightarrow> [])"

section \<open>Facts\<close>

lemma utf8_ascii: "(\<And>c. c \<in> set s \<Longrightarrow> c < 0x80) \<Longrightarrow> utf8 s = map ucast s"
  unfolding utf8_def by (induction s) (simp_all add: utf8_char_def)

lemma split_at_char_nonempty [simp]: "split_at_char d s \<noteq> []"
  by (induction d s rule: split_at_char.induct) (auto split: list.splits)

lemma split_once_append: "d \<notin> set a \<Longrightarrow> split_once d (a @ d # b) = Some (a, b)"
  by (induction a) auto

lemma split_once_none: "d \<notin> set a \<Longrightarrow> split_once d a = None"
  by (induction a) auto

lemma str_trim_id: "(\<And>c. c \<in> set s \<Longrightarrow> \<not> is_whitespace c) \<Longrightarrow> str_trim s = s"
proof -
  assume a: "\<And>c. c \<in> set s \<Longrightarrow> \<not> is_whitespace c"
  have "dropWhile is_whitespace xs = xs" if "set xs \<subseteq> set s" for xs
    using that a by (cases xs) auto
  then show ?thesis by (simp add: str_trim_def)
qed

subsection \<open>Printing and parsing decimal numbers\<close>

fun dec_digits :: "nat \<Rightarrow> nat list" where
  "dec_digits n = (if n < 10 then [n] else dec_digits (n div 10) @ [n mod 10])"

declare dec_digits.simps [simp del]

definition digit_char :: "nat \<Rightarrow> u32" where
  "digit_char d = of_nat (48 + d)"

lemma unat_digit_char: "d < 10 \<Longrightarrow> unat (digit_char d) = 48 + d"
  unfolding digit_char_def by (simp only: unat_of_nat) simp

lemma decimal_str_digits: "decimal_str n = map digit_char (dec_digits n)"
proof (induction n rule: dec_digits.induct)
  case (1 n)
  then show ?case by (subst decimal_str.simps, subst dec_digits.simps) (simp add: digit_char_def)
qed

lemma dec_digits_less: "d \<in> set (dec_digits n) \<Longrightarrow> d < 10"
  by (induction n rule: dec_digits.induct) (subst (asm) (2) dec_digits.simps, auto split: if_splits)

lemma dec_digits_nonempty [simp]: "dec_digits n \<noteq> []"
  by (subst dec_digits.simps) simp

lemma digits_value_dec: "digits_value 10 (dec_digits n) = n"
  unfolding digits_value_def
  by (induction n rule: dec_digits.induct) (subst dec_digits.simps, simp)

lemma dec_digits_head: "hd (dec_digits n) = 0 \<Longrightarrow> length (dec_digits n) = 1"
proof (induction n rule: dec_digits.induct)
  case (1 n)
  show ?case
  proof (cases "n < 10")
    case False
    with "1.prems" have "hd (dec_digits (n div 10)) = 0" by (subst (asm) dec_digits.simps) simp
    with 1 False have "length (dec_digits (n div 10)) = 1" by simp
    with \<open>hd (dec_digits (n div 10)) = 0\<close> have "dec_digits (n div 10) = [0]" by (cases "dec_digits (n div 10)") auto
    with digits_value_dec [of "n div 10"] False show ?thesis by (simp add: digits_value_def)
  qed (subst dec_digits.simps, simp)
qed

lemma dec_digits_byte: "n < 1000 \<Longrightarrow> length (dec_digits n) \<le> 3"
  by (subst dec_digits.simps, subst dec_digits.simps, subst dec_digits.simps) simp

lemma to_digit_char [simp]: "d < 10 \<Longrightarrow> to_digit 10 (digit_char d) = Some d"
  by (simp add: to_digit_def Let_def word_le_nat_alt unat_digit_char)

lemma take_digits_dec:
  assumes "\<And>d. d \<in> set ds \<Longrightarrow> d < 10" and "r = [] \<or> to_digit 10 (hd r) = None"
  shows "take_digits 10 (map digit_char ds @ r) = (ds, r)"
  using assms by (induction ds) (cases r, auto)

lemma parse_digits_dec:
  "(\<And>d. d \<in> set ds \<Longrightarrow> d < 10) \<Longrightarrow> parse_digits a (map digit_char ds) = Some (foldl (\<lambda>a d. a * 10 + d) a ds)"
  by (induction ds arbitrary: a) auto

lemma digit_char_range:
  assumes "c \<in> set (decimal_str n)"
  shows "48 \<le> c \<and> c \<le> 57"
proof -
  from assms obtain d where "c = digit_char d" "d < 10"
    by (auto simp: decimal_str_digits dest: dec_digits_less)
  then show ?thesis by (simp add: word_le_nat_alt unat_digit_char)
qed

lemma decimal_str_nonempty [simp]: "decimal_str n \<noteq> []"
  by (simp add: decimal_str_digits)

lemma parse_u8_decimal:
  assumes "n \<le> 255"
  shows "parse_u8 (decimal_str n) = Some (of_nat n)"
proof -
  have "hd (decimal_str n) \<noteq> 43"
    using digit_char_range [OF hd_in_set [OF decimal_str_nonempty], of n] by auto
  moreover have "parse_digits 0 (decimal_str n) = Some n"
    using parse_digits_dec [of "dec_digits n" 0] dec_digits_less [of _ n] digits_value_dec [of n]
    by (simp add: decimal_str_digits digits_value_def)
  ultimately show ?thesis using assms by (simp add: parse_u8_def)
qed

lemma read_number_decimal:
  assumes "n \<le> 255" and "r = [] \<or> to_digit 10 (hd r) = None"
  shows "read_number 10 3 False 255 (decimal_str n @ r) = Some (n, r)"
  using take_digits_dec [of "dec_digits n" r, OF dec_digits_less assms(2)] dec_digits_byte [of n] dec_digits_head [of n] assms(1)
  by (auto simp: read_number_def decimal_str_digits digits_value_dec)

lemma length_4: "length xs = 4 \<Longrightarrow> \<exists>w x y z. xs = [w, x, y, z]"
  by (auto simp: numeral_eq_Suc length_Suc_conv)

lemma ipv4_str_unfold:
  "\<exists>w x y z. to_be_bytes 4 a = [w, x, y, z] \<and> ipv4_str a = decimal_str (unat w) @ 46 # decimal_str (unat x) @ 46
     # decimal_str (unat y) @ 46 # decimal_str (unat z)"
proof -
  obtain w x y z where "to_be_bytes 4 a = [w, x, y, z]"
    using length_4 [OF length_to_be_bytes] by blast
  then show ?thesis by (auto simp: ipv4_str_def)
qed

lemma ipv4_str_chars: "c \<in> set (ipv4_str a) \<Longrightarrow> c = 46 \<or> 48 \<le> c \<and> c \<le> 57"
  using ipv4_str_unfold [of a] by (auto dest: digit_char_range)

lemma decimal_byte_length: "length (decimal_str (unat (b :: u8))) \<le> 3"
  using dec_digits_byte [of "unat b"] unat_u8_less [of b] by (simp add: decimal_str_digits)

lemma read_ipv4_str: "read_ipv4 (ipv4_str a) = Some (a, [])"
proof -
  obtain w x y z where b: "to_be_bytes 4 a = [w, x, y, z]" and
    s: "ipv4_str a = decimal_str (unat w) @ 46 # decimal_str (unat x) @ 46 # decimal_str (unat y) @ 46 # decimal_str (unat z)"
    using ipv4_str_unfold by blast
  have le: "unat (b :: u8) \<le> 255" for b using unat_u8_less [of b] by simp
  have nd: "to_digit 10 46 = None" by (simp add: to_digit_def)
  have four: "(4 :: nat) = Suc (Suc (Suc (Suc 0)))" by simp
  have z: "read_number 10 3 False 255 (decimal_str (unat z)) = Some (unat z, [])"
    using read_number_decimal [OF le, of "[]" z] by simp
  have "read_octets 4 0 (ipv4_str a) = Some ([unat w, unat x, unat y, unat z], [])"
    unfolding s four by (simp add: z read_separator_def read_number_decimal [OF le] nd)
  then show ?thesis using from_to_be_bytes_32 [of a] by (simp add: read_ipv4_def b)
qed

lemma parse_ipv4_str: "parse_ipv4 (ipv4_str a) = Some a"
proof -
  have "length (ipv4_str a) \<le> 15"
  proof -
    obtain w x y z where "ipv4_str a = decimal_str (unat (w :: u8)) @ 46 # decimal_str (unat (x :: u8)) @ 46
        # decimal_str (unat (y :: u8)) @ 46 # decimal_str (unat (z :: u8))"
      using ipv4_str_unfold by blast
    with decimal_byte_length [of w] decimal_byte_length [of x] decimal_byte_length [of y] decimal_byte_length [of z]
    show ?thesis by simp
  qed
  moreover have "utf8 (ipv4_str a) = map ucast (ipv4_str a)"
    by (rule utf8_ascii) (auto simp: word_le_nat_alt word_less_nat_alt dest!: ipv4_str_chars)
  ultimately show ?thesis by (simp add: parse_ipv4_def read_ipv4_str)
qed

end
