(* ===== verification/Cidr.thy ===== *)
theory Cidr
  imports Rust_Str
begin

text \<open>
  \<^verbatim>\<open>src/src/cidr.rs\<close>: address blocks of both families.  What the two masks share is the locale
  \<open>prefix_masks\<close>; containment is characterised there once, as the range from the network to the
  broadcast address.
\<close>

section \<open>Definitions\<close>

definition mask_v4 :: "u8 \<Rightarrow> u32" where
  "mask_v4 pre = (if pre = 0 then 0 else if pre \<ge> 32 then - 1 else push_bit (unat (32 - pre)) (- 1))"

definition mask_v6 :: "u8 \<Rightarrow> u128" where
  "mask_v6 pre = (if pre = 0 then 0 else if pre \<ge> 128 then - 1 else push_bit (unat (128 - pre)) (- 1))"

definition split_prefix :: "rust_str \<Rightarrow> u8 \<Rightarrow> (rust_str \<times> u8) option" where
  "split_prefix s full = (case split_once 47 s of
      Some (addr, p) \<Rightarrow> (case parse_u8 (str_trim p) of
          None \<Rightarrow> None
        | Some p \<Rightarrow> if p > full then None else Some (str_trim addr, p))
    | None \<Rightarrow> Some (str_trim s, full))"

record ipv4_cidr =
  cidr4_base :: u32
  cidr4_prefix :: u8

definition cidr4_new :: "u32 \<Rightarrow> u8 \<Rightarrow> ipv4_cidr option" where
  "cidr4_new addr pre = (if pre > 32 then None
     else Some \<lparr>cidr4_base = addr AND mask_v4 pre, cidr4_prefix = pre\<rparr>)"

definition cidr4_parse :: "rust_str \<Rightarrow> ipv4_cidr option" where
  "cidr4_parse s = (case split_prefix s 32 of
      None \<Rightarrow> None
    | Some (addr, pre) \<Rightarrow> (case parse_ipv4 addr of None \<Rightarrow> None | Some a \<Rightarrow> cidr4_new a pre))"

definition cidr4_contains :: "ipv4_cidr \<Rightarrow> u32 \<Rightarrow> bool" where
  "cidr4_contains c ip \<longleftrightarrow> ip AND mask_v4 (cidr4_prefix c) = cidr4_base c"

definition cidr4_network :: "ipv4_cidr \<Rightarrow> u32" where
  "cidr4_network c = cidr4_base c"

definition cidr4_broadcast :: "ipv4_cidr \<Rightarrow> u32" where
  "cidr4_broadcast c = cidr4_base c OR NOT (mask_v4 (cidr4_prefix c))"

definition cidr4_len :: "ipv4_cidr \<Rightarrow> u64" where
  "cidr4_len c = push_bit (unat (32 - cidr4_prefix c)) 1"

definition cidr4_display :: "ipv4_cidr \<Rightarrow> rust_str" where
  "cidr4_display c = ipv4_str (cidr4_network c) @ [47] @ decimal_str (unat (cidr4_prefix c))"

record ipv6_cidr =
  cidr6_base :: u128
  cidr6_prefix :: u8

definition cidr6_new :: "u128 \<Rightarrow> u8 \<Rightarrow> ipv6_cidr option" where
  "cidr6_new addr pre = (if pre > 128 then None
     else Some \<lparr>cidr6_base = addr AND mask_v6 pre, cidr6_prefix = pre\<rparr>)"

definition cidr6_parse :: "rust_str \<Rightarrow> ipv6_cidr option" where
  "cidr6_parse s = (case split_prefix s 128 of
      None \<Rightarrow> None
    | Some (addr, pre) \<Rightarrow> (case parse_ipv6 addr of None \<Rightarrow> None | Some a \<Rightarrow> cidr6_new a pre))"

definition cidr6_contains :: "ipv6_cidr \<Rightarrow> u128 \<Rightarrow> bool" where
  "cidr6_contains c ip \<longleftrightarrow> ip AND mask_v6 (cidr6_prefix c) = cidr6_base c"

definition cidr6_network :: "ipv6_cidr \<Rightarrow> u128" where
  "cidr6_network c = cidr6_base c"

definition cidr6_broadcast :: "ipv6_cidr \<Rightarrow> u128" where
  "cidr6_broadcast c = cidr6_base c OR NOT (mask_v6 (cidr6_prefix c))"

datatype ip_cidr = CidrV4 ipv4_cidr | CidrV6 ipv6_cidr

definition ip_cidr_parse :: "rust_str \<Rightarrow> ip_cidr option" where
  "ip_cidr_parse s = (case parse_ip (str_trim (hd (split_at_char 47 s))) of
      Some (IpV4 _) \<Rightarrow> map_option CidrV4 (cidr4_parse s)
    | Some (IpV6 _) \<Rightarrow> map_option CidrV6 (cidr6_parse s)
    | None \<Rightarrow> None)"

fun ip_cidr_contains :: "ip_cidr \<Rightarrow> ip_addr \<Rightarrow> bool" where
  "ip_cidr_contains (CidrV4 c) (IpV4 a) = cidr4_contains c a"
| "ip_cidr_contains (CidrV6 c) (IpV6 a) = cidr6_contains c a"
| "ip_cidr_contains _ _ = False"

fun ip_cidr_prefix :: "ip_cidr \<Rightarrow> u8" where
  "ip_cidr_prefix (CidrV4 c) = cidr4_prefix c"
| "ip_cidr_prefix (CidrV6 c) = cidr6_prefix c"

section \<open>Prefix masks\<close>

lemma and_not_mask: "x AND NOT (mask n) = push_bit n (drop_bit n (x :: 'a :: len word))"
  by (rule bit_word_eqI) (auto simp: bit_simps)

lemma push_bit_minus_one_word: "push_bit n (- 1 :: 'a :: len word) = NOT (mask n)"
  by (rule bit_word_eqI) (auto simp: bit_simps)

lemma full_mask: "NOT (mask 32) = (0 :: u32)" "NOT (mask 128) = (0 :: u128)"
  by (rule bit_word_eqI; simp add: bit_simps)+

locale prefix_masks =
  fixes pmask :: "u8 \<Rightarrow> 'a :: len word" and width :: nat
  assumes width: "LENGTH('a) = width"
    and pmask: "unat p \<le> width \<Longrightarrow> pmask p = NOT (mask (width - unat p))"
begin

lemma unat_masked:
  assumes "unat p \<le> width"
  shows "unat (x AND pmask p) = unat x div 2 ^ (width - unat p) * 2 ^ (width - unat p)"
proof -
  let ?h = "width - unat p"
  have "unat (push_bit ?h (drop_bit ?h x)) = take_bit LENGTH('a) (push_bit ?h (unat x div 2 ^ ?h))"
    by (simp add: unsigned_push_bit_eq unat_drop_bit_eq) (simp add: drop_bit_eq_div)
  also have "\<dots> = unat x div 2 ^ ?h * 2 ^ ?h"
    unfolding push_bit_eq_mult
    using div_times_less_eq_dividend [of "unat x" "2 ^ ?h"] unsigned_less [where 'a = nat, of x]
    by (intro take_bit_nat_eq_self) (rule order_le_less_trans)
  finally show ?thesis by (simp add: pmask assms and_not_mask)
qed

lemma unat_broadcast:
  assumes "unat p \<le> width"
  shows "unat ((x AND pmask p) OR NOT (pmask p)) = unat (x AND pmask p) + (2 ^ (width - unat p) - 1)"
proof -
  let ?h = "width - unat p"
  have n: "NOT (pmask p) = mask ?h" by (simp add: pmask assms)
  have "(x AND pmask p) AND NOT (pmask p) = 0" by (rule bit_word_eqI) (auto simp: bit_simps)
  then have sum: "(x AND pmask p) OR NOT (pmask p) = (x AND pmask p) + NOT (pmask p)"
    by (simp add: disjunctive_add_eq_or)
  have h: "?h \<le> LENGTH('a)" using width by simp
  have m: "unat (mask ?h :: 'a word) = 2 ^ ?h - 1"
  proof -
    have "unat (mask ?h :: 'a word) = nat (uint (mask ?h :: 'a word))" by simp
    also have "\<dots> = nat (mask ?h)" using h by (simp only: uint_mask_eq min_absorb2)
    also have "\<dots> = 2 ^ ?h - 1" by (simp only: nat_mask_eq mask_nat_def)
    finally show ?thesis .
  qed
  have "unat x div 2 ^ ?h * 2 ^ ?h + (2 ^ ?h - 1) < 2 ^ LENGTH('a)"
  proof -
    have "unat x div 2 ^ ?h < 2 ^ (LENGTH('a) - ?h)"
      using unsigned_less [where 'a = nat, of x] h by (simp add: less_mult_imp_div_less power_add [symmetric])
    then have "(unat x div 2 ^ ?h + 1) * 2 ^ ?h \<le> 2 ^ (LENGTH('a) - ?h) * 2 ^ ?h" by (intro mult_right_mono) auto
    also have "\<dots> = 2 ^ LENGTH('a)" using h by (simp add: power_add [symmetric])
    finally have "unat x div 2 ^ ?h * 2 ^ ?h + 2 ^ ?h \<le> 2 ^ LENGTH('a)" by simp
    moreover have "0 < (2 :: nat) ^ ?h" by simp
    ultimately show ?thesis by linarith
  qed
  then have "unat ((x AND pmask p) + NOT (pmask p)) = unat (x AND pmask p) + (2 ^ ?h - 1)"
    unfolding n by (subst unat_plus_if') (simp add: m unat_masked [OF assms])
  then show ?thesis by (simp only: sum)
qed

lemma masked_eq_iff_range:
  assumes "unat p \<le> width" and base: "base = addr AND pmask p"
  shows "ip AND pmask p = base \<longleftrightarrow> base \<le> ip \<and> ip \<le> base OR NOT (pmask p)"
proof -
  let ?h = "2 ^ (width - unat p) :: nat"
  have "ip AND pmask p = base \<longleftrightarrow> unat ip div ?h * ?h = unat addr div ?h * ?h"
    by (simp add: base word_unat_eq_iff unat_masked [OF assms(1)])
  also have "\<dots> \<longleftrightarrow> unat addr div ?h * ?h \<le> unat ip \<and> unat ip \<le> unat addr div ?h * ?h + (?h - 1)"
    (is "?l \<longleftrightarrow> ?r")
  proof
    assume ?l
    then show ?r
      using div_mult_mod_eq [of "unat ip" ?h] mod_less_divisor [of ?h "unat ip", OF zero_less_power [OF zero_less_numeral]]
      by (intro conjI; linarith)
  next
    assume ?r
    moreover have "0 < ?h" by simp
    ultimately have "unat ip < unat addr div ?h * ?h + ?h" by linarith
    with \<open>?r\<close> have "unat ip div ?h = unat addr div ?h"
      by (intro div_nat_eqI) (simp_all add: mult.commute)
    then show ?l by simp
  qed
  finally show ?thesis
    by (simp add: base word_le_nat_alt unat_masked [OF assms(1)] unat_broadcast [OF assms(1)])
qed

end

interpretation v4_masks: prefix_masks mask_v4 32
  by unfold_locales
    (auto simp: mask_v4_def push_bit_minus_one_word word_le_nat_alt unat_sub unsigned_eq_0_iff
      full_mask)

interpretation v6_masks: prefix_masks mask_v6 128
  by unfold_locales
    (auto simp: mask_v6_def push_bit_minus_one_word word_le_nat_alt unat_sub unsigned_eq_0_iff full_mask)

section \<open>Containment, size and text form\<close>

definition cidr4_ok :: "ipv4_cidr \<Rightarrow> bool" where
  "cidr4_ok c \<longleftrightarrow> cidr4_new (cidr4_base c) (cidr4_prefix c) = Some c"

definition cidr6_ok :: "ipv6_cidr \<Rightarrow> bool" where
  "cidr6_ok c \<longleftrightarrow> cidr6_new (cidr6_base c) (cidr6_prefix c) = Some c"

lemma cidr4_new_ok: "cidr4_new a p = Some c \<Longrightarrow> cidr4_ok c"
  by (auto simp: cidr4_new_def cidr4_ok_def and.assoc split: if_splits)

lemma cidr6_new_ok: "cidr6_new a p = Some c \<Longrightarrow> cidr6_ok c"
  by (auto simp: cidr6_new_def cidr6_ok_def and.assoc split: if_splits)

lemma cidr4_okD:
  assumes "cidr4_ok c"
  shows "cidr4_base c = cidr4_base c AND mask_v4 (cidr4_prefix c)" and "unat (cidr4_prefix c) \<le> 32"
proof -
  from assms show "unat (cidr4_prefix c) \<le> 32"
    by (auto simp: cidr4_ok_def cidr4_new_def word_less_nat_alt not_less split: if_splits)
  from assms have "c = \<lparr>cidr4_base = cidr4_base c AND mask_v4 (cidr4_prefix c), cidr4_prefix = cidr4_prefix c\<rparr>"
    by (auto simp: cidr4_ok_def cidr4_new_def split: if_splits)
  then show "cidr4_base c = cidr4_base c AND mask_v4 (cidr4_prefix c)" by (metis ipv4_cidr.select_convs(1))
qed

lemma cidr6_okD:
  assumes "cidr6_ok c"
  shows "cidr6_base c = cidr6_base c AND mask_v6 (cidr6_prefix c)" and "unat (cidr6_prefix c) \<le> 128"
proof -
  from assms show "unat (cidr6_prefix c) \<le> 128"
    by (auto simp: cidr6_ok_def cidr6_new_def word_less_nat_alt not_less split: if_splits)
  from assms have "c = \<lparr>cidr6_base = cidr6_base c AND mask_v6 (cidr6_prefix c), cidr6_prefix = cidr6_prefix c\<rparr>"
    by (auto simp: cidr6_ok_def cidr6_new_def split: if_splits)
  then show "cidr6_base c = cidr6_base c AND mask_v6 (cidr6_prefix c)" by (metis ipv6_cidr.select_convs(1))
qed

lemma card_word_interval: "card {a..b :: 'a :: len word} = Suc (unat b) - unat a"
proof -
  have "unat ` {a..b} = {unat a..unat b}"
  proof (intro equalityI subsetI)
    fix x assume "x \<in> {unat a..unat b}"
    then have "x < 2 ^ LENGTH('a)" using order_le_less_trans [OF _ unsigned_less [where 'a = nat, of b]] by simp
    then have "unat (of_nat x :: 'a word) = x" by (simp add: unat_of_nat)
    with \<open>x \<in> {unat a..unat b}\<close> show "x \<in> unat ` {a..b}"
      by (intro image_eqI [of _ _ "of_nat x"]) (simp_all add: word_le_nat_alt)
  qed (auto simp: word_le_nat_alt)
  then show ?thesis using card_image [of unat "{a..b}"] by (simp add: inj_on_def word_unat_eq_iff)
qed

lemma cidr4_contains_range:
  assumes "cidr4_ok c"
  shows "cidr4_contains c ip \<longleftrightarrow> cidr4_network c \<le> ip \<and> ip \<le> cidr4_broadcast c"
  unfolding cidr4_contains_def cidr4_network_def cidr4_broadcast_def
  by (rule v4_masks.masked_eq_iff_range [OF cidr4_okD(2) [OF assms] cidr4_okD(1) [OF assms]])

lemma cidr6_contains_range:
  assumes "cidr6_ok c"
  shows "cidr6_contains c ip \<longleftrightarrow> cidr6_network c \<le> ip \<and> ip \<le> cidr6_broadcast c"
  unfolding cidr6_contains_def cidr6_network_def cidr6_broadcast_def
  by (rule v6_masks.masked_eq_iff_range [OF cidr6_okD(2) [OF assms] cidr6_okD(1) [OF assms]])

lemma cidr4_broadcast_unat:
  assumes "cidr4_ok c"
  shows "unat (cidr4_broadcast c) = unat (cidr4_network c) + (2 ^ (32 - unat (cidr4_prefix c)) - 1)"
  using v4_masks.unat_broadcast [OF cidr4_okD(2) [OF assms], of "cidr4_base c"] cidr4_okD(1) [OF assms]
  by (simp add: cidr4_broadcast_def cidr4_network_def)

lemma cidr6_broadcast_unat:
  assumes "cidr6_ok c"
  shows "unat (cidr6_broadcast c) = unat (cidr6_network c) + (2 ^ (128 - unat (cidr6_prefix c)) - 1)"
  using v6_masks.unat_broadcast [OF cidr6_okD(2) [OF assms], of "cidr6_base c"] cidr6_okD(1) [OF assms]
  by (simp add: cidr6_broadcast_def cidr6_network_def)

lemma cidr4_len_unat:
  assumes "cidr4_ok c"
  shows "unat (cidr4_len c) = 2 ^ (32 - unat (cidr4_prefix c))"
proof -
  have "unat (32 - cidr4_prefix c) = 32 - unat (cidr4_prefix c)"
    using cidr4_okD(2) [OF assms] by (simp add: unat_sub word_le_nat_alt)
  moreover have "unat (2 ^ k :: u64) = 2 ^ k" if "k \<le> 32" for k
  proof -
    have "(2 :: nat) ^ k < 2 ^ 64" using that by (intro power_strict_increasing) auto
    then have "unat (of_nat (2 ^ k) :: u64) = 2 ^ k" by (simp only: unat_of_nat) simp
    then show ?thesis by simp
  qed
  ultimately show ?thesis by (simp add: cidr4_len_def push_bit_eq_mult)
qed

lemma cidr4_parse_display:
  assumes "cidr4_ok c"
  shows "cidr4_parse (cidr4_display c) = Some c"
proof -
  let ?p = "decimal_str (unat (cidr4_prefix c))" and ?a = "ipv4_str (cidr4_network c)"
  have "47 \<notin> set ?a" by (auto dest!: ipv4_str_chars)
  then have "split_once 47 (cidr4_display c) = Some (?a, ?p)"
    unfolding cidr4_display_def append.simps by (rule split_once_append)
  moreover have "str_trim ?p = ?p" "str_trim ?a = ?a"
    by (rule str_trim_id; auto simp: is_whitespace_def word_le_nat_alt dest!: digit_char_range ipv4_str_chars)+
  moreover have "parse_u8 ?p = Some (cidr4_prefix c)"
    using parse_u8_decimal [of "unat (cidr4_prefix c)"] unat_u8_less [of "cidr4_prefix c"] by simp
  moreover have "\<not> cidr4_prefix c > 32" using cidr4_okD(2) [OF assms] by (simp add: word_less_nat_alt)
  ultimately show ?thesis
    using assms by (simp add: cidr4_parse_def split_prefix_def parse_ipv4_str cidr4_network_def cidr4_ok_def)
qed

end
