(* ===== verification/Pattern.thy ===== *)
theory Pattern
  imports Name_Ascii Name_Labels Rust_Str
begin

text \<open>
  \<^verbatim>\<open>src/src/pattern.rs\<close>: domain patterns.  The meaning of a pattern as a set of label sequences is
  \<open>pattern_denotes\<close>; the matcher that works on wire forms is compared with it.  Of the error messages
  the interpolated arguments are left out.
\<close>

section \<open>Definitions\<close>

record wildcard_pattern =
  wp_labels :: "bytes option list"
  leading_wildcard :: bool

datatype domain_pattern =
    AnyName
  | ExactName name
  | Subtree name
  | Wildcard wildcard_pattern

definition wildcard_label_count :: "wildcard_pattern \<Rightarrow> usize" where
  "wildcard_label_count w = length (wp_labels w) + (if leading_wildcard w then 1 else 0)"

definition label_matches :: "bytes \<Rightarrow> bytes option \<Rightarrow> bool" where
  "label_matches label pat = (case pat of None \<Rightarrow> True | Some lit \<Rightarrow> lit = label)"

definition wildcard_matches :: "wildcard_pattern \<Rightarrow> name \<Rightarrow> bool" where
  "wildcard_matches w name =
    (let labels = name_labels name in
     if leading_wildcard w then
       if length labels < length (wp_labels w) then False
       else list_all (\<lambda>(l, p). label_matches l p)
              (zip (drop (length labels - length (wp_labels w)) labels) (wp_labels w))
     else if length labels \<noteq> length (wp_labels w) then False
     else list_all (\<lambda>(l, p). label_matches l p) (zip labels (wp_labels w)))"

fun pattern_labels :: "rust_str list \<Rightarrow> bytes option list result" where
  "pattern_labels [] = Ok []"
| "pattern_labels (part # parts) =
    (if part = [42] then rbind (pattern_labels parts) (\<lambda>ls. Ok (None # ls))
     else rbind (map_err (\<lambda>_. error_config ''bad domain pattern'') (name_from_ascii (utf8 part))) (\<lambda>one.
          rbind (ok_or (error_config ''bad domain pattern'') (name_first_label one)) (\<lambda>l.
          rbind (pattern_labels parts) (\<lambda>ls. Ok (Some l # ls)))))"

definition leading_marker :: "rust_str \<Rightarrow> rust_str \<times> bool" where
  "leading_marker raw = (case strip_str_prefix [42, 46] raw of
      Some r \<Rightarrow> (r, True)
    | None \<Rightarrow> (case strip_str_prefix [43, 46] raw of
        Some r \<Rightarrow> (r, True)
      | None \<Rightarrow> (case strip_str_prefix [46] raw of
          Some r \<Rightarrow> (r, True)
        | None \<Rightarrow> (raw, False))))"

definition pattern_parse :: "rust_str \<Rightarrow> domain_pattern result" where
  "pattern_parse s =
    (let raw = str_trim s in
     if raw = [] then Err (error_config ''empty domain pattern'')
     else if raw = [42] then Ok AnyName
     else if list_ex is_ascii_whitespace (utf8 raw) then Err (error_config ''domain pattern contains whitespace'')
     else if 92 \<in> set raw then Err (error_config ''escapes are not supported in patterns'')
     else
      (let (rest, leading) = leading_marker raw; suffix = trim_end_matches 46 rest in
       if suffix = [] then Err (error_config ''domain pattern has an empty suffix'')
       else
        (let parts = split_at_char 46 suffix in
         if [] \<in> set parts then Err (error_config ''domain pattern has an empty label'')
         else if [42] \<notin> set parts then
           rbind (map_err (\<lambda>_. error_config ''bad domain pattern'') (name_from_ascii (utf8 suffix))) (\<lambda>name.
             if name_is_root name then Err (error_config ''domain pattern resolves to the root'')
             else Ok (if leading then Subtree name else ExactName name))
         else rbind (pattern_labels parts) (\<lambda>labels.
           Ok (Wildcard \<lparr>wp_labels = labels, leading_wildcard = leading\<rparr>)))))"

fun pattern_matches :: "domain_pattern \<Rightarrow> name \<Rightarrow> bool" where
  "pattern_matches AnyName name = True"
| "pattern_matches (ExactName n) name = (name = n)"
| "pattern_matches (Subtree n) name = is_subdomain_of name n"
| "pattern_matches (Wildcard w) name = wildcard_matches w name"

fun pattern_suffix :: "domain_pattern \<Rightarrow> name option" where
  "pattern_suffix (ExactName n) = Some n"
| "pattern_suffix (Subtree n) = Some n"
| "pattern_suffix _ = None"

fun pattern_is_wildcard :: "domain_pattern \<Rightarrow> bool" where
  "pattern_is_wildcard (Subtree _) = True"
| "pattern_is_wildcard (Wildcard _) = True"
| "pattern_is_wildcard _ = False"

fun pattern_label_count :: "domain_pattern \<Rightarrow> usize" where
  "pattern_label_count AnyName = 0"
| "pattern_label_count (ExactName n) = name_label_count n"
| "pattern_label_count (Subtree n) = name_label_count n"
| "pattern_label_count (Wildcard w) = wildcard_label_count w"

fun pattern_is_exact :: "domain_pattern \<Rightarrow> bool" where
  "pattern_is_exact (ExactName _) = True"
| "pattern_is_exact _ = False"

fun parse_all :: "rust_str list \<Rightarrow> domain_pattern list result" where
  "parse_all [] = Ok []"
| "parse_all (s # items) =
    rbind (map_err (\<lambda>e. error_config (msg e)) (pattern_parse s)) (\<lambda>p.
    rbind (parse_all items) (\<lambda>ps. Ok (p # ps)))"

section \<open>The meaning of patterns\<close>

fun pattern_denotes :: "domain_pattern \<Rightarrow> bytes list \<Rightarrow> bool" where
  "pattern_denotes AnyName ls = True"
| "pattern_denotes (ExactName n) ls = (ls = name_labels n)"
| "pattern_denotes (Subtree n) ls = suffix (name_labels n) ls"
| "pattern_denotes (Wildcard w) ls =
    (if leading_wildcard w then \<exists>pre tl. ls = pre @ tl \<and> list_all2 label_matches tl (wp_labels w)
     else list_all2 label_matches ls (wp_labels w))"

lemma zip_all_iff:
  "length ls = length ps \<Longrightarrow> list_all (\<lambda>(l, p). f l p) (zip ls ps) \<longleftrightarrow> list_all2 f ls ps"
  by (simp add: list_all2_iff list_all_iff)

lemma wildcard_matches_iff: "wildcard_matches w n \<longleftrightarrow> pattern_denotes (Wildcard w) (name_labels n)"
proof (cases "leading_wildcard w")
  case False
  then show ?thesis by (auto simp: wildcard_matches_def Let_def zip_all_iff dest: list_all2_lengthD)
next
  case True
  let ?ls = "name_labels n" and ?k = "length (wp_labels w)"
  have "(\<exists>pre tl. ?ls = pre @ tl \<and> list_all2 label_matches tl (wp_labels w)) \<longleftrightarrow>
      \<not> length ?ls < ?k \<and> list_all2 label_matches (drop (length ?ls - ?k) ?ls) (wp_labels w)" (is "?l \<longleftrightarrow> ?r")
  proof
    assume ?l
    then obtain pre tl where "?ls = pre @ tl" "list_all2 label_matches tl (wp_labels w)" by blast
    moreover from this(2) have "length tl = ?k" by (rule list_all2_lengthD)
    ultimately show ?r by simp
  next
    assume ?r
    then show ?l by (intro exI [of _ "take (length ?ls - ?k) ?ls"] exI [of _ "drop (length ?ls - ?k) ?ls"]) simp
  qed
  with True show ?thesis by (auto simp: wildcard_matches_def Let_def zip_all_iff)
qed

text \<open>
  The test for subtrees compares octets, so it is exact only when the length octet of the pattern's
  first label does not occur inside a label of the name.
\<close>

definition octet_aligned :: "name \<Rightarrow> name \<Rightarrow> bool" where
  "octet_aligned n m \<longleftrightarrow>
    (\<forall>k \<in> set (take 1 (name_labels m)). \<forall>l \<in> set (name_labels n). of_nat (length k) \<notin> set l)"

fun pattern_aligned :: "domain_pattern \<Rightarrow> name \<Rightarrow> bool" where
  "pattern_aligned (Subtree m) n = (wf_name m \<and> octet_aligned n m)"
| "pattern_aligned (ExactName m) n = wf_name m"
| "pattern_aligned _ n = True"

lemma wf_name_inj: "wf_name n \<Longrightarrow> wf_name m \<Longrightarrow> name_labels n = name_labels m \<Longrightarrow> n = m"
  by (metis name.expand wf_name_def)

lemma pattern_matches_denotes:
  assumes "wf_name n" and "pattern_aligned p n"
  shows "pattern_matches p n \<longleftrightarrow> pattern_denotes p (name_labels n)"
proof (cases p)
  case (Subtree m)
  with assms show ?thesis by (simp add: is_subdomain_of_iff octet_aligned_def)
next
  case (ExactName m)
  with assms show ?thesis by (auto intro: wf_name_inj)
qed (simp_all add: wildcard_matches_iff del: pattern_denotes.simps(4))

section \<open>Parsing\<close>

lemma trim_Cons: "\<not> is_whitespace c \<Longrightarrow> str_trim (c # s) = c # rev (dropWhile is_whitespace (rev s))"
  by (simp add: str_trim_def dropWhile_append dropWhile_append1)
    (metis (no_types, lifting) dropWhile_append1 dropWhile_append2 dropWhile_eq_Nil_conv rev.simps(2) rev_append rev_rev_ident)?

lemma utf8_Cons: "utf8 (c # s) = utf8_char c @ utf8 s"
  by (simp add: utf8_def)

lemma markers_agree:
  assumes "m = [42, 46] \<or> m = [43, 46]"
  shows "pattern_parse (m @ s) = pattern_parse (46 # s)"
proof -
  let ?r = "rev (dropWhile is_whitespace (rev s))"
  have ws: "\<not> is_whitespace 42" "\<not> is_whitespace 43" "\<not> is_whitespace 46" by (simp_all add: is_whitespace_def)
  have t: "str_trim (c # 46 # s) = c # 46 # ?r" if "\<not> is_whitespace c" for c
  proof -
    have "rev (dropWhile is_whitespace (rev (46 # s))) = 46 # ?r"
      using trim_Cons [OF ws(3), of s] ws(3) by (simp add: str_trim_def)
    with trim_Cons [OF that, of "46 # s"] show ?thesis by simp
  qed
  have t1: "str_trim (46 # s) = 46 # ?r" by (rule trim_Cons [OF ws(3)])
  have u: "list_ex is_ascii_whitespace (utf8_char c) = False" if "c \<in> {42, 43, 46}" for c
    using that by (auto simp: utf8_char_def is_ascii_whitespace_def)
  from assms show ?thesis
    by (elim disjE) (simp_all add: pattern_parse_def t [OF ws(1)] t [OF ws(2)] t1 leading_marker_def utf8_Cons u Let_def)
qed

lemma pattern_labels_length: "pattern_labels parts = Ok ls \<Longrightarrow> length ls = length parts"
  by (induction parts arbitrary: ls rule: pattern_labels.induct) (auto split: if_splits)

lemma pattern_parse_not_root:
  assumes "pattern_parse s = Ok p" and "p \<noteq> AnyName"
  shows "\<not> pattern_matches p name_root"
proof -
  have short: "\<not> is_subdomain_of name_root n" if nr: "\<not> name_is_root n" and a: "name_from_ascii t = Ok n" for n t
  proof -
    obtain ls where n: "n = Name (encode_labels ls)" using name_from_ascii_labels [OF a] by auto
    with nr obtain l ls' where "ls = l # ls'" by (cases ls) (auto simp: name_is_root_def get_at_def)
    with n show ?thesis
      by (auto simp: is_subdomain_of_def ends_with_suffix name_root_def suffix_def encode_labels_body)
  qed
  have l0: "name_labels name_root = []" by (simp add: name_root_def name_labels_def)
  have root: "name_is_root name_root" by (simp add: name_is_root_def name_root_def get_at_def)
  show ?thesis
    using assms short pattern_labels_length
    by (auto simp: pattern_parse_def Let_def wildcard_matches_def l0 root
          split: if_splits prod.splits)
qed

end
