(* ===== verification/Fakeip.thy ===== *)
theory Fakeip
  imports Bounded Cidr Pattern
begin

text \<open>
  \<^verbatim>\<open>src/src/fakeip.rs\<close>: the pool of synthetic addresses.  A \<open>space\<close> is one family's allocation space,
  with the authoritative map from address keys to entries and the reverse index from names to keys; a
  \<open>fake_ip_pool\<close> holds one space per configured family.  An operation on \<^verbatim>\<open>&mut self\<close> returns its
  result with the state after it.
\<close>

section \<open>Configuration\<close>

definition str_lit :: "string \<Rightarrow> rust_str" where
  "str_lit s = map (\<lambda>c. of_nat (of_char c)) s"

definition DEFAULT_FAKE_IP_RANGE :: rust_str where
  "DEFAULT_FAKE_IP_RANGE = str_lit ''198.18.0.0/16''"

definition DEFAULT_FAKE_IP_ANSWER_TTL :: u32 where "DEFAULT_FAKE_IP_ANSWER_TTL = 1"

definition DEFAULT_FAKE_IP_TTL_SECS :: u64 where "DEFAULT_FAKE_IP_TTL_SECS = 3600"

definition DEFAULT_FAKE_IP_FILTER :: "rust_str list" where
  "DEFAULT_FAKE_IP_FILTER = map str_lit
    [''*.lan'', ''*.local'', ''*.localhost'', ''*.localdomain'', ''localhost'', ''*.home.arpa'', ''*.invalid'',
     ''*.test'', ''+.msftconnecttest.com'', ''+.msftncsi.com'', ''+.connectivitycheck.gstatic.com'',
     ''+.connectivitycheck.android.com'', ''+.captive.apple.com'', ''time.*.com'', ''time.*.gov'',
     ''time.*.edu.cn'', ''time.*.apple.com'', ''time.windows.com'', ''time.nist.gov'', ''*.pool.ntp.org'',
     ''stun.*.*'', ''*.stun.*.*'', ''*.srv.nintendo.net'', ''*.stun.playstation.net'']"

definition DEFAULT_FAKE_IP_MAX_ENTRIES :: usize where "DEFAULT_FAKE_IP_MAX_ENTRIES = 16384"
definition EVICT_STRIDE :: usize where "EVICT_STRIDE = 8"
definition MAX_TTL_SECS :: u64 where "MAX_TTL_SECS = 7 * 24 * 3600"

datatype allocation = Address ip_addr | Filtered

datatype family = V4 | V6

fun family_bits :: "family \<Rightarrow> u32" where
  "family_bits V4 = 32"
| "family_bits V6 = 128"

fun family_addr :: "family \<Rightarrow> u128 \<Rightarrow> ip_addr" where
  "family_addr V4 key = IpV4 (ucast key)"
| "family_addr V6 key = IpV6 key"

fun family_key :: "family \<Rightarrow> ip_addr \<Rightarrow> u128 option" where
  "family_key V4 (IpV4 v) = Some (ucast v)"
| "family_key V6 (IpV6 v) = Some v"
| "family_key _ _ = None"

record fake_ip_settings =
  fs_range :: ipv4_cidr
  fs_range6 :: "ipv6_cidr option"
  fs_filter :: "domain_pattern list"
  fs_ttl_secs :: u64
  fs_max_entries :: usize
  fs_answer_ttl :: u32

definition settings_parse ::
  "rust_str \<Rightarrow> rust_str option \<Rightarrow> rust_str list option \<Rightarrow> u64 \<Rightarrow> usize \<Rightarrow> fake_ip_settings result" where
  "settings_parse rng rng6 flt ttl_secs max_entries =
    rbind (ok_or (error_config ''invalid fake-ip range'') (cidr4_parse rng)) (\<lambda>r.
    if cidr4_len r < 2 then Err (error_config ''fake-ip range has no usable addresses'')
    else rbind (case rng6 of
        None \<Rightarrow> Ok None
      | Some s \<Rightarrow> rbind (ok_or (error_config ''invalid fake-ip range6'') (cidr6_parse s)) (\<lambda>c.
          if cidr6_network c = cidr6_broadcast c then Err (error_config ''fake-ip range6 has no usable addresses'')
          else Ok (Some c))) (\<lambda>r6.
    if max_entries = 0 then Err (error_config ''fake-ip maxEntries must be at least 1'')
    else if ttl_secs = 0 then Err (error_config ''fake-ip ttl must be at least 1 second'')
    else rbind (case flt of
        None \<Rightarrow> parse_all DEFAULT_FAKE_IP_FILTER
      | Some list \<Rightarrow> parse_all list) (\<lambda>f.
    Ok \<lparr>fs_range = r, fs_range6 = r6, fs_filter = f, fs_ttl_secs = ttl_secs, fs_max_entries = max_entries,
        fs_answer_ttl = DEFAULT_FAKE_IP_ANSWER_TTL\<rparr>)))"

definition with_answer_ttl :: "u32 \<Rightarrow> fake_ip_settings \<Rightarrow> fake_ip_settings" where
  "with_answer_ttl ttl s = s\<lparr>fs_answer_ttl := max ttl 1\<rparr>"

fun settings_synthesizes :: "fake_ip_settings \<Rightarrow> family \<Rightarrow> bool" where
  "settings_synthesizes s V4 = True"
| "settings_synthesizes s V6 = (fs_range6 s \<noteq> None)"

definition settings_with_defaults :: "fake_ip_settings result" where
  "settings_with_defaults =
    settings_parse DEFAULT_FAKE_IP_RANGE None None DEFAULT_FAKE_IP_TTL_SECS DEFAULT_FAKE_IP_MAX_ENTRIES"

definition ttl_nanos :: "u64 \<Rightarrow> ts" where
  "ttl_nanos secs = i128_saturate (uint (min secs MAX_TTL_SECS) * 1000000000)"

section \<open>One allocation space\<close>

record entry =
  entry_name :: name
  entry_created :: ts
  last_access :: ts

record space =
  sp_family :: family
  first_key :: u128
  last_key :: u128
  next_key :: u128
  sp_ttl_nanos :: ts
  by_key :: "(u128, entry) btree"
  by_name :: "(name, u128) btree"
  sp_max_entries :: usize
  sp_evicted :: u64

definition space_new :: "family \<Rightarrow> u128 \<Rightarrow> u128 \<Rightarrow> usize \<Rightarrow> ts \<Rightarrow> space" where
  "space_new f fst_key lst_key max_entries ttl =
    \<lparr>sp_family = f, first_key = fst_key, last_key = lst_key, next_key = fst_key, sp_ttl_nanos = ttl,
     by_key = [], by_name = [], sp_max_entries = max max_entries 1, sp_evicted = 0\<rparr>"

definition space_v4 :: "ipv4_cidr \<Rightarrow> usize \<Rightarrow> ts \<Rightarrow> space" where
  "space_v4 r max_entries ttl =
    space_new V4 (ucast (cidr4_network r) + 1) (ucast (cidr4_broadcast r)) max_entries ttl"

definition space_v6 :: "ipv6_cidr \<Rightarrow> usize \<Rightarrow> ts \<Rightarrow> space" where
  "space_v6 r max_entries ttl = space_new V6 (cidr6_network r + 1) (cidr6_broadcast r) max_entries ttl"

definition word_sat_sub :: "'a :: len word \<Rightarrow> 'a word \<Rightarrow> 'a word" where
  "word_sat_sub a b = (if a < b then 0 else a - b)"

definition space_capacity :: "space \<Rightarrow> usize" where
  "space_capacity s = (let n = word_sat_sub (last_key s) (first_key s) + 1 in
     if unat n < usize_bound then unat n else usize_bound - 1)"

definition space_cap :: "space \<Rightarrow> usize" where
  "space_cap s = min (sp_max_entries s) (space_capacity s)"

definition space_len :: "space \<Rightarrow> usize" where
  "space_len s = length (by_key s)"

definition space_covers :: "space \<Rightarrow> u128 \<Rightarrow> bool" where
  "space_covers s key \<longleftrightarrow> word_sat_sub (first_key s) 1 \<le> key \<and> key \<le> last_key s"

definition rebuild_name_index :: "space \<Rightarrow> space" where
  "rebuild_name_index s =
    s\<lparr>by_name := foldl (\<lambda>m (key, e). btree_insert (entry_name e) key m) [] (by_key s)\<rparr>"

definition space_reclaim :: "ts \<Rightarrow> space \<Rightarrow> space" where
  "space_reclaim now s =
    (let cutoff = saturating_sub now (sp_ttl_nanos s);
         (m, freed) = evict_for_capacity (by_key s) cutoff EVICT_STRIDE last_access;
         s' = s\<lparr>by_key := m\<rparr>
     in if freed > 0 then rebuild_name_index (s'\<lparr>sp_evicted := sp_evicted s + of_nat freed\<rparr>) else s')"

definition space_advance :: "space \<Rightarrow> u128 \<times> space" where
  "space_advance s =
    (let s = (if next_key s < first_key s \<or> next_key s > last_key s then s\<lparr>next_key := first_key s\<rparr> else s);
         cur = next_key s
     in (cur, s\<lparr>next_key := if cur \<ge> last_key s then first_key s else cur + 1\<rparr>))"

fun take_key_loop :: "nat \<Rightarrow> space \<Rightarrow> u128 option \<times> space" where
  "take_key_loop 0 s = (None, s)"
| "take_key_loop (Suc n) s =
    (let (c, s) = space_advance s in
     if btree_get (by_key s) c = None then (Some c, s) else take_key_loop n s)"

definition take_key :: "space \<Rightarrow> u128 option \<times> space" where
  "take_key s = take_key_loop (length (by_key s) + 1) s"

definition new_entry :: "name \<Rightarrow> ts \<Rightarrow> entry" where
  "new_entry n now = \<lparr>entry_name = n, entry_created = now, last_access = now\<rparr>"

definition space_allocate :: "name \<Rightarrow> ts \<Rightarrow> space \<Rightarrow> ip_addr result \<times> space" where
  "space_allocate n now s =
    (case btree_get (by_name s) n of
       Some key \<Rightarrow> (Ok (family_addr (sp_family s) key),
          s\<lparr>by_key := btree_alter key (\<lambda>e. e\<lparr>last_access := now\<rparr>) (by_key s)\<rparr>)
     | None \<Rightarrow>
        (let s = (if length (by_key s) \<ge> space_cap s then space_reclaim now s else s) in
         case take_key s of
           (None, s) \<Rightarrow> (Err (error_internal ''fake-ip space reported room but had no free key''), s)
         | (Some key, s) \<Rightarrow> (Ok (family_addr (sp_family s) key),
             s\<lparr>by_key := btree_insert key (new_entry n now) (by_key s),
               by_name := btree_insert n key (by_name s)\<rparr>)))"

definition space_lookup :: "u128 \<Rightarrow> ts \<Rightarrow> space \<Rightarrow> name option \<times> space" where
  "space_lookup key now s = (case btree_get (by_key s) key of
      None \<Rightarrow> (None, s)
    | Some e \<Rightarrow> (Some (entry_name e), s\<lparr>by_key := btree_alter key (\<lambda>e. e\<lparr>last_access := now\<rparr>) (by_key s)\<rparr>))"

definition space_peek :: "space \<Rightarrow> u128 \<Rightarrow> name option" where
  "space_peek s key = map_option entry_name (btree_get (by_key s) key)"

definition space_restore :: "name \<Rightarrow> u128 \<Rightarrow> ts \<Rightarrow> space \<Rightarrow> bool \<times> space" where
  "space_restore n key now s =
    (if \<not> space_covers s key \<or> key < first_key s then (False, s)
     else if (case btree_get (by_key s) key of Some e \<Rightarrow> entry_name e \<noteq> n | None \<Rightarrow> False) then (False, s)
     else if (case btree_get (by_name s) n of Some mapped \<Rightarrow> mapped \<noteq> key | None \<Rightarrow> False) then (False, s)
     else (True, s\<lparr>by_name := btree_insert n key (by_name s), by_key := btree_insert key (new_entry n now) (by_key s)\<rparr>))"

definition space_cleanup :: "ts \<Rightarrow> space \<Rightarrow> usize \<times> space" where
  "space_cleanup now s =
    (let cutoff = saturating_sub now (sp_ttl_nanos s);
         before = length (by_key s);
         s' = s\<lparr>by_key := btree_retain (\<lambda>_ e. last_access e \<ge> cutoff) (by_key s)\<rparr>;
         s'' = (if length (by_key s') \<noteq> before then rebuild_name_index s' else s')
     in (before - length (by_key s''), s''))"

definition space_release :: "name \<Rightarrow> space \<Rightarrow> u128 option \<times> space" where
  "space_release n s = (case btree_get (by_name s) n of
      None \<Rightarrow> (None, s)
    | Some key \<Rightarrow> (Some key, s\<lparr>by_name := btree_remove n (by_name s), by_key := btree_remove key (by_key s)\<rparr>))"

definition space_clear :: "space \<Rightarrow> space" where
  "space_clear s = s\<lparr>by_key := [], by_name := []\<rparr>"

section \<open>The pool\<close>

record fake_ip_pool =
  v4_net :: ipv4_cidr
  v6_net :: "ipv6_cidr option"
  v4_space :: space
  v6_space :: "space option"
  pool_filter :: "domain_pattern list"
  filtered_hits :: u64

definition pool_new :: "ipv4_cidr \<Rightarrow> ipv6_cidr option \<Rightarrow> domain_pattern list \<Rightarrow> u64 \<Rightarrow> usize \<Rightarrow> fake_ip_pool" where
  "pool_new r r6 f ttl_secs max_entries =
    (let ttl = ttl_nanos ttl_secs in
     \<lparr>v4_net = r, v6_net = r6, v4_space = space_v4 r max_entries ttl,
      v6_space = map_option (\<lambda>r. space_v6 r max_entries ttl) r6, pool_filter = f, filtered_hits = 0\<rparr>)"

definition settings_build :: "fake_ip_settings \<Rightarrow> fake_ip_pool" where
  "settings_build s = pool_new (fs_range s) (fs_range6 s) (fs_filter s) (fs_ttl_secs s) (fs_max_entries s)"

definition pool_from_config ::
  "rust_str \<Rightarrow> rust_str option \<Rightarrow> rust_str list option \<Rightarrow> u64 \<Rightarrow> usize \<Rightarrow> fake_ip_pool result" where
  "pool_from_config rng rng6 flt ttl_secs max_entries =
    rbind (settings_parse rng rng6 flt ttl_secs max_entries) (\<lambda>s. Ok (settings_build s))"

fun pool_space :: "fake_ip_pool \<Rightarrow> family \<Rightarrow> space option" where
  "pool_space p V4 = Some (v4_space p)"
| "pool_space p V6 = v6_space p"

fun set_space :: "family \<Rightarrow> space \<Rightarrow> fake_ip_pool \<Rightarrow> fake_ip_pool" where
  "set_space V4 s p = p\<lparr>v4_space := s\<rparr>"
| "set_space V6 s p = p\<lparr>v6_space := Some s\<rparr>"

definition pool_synthesizes :: "fake_ip_pool \<Rightarrow> family \<Rightarrow> bool" where
  "pool_synthesizes p f \<longleftrightarrow> pool_space p f \<noteq> None"

definition pool_capacity :: "fake_ip_pool \<Rightarrow> family \<Rightarrow> usize" where
  "pool_capacity p f = (case pool_space p f of Some s \<Rightarrow> space_capacity s | None \<Rightarrow> 0)"

definition pool_max_entries :: "fake_ip_pool \<Rightarrow> family \<Rightarrow> usize" where
  "pool_max_entries p f = (case pool_space p f of Some s \<Rightarrow> space_cap s | None \<Rightarrow> 0)"

definition pool_len :: "fake_ip_pool \<Rightarrow> usize" where
  "pool_len p = space_len (v4_space p) + (case v6_space p of Some s \<Rightarrow> space_len s | None \<Rightarrow> 0)"

definition pool_len_for :: "fake_ip_pool \<Rightarrow> family \<Rightarrow> usize" where
  "pool_len_for p f = (case pool_space p f of Some s \<Rightarrow> space_len s | None \<Rightarrow> 0)"

definition pool_evicted :: "fake_ip_pool \<Rightarrow> u64" where
  "pool_evicted p = sp_evicted (v4_space p) + (case v6_space p of Some s \<Rightarrow> sp_evicted s | None \<Rightarrow> 0)"

text \<open>The family an address belongs to, as the matches on \<^verbatim>\<open>(Family::V4.key(ip), Family::V6.key(ip))\<close> decide it.\<close>

fun ip_family :: "ip_addr \<Rightarrow> family \<times> u128" where
  "ip_family (IpV4 v) = (V4, ucast v)"
| "ip_family (IpV6 v) = (V6, v)"

definition pool_contains :: "fake_ip_pool \<Rightarrow> ip_addr \<Rightarrow> bool" where
  "pool_contains p ip = (let (f, k) = ip_family ip in
     case pool_space p f of Some s \<Rightarrow> space_covers s k | None \<Rightarrow> False)"

definition pool_is_filtered :: "fake_ip_pool \<Rightarrow> name \<Rightarrow> bool" where
  "pool_is_filtered p n = list_ex (\<lambda>q. pattern_matches q n) (pool_filter p)"

definition pool_allocate :: "name \<Rightarrow> family \<Rightarrow> ts \<Rightarrow> fake_ip_pool \<Rightarrow> allocation result \<times> fake_ip_pool" where
  "pool_allocate n f now p =
    (if pool_is_filtered p n then (Ok Filtered, p\<lparr>filtered_hits := filtered_hits p + 1\<rparr>)
     else case pool_space p f of
       Some s \<Rightarrow> (let (r, s') = space_allocate n now s in (rbind r (\<lambda>ip. Ok (Address ip)), set_space f s' p))
     | None \<Rightarrow> (Err (error_internal ''no fake-ip space is configured''), p))"

definition pool_lookup :: "ip_addr \<Rightarrow> ts \<Rightarrow> fake_ip_pool \<Rightarrow> name option \<times> fake_ip_pool" where
  "pool_lookup ip now p = (let (f, k) = ip_family ip in
     case pool_space p f of
       Some s \<Rightarrow> (let (r, s') = space_lookup k now s in (r, set_space f s' p))
     | None \<Rightarrow> (None, p))"

definition pool_peek :: "fake_ip_pool \<Rightarrow> ip_addr \<Rightarrow> name option" where
  "pool_peek p ip = (let (f, k) = ip_family ip in
     case pool_space p f of Some s \<Rightarrow> space_peek s k | None \<Rightarrow> None)"

definition pool_restore :: "name \<Rightarrow> ip_addr \<Rightarrow> ts \<Rightarrow> fake_ip_pool \<Rightarrow> bool \<times> fake_ip_pool" where
  "pool_restore n ip now p = (let (f, k) = ip_family ip in
     case pool_space p f of
       Some s \<Rightarrow> (let (r, s') = space_restore n k now s in (r, set_space f s' p))
     | None \<Rightarrow> (False, p))"

definition pool_iter :: "fake_ip_pool \<Rightarrow> (name \<times> ip_addr) list" where
  "pool_iter p = map (\<lambda>(k, e). (entry_name e, family_addr V4 k)) (by_key (v4_space p))
     @ (case v6_space p of None \<Rightarrow> [] | Some s \<Rightarrow> map (\<lambda>(k, e). (entry_name e, family_addr V6 k)) (by_key s))"

definition pool_cleanup :: "ts \<Rightarrow> fake_ip_pool \<Rightarrow> usize \<times> fake_ip_pool" where
  "pool_cleanup now p =
    (let (d4, s4) = space_cleanup now (v4_space p); p = p\<lparr>v4_space := s4\<rparr> in
     case v6_space p of
       None \<Rightarrow> (d4, p)
     | Some s \<Rightarrow> (let (d6, s6) = space_cleanup now s in (d4 + d6, p\<lparr>v6_space := Some s6\<rparr>)))"

definition pool_release :: "name \<Rightarrow> family \<Rightarrow> fake_ip_pool \<Rightarrow> ip_addr option \<times> fake_ip_pool" where
  "pool_release n f p = (case pool_space p f of
      None \<Rightarrow> (None, p)
    | Some s \<Rightarrow> (let (r, s') = space_release n s in (map_option (family_addr f) r, set_space f s' p)))"

definition pool_clear :: "fake_ip_pool \<Rightarrow> fake_ip_pool" where
  "pool_clear p = p\<lparr>v4_space := space_clear (v4_space p), v6_space := map_option space_clear (v6_space p)\<rparr>"

end
