(* ===== verification/Machine.thy ===== *)
theory Machine
  imports Main
begin

text \<open>
  State machines.  A component with mutable state is a set of initial states and a step relation
  labelled by its operations; \<open>reachable\<close> are the states its operations lead to.  The contract
  \<open>inductive_invariant\<close> is what a component proves of its operations, and \<open>simulation\<close> relates it to an
  abstract machine.
\<close>

inductive reachable :: "('s \<Rightarrow> bool) \<Rightarrow> ('s \<Rightarrow> 'o \<Rightarrow> 's \<Rightarrow> bool) \<Rightarrow> 's \<Rightarrow> bool" for init step where
  reach_init: "init s \<Longrightarrow> reachable init step s"
| reach_step: "reachable init step s \<Longrightarrow> step s opn s' \<Longrightarrow> reachable init step s'"

locale inductive_invariant =
  fixes init :: "'s \<Rightarrow> bool" and step :: "'s \<Rightarrow> 'o \<Rightarrow> 's \<Rightarrow> bool" and inv :: "'s \<Rightarrow> bool"
  assumes init_inv: "init s \<Longrightarrow> inv s"
    and step_inv: "inv s \<Longrightarrow> step s opn s' \<Longrightarrow> inv s'"
begin

lemma reachable_inv: "reachable init step s \<Longrightarrow> inv s"
  by (induction rule: reachable.induct) (auto intro: init_inv step_inv)

end

locale simulation = inductive_invariant init step inv
  for init :: "'s \<Rightarrow> bool" and step :: "'s \<Rightarrow> 'o \<Rightarrow> 's \<Rightarrow> bool" and inv :: "'s \<Rightarrow> bool" +
  fixes abs :: "'s \<Rightarrow> 't" and abs_init :: "'t \<Rightarrow> bool" and abs_step :: "'t \<Rightarrow> 'o \<Rightarrow> 't \<Rightarrow> bool"
  assumes abs_start: "init s \<Longrightarrow> abs_init (abs s)"
    and abs_simulates: "inv s \<Longrightarrow> step s opn s' \<Longrightarrow> abs_step (abs s) opn (abs s')"
begin

lemma reachable_abs: "reachable init step s \<Longrightarrow> reachable abs_init abs_step (abs s)"
proof (induction rule: reachable.induct)
  case (reach_step s opn s')
  then show ?case by (meson abs_simulates reachable.reach_step reachable_inv)
qed (auto intro: reachable.reach_init abs_start)

end

end
