(* ===== verification/Fakeip_Inv.thy ===== *)
theory Fakeip_Inv
  imports Fakeip Machine
begin

text \<open>
  The invariant of the fake-IP pool: within a space the two indexes describe one bijection between
  names and keys of the range.  Every operation keeps it, allocation always succeeds, and the pool is
  a step relation whose reachable states satisfy it.
\<close>

section \<open>The invariant of a space\<close>

definition bijective :: "(u128 \<rightharpoonup> entry) \<Rightarrow> (name \<rightharpoonup> u128) \<Rightarrow> bool" where
  "bijective bk bn \<longleftrightarrow> (\<forall>n k. bn n = Some k \<longleftrightarrow> (\<exists>e. bk k = Some e \<and> entry_name e = n))"

definition space_inv :: "space \<Rightarrow> bool" where
  "space_inv s \<longleftrightarrow> btree_inv (by_key s) \<and> btree_inv (by_name s)
     \<and> first_key s \<le> last_key s \<and> 0 < first_key s \<and> 0 < sp_max_entries s
     \<and> (\<forall>k \<in> dom (btree_get (by_key s)). first_key s \<le> k \<and> k \<le> last_key s)
     \<and> bijective (btree_get (by_key s)) (btree_get (by_name s))"

lemma bijectiveD:
  "bijective bk bn \<Longrightarrow> bk k = Some e \<Longrightarrow> bn (entry_name e) = Some k"
  "bijective bk bn \<Longrightarrow> bn n = Some k \<Longrightarrow> \<exists>e. bk k = Some e \<and> entry_name e = n"
  by (auto simp: bijective_def)

lemma bijective_touch:
  assumes "bijective (btree_get m) bn" and "\<And>e. entry_name (f e) = entry_name e"
  shows "bijective (btree_get (btree_alter k f m)) bn"
  using assms by (auto simp: bijective_def split: if_splits)

lemma bijective_insert:
  assumes "bijective bk bn" and "bk k = None \<or> (\<exists>e. bk k = Some e \<and> entry_name e = n)" and "bn n = None \<or> bn n = Some k"
  shows "bijective (bk(k \<mapsto> new_entry n now)) (bn(n \<mapsto> k))"
  using assms unfolding bijective_def by (auto simp: new_entry_def) (metis option.inject option.distinct(1))+

lemma bijective_delete:
  assumes "bijective bk bn" and "bn n = Some k"
  shows "bijective (bk(k := None)) (bn(n := None))"
  using assms unfolding bijective_def by (auto split: if_splits) (metis option.inject)+

section \<open>Rebuilding the name index\<close>

lemma names_distinct:
  assumes "btree_inv m" and "\<And>k k' e e'. (k, e) \<in> set m \<Longrightarrow> (k', e') \<in> set m \<Longrightarrow> entry_name e = entry_name e' \<Longrightarrow> k = k'"
  shows "distinct (map (entry_name \<circ> snd) m)"
  using assms
proof (induction m)
  case (Cons x m)
  obtain k e where x: "x = (k, e)" by fastforce
  have "entry_name e \<noteq> entry_name e'" if "(k', e') \<in> set m" for k' e'
    using Cons.prems(2) [of k e k' e'] Cons.prems(1) x that by fastforce
  moreover have "distinct (map (entry_name \<circ> snd) m)"
  proof (rule Cons.IH)
    show "btree_inv m" using Cons.prems(1) x by simp
    show "k = k'" if "(k, e) \<in> set m" "(k', e') \<in> set m" "entry_name e = entry_name e'" for k k' e e'
      using Cons.prems(2) [of k e k' e'] that by simp
  qed
  ultimately show ?case using x by (auto simp: comp_def image_iff) (metis snd_conv)
qed simp

lemma rebuild_bijective:
  assumes "btree_inv (by_key s)"
    and inj: "\<And>k k' e e'. btree_get (by_key s) k = Some e \<Longrightarrow> btree_get (by_key s) k' = Some e'
      \<Longrightarrow> entry_name e = entry_name e' \<Longrightarrow> k = k'"
  shows "btree_inv (by_name (rebuild_name_index s))
    \<and> bijective (btree_get (by_key s)) (btree_get (by_name (rebuild_name_index s)))"
proof -
  let ?m = "map (\<lambda>(k, e). (entry_name e, k)) (by_key s)"
  have d: "distinct (map (entry_name \<circ> snd) (by_key s))"
    by (rule names_distinct [OF assms(1)]) (auto simp: get_iff [OF assms(1), symmetric] intro: inj)
  then have "distinct (map fst ?m)" by (simp add: comp_def case_prod_beta)
  then have "map_of ?m n = Some k \<longleftrightarrow> (n, k) \<in> set ?m" for n k by simp
  moreover have "by_name (rebuild_name_index s) = foldl (\<lambda>m (n, key). btree_insert n key m) [] ?m"
    by (simp add: rebuild_name_index_def foldl_map split_def)
  ultimately show ?thesis
    using btree.load_ok [of "[]" ?m] btree.load_get [OF \<open>distinct (map fst ?m)\<close>, of "[]"]
    by (auto simp: bijective_def get_iff [OF assms(1)])
qed

lemma sub_inj:
  assumes "btree_inv m" and "btree_inv m'" and "set m' \<subseteq> set m" and "bijective (btree_get m) bn"
    and "btree_get m' k = Some e" and "btree_get m' k' = Some e'" and "entry_name e = entry_name e'"
  shows "k = k'"
proof -
  have "btree_get m k = Some e" "btree_get m k' = Some e'"
    using assms by (auto simp: get_iff [OF assms(1)] get_iff [OF assms(2)])
  with assms(4,7) bijectiveD(1) [OF assms(4)] show ?thesis by (metis option.inject)
qed

text \<open>Dropping entries and rebuilding keeps the invariant: the lemma behind eviction and cleanup.\<close>

lemma space_inv_shrink:
  assumes "space_inv s" and "btree_inv m'" and "set m' \<subseteq> set (by_key s)"
  shows "space_inv (rebuild_name_index (s\<lparr>by_key := m'\<rparr>))"
proof -
  have inv: "btree_inv (by_key s)" "bijective (btree_get (by_key s)) (btree_get (by_name s))"
    using assms(1) by (auto simp: space_inv_def)
  have "btree_inv (by_name (rebuild_name_index (s\<lparr>by_key := m'\<rparr>)))
      \<and> bijective (btree_get m') (btree_get (by_name (rebuild_name_index (s\<lparr>by_key := m'\<rparr>))))"
    using rebuild_bijective [of "s\<lparr>by_key := m'\<rparr>"] assms(2) sub_inj [OF inv(1) assms(2,3) inv(2)] by auto
  moreover have "dom (btree_get m') \<subseteq> dom (btree_get (by_key s))"
    using assms(3) by (auto simp: dom_map_of_conv_image_fst)
  ultimately show ?thesis
    using assms(1,2) by (auto simp: space_inv_def rebuild_name_index_def)
qed

section \<open>Taking a free key\<close>

definition span :: "space \<Rightarrow> nat" where
  "span s = unat (last_key s) - unat (first_key s) + 1"

definition offset :: "space \<Rightarrow> nat" where
  "offset s = (if next_key s < first_key s \<or> next_key s > last_key s then 0
     else unat (next_key s) - unat (first_key s))"

definition candidate :: "space \<Rightarrow> nat \<Rightarrow> nat" where
  "candidate s i = unat (first_key s) + (offset s + i) mod span s"

lemma offset_span: "first_key s \<le> last_key s \<Longrightarrow> offset s < span s"
  by (auto simp: offset_def span_def not_less word_le_nat_alt)

lemma advance_step:
  assumes "first_key s \<le> last_key s" and "space_advance s = (c, s')"
  shows "unat c = candidate s 0" and "offset s' = (offset s + 1) mod span s"
    and "s' = s\<lparr>next_key := next_key s'\<rparr>" and "first_key s \<le> c \<and> c \<le> last_key s"
proof -
  let ?cur = "if next_key s < first_key s \<or> next_key s > last_key s then first_key s else next_key s"
  have c: "c = ?cur" and n: "next_key s' = (if c \<ge> last_key s then first_key s else c + 1)"
    and s': "s' = s\<lparr>next_key := next_key s'\<rparr>"
    using assms(2) by (auto simp: space_advance_def Let_def split: if_splits)
  show "s' = s\<lparr>next_key := next_key s'\<rparr>" by (rule s')
  show in_range: "first_key s \<le> c \<and> c \<le> last_key s" using assms(1) c by auto
  have off: "offset s = unat c - unat (first_key s)" using c assms(1) by (auto simp: offset_def)
  have nat: "unat (first_key s) \<le> unat c" "unat c \<le> unat (last_key s)"
    using in_range by (simp_all add: word_le_nat_alt)
  have keys: "first_key s' = first_key s" "last_key s' = last_key s" by (subst s'; simp)+
  show "unat c = candidate s 0" using nat off by (simp add: candidate_def span_def)
  show "offset s' = (offset s + 1) mod span s"
  proof (cases "c \<ge> last_key s")
    case True
    with in_range have "c = last_key s" by simp
    with n True have "next_key s' = first_key s" by simp
    with assms(1) have "offset s' = 0" by (simp add: offset_def keys)
    with off \<open>c = last_key s\<close> nat show ?thesis by (simp add: span_def)
  next
    case False
    then have less: "unat c < unat (last_key s)" by (simp add: word_le_nat_alt not_le)
    have "unat c + 1 < 2 ^ 128" using less unsigned_less [where 'a = nat, of "last_key s"] by simp
    then have "unat (c + 1) = unat c + 1" by (simp add: unat_plus_if')
    with n False less nat have "offset s' = unat c + 1 - unat (first_key s)"
      by (auto simp: offset_def keys word_less_nat_alt)
    with off less nat show ?thesis by (simp add: span_def)
  qed
qed

lemma candidate_advance:
  assumes "first_key s \<le> last_key s" and "space_advance s = (c, s')"
  shows "candidate s' i = candidate s (Suc i)"
proof -
  have keys: "first_key s' = first_key s" "last_key s' = last_key s"
    by (subst advance_step(3) [OF assms]; simp)+
  show ?thesis
    unfolding candidate_def by (simp add: keys span_def advance_step(2) [OF assms, unfolded span_def] mod_simps)
qed

lemma take_key_loop_Some:
  assumes "take_key_loop n s = (Some c, s')" and "first_key s \<le> last_key s"
  shows "btree_get (by_key s) c = None \<and> first_key s \<le> c \<and> c \<le> last_key s \<and> s' = s\<lparr>next_key := next_key s'\<rparr>"
  using assms
proof (induction n s rule: take_key_loop.induct)
  case (2 n s)
  obtain d t where a: "space_advance s = (d, t)" by fastforce
  note st = advance_step [OF "2.prems"(2) a]
  have t: "by_key t = by_key s" "first_key t = first_key s" "last_key t = last_key s" by (subst st(3); simp)+
  show ?case
  proof (cases "btree_get (by_key t) d = None")
    case True
    with "2.prems"(1) a st t show ?thesis by auto
  next
    case False
    with "2.prems" a have "take_key_loop n t = (Some c, s')" by (auto split: if_splits)
    from "2.IH" [OF a [symmetric] refl False this] "2.prems"(2) t
    have "btree_get (by_key s) c = None" "first_key s \<le> c" "c \<le> last_key s" "s' = t\<lparr>next_key := next_key s'\<rparr>" by auto
    moreover from this(4) have "s' = s\<lparr>next_key := next_key s'\<rparr>" by (subst (asm) st(3)) simp
    ultimately show ?thesis by simp
  qed
qed simp

lemma take_key_loop_None:
  assumes "take_key_loop n s = (None, s')" and "first_key s \<le> last_key s" and "i < n"
  shows "\<exists>c \<in> dom (btree_get (by_key s)). unat c = candidate s i"
  using assms
proof (induction n s arbitrary: i rule: take_key_loop.induct)
  case (2 n s)
  obtain d t where a: "space_advance s = (d, t)" by fastforce
  note st = advance_step [OF "2.prems"(2) a]
  have t: "by_key t = by_key s" "first_key t = first_key s" "last_key t = last_key s" by (subst st(3); simp)+
  have occ: "btree_get (by_key t) d \<noteq> None" using "2.prems"(1) a by (auto split: if_splits)
  with "2.prems"(1) a have rest: "take_key_loop n t = (None, s')" by simp
  show ?case
  proof (cases i)
    case 0
    with occ t st(1) show ?thesis by auto
  next
    case (Suc j)
    with "2.IH" [OF a [symmetric] refl occ rest, of j] "2.prems" t
    show ?thesis by (simp add: candidate_advance [OF "2.prems"(2) a])
  qed
qed simp

lemma add_mod_cancel:
  assumes "(k + i) mod m = (k + j) mod m" and "i < m" and "j < m"
  shows "i = (j :: nat)"
proof -
  have le: "i' = j'" if "(k + i') mod m = (k + j') mod m" "i' \<le> j'" "j' < m" for i' j'
  proof -
    have "m dvd (k + j') - (k + i')" using that mod_eq_dvd_iff_nat [of "k + i'" "k + j'" m] by simp
    then have "m dvd j' - i'" by simp
    with that show ?thesis by (metis diff_is_0_eq dvd_imp_le le_antisym less_imp_diff_less not_gr0 not_le)
  qed
  from le [OF assms(1) _ assms(3)] le [OF assms(1) [symmetric] _ assms(2)] show ?thesis by (cases "i \<le> j") auto
qed

lemma candidate_inj: "inj_on (candidate s) {..< span s}"
  by (rule inj_onI) (auto simp: candidate_def intro: add_mod_cancel)

text \<open>The pigeonhole argument of the source: a space with a free key finds one.\<close>

lemma take_key_found:
  assumes "btree_inv (by_key s)" and "first_key s \<le> last_key s" and "length (by_key s) < span s"
  obtains c s' where "take_key s = (Some c, s')" and "btree_get (by_key s) c = None"
    and "first_key s \<le> c" and "c \<le> last_key s" and "s' = s\<lparr>next_key := next_key s'\<rparr>"
proof (cases "fst (take_key s)")
  case None
  then obtain s' where n: "take_key_loop (length (by_key s) + 1) s = (None, s')"
    by (metis prod.collapse take_key_def)
  let ?D = "dom (btree_get (by_key s))"
  have "candidate s ` {..< length (by_key s) + 1} \<subseteq> unat ` ?D"
    using take_key_loop_None [OF n assms(2)] by (force simp: image_iff)
  moreover have "finite ?D" by (simp add: finite_dom_map_of)
  ultimately have "card (candidate s ` {..< length (by_key s) + 1}) \<le> card ?D"
    by (meson card_image_le card_mono finite_imageI le_trans)
  moreover have "inj_on (candidate s) {..< length (by_key s) + 1}"
    using assms(3) by (intro inj_on_subset [OF candidate_inj]) auto
  ultimately show ?thesis by (simp add: card_image card_keys [OF assms(1)])
next
  case (Some c)
  then obtain s' where t: "take_key s = (Some c, s')" by (metis prod.collapse)
  then have "take_key_loop (length (by_key s) + 1) s = (Some c, s')" by (simp only: take_key_def)
  from take_key_loop_Some [OF this assms(2)] t show ?thesis using that by blast
qed

section \<open>Allocation\<close>

lemma keys_fit_span:
  assumes "space_inv s"
  shows "length (by_key s) \<le> span s"
proof -
  have inv: "btree_inv (by_key s)" using assms by (simp add: space_inv_def)
  have "unat ` dom (btree_get (by_key s)) \<subseteq> {unat (first_key s) .. unat (last_key s)}"
    using assms by (auto simp: space_inv_def word_le_nat_alt)
  then have "card (unat ` dom (btree_get (by_key s))) \<le> card {unat (first_key s) .. unat (last_key s)}"
    by (intro card_mono) auto
  moreover have "card (unat ` dom (btree_get (by_key s))) = length (by_key s)"
    using card_keys [OF inv] card_image [of unat "dom (btree_get (by_key s))"]
    by (auto intro: inj_onI unsigned_word_eqI)
  moreover have "unat (first_key s) \<le> unat (last_key s)" using assms by (simp add: space_inv_def word_le_nat_alt)
  ultimately show ?thesis by (simp add: span_def)
qed

lemma cap_le_span:
  assumes "space_inv s"
  shows "0 < space_cap s \<and> space_cap s \<le> span s"
proof -
  have le: "unat (first_key s) \<le> unat (last_key s)" "0 < unat (first_key s)" "\<not> last_key s < first_key s"
    using assms by (auto simp: space_inv_def word_le_nat_alt word_less_nat_alt)
  then have "unat (last_key s - first_key s) = unat (last_key s) - unat (first_key s)"
    by (simp add: unat_sub word_le_nat_alt)
  moreover have "unat (last_key s) - unat (first_key s) + 1 < 2 ^ 128"
    using le unsigned_less [where 'a = nat, of "last_key s"] by simp
  ultimately have "unat (last_key s - first_key s + 1) = span s"
    by (simp add: unat_plus_if' span_def)
  then have "space_capacity s = (if span s < usize_bound then span s else usize_bound - 1)"
    using le by (simp add: space_capacity_def word_sat_sub_def)
  moreover have "0 < span s" "1 < usize_bound" "0 < sp_max_entries s"
    using assms by (simp_all add: span_def usize_bound_def space_inv_def)
  ultimately show ?thesis by (auto simp: space_cap_def)
qed


lemma space_inv_bijective: "space_inv s \<Longrightarrow> bijective (btree_get (by_key s)) (btree_get (by_name s))"
  by (simp add: space_inv_def)

lemma smaller_names:
  assumes "space_inv s" and "space_inv s'" and "set (by_key s') \<subseteq> set (by_key s)"
  shows "btree_get (by_name s') \<subseteq>\<^sub>m btree_get (by_name s)"
proof -
  have "btree_get (by_name s) n = Some k" if nk: "btree_get (by_name s') n = Some k" for n k
  proof -
    obtain e where e: "btree_get (by_key s') k = Some e" "entry_name e = n"
      using bijectiveD(2) [OF space_inv_bijective [OF assms(2)] nk] by blast
    with assms have "btree_get (by_key s) k = Some e" by (auto simp: space_inv_def get_iff)
    from bijectiveD(1) [OF space_inv_bijective [OF assms(1)] this] e(2) show ?thesis by simp
  qed
  then show ?thesis by (auto simp: map_le_def)
qed

lemma space_reclaim_eq:
  assumes "evict_for_capacity (by_key s) (saturating_sub now (sp_ttl_nanos s)) EVICT_STRIDE last_access = (m, freed)"
  shows "space_reclaim now s = (if freed > 0
     then (rebuild_name_index (s\<lparr>by_key := m\<rparr>))\<lparr>sp_evicted := sp_evicted s + of_nat freed\<rparr> else s\<lparr>by_key := m\<rparr>)"
  by (simp add: space_reclaim_def assms rebuild_name_index_def)

lemma space_inv_evicted [simp]: "space_inv (s\<lparr>sp_evicted := v\<rparr>) = space_inv s" "space_inv (s\<lparr>next_key := k\<rparr>) = space_inv s"
  by (simp_all add: space_inv_def)

lemma reclaim_correct:
  assumes "space_inv s" and "by_key s \<noteq> []"
  shows "space_inv (space_reclaim now s) \<and> length (by_key (space_reclaim now s)) < length (by_key s)
    \<and> btree_get (by_name (space_reclaim now s)) \<subseteq>\<^sub>m btree_get (by_name s)
    \<and> first_key (space_reclaim now s) = first_key s \<and> last_key (space_reclaim now s) = last_key s
    \<and> sp_family (space_reclaim now s) = sp_family s"
proof -
  obtain m freed where e: "evict_for_capacity (by_key s) (saturating_sub now (sp_ttl_nanos s)) EVICT_STRIDE last_access = (m, freed)"
    by fastforce
  have inv: "btree_inv (by_key s)" using assms(1) by (simp add: space_inv_def)
  note ev = evict_for_capacity_ok [OF inv assms(2) e]
  then have r: "space_reclaim now s
      = (rebuild_name_index (s\<lparr>by_key := m\<rparr>))\<lparr>sp_evicted := sp_evicted s + of_nat freed\<rparr>"
    by (simp add: space_reclaim_eq [OF e])
  have i: "space_inv (space_reclaim now s)" using space_inv_shrink [OF assms(1), of m] ev by (simp add: r)
  have k: "by_key (space_reclaim now s) = m" by (simp add: r rebuild_name_index_def)
  from smaller_names [OF assms(1) i] k ev have "btree_get (by_name (space_reclaim now s)) \<subseteq>\<^sub>m btree_get (by_name s)" by simp
  with i k ev show ?thesis by (simp add: r rebuild_name_index_def)
qed

text \<open>
  Allocation never fails: it returns the address of the key the name already has, or of a fresh key
  of the range.  In either case the name then owns that key, and every other mapping that is left is
  one the space had before.
\<close>

lemma restrict_insert: "m \<subseteq>\<^sub>m m' \<Longrightarrow> (m(n \<mapsto> c)) |` (- {n}) \<subseteq>\<^sub>m m'"
  by (auto simp: map_le_def restrict_map_def dom_def)

lemma space_allocate_correct:
  assumes "space_inv s"
  obtains key s' where "space_allocate n now s = (Ok (family_addr (sp_family s) key), s')" and "space_inv s'"
    and "btree_get (by_name s') n = Some key" and "first_key s \<le> key \<and> key \<le> last_key s"
    and "btree_get (by_name s') |` (- {n}) \<subseteq>\<^sub>m btree_get (by_name s)"
    and "\<And>k. btree_get (by_name s) n = Some k \<Longrightarrow> key = k \<and> by_name s' = by_name s"
    and "first_key s' = first_key s \<and> last_key s' = last_key s \<and> sp_family s' = sp_family s"
proof (cases "btree_get (by_name s) n")
  case (Some key)
  let ?s = "s\<lparr>by_key := btree_alter key (\<lambda>e. e\<lparr>last_access := now\<rparr>) (by_key s)\<rparr>"
  obtain e where e: "btree_get (by_key s) key = Some e" "entry_name e = n"
    using bijectiveD(2) [OF space_inv_bijective [OF assms] Some] by blast
  have d: "dom (btree_get (by_key ?s)) = dom (btree_get (by_key s))"
    by (auto simp: dom_def)
  have "space_inv ?s" using assms d by (auto simp: space_inv_def bijective_touch)
  moreover have "first_key s \<le> key \<and> key \<le> last_key s" using assms e by (auto simp: space_inv_def)
  ultimately show ?thesis
    by (intro that [of key ?s]) (auto simp: Some space_allocate_def map_le_def restrict_map_def dom_def)
next
  case None
  define t where "t = (if length (by_key s) \<ge> space_cap s then space_reclaim now s else s)"
  have ne: "by_key s \<noteq> []" if "length (by_key s) \<ge> space_cap s"
    using that cap_le_span [OF assms] by auto
  have "space_inv t \<and> length (by_key t) < span s \<and> btree_get (by_name t) \<subseteq>\<^sub>m btree_get (by_name s)
     \<and> first_key t = first_key s \<and> last_key t = last_key s \<and> sp_family t = sp_family s"
  proof (cases "length (by_key s) \<ge> space_cap s")
    case True
    with reclaim_correct [OF assms ne [OF True], of now] keys_fit_span [OF assms] show ?thesis by (simp add: t_def)
  next
    case False
    with assms cap_le_span [OF assms] show ?thesis by (simp add: t_def)
  qed
  then have t: "space_inv t" "length (by_key t) < span s" "btree_get (by_name t) \<subseteq>\<^sub>m btree_get (by_name s)"
    "first_key t = first_key s" "last_key t = last_key s" "sp_family t = sp_family s"
    by blast+
  have nt: "btree_get (by_name t) n = None"
    using t(3) None by (metis domIff map_le_implies_dom_le subsetD)
  have "btree_inv (by_key t)" "first_key t \<le> last_key t" "length (by_key t) < span t"
    using t by (simp_all add: space_inv_def span_def)
  then obtain c s'' where tk: "take_key t = (Some c, s'')" and free: "btree_get (by_key t) c = None"
    and c: "first_key t \<le> c" "c \<le> last_key t" and s'': "s'' = t\<lparr>next_key := next_key s''\<rparr>"
    by (rule take_key_found)
  let ?s = "s''\<lparr>by_key := btree_insert c (new_entry n now) (by_key s''), by_name := btree_insert n c (by_name s'')\<rparr>"
  have f: "by_key s'' = by_key t" "by_name s'' = by_name t" "first_key s'' = first_key t"
    "last_key s'' = last_key t" "sp_family s'' = sp_family t" "sp_max_entries s'' = sp_max_entries t"
    by (subst s''; simp)+
  have "bijective ((btree_get (by_key t))(c \<mapsto> new_entry n now)) ((btree_get (by_name t))(n \<mapsto> c))"
    using t(1) free nt by (intro bijective_insert) (auto simp: space_inv_def)
  then have "space_inv ?s" using t(1) c f by (auto simp: space_inv_def)
  moreover have "space_allocate n now s = (Ok (family_addr (sp_family s) c), ?s)"
    using None tk f t(6) by (simp add: space_allocate_def Let_def t_def [symmetric])
  moreover have "btree_get (by_name ?s) |` (- {n}) \<subseteq>\<^sub>m btree_get (by_name s)"
    using restrict_insert [OF t(3)] f by simp
  ultimately show ?thesis using None c f t(4-6) by (intro that [of c ?s]) simp_all
qed

section \<open>The other operations\<close>

lemma touch_inv:
  assumes "space_inv s"
  shows "space_inv (s\<lparr>by_key := btree_alter k (\<lambda>e. e\<lparr>last_access := now\<rparr>) (by_key s)\<rparr>)"
proof -
  have "dom (btree_get (btree_alter k (\<lambda>e. e\<lparr>last_access := now\<rparr>) (by_key s))) = dom (btree_get (by_key s))"
    by (auto simp: dom_def)
  with assms show ?thesis by (auto simp: space_inv_def bijective_touch)
qed

lemma space_lookup_inv: "space_inv s \<Longrightarrow> space_lookup k now s = (r, s') \<Longrightarrow> space_inv s'"
  by (auto simp: space_lookup_def touch_inv split: option.splits)

lemma space_lookup_names: "space_lookup k now s = (r, s') \<Longrightarrow> by_name s' = by_name s"
  by (auto simp: space_lookup_def split: option.splits)

lemma space_peek_owner:
  assumes "space_inv s"
  shows "space_peek s k = Some n \<longleftrightarrow> btree_get (by_name s) n = Some k"
  using space_inv_bijective [OF assms] by (auto simp: space_peek_def bijective_def)

lemma space_restore_inv:
  assumes "space_inv s" and "space_restore n k now s = (r, s')"
  shows "space_inv s' \<and> (if r then btree_get (by_name s') = (btree_get (by_name s))(n \<mapsto> k) else s' = s)"
proof (cases r)
  case True
  with assms(2) have c: "first_key s \<le> k" "k \<le> last_key s"
    and k: "btree_get (by_key s) k = None \<or> (\<exists>e. btree_get (by_key s) k = Some e \<and> entry_name e = n)"
    and n: "btree_get (by_name s) n = None \<or> btree_get (by_name s) n = Some k"
    and s': "s' = s\<lparr>by_name := btree_insert n k (by_name s), by_key := btree_insert k (new_entry n now) (by_key s)\<rparr>"
    by (auto simp: space_restore_def space_covers_def split: if_splits option.splits)
  have "bijective ((btree_get (by_key s))(k \<mapsto> new_entry n now)) ((btree_get (by_name s))(n \<mapsto> k))"
    by (rule bijective_insert [OF space_inv_bijective [OF assms(1)] k n])
  with assms(1) c True show ?thesis by (auto simp: s' space_inv_def)
next
  case False
  with assms show ?thesis by (auto simp: space_restore_def split: if_splits)
qed

lemma space_cleanup_inv:
  assumes "space_inv s" and "space_cleanup now s = (d, s')"
  shows "space_inv s' \<and> by_key s' = btree_retain (\<lambda>_ e. last_access e \<ge> saturating_sub now (sp_ttl_nanos s)) (by_key s)
    \<and> btree_get (by_name s') \<subseteq>\<^sub>m btree_get (by_name s) \<and> d + length (by_key s') = length (by_key s)"
proof -
  let ?m = "btree_retain (\<lambda>_ e. last_access e \<ge> saturating_sub now (sp_ttl_nanos s)) (by_key s)"
  have inv: "btree_inv (by_key s)" using assms(1) by (simp add: space_inv_def)
  have sub: "set ?m \<subseteq> set (by_key s)" by (auto simp: btree_retain_def)
  have k: "by_key s' = ?m" and d: "d = length (by_key s) - length ?m"
    using assms(2) by (auto simp: space_cleanup_def Let_def rebuild_name_index_def split: if_splits)
  have "space_inv s'"
  proof (cases "length ?m = length (by_key s)")
    case True
    then have "?m = by_key s" unfolding btree_retain_def by (metis filter_id_conv length_filter_less less_irrefl)
    with True assms show ?thesis by (auto simp: space_cleanup_def Let_def)
  next
    case False
    with assms(2) have "s' = rebuild_name_index (s\<lparr>by_key := ?m\<rparr>)"
      by (auto simp: space_cleanup_def Let_def)
    with space_inv_shrink [OF assms(1) _ sub] inv show ?thesis by simp
  qed
  with smaller_names [OF assms(1), of s'] k sub d length_retain [of _ "by_key s"] show ?thesis by auto
qed

lemma space_release_inv:
  assumes "space_inv s" and "space_release n s = (r, s')"
  shows "space_inv s' \<and> btree_get (by_name s') = (btree_get (by_name s))(n := None)"
proof (cases "btree_get (by_name s) n")
  case None
  with assms show ?thesis by (auto simp: space_release_def)
next
  case (Some k)
  with assms bijective_delete [OF space_inv_bijective [OF assms(1)] Some] show ?thesis
    by (auto simp: space_release_def space_inv_def split: if_splits)
qed

lemma space_clear_inv: "space_inv s \<Longrightarrow> space_inv (space_clear s)"
  by (simp add: space_inv_def space_clear_def bijective_def)

lemma space_new_inv:
  "lo \<le> hi \<Longrightarrow> 0 < lo \<Longrightarrow> space_inv (space_new f lo hi max_entries ttl)"
  by (simp add: space_inv_def space_new_def bijective_def)

section \<open>The pool as a state machine\<close>

datatype pool_op =
    OpAllocate name family ts
  | OpLookup ip_addr ts
  | OpRestore name ip_addr ts
  | OpCleanup ts
  | OpRelease name family
  | OpClear

inductive pool_step :: "fake_ip_pool \<Rightarrow> pool_op \<Rightarrow> fake_ip_pool \<Rightarrow> bool" where
  "pool_allocate n f now p = (r, p') \<Longrightarrow> pool_step p (OpAllocate n f now) p'"
| "pool_lookup ip now p = (r, p') \<Longrightarrow> pool_step p (OpLookup ip now) p'"
| "pool_restore n ip now p = (r, p') \<Longrightarrow> pool_step p (OpRestore n ip now) p'"
| "pool_cleanup now p = (d, p') \<Longrightarrow> pool_step p (OpCleanup now) p'"
| "pool_release n f p = (r, p') \<Longrightarrow> pool_step p (OpRelease n f) p'"
| "pool_step p OpClear (pool_clear p)"

inductive_cases pool_stepE: "pool_step p opn p'"

definition pool_initial :: "fake_ip_pool \<Rightarrow> bool" where
  "pool_initial p \<longleftrightarrow> (\<exists>rng rng6 flt ttl n. pool_from_config rng rng6 flt ttl n = Ok p)"

text \<open>A space of the pool: its invariant, its family, and keys that are addresses of the family.\<close>

definition space_of :: "family \<Rightarrow> space \<Rightarrow> bool" where
  "space_of f s \<longleftrightarrow> space_inv s \<and> sp_family s = f \<and> (f = V4 \<longrightarrow> last_key s < 2 ^ 32)"

definition pool_inv :: "fake_ip_pool \<Rightarrow> bool" where
  "pool_inv p \<longleftrightarrow> (\<forall>f s. pool_space p f = Some s \<longrightarrow> space_of f s)"

lemma all_families: "(\<forall>f. P f) \<longleftrightarrow> P V4 \<and> P V6"
  by (metis family.exhaust)

lemma pool_inv_spaces:
  "pool_inv p \<longleftrightarrow> space_of V4 (v4_space p) \<and> (\<forall>s. v6_space p = Some s \<longrightarrow> space_of V6 s)"
  by (simp add: pool_inv_def all_families)

lemma pool_space_set [simp]:
  "pool_space (set_space f s p) g = (if f = g then Some s else pool_space p g)"
  by (cases f; cases g) auto

lemma set_space_inv: "pool_inv p \<Longrightarrow> space_of f s \<Longrightarrow> pool_inv (set_space f s p)"
  by (auto simp: pool_inv_def)

lemma spaceD: "pool_inv p \<Longrightarrow> pool_space p f = Some s \<Longrightarrow> space_of f s"
  by (simp add: pool_inv_def)

text \<open>Every operation of a space keeps the range and the family.\<close>

lemma space_op_frames:
  "space_lookup k now s = (r1, s1) \<Longrightarrow> last_key s1 = last_key s \<and> sp_family s1 = sp_family s"
  "space_restore n k now s = (r2, s2) \<Longrightarrow> last_key s2 = last_key s \<and> sp_family s2 = sp_family s"
  "space_cleanup now s = (r3, s3) \<Longrightarrow> last_key s3 = last_key s \<and> sp_family s3 = sp_family s"
  "space_release n s = (r4, s4) \<Longrightarrow> last_key s4 = last_key s \<and> sp_family s4 = sp_family s"
  by (auto simp: space_lookup_def space_restore_def space_cleanup_def space_release_def Let_def
      rebuild_name_index_def split: option.splits if_splits)

lemma space_of_ops:
  assumes "space_of f s"
  shows "space_allocate n now s = (r0, s0) \<Longrightarrow> space_of f s0"
    and "space_lookup k now s = (r1, s1) \<Longrightarrow> space_of f s1"
    and "space_restore n k now s = (r2, s2) \<Longrightarrow> space_of f s2"
    and "space_cleanup now s = (r3, s3) \<Longrightarrow> space_of f s3"
    and "space_release n s = (r4, s4) \<Longrightarrow> space_of f s4"
    and "space_of f (space_clear s)"
proof -
  have inv: "space_inv s" using assms by (simp add: space_of_def)
  show "space_of f s0" if "space_allocate n now s = (r0, s0)"
    using space_allocate_correct [OF inv, of n now] assms that by (fastforce simp: space_of_def)
  show "space_lookup k now s = (r1, s1) \<Longrightarrow> space_of f s1"
    using assms space_lookup_inv [OF inv, of k now r1 s1] space_op_frames(1) [of k now s r1 s1] by (auto simp: space_of_def)
  show "space_restore n k now s = (r2, s2) \<Longrightarrow> space_of f s2"
    using assms space_restore_inv [OF inv, of n k now r2 s2] space_op_frames(2) [of n k now s r2 s2] by (auto simp: space_of_def)
  show "space_cleanup now s = (r3, s3) \<Longrightarrow> space_of f s3"
    using assms space_cleanup_inv [OF inv, of now r3 s3] space_op_frames(3) [of now s r3 s3] by (auto simp: space_of_def)
  show "space_release n s = (r4, s4) \<Longrightarrow> space_of f s4"
    using assms space_release_inv [OF inv, of n r4 s4] space_op_frames(4) [of n s r4 s4] by (auto simp: space_of_def)
  show "space_of f (space_clear s)"
    using assms space_clear_inv [OF inv] by (simp add: space_of_def space_clear_def)
qed

lemma space_v4_inv:
  assumes "cidr4_ok r" and "\<not> cidr4_len r < 2"
  shows "space_of V4 (space_v4 r n ttl)"
proof -
  have two: "2 \<le> unat (cidr4_len r)" using assms(2) by (simp add: word_less_nat_alt)
  then have b: "unat (cidr4_network r) + 1 \<le> unat (cidr4_broadcast r)"
    by (simp add: cidr4_len_unat [OF assms(1)] cidr4_broadcast_unat [OF assms(1)])
  have lt: "unat (cidr4_broadcast r) < 2 ^ 32" using unsigned_less [where 'a = nat, of "cidr4_broadcast r"] by simp
  have u: "unat (ucast (a :: u32) :: u128) = unat a" for a
    by (simp add: unsigned_ucast_eq take_bit_nat_eq_self unsigned_less order_less_trans [OF unsigned_less])
  have "unat (ucast (cidr4_network r) + 1 :: u128) = unat (cidr4_network r) + 1"
    using b lt by (simp add: unat_plus_if' u)
  then have "(ucast (cidr4_network r) + 1 :: u128) \<le> ucast (cidr4_broadcast r)" "0 < (ucast (cidr4_network r) + 1 :: u128)"
    using b by (simp_all add: word_le_nat_alt word_less_nat_alt u)
  moreover have "(ucast (cidr4_broadcast r) :: u128) < 2 ^ 32" using lt by (simp add: word_less_nat_alt u)
  ultimately show ?thesis
    by (simp add: space_of_def space_v4_def space_new_inv) (simp add: space_new_def)
qed

lemma space_v6_inv:
  assumes "cidr6_ok r" and "cidr6_network r \<noteq> cidr6_broadcast r"
  shows "space_of V6 (space_v6 r n ttl)"
proof -
  have le: "unat (cidr6_network r) \<le> unat (cidr6_broadcast r)"
    unfolding cidr6_broadcast_unat [OF assms(1)] by (rule le_add1)
  with assms(2) have b: "unat (cidr6_network r) + 1 \<le> unat (cidr6_broadcast r)"
    by (metis Suc_eq_plus1 Suc_leI le_neq_implies_less word_unat_eq_iff)
  have "unat (cidr6_network r + 1) = unat (cidr6_network r) + 1"
    using b unsigned_less [where 'a = nat, of "cidr6_broadcast r"] by (simp add: unat_plus_if')
  with b have "cidr6_network r + 1 \<le> cidr6_broadcast r" "0 < cidr6_network r + 1"
    by (simp_all add: word_le_nat_alt word_less_nat_alt)
  then show ?thesis by (simp add: space_of_def space_v6_def space_new_inv) (simp add: space_new_def)
qed

lemma cidr_parse_ok: "cidr4_parse t = Some c4 \<Longrightarrow> cidr4_ok c4" "cidr6_parse t = Some c6 \<Longrightarrow> cidr6_ok c6"
  by (auto simp: cidr4_parse_def cidr6_parse_def split: option.splits intro: cidr4_new_ok cidr6_new_ok)

lemma pool_initial_inv:
  assumes "pool_initial p"
  shows "pool_inv p"
proof -
  obtain rng rng6 flt ttl n st where st: "settings_parse rng rng6 flt ttl n = Ok st" and p: "p = settings_build st"
    using assms by (auto simp: pool_initial_def pool_from_config_def)
  from st have "cidr4_ok (fs_range st)" "\<not> cidr4_len (fs_range st) < 2"
    by (auto simp: settings_parse_def ok_or_eq_Ok dest: cidr_parse_ok split: if_splits)
  moreover have "cidr6_ok c \<and> cidr6_network c \<noteq> cidr6_broadcast c" if "fs_range6 st = Some c" for c
    using st that by (auto simp: settings_parse_def ok_or_eq_Ok dest: cidr_parse_ok split: if_splits option.splits)
  ultimately show ?thesis
    by (auto simp: p pool_inv_spaces settings_build_def pool_new_def Let_def intro: space_v4_inv space_v6_inv)
qed

lemma pool_allocate_cases:
  assumes "pool_allocate n f now p = (r, p')"
  obtains (filtered) "pool_is_filtered p n" "r = Ok Filtered" "p' = p\<lparr>filtered_hits := filtered_hits p + 1\<rparr>"
  | (absent) "\<not> pool_is_filtered p n" "pool_space p f = None"
      "r = Err (error_internal ''no fake-ip space is configured'')" "p' = p"
  | (served) s q s' where "\<not> pool_is_filtered p n" "pool_space p f = Some s" "space_allocate n now s = (q, s')"
      "r = rbind q (\<lambda>ip. Ok (Address ip))" "p' = set_space f s' p"
  using assms by (cases "pool_is_filtered p n"; cases "pool_space p f") (auto simp: pool_allocate_def split: prod.splits)

lemma filtered_hits_inv [simp]: "pool_inv (p\<lparr>filtered_hits := x\<rparr>) = pool_inv p"
  by (simp add: pool_inv_spaces)

lemma pool_step_inv:
  assumes "pool_inv p" and "pool_step p opn p'"
  shows "pool_inv p'"
  using assms(2)
proof (cases rule: pool_step.cases)
  case (1 n f now r)
  from 1(2) show ?thesis
    by (cases rule: pool_allocate_cases) (use assms(1) in \<open>auto intro: set_space_inv space_of_ops(1) spaceD\<close>)
next
  case (2 ip now r)
  with assms(1) show ?thesis
    by (auto simp: pool_lookup_def Let_def split: option.splits prod.splits intro!: set_space_inv
        intro: space_of_ops(2) spaceD)
next
  case (3 n ip now r)
  with assms(1) show ?thesis
    by (auto simp: pool_restore_def Let_def split: option.splits prod.splits intro!: set_space_inv
        intro: space_of_ops(3) spaceD)
next
  case (4 now d)
  with assms(1) show ?thesis
    by (auto simp: pool_cleanup_def Let_def pool_inv_spaces split: option.splits prod.splits intro: space_of_ops(4))
next
  case (5 n f r)
  with assms(1) show ?thesis
    by (auto simp: pool_release_def Let_def split: option.splits prod.splits intro!: set_space_inv
        intro: space_of_ops(5) spaceD)
next
  case 6
  with assms(1) show ?thesis by (auto simp: pool_clear_def pool_inv_spaces intro: space_of_ops(6))
qed

section \<open>The pool refines a table of one-to-one mappings\<close>

type_synonym mappings = "family \<Rightarrow> (name \<rightharpoonup> u128) option"

definition pool_abs :: "fake_ip_pool \<Rightarrow> mappings" where
  "pool_abs p f = map_option (\<lambda>s. btree_get (by_name s)) (pool_space p f)"

definition one_to_one :: "mappings \<Rightarrow> bool" where
  "one_to_one A \<longleftrightarrow> (\<forall>f m n n' k. A f = Some m \<longrightarrow> m n = Some k \<longrightarrow> m n' = Some k \<longrightarrow> n = n')"

text \<open>
  What each operation may do to the table: an allocation gives the name a key it keeps, and may
  forget other mappings but never changes one; a restore adds the mapping it was given or nothing.
\<close>

inductive mapping_step :: "mappings \<Rightarrow> pool_op \<Rightarrow> mappings \<Rightarrow> bool" where
  alloc_none: "mapping_step A (OpAllocate n f now) A"
| alloc_old: "A f = Some m \<Longrightarrow> m n \<noteq> None \<Longrightarrow> mapping_step A (OpAllocate n f now) A"
| alloc_new: "A f = Some m \<Longrightarrow> m n = None \<Longrightarrow> m' n \<noteq> None \<Longrightarrow> m' |` (- {n}) \<subseteq>\<^sub>m m \<Longrightarrow> one_to_one (A(f \<mapsto> m'))
    \<Longrightarrow> mapping_step A (OpAllocate n f now) (A(f \<mapsto> m'))"
| look: "mapping_step A (OpLookup ip now) A"
| restore_no: "mapping_step A (OpRestore n ip now) A"
| restore_yes: "ip_family ip = (f, k) \<Longrightarrow> A f = Some m \<Longrightarrow> m n = None \<or> m n = Some k \<Longrightarrow> one_to_one (A(f \<mapsto> m(n \<mapsto> k)))
    \<Longrightarrow> mapping_step A (OpRestore n ip now) (A(f \<mapsto> m(n \<mapsto> k)))"
| cleanup: "(\<And>f. rel_option (\<subseteq>\<^sub>m) (A' f) (A f)) \<Longrightarrow> mapping_step A (OpCleanup now) A'"
| release: "mapping_step A (OpRelease n f) (A(f := map_option (\<lambda>m. m(n := None)) (A f)))"
| clear: "mapping_step A OpClear (\<lambda>f. map_option (\<lambda>_. Map.empty) (A f))"

lemma pool_abs_one_to_one: "pool_inv p \<Longrightarrow> one_to_one (pool_abs p)"
proof -
  assume p: "pool_inv p"
  have "n = n'" if s: "pool_space p f = Some s" and n: "btree_get (by_name s) n = Some k"
    and n': "btree_get (by_name s) n' = Some k" for f s n n' k
  proof -
    have "bijective (btree_get (by_key s)) (btree_get (by_name s))"
      using spaceD [OF p s] by (simp add: space_of_def space_inv_bijective)
    from bijectiveD(2) [OF this n] bijectiveD(2) [OF this n'] show ?thesis by auto
  qed
  then show ?thesis unfolding one_to_one_def pool_abs_def by fastforce
qed

lemma pool_abs_set:
  "pool_abs (set_space f s p) = (pool_abs p)(f \<mapsto> btree_get (by_name s))"
  by (auto simp: pool_abs_def fun_eq_iff)

lemma spaceE:
  assumes "pool_inv p" and "pool_space p f = Some s"
  shows "space_inv s" and "pool_abs p f = Some (btree_get (by_name s))"
  using spaceD [OF assms] assms(2) by (simp_all add: space_of_def pool_abs_def)

lemma allocate_simulates:
  assumes "pool_inv p" and "pool_allocate n f now p = (r, p')" and "one_to_one (pool_abs p')"
  shows "mapping_step (pool_abs p) (OpAllocate n f now) (pool_abs p')"
  using assms(2)
proof (cases rule: pool_allocate_cases)
  case filtered
  then have "pool_abs p' = pool_abs p" by (auto simp: pool_abs_def fun_eq_iff all_families)
  then show ?thesis by (simp add: alloc_none)
next
  case (served s q s')
  note s = spaceE [OF assms(1) served(2)]
  obtain key where k: "btree_get (by_name s') n = Some key"
    and rest: "btree_get (by_name s') |` (- {n}) \<subseteq>\<^sub>m btree_get (by_name s)"
    and old: "\<And>k. btree_get (by_name s) n = Some k \<Longrightarrow> key = k \<and> by_name s' = by_name s"
    by (rule space_allocate_correct [OF s(1), of n now]) (use served(3) in auto)
  have p': "pool_abs p' = (pool_abs p)(f \<mapsto> btree_get (by_name s'))" by (simp add: served(5) pool_abs_set)
  show ?thesis
  proof (cases "btree_get (by_name s) n")
    case None
    with s(2) k rest assms(3) p' show ?thesis by (auto intro: alloc_new)
  next
    case (Some k')
    with old s(2) p' have "pool_abs p' = pool_abs p" by auto
    with s(2) Some show ?thesis by (auto intro: alloc_old)
  qed
qed (simp add: alloc_none)

lemma restore_simulates:
  assumes "pool_inv p" and "pool_restore n ip now p = (r, p')" and "one_to_one (pool_abs p')"
  shows "mapping_step (pool_abs p) (OpRestore n ip now) (pool_abs p')"
proof -
  obtain f k where ip: "ip_family ip = (f, k)" by fastforce
  show ?thesis
  proof (cases "pool_space p f")
    case None
    with assms(2) ip show ?thesis by (simp add: pool_restore_def restore_no)
  next
    case (Some s)
    note s = spaceE [OF assms(1) Some]
    obtain s' where rs: "space_restore n k now s = (r, s')" and p': "p' = set_space f s' p"
      using assms(2) ip Some by (auto simp: pool_restore_def split: prod.splits)
    show ?thesis
    proof (cases r)
      case True
      with space_restore_inv [OF s(1) rs] have m: "btree_get (by_name s') = (btree_get (by_name s))(n \<mapsto> k)" by simp
      have "btree_get (by_name s) n = None \<or> btree_get (by_name s) n = Some k"
        using rs True by (auto simp: space_restore_def split: if_splits option.splits)
      with restore_yes [where A = "pool_abs p" and n = n and m = "btree_get (by_name s)", OF ip s(2)] m assms(3)
      show ?thesis unfolding p' pool_abs_set by simp
    next
      case False
      with space_restore_inv [OF s(1) rs] s(2) have "pool_abs p' = pool_abs p" unfolding p' pool_abs_set by auto
      then show ?thesis by (simp add: restore_no)
    qed
  qed
qed

lemma cleanup_simulates:
  assumes "pool_inv p" and "pool_cleanup now p = (d, p')"
  shows "mapping_step (pool_abs p) (OpCleanup now) (pool_abs p')"
proof (rule cleanup)
  obtain d4 s4 where c4: "space_cleanup now (v4_space p) = (d4, s4)" by fastforce
  have i4: "space_inv (v4_space p)" using assms(1) by (simp add: pool_inv_spaces space_of_def)
  show "rel_option (\<subseteq>\<^sub>m) (pool_abs p' f) (pool_abs p f)" for f
  proof (cases f)
    case V4
    with assms(2) c4 space_cleanup_inv [OF i4 c4] show ?thesis
      by (auto simp: pool_cleanup_def pool_abs_def Let_def split: option.splits prod.splits)
  next
    case V6
    show ?thesis
    proof (cases "v6_space p")
      case None
      with V6 assms(2) c4 show ?thesis by (auto simp: pool_cleanup_def pool_abs_def Let_def)
    next
      case (Some s)
      have "space_inv s" using assms(1) Some by (simp add: pool_inv_spaces space_of_def)
      moreover obtain d6 s6 where "space_cleanup now s = (d6, s6)" by fastforce
      ultimately show ?thesis
        using V6 assms(2) c4 Some space_cleanup_inv [of s now d6 s6] by (auto simp: pool_cleanup_def pool_abs_def Let_def)
    qed
  qed
qed

lemma release_simulates:
  assumes "pool_inv p" and "pool_release n f p = (r, p')"
  shows "mapping_step (pool_abs p) (OpRelease n f) (pool_abs p')"
proof -
  have "pool_abs p' = (pool_abs p)(f := map_option (\<lambda>m. m(n := None)) (pool_abs p f))"
  proof (cases "pool_space p f")
    case None
    with assms(2) show ?thesis by (auto simp: pool_release_def pool_abs_def fun_eq_iff)
  next
    case (Some s)
    obtain q s' where "space_release n s = (q, s')" by fastforce
    then show ?thesis
      using assms(2) Some space_release_inv [OF spaceE(1) [OF assms(1) Some], of n q s'] pool_abs_set [of f s' p]
      by (auto simp: pool_release_def) (simp add: pool_abs_def)
  qed
  then show ?thesis by (simp add: release)
qed

lemma pool_step_simulates:
  assumes "pool_inv p" and "pool_step p opn p'"
  shows "mapping_step (pool_abs p) opn (pool_abs p')"
  using assms(2)
proof (cases rule: pool_step.cases)
  case (1 n f now r)
  with assms show ?thesis by (auto intro: allocate_simulates pool_abs_one_to_one pool_step_inv)
next
  case (2 ip now r)
  then have "pool_abs p' = pool_abs p"
    by (auto simp: pool_lookup_def Let_def pool_abs_def fun_eq_iff dest!: space_lookup_names
        split: option.splits prod.splits)
  with 2 show ?thesis by (simp add: look)
next
  case (3 n ip now r)
  with assms show ?thesis by (auto intro: restore_simulates pool_abs_one_to_one pool_step_inv)
next
  case (4 now d)
  with assms(1) show ?thesis by (simp add: cleanup_simulates)
next
  case (5 n f r)
  with assms(1) show ?thesis by (simp add: release_simulates)
next
  case 6
  have "pool_abs (pool_clear p) = (\<lambda>f. map_option (\<lambda>_. Map.empty) (pool_abs p f))"
    by (auto simp: pool_abs_def pool_clear_def fun_eq_iff all_families space_clear_def option.map_comp comp_def)
  with 6 show ?thesis using clear [of "pool_abs p"] by simp
qed

interpretation pool_machine: simulation pool_initial pool_step pool_inv pool_abs
  "\<lambda>A. \<forall>f m. A f = Some m \<longrightarrow> m = Map.empty" mapping_step
proof
  show "pool_initial p \<Longrightarrow> \<forall>f m. pool_abs p f = Some m \<longrightarrow> m = Map.empty" for p
    by (auto simp: pool_initial_def pool_from_config_def settings_build_def pool_new_def pool_abs_def Let_def
        all_families space_v4_def space_v6_def space_new_def)
qed (auto intro: pool_initial_inv pool_step_inv pool_step_simulates)

section \<open>What clients see\<close>

lemma family_addr_key:
  assumes "space_of f s" and "key \<le> last_key s"
  shows "ip_family (family_addr f key) = (f, key)"
proof (cases f)
  case V4
  with assms have "key < 2 ^ 32" by (auto simp: space_of_def intro: order_le_less_trans)
  then have "unat key < 2 ^ 32" by (simp add: word_less_nat_alt)
  then have "(ucast (ucast key :: u32) :: u128) = key"
    by (intro word_unat_eq_iff [THEN iffD2])
      (simp add: unsigned_ucast_eq unsigned_take_bit_eq take_bit_nat_eq_self)
  with V4 show ?thesis by simp
qed simp

lemma pool_allocate_ok:
  assumes "pool_inv p" and "\<not> pool_is_filtered p n" and "pool_synthesizes p f"
  obtains ip p' where "pool_allocate n f now p = (Ok (Address ip), p')" and "pool_inv p'"
    and "pool_peek p' ip = Some n" and "pool_contains p' ip"
    and "\<And>now'. fst (pool_allocate n f now' p') = Ok (Address ip)"
proof -
  obtain s where s: "pool_space p f = Some s" using assms(3) by (auto simp: pool_synthesizes_def)
  have so: "space_of f s" and inv: "space_inv s" using spaceD [OF assms(1) s] by (auto simp: space_of_def)
  obtain key s' where al: "space_allocate n now s = (Ok (family_addr (sp_family s) key), s')"
    and s': "space_inv s'" "btree_get (by_name s') n = Some key" and k: "first_key s \<le> key \<and> key \<le> last_key s"
    and fr: "first_key s' = first_key s \<and> last_key s' = last_key s \<and> sp_family s' = sp_family s"
    by (rule space_allocate_correct [OF inv]) blast
  have so': "space_of f s'" using so s' fr by (simp add: space_of_def)
  have fam: "sp_family s = f" using so by (simp add: space_of_def)
  let ?p = "set_space f s' p" and ?ip = "family_addr f key"
  have ip: "ip_family ?ip = (f, key)" using so k by (intro family_addr_key) auto
  have a: "pool_allocate n f now p = (Ok (Address ?ip), ?p)"
    using assms(2) s al fam by (simp add: pool_allocate_def)
  have "pool_peek ?p ?ip = Some n" using s' space_peek_owner by (simp add: pool_peek_def ip)
  moreover have "word_sat_sub (first_key s') 1 \<le> key"
  proof -
    have "unat (first_key s) > 0" using inv by (simp add: space_inv_def word_less_nat_alt)
    then have "unat (first_key s - 1) \<le> unat (first_key s)"
      by (metis diff_le_self unat_eq_zero unat_minus_one not_gr0)
    with k fr show ?thesis by (auto simp: word_sat_sub_def word_le_nat_alt)
  qed
  then have "pool_contains ?p ?ip" using k fr by (simp add: pool_contains_def ip space_covers_def)
  moreover have "fst (pool_allocate n f now' ?p) = Ok (Address ?ip)" for now'
  proof -
    have "\<not> pool_is_filtered ?p n" using assms(2) by (cases f) (simp_all add: pool_is_filtered_def)
    then show ?thesis using s'(2) fr fam by (simp add: pool_allocate_def space_allocate_def)
  qed
  ultimately show ?thesis using that [OF a set_space_inv [OF assms(1) so']] by blast
qed

end
