(* ===== verification/Pool_Samples.thy ===== *)
theory Pool_Samples
  imports Fakeip_Inv
begin

text \<open>
  A concrete pool, on which the properties of the fake-IP component are evaluated: the six usable
  addresses of \<^verbatim>\<open>10.0.0.0/29\<close>, at most two mappings, no filter.
\<close>

definition pool_cidr :: ipv4_cidr where
  "pool_cidr = \<lparr>cidr4_base = 0x0a000000, cidr4_prefix = 29\<rparr>"

definition sample_pool :: fake_ip_pool where
  "sample_pool = pool_new pool_cidr None [] 60 2"

lemma pool_cidr_ok: "cidr4_ok pool_cidr"
  by (simp add: cidr4_ok_def pool_cidr_def) code_simp

lemma sample_pool_config: "pool_from_config (cidr4_display pool_cidr) None (Some []) 60 2 = Ok sample_pool"
proof -
  have "unat (cidr4_len pool_cidr) = 8" using cidr4_len_unat [OF pool_cidr_ok] by (simp add: pool_cidr_def)
  then have "\<not> cidr4_len pool_cidr < 2" by (simp add: word_less_nat_alt)
  then show ?thesis
    by (simp add: pool_from_config_def settings_parse_def cidr4_parse_display [OF pool_cidr_ok] 
        settings_build_def sample_pool_def)
qed

lemma sample_pool_initial: "pool_initial sample_pool"
  unfolding pool_initial_def using sample_pool_config by blast

lemma sample_pool_reachable: "reachable pool_initial pool_step sample_pool"
  using sample_pool_initial by (rule reachable.reach_init)

lemma sample_space:
  "v4_space sample_pool = \<lparr>sp_family = V4, first_key = 0x0a000001, last_key = 0x0a000007, next_key = 0x0a000001,
     sp_ttl_nanos = 60000000000, by_key = [], by_name = [], sp_max_entries = 2, sp_evicted = 0\<rparr>"
proof -
  have "unat (cidr4_broadcast pool_cidr) = 0x0a000007"
    using cidr4_broadcast_unat [OF pool_cidr_ok] by (simp add: pool_cidr_def cidr4_network_def)
  then have "cidr4_broadcast pool_cidr = 0x0a000007" by (simp add: word_unat_eq_iff)
  moreover have "cidr4_network pool_cidr = 0x0a000000" by (simp add: cidr4_network_def pool_cidr_def)
  moreover have "ttl_nanos 60 = 60000000000"
    by (simp add: ttl_nanos_def MAX_TTL_SECS_def i128_saturate_def i128_min_def i128_max_def min_def)
  ultimately show ?thesis
    by (simp add: sample_pool_def pool_new_def Let_def space_v4_def space_new_def)
qed

definition one_letter :: "u8 \<Rightarrow> name" where
  "one_letter c = Name [1, c, 0]"

definition restored_pool :: fake_ip_pool where
  "restored_pool =
    snd (pool_restore (one_letter 99) (IpV4 0x0a000003) 0
      (snd (pool_restore (one_letter 98) (IpV4 0x0a000002) 0
        (snd (pool_restore (one_letter 97) (IpV4 0x0a000001) 0 sample_pool)))))"

lemma restored_pool_reachable: "reachable pool_initial pool_step restored_pool"
proof -
  have "reachable pool_initial pool_step (snd (pool_restore n ip now p))" if "reachable pool_initial pool_step p" for n ip now p
    using that by (rule reachable.reach_step) (rule pool_step.intros(3) [OF prod.collapse [symmetric]])
  then show ?thesis unfolding restored_pool_def using sample_pool_reachable by blast
qed

lemma restored_pool_size: "pool_len_for restored_pool V4 = 3" "pool_max_entries restored_pool V4 \<le> 2"
  by (simp_all add: restored_pool_def pool_restore_def pool_len_for_def space_len_def space_restore_def space_covers_def
      word_sat_sub_def sample_space one_letter_def less_name_def pool_max_entries_def space_cap_def)

lemma sample_pool_unfiltered: "\<not> pool_is_filtered sample_pool n" "pool_synthesizes sample_pool V4"
  by (simp_all add: pool_is_filtered_def sample_pool_def pool_new_def Let_def pool_synthesizes_def)

end
