(* ===== verification/Rsa.thy ===== *)
theory Rsa
  imports Prelude
begin

text \<open>
  \<^verbatim>\<open>src/src/dnssec/rsa.rs\<close>: RSA signature verification on little-endian vectors of 32-bit limbs.  The
  vectors are lists; a loop over mutable slots is a recursion that returns the new slots.  All
  intermediate arithmetic is on \<^typ>\<open>64 word\<close> as in the source.
\<close>

unbundle bit_operations_syntax

definition DIGEST_INFO_SHA256 :: bytes where
  "DIGEST_INFO_SHA256 = [0x30, 0x31, 0x30, 0x0d] @ [0x06, 0x09, 0x60, 0x86, 0x48, 0x01, 0x65, 0x03]
     @ [0x04, 0x02, 0x01] @ [0x05, 0x00] @ [0x04, 0x20]"

definition parse_dnskey_rsa :: "bytes \<Rightarrow> (bytes \<times> bytes) option" where
  "parse_dnskey_rsa public_key =
    (case (case public_key of
             [] \<Rightarrow> None
           | n # _ \<Rightarrow> if n = 0 then
               (case (get_at public_key 1, get_at public_key 2) of
                  (Some hi, Some lo) \<Rightarrow> Some (unat (from_be_bytes [hi, lo] :: u16), 3)
                | _ \<Rightarrow> None)
             else Some (unat n, 1)) of
       None \<Rightarrow> None
     | Some (exp_len, exp_off) \<Rightarrow>
        if exp_len = 0 then None
        else (case checked_add exp_off exp_len of
            None \<Rightarrow> None
          | Some exp_end \<Rightarrow>
              if exp_end + 1 > length public_key then None
              else (case (get_range public_key exp_off exp_end, get_from public_key exp_end) of
                  (Some exponent, Some modulus) \<Rightarrow> if length modulus < 3 then None else Some (modulus, exponent)
                | _ \<Rightarrow> None)))"

section \<open>Limbs\<close>

type_synonym limbs = "u32 list"

text \<open>\<^verbatim>\<open>trim\<close> on the reversed vector: drop zero limbs, keep one.\<close>

fun trim_rev :: "limbs \<Rightarrow> limbs" where
  "trim_rev [] = []"
| "trim_rev [l] = [l]"
| "trim_rev (l # l' # ls) = (if l = 0 then trim_rev (l' # ls) else l # l' # ls)"

definition trim_limbs :: "limbs \<Rightarrow> limbs" where
  "trim_limbs ls = rev (trim_rev (rev ls))"

function rchunks4 :: "bytes \<Rightarrow> bytes list" where
  "rchunks4 bs = (if bs = [] then [] else drop (length bs - 4) bs # rchunks4 (take (length bs - 4) bs))"
  by pat_completeness auto
termination
  by (relation "measure length") (auto simp: length_greater_0_conv [symmetric] simp del: length_greater_0_conv)

declare rchunks4.simps [simp del]

definition to_limbs_be :: "bytes \<Rightarrow> limbs" where
  "to_limbs_be bs =
    (let ls = trim_limbs (map (foldl (\<lambda>v b. push_bit 8 v OR ucast b) 0) (rchunks4 bs)) in
     if ls = [] then [0] else ls)"

definition limbs_to_be_bytes :: "limbs \<Rightarrow> bytes" where
  "limbs_to_be_bytes ls =
    (let out = dropWhile (\<lambda>b. b = 0) (concat (map (to_be_bytes 4) (rev ls))) in if out = [] then [0] else out)"

definition trim_len :: "limbs \<Rightarrow> usize" where
  "trim_len a = length (trim_limbs a)"

datatype ordering = Less | Equal | Greater

definition cmp :: "'a :: linorder \<Rightarrow> 'a \<Rightarrow> ordering" where
  "cmp x y = (if x < y then Less else if x = y then Equal else Greater)"

fun cmp_rev :: "(u32 \<times> u32) list \<Rightarrow> ordering" where
  "cmp_rev [] = Equal"
| "cmp_rev ((x, y) # r) = (if cmp x y = Equal then cmp_rev r else cmp x y)"

definition cmp_limbs :: "limbs \<Rightarrow> limbs \<Rightarrow> ordering" where
  "cmp_limbs a b =
    (if trim_len a \<noteq> trim_len b then cmp (trim_len a) (trim_len b)
     else cmp_rev (zip (rev (take (trim_len a) a)) (rev (take (trim_len b) b))))"

definition bit_at :: "limbs \<Rightarrow> usize \<Rightarrow> bool" where
  "bit_at ls i = (case get_at ls (i div 32) of None \<Rightarrow> False | Some limb \<Rightarrow> drop_bit (i mod 32) limb AND 1 = 1)"

text \<open>One row of the schoolbook product: multiply and accumulate, then propagate the carry.\<close>

fun mac_loop :: "limbs \<Rightarrow> u32 \<Rightarrow> limbs \<Rightarrow> u64 \<Rightarrow> limbs \<times> u64" where
  "mac_loop (slot # out) av (bv # b) carry =
    (let cur = ucast slot + ucast av * ucast bv + carry;
         (out', carry') = mac_loop out av b (drop_bit 32 cur)
     in (ucast cur # out', carry'))"
| "mac_loop out av b carry = (out, carry)"

fun carry_loop :: "limbs \<Rightarrow> u64 \<Rightarrow> limbs" where
  "carry_loop [] carry = []"
| "carry_loop (slot # out) carry =
    (if carry = 0 then slot # out
     else let cur = ucast slot + carry in ucast cur # carry_loop out (drop_bit 32 cur))"

definition mul_row :: "limbs \<Rightarrow> limbs \<Rightarrow> nat \<times> u32 \<Rightarrow> limbs" where
  "mul_row b out iav = (case iav of (i, av) \<Rightarrow>
    (let (mid, carry) = mac_loop (drop i out) av b 0; out' = take i out @ mid
     in take (i + length b) out' @ carry_loop (drop (i + length b) out') carry))"

definition mul_limbs :: "limbs \<Rightarrow> limbs \<Rightarrow> limbs" where
  "mul_limbs a b =
    (let la = trim_len a; lb = trim_len b in
     trim_limbs (foldl (mul_row (take lb b)) (replicate (la + lb) 0) (enumerate 0 (take la a))))"

text \<open>\<open>or_zip\<close> is the loop \<^verbatim>\<open>*slot |= v\<close> over the slots paired with \<open>vs\<close>.\<close>

fun or_zip :: "limbs \<Rightarrow> limbs \<Rightarrow> limbs" where
  "or_zip (s # ss) (v # vs) = (s OR v) # or_zip ss vs"
| "or_zip ss vs = ss"

fun set_zip :: "limbs \<Rightarrow> limbs \<Rightarrow> limbs" where
  "set_zip (s # ss) (v # vs) = v # set_zip ss vs"
| "set_zip ss vs = ss"

definition shl_limbs :: "limbs \<Rightarrow> u32 \<Rightarrow> limbs" where
  "shl_limbs a bits =
    (if bits = 0 then a
     else let wd = unat (bits div 32); bt = unat (bits mod 32); out = replicate (length a + wd + 1) 0 in
       trim_limbs
        (if bt = 0 then take wd out @ set_zip (drop wd out) a
         else let out1 = take wd out @ or_zip (drop wd out) (map (push_bit bt) a)
              in take (wd + 1) out1 @ or_zip (drop (wd + 1) out1) (map (drop_bit (32 - bt)) a)))"

fun sub_loop :: "limbs \<Rightarrow> limbs \<Rightarrow> u64 \<Rightarrow> limbs \<times> u64" where
  "sub_loop [] b borrow = ([], borrow)"
| "sub_loop (slot # a) b borrow =
    (let bv = (case b of [] \<Rightarrow> 0 | bv # _ \<Rightarrow> bv);
         s = ucast bv + borrow;
         (a', borrow') = sub_loop a (tl b) (if ucast slot < s then 1 else 0)
     in (ucast (ucast slot - s :: u64) # a', borrow'))"

definition sub_limbs_in_place :: "limbs \<Rightarrow> limbs \<Rightarrow> limbs \<times> u32" where
  "sub_limbs_in_place a b = (let (a', borrow) = sub_loop a b 0 in (trim_limbs a', ucast borrow))"

definition leading_zeros :: "u32 \<Rightarrow> nat" where
  "leading_zeros w = length (takeWhile (\<lambda>i. \<not> bit w i) (rev [0..<32]))"

definition rem_step :: "limbs \<Rightarrow> limbs \<Rightarrow> limbs \<Rightarrow> nat \<Rightarrow> limbs" where
  "rem_step r m acc i =
    (let acc = shl_limbs acc 1;
         acc = (if bit_at r i then (case acc of [] \<Rightarrow> [] | low # t \<Rightarrow> (low OR 1) # t) else acc)
     in if cmp_limbs acc m \<noteq> Less then fst (sub_limbs_in_place acc m) else acc)"

definition mod_rem :: "limbs \<Rightarrow> limbs \<Rightarrow> limbs" where
  "mod_rem a m =
    (let a_len = trim_len a; m_len = trim_len m in
     if a_len = 0 \<or> m_len = 0 \<or> list_all (\<lambda>w. w = 0) (take m_len m) then [0]
     else let r = take a_len a; lead = leading_zeros (last r) in
       trim_limbs (foldl (rem_step r m) [0] (rev [0 ..< a_len * 32 - lead])))"

definition pow_step :: "limbs \<Rightarrow> limbs \<Rightarrow> limbs \<Rightarrow> bool \<Rightarrow> limbs" where
  "pow_step base m acc b =
    (let acc = mod_rem (mul_limbs acc acc) m in if b then mod_rem (mul_limbs acc base) m else acc)"

definition byte_bits :: "u8 \<Rightarrow> bool list" where
  "byte_bits b = map (\<lambda>i. drop_bit i b AND 1 = 1) (rev [0..<8])"

definition mod_pow :: "bytes \<Rightarrow> bytes \<Rightarrow> bytes \<Rightarrow> bytes" where
  "mod_pow base_be exp_be m_be =
    (let m = to_limbs_be m_be; base = mod_rem (to_limbs_be base_be) m in
     limbs_to_be_bytes (foldl (pow_step base m) [1] (concat (map byte_bits exp_be))))"

section \<open>Signatures\<close>

definition trim_leading_zeros :: "bytes \<Rightarrow> bytes" where
  "trim_leading_zeros bs = (let r = dropWhile (\<lambda>b. b = 0) bs in if r = [] then [0] else r)"

definition verify_em :: "bytes \<Rightarrow> usize \<Rightarrow> bytes \<Rightarrow> bool" where
  "verify_em em_be modulus_len digest =
    (if length em_be > modulus_len then False
     else let em = replicate (modulus_len - length em_be) 0 @ em_be in
       if length em < 11 \<or> get_at em 0 \<noteq> Some 0 \<or> get_at em 1 \<noteq> Some 1 then False
       else let i = 2 + length (takeWhile (\<lambda>b. b = 0xff) (drop 2 em)) in
         if i < 2 + 8 \<or> get_at em i \<noteq> Some 0 then False
         else case get_from em (i + 1) of
             None \<Rightarrow> False
           | Some body \<Rightarrow>
               if length body \<noteq> length DIGEST_INFO_SHA256 + 32 then False
               else take (length DIGEST_INFO_SHA256) body = DIGEST_INFO_SHA256
                    \<and> drop (length DIGEST_INFO_SHA256) body = digest)"

definition verify_pkcs1v15_sha256 :: "bytes \<Rightarrow> bytes \<Rightarrow> bytes \<Rightarrow> bool" where
  "verify_pkcs1v15_sha256 public_key digest signature =
    (case parse_dnskey_rsa public_key of
       None \<Rightarrow> False
     | Some (modulus, exponent) \<Rightarrow>
        (let trimmed = trim_leading_zeros modulus; em_be = mod_pow signature exponent trimmed
         in verify_em em_be (length trimmed) digest))"

definition constant_time_eq :: "bytes \<Rightarrow> bytes \<Rightarrow> bool" where
  "constant_time_eq a b =
    (if length a \<noteq> length b then False
     else foldl (\<lambda>diff (x, y). diff OR (x XOR y)) 0 (zip a b) = 0)"

end
