(* ===== verification/Rsa_Verify.thy ===== *)
theory Rsa_Verify
  imports Rsa_Correct
begin

text \<open>
  From limbs back to octet strings: modular exponentiation on big-endian octets, and the exact set of
  signatures \<^verbatim>\<open>verify_pkcs1v15_sha256\<close> accepts.
\<close>

section \<open>Octets and limbs\<close>

lemma push_octet:
  assumes "unat (acc :: u32) < 2 ^ 24"
  shows "unat (push_bit 8 acc OR ucast (b :: u8)) = 256 * unat acc + unat b"
proof -
  have b: "unat (ucast b :: u32) = unat b"
    by (simp add: unsigned_ucast_eq unsigned_take_bit_eq take_bit_nat_eq_self order_less_trans [OF unat_u8_less])
  have "push_bit 8 acc AND ucast b = 0"
    by (rule bit_word_eqI) (auto simp: bit_simps dest: bit_imp_le_length)
  then have "unat (push_bit 8 acc OR ucast b) = unat (push_bit 8 acc) + unat b"
    using b by (simp add: unat_or_disjoint)
  also have "unat (push_bit 8 acc) = 256 * unat acc"
    using assms by (simp only: unsigned_push_bit_eq) (simp add: push_bit_eq_mult take_bit_eq_mod)
  finally show ?thesis .
qed

lemma group_val:
  "length bs \<le> 4 \<Longrightarrow> unat (acc :: u32) < 256 ^ (4 - length bs) \<Longrightarrow>
   unat (foldl (\<lambda>v b. push_bit 8 v OR ucast b) acc bs) = unat acc * 256 ^ length bs + be_val bs"
proof (induction bs arbitrary: acc)
  case (Cons b bs)
  have "(256 :: nat) ^ (4 - length (b # bs)) \<le> 256 ^ 3" by (rule power_increasing) auto
  with Cons.prems(2) have "unat acc < 2 ^ 24" by simp
  then have s: "unat (push_bit 8 acc OR ucast b) = 256 * unat acc + unat b" by (rule push_octet)
  have "4 - length bs = Suc (4 - length (b # bs))" using Cons.prems(1) by simp
  then have "unat (push_bit 8 acc OR ucast b) < 256 ^ (4 - length bs)"
    using Cons.prems(2) unat_u8_less [of b] unfolding s by (simp del: diff_Suc_Suc)
  with Cons.IH [of "push_bit 8 acc OR ucast b"] Cons.prems(1) show ?case
    by (simp add: s algebra_simps)
qed simp

lemma rchunks4_val: "limbs_val (map (foldl (\<lambda>v b. push_bit 8 v OR ucast b) 0) (rchunks4 bs)) = be_val bs"
proof (induction bs rule: rchunks4.induct)
  case (1 bs)
  show ?case
  proof (cases "bs = []")
    case True
    then show ?thesis by (simp add: rchunks4.simps)
  next
    case False
    let ?r = "take (length bs - 4) bs" and ?c = "drop (length bs - 4) bs"
    have g: "unat (foldl (\<lambda>v b. push_bit 8 v OR ucast b) 0 ?c :: u32) = be_val ?c"
      using group_val [of ?c 0] by simp
    have "be_val bs = be_val ?r * 256 ^ length ?c + be_val ?c"
      using be_val_append [of ?r ?c] by simp
    also have "be_val ?r * 256 ^ length ?c = be_val ?r * 2 ^ 32"
      by (cases "4 \<le> length bs") simp_all
    finally show ?thesis using 1 [OF False] False g by (subst rchunks4.simps) simp
  qed
qed

lemma to_limbs_be_val [simp]: "limbs_val (to_limbs_be bs) = be_val bs" "to_limbs_be bs \<noteq> []"
proof -
  show "limbs_val (to_limbs_be bs) = be_val bs"
    using rchunks4_val [of bs] by (auto simp: to_limbs_be_def Let_def)
qed (simp add: to_limbs_be_def Let_def)

lemma be_val_to_be_bytes: "be_val (to_be_bytes 4 (w :: u32)) = unat w"
  using group_val [of "to_be_bytes 4 w" 0] from_to_be_bytes_32 [of w] by (simp add: from_be_bytes_def)

lemma be_val_limbs: "be_val (concat (map (to_be_bytes 4) (rev ls))) = limbs_val ls"
  by (induction ls) (simp_all add: be_val_append be_val_to_be_bytes)

lemma be_val_dropWhile [simp]: "be_val (dropWhile (\<lambda>b. b = 0) bs) = be_val bs"
  by (induction bs) auto

lemma limbs_to_be_bytes_val: "be_val (limbs_to_be_bytes ls) = limbs_val ls"
proof -
  have "be_val (if bs = [] then [0] else bs) = be_val bs" for bs by simp
  then show ?thesis unfolding limbs_to_be_bytes_def Let_def by (simp only: be_val_dropWhile be_val_limbs)
qed

lemma limbs_to_be_bytes_short:
  assumes "limbs_val ls < 256 ^ n" and "0 < n"
  shows "length (limbs_to_be_bytes ls) \<le> n"
proof (cases "limbs_to_be_bytes ls")
  case (Cons b bs)
  show ?thesis
  proof (cases "b = 0")
    case True
    have "hd (dropWhile (\<lambda>b. b = 0) xs) \<noteq> (0 :: u8)" if "dropWhile (\<lambda>b. b = 0) xs \<noteq> []" for xs
      using that by (rule hd_dropWhile)
    with True Cons have "bs = []" unfolding limbs_to_be_bytes_def Let_def by (metis list.inject list.sel(1))
    with Cons assms(2) show ?thesis by simp
  next
    case False
    then have "1 \<le> unat b" by (simp add: Suc_le_eq unat_gt_0)
    then have "1 * 256 ^ length bs \<le> unat b * 256 ^ length bs" by (rule mult_right_mono) simp
    moreover have "unat b * 256 ^ length bs + be_val bs = limbs_val ls"
      using limbs_to_be_bytes_val [of ls] unfolding Cons by simp
    ultimately have "256 ^ length bs \<le> limbs_val ls" by linarith
    with assms(1) have "(256 :: nat) ^ length bs < 256 ^ n" by (rule order_le_less_trans [rotated])
    then show ?thesis unfolding Cons by simp
  qed
qed (use assms in simp)

section \<open>Modular exponentiation\<close>

definition bits_val :: "bool list \<Rightarrow> nat" where
  "bits_val bs = foldl (\<lambda>v b. 2 * v + of_bool b) 0 bs"

lemma bits_val_snoc: "bits_val (bs @ [b]) = 2 * bits_val bs + of_bool b"
  by (simp add: bits_val_def)

lemma bits_val_append: "bits_val (a @ b) = bits_val a * 2 ^ length b + bits_val b"
proof (induction b rule: rev_induct)
  case (snoc x b)
  have "bits_val (a @ b @ [x]) = 2 * bits_val (a @ b) + of_bool x" using bits_val_snoc [of "a @ b" x] by simp
  with snoc show ?case by (simp add: bits_val_snoc)
qed (simp add: bits_val_def)

lemma bits_val_take_bit: "bits_val (map (bit (w :: nat)) (rev [0..<n])) = take_bit n w"
proof (induction n)
  case (Suc n)
  then show ?case using bits_val_append [of "[bit w n]" "map (bit w) (rev [0..<n])"]
    by (simp add: take_bit_Suc_from_most bits_val_def [of "[_]"])
qed (simp add: bits_val_def)

lemma byte_bits_val: "bits_val (byte_bits b) = unat b" "length (byte_bits b) = 8"
proof -
  have "byte_bits b = map (bit (unat b)) (rev [0..<8])"
    by (auto simp: byte_bits_def and_one_eq mod_2_eq_odd bit_iff_odd_drop_bit [symmetric] bit_unsigned_iff)
  then show "bits_val (byte_bits b) = unat b"
    using unat_u8_less [of b] by (simp only: bits_val_take_bit) (simp add: take_bit_nat_eq_self)
  show "length (byte_bits b) = 8" by (simp add: byte_bits_def)
qed

lemma exponent_bits_length: "length (concat (map byte_bits bs)) = 8 * length bs"
  by (induction bs) (simp_all add: byte_bits_val)

lemma exponent_bits: "bits_val (concat (map byte_bits bs)) = be_val bs"
proof (induction bs)
  case (Cons b bs)
  have "(2 :: nat) ^ (8 * length bs) = 256 ^ length bs" by (simp add: power_mult)
  with Cons show ?case by (simp add: bits_val_append byte_bits_val exponent_bits_length)
qed (simp add: bits_val_def)

lemma pow_step_val:
  assumes "acc \<noteq> []" and "base \<noteq> []" and "0 < limbs_val m"
  shows "limbs_val (pow_step base m acc b) = limbs_val acc ^ 2 * limbs_val base ^ of_bool b mod limbs_val m"
    and "pow_step base m acc b \<noteq> []"
proof -
  let ?sq = "mod_rem (mul_limbs acc acc) m"
  have sq: "limbs_val ?sq = limbs_val acc ^ 2 mod limbs_val m" "?sq \<noteq> []"
    using mod_rem_val [OF mul_limbs_nonempty [OF assms(1)] assms(3)] by (simp_all add: mul_limbs_val power2_eq_square)
  have mb: "limbs_val (mod_rem (mul_limbs ?sq base) m) = limbs_val acc ^ 2 * limbs_val base mod limbs_val m"
    "mod_rem (mul_limbs ?sq base) m \<noteq> []"
    using mod_rem_val [OF mul_limbs_nonempty [OF sq(2)] assms(3)] by (simp_all add: mul_limbs_val sq(1) mod_simps)
  show "limbs_val (pow_step base m acc b) = limbs_val acc ^ 2 * limbs_val base ^ of_bool b mod limbs_val m"
    by (cases b) (simp_all add: pow_step_def sq(1) mb(1))
  show "pow_step base m acc b \<noteq> []" using sq(2) mb(2) by (simp add: pow_step_def Let_def)
qed

lemma pow_fold_val:
  assumes "base \<noteq> []" and "0 < limbs_val m" and "limbs_val base = x mod limbs_val m"
  shows "foldl (pow_step base m) [1] bits \<noteq> []
    \<and> limbs_val (foldl (pow_step base m) [1] bits) mod limbs_val m = x ^ bits_val bits mod limbs_val m
    \<and> (bits \<noteq> [] \<longrightarrow> limbs_val (foldl (pow_step base m) [1] bits) < limbs_val m)"
proof (induction bits rule: rev_induct)
  case (snoc b bits)
  let ?acc = "foldl (pow_step base m) [1] bits" and ?m = "limbs_val m"
  have ne: "?acc \<noteq> []" and ih: "limbs_val ?acc mod ?m = x ^ bits_val bits mod ?m" using snoc by auto
  note step = pow_step_val [OF ne assms(1,2), of b]
  have "limbs_val (pow_step base m ?acc b) = (limbs_val ?acc mod ?m) ^ 2 * (x mod ?m) ^ of_bool b mod ?m"
    unfolding step(1) assms(3) by (rule mod_mult_cong) (simp_all add: power_mod)
  also have "\<dots> = (x ^ bits_val bits) ^ 2 * x ^ of_bool b mod ?m" unfolding ih
    by (rule mod_mult_cong) (simp_all add: power_mod)
  also have "\<dots> = x ^ bits_val (bits @ [b]) mod ?m"
    unfolding bits_val_snoc by (simp add: power_add power_mult [symmetric] mult.commute)
  finally show ?case using step assms(2) by simp
qed (simp add: bits_val_def)

theorem mod_pow_val:
  assumes "0 < be_val m" and "e \<noteq> []"
  shows "be_val (mod_pow b e m) = be_val b ^ be_val e mod be_val m"
    and "0 < n \<Longrightarrow> be_val m \<le> 256 ^ n \<Longrightarrow> length (mod_pow b e m) \<le> n"
proof -
  let ?m = "to_limbs_be m" and ?bits = "concat (map byte_bits e)"
  let ?base = "mod_rem (to_limbs_be b) ?m"
  let ?r = "foldl (pow_step ?base ?m) [1] ?bits"
  have pos: "0 < limbs_val ?m" using assms(1) by simp
  note base = mod_rem_val [OF to_limbs_be_val(2) pos, of b]
  have "?bits \<noteq> []" using exponent_bits_length [of e] assms(2) by (metis length_0_conv mult_is_0 zero_neq_numeral)
  with pow_fold_val [OF base(2) pos, of "be_val b" ?bits] base(1)
  have lt: "limbs_val ?r < be_val m" and eq: "limbs_val ?r mod be_val m = be_val b ^ be_val e mod be_val m"
    by (simp_all add: exponent_bits)
  have r: "limbs_val ?r = be_val b ^ be_val e mod be_val m" using eq lt by simp
  have mp: "mod_pow b e m = limbs_to_be_bytes ?r" by (simp add: mod_pow_def Let_def)
  show "be_val (mod_pow b e m) = be_val b ^ be_val e mod be_val m" unfolding mp limbs_to_be_bytes_val r ..
  show "length (mod_pow b e m) \<le> n" if "0 < n" "be_val m \<le> 256 ^ n"
    unfolding mp using lt that by (intro limbs_to_be_bytes_short) auto
qed

section \<open>The encoded message\<close>

definition encoded_message :: "nat \<Rightarrow> bytes \<Rightarrow> bytes" where
  "encoded_message pad digest = 0 # 1 # replicate pad 0xff @ 0 # DIGEST_INFO_SHA256 @ digest"

lemma length_encoded: "length (encoded_message pad digest) = pad + 3 + 19 + length digest"
  by (simp add: encoded_message_def DIGEST_INFO_SHA256_def)

lemma takeWhile_ones:
  "takeWhile (\<lambda>b. b = 0xff) (replicate p (0xff :: u8) @ 0 # t) = replicate p 0xff"
  by (induction p) simp_all

lemma takeWhile_split:
  assumes "takeWhile (\<lambda>b. b = 0xff) xs = (ys :: u8 list)" and "length ys < length xs" and "xs ! length ys = 0"
  shows "xs = replicate (length ys) 0xff @ 0 # drop (Suc (length ys)) xs"
proof -
  have "ys = replicate (length ys) 0xff"
    using assms(1) by (auto intro!: replicate_length_same [symmetric] dest: set_takeWhileD)
  moreover have "take (length ys) xs = ys" using assms(1) takeWhile_eq_take by metis
  ultimately show ?thesis using assms(2,3) id_take_nth_drop [OF assms(2)] by simp
qed

lemma verify_em_iff:
  assumes "length digest = 32"
  shows "verify_em em k digest \<longleftrightarrow> length em \<le> k \<and>
    (\<exists>pad. 8 \<le> pad \<and> replicate (k - length em) 0 @ em = encoded_message pad digest)"
proof (cases "length em \<le> k")
  case True
  let ?em = "replicate (k - length em) 0 @ em"
  have "verify_em em k digest \<longleftrightarrow> (\<exists>pad. 8 \<le> pad \<and> ?em = encoded_message pad digest)"
  proof
    assume "\<exists>pad. 8 \<le> pad \<and> ?em = encoded_message pad digest"
    then obtain pad where "8 \<le> pad" and e: "?em = encoded_message pad digest" by blast
    moreover have "drop 2 (encoded_message pad digest) = replicate pad 0xff @ 0 # DIGEST_INFO_SHA256 @ digest"
      by (simp add: encoded_message_def)
    ultimately show "verify_em em k digest"
      using True assms unfolding verify_em_def Let_def e
      by (simp add: length_encoded takeWhile_ones)
        (simp add: encoded_message_def get_at_def get_from_def nth_append)
  next
    assume v: "verify_em em k digest"
    define E where "E = ?em"
    let ?t = "takeWhile (\<lambda>b. b = 0xff) (drop 2 E)"
    have e: "11 \<le> length E" "get_at E 0 = Some 0" "get_at E 1 = Some 1" "8 \<le> length ?t" "get_at E (2 + length ?t) = Some 0"
      and b: "\<exists>body. get_from E (2 + length ?t + 1) = Some body \<and> length body = length DIGEST_INFO_SHA256 + 32 \<and>
        take (length DIGEST_INFO_SHA256) body = DIGEST_INFO_SHA256 \<and> drop (length DIGEST_INFO_SHA256) body = digest"
      using v True unfolding verify_em_def E_def [symmetric] by (auto simp: Let_def split: if_splits option.splits)
    obtain body where g: "get_from E (2 + length ?t + 1) = Some body"
      and "take (length DIGEST_INFO_SHA256) body = DIGEST_INFO_SHA256" "drop (length DIGEST_INFO_SHA256) body = digest"
      using b by blast
    then have body: "drop (2 + length ?t + 1) E = body" "body = DIGEST_INFO_SHA256 @ digest"
      using append_take_drop_id [of "length DIGEST_INFO_SHA256" body] by (auto simp: get_from_def split: if_splits)
    have "drop 2 E = replicate (length ?t) 0xff @ 0 # drop (Suc (length ?t)) (drop 2 E)"
      using e(5) by (intro takeWhile_split) (auto simp: get_at_def split: if_splits)
    moreover have "drop (Suc (length ?t)) (drop 2 E) = body" using body(1) by simp
    moreover have "E = 0 # 1 # drop 2 E"
      using e(1,2,3) by (cases E; cases "tl E") (auto simp: get_at_def split: if_splits)
    ultimately have "E = encoded_message (length ?t) digest" unfolding encoded_message_def body(2) by metis
    with e(4) show "\<exists>pad. 8 \<le> pad \<and> ?em = encoded_message pad digest" unfolding E_def by blast
  qed
  with True show ?thesis by simp
qed (simp add: verify_em_def)

lemma be_val_padded: "be_val (replicate n 0 @ bs) = be_val bs"
  by (simp add: be_val_append)

lemma be_val_trim [simp]: "be_val (trim_leading_zeros bs) = be_val bs"
proof -
  have "be_val (if xs = [] then [0] else xs) = be_val xs" for xs by simp
  then show ?thesis unfolding trim_leading_zeros_def Let_def by (simp only: be_val_dropWhile)
qed

lemma trim_leading_zeros_pos:
  assumes "1 < length (trim_leading_zeros bs)"
  shows "0 < be_val bs"
proof -
  let ?d = "dropWhile (\<lambda>b. b = 0) bs"
  have ne: "?d \<noteq> []" and d: "trim_leading_zeros bs = ?d" using assms by (auto simp: trim_leading_zeros_def Let_def split: if_splits)
  then have "hd ?d \<noteq> 0" using hd_dropWhile [of "\<lambda>b. b = 0" bs] by simp
  then have "0 < unat (hd ?d)" by (simp add: unat_gt_0)
  moreover have "be_val ?d = unat (hd ?d) * 256 ^ length (tl ?d) + be_val (tl ?d)" using ne by (cases ?d) auto
  ultimately show ?thesis by simp
qed

lemma parse_dnskey_exponent: "parse_dnskey_rsa key = Some (modulus, exponent) \<Longrightarrow> exponent \<noteq> []"
  by (auto simp: parse_dnskey_rsa_def get_range_def checked_add_def split: option.splits list.splits if_splits)

theorem verify_pkcs1v15_iff:
  assumes "length digest = 32"
  shows "verify_pkcs1v15_sha256 key digest signature \<longleftrightarrow>
    (\<exists>modulus exponent pad. parse_dnskey_rsa key = Some (modulus, exponent) \<and> 8 \<le> pad
      \<and> length (trim_leading_zeros modulus) = length (encoded_message pad digest)
      \<and> be_val signature ^ be_val exponent mod be_val modulus = be_val (encoded_message pad digest))"
proof (cases "parse_dnskey_rsa key")
  case (Some me)
  then obtain modulus exponent where p: "parse_dnskey_rsa key = Some (modulus, exponent)" by (cases me) auto
  note e = parse_dnskey_exponent [OF p]
  let ?m = "trim_leading_zeros modulus" let ?k = "length ?m" let ?em = "mod_pow signature exponent ?m"
  have verify: "verify_pkcs1v15_sha256 key digest signature = verify_em ?em ?k digest"
    by (simp add: verify_pkcs1v15_sha256_def p Let_def)
  have k: "be_val ?m \<le> 256 ^ ?k" using be_val_less [of ?m] by simp
  have pos: "0 < be_val ?m \<and> 0 < ?k" if "?k = length (encoded_message pad digest)" for pad
    using trim_leading_zeros_pos [of modulus] that length_encoded [of pad digest] by simp
  have val: "be_val ?em = be_val signature ^ be_val exponent mod be_val modulus \<and> length ?em \<le> ?k"
    if "?k = length (encoded_message pad digest)" for pad
    using mod_pow_val [OF pos [OF that, THEN conjunct1] e] pos [OF that] k by simp
  have eq: "(length ?em \<le> ?k \<and> replicate (?k - length ?em) 0 @ ?em = encoded_message pad digest) \<longleftrightarrow>
      ?k = length (encoded_message pad digest) \<and>
      be_val signature ^ be_val exponent mod be_val modulus = be_val (encoded_message pad digest)" for pad
  proof (cases "?k = length (encoded_message pad digest)")
    case True
    note v = val [OF True]
    have "replicate (?k - length ?em) 0 @ ?em = encoded_message pad digest
        \<longleftrightarrow> be_val (replicate (?k - length ?em) 0 @ ?em) = be_val (encoded_message pad digest)"
      using v True by (auto intro!: be_val_inj)
    with v True show ?thesis by (simp add: be_val_padded)
  next
    case False
    then show ?thesis by (auto dest: arg_cong [where f = length])
  qed
  show ?thesis unfolding verify verify_em_iff [OF assms] using eq p by auto
qed (simp add: verify_pkcs1v15_sha256_def)

lemma constant_time_eq_iff: "constant_time_eq a b \<longleftrightarrow> a = b"
proof -
  have "foldl (\<lambda>diff (x, y). diff OR (x XOR y)) d (zip a b) = 0 \<longleftrightarrow> d = 0 \<and> a = b"
    if "length a = length b" for d :: u8
    using that
  proof (induction a b arbitrary: d rule: list_induct2)
    case (Cons x xs y ys)
    have "d OR (x XOR y) = 0 \<longleftrightarrow> d = 0 \<and> x = y"
      by (auto simp: bit_eq_iff bit_simps)
    with Cons show ?case by auto
  qed simp
  then show ?thesis by (auto simp: constant_time_eq_def)
qed

end
