(* ===== verification/Cache_Key.thy ===== *)
theory Cache_Key
  imports Message "HOL-Library.Product_Lexorder" "HOL-Library.Option_ord"
begin

text \<open>
  The identity of cached data: the client-subnet partitions and cache keys of \<^verbatim>\<open>src/src/cache/mod.rs\<close> and
  the query keys of \<^verbatim>\<open>src/src/query.rs\<close>.  The theory shows which clients share a partition: exactly those
  whose networks agree on the bits of the scope.
\<close>

section \<open>Client-subnet partitions\<close>

datatype ecs_key = EcsKey (ek_family: u16) (ek_prefix: u8) (ek_addr: bytes)

definition truncate_to :: "bytes \<Rightarrow> u8 \<Rightarrow> bytes" where
  "truncate_to addr bits =
    (let len = div_ceil (unat bits) 8;
         out = zip_copy (replicate len 0) addr;
         rem = bits mod 8
     in if rem \<noteq> 0 then
          (case get_at out (len - 1) of
             Some byte \<Rightarrow> out[len - 1 := byte AND push_bit (unat (8 - rem)) 0xff]
           | None \<Rightarrow> out)
        else out)"

definition from_ecs :: "ecs \<Rightarrow> ecs_key option" where
  "from_ecs e =
    (if ecs_family e = 0 \<or> source_prefix e = 0 then None
     else Some (EcsKey (ecs_family e) (source_prefix e) (truncate_to (ecs_address e) (source_prefix e))))"

definition with_scope :: "ecs_key \<Rightarrow> u8 \<Rightarrow> ecs_key option" where
  "with_scope k scope =
    (let scope = min scope (ek_prefix k) in
     if scope = 0 then None else Some (EcsKey (ek_family k) scope (truncate_to (ek_addr k) scope)))"

definition effective_scope :: "ecs_key \<Rightarrow> u8 \<Rightarrow> u8" where
  "effective_scope k response_scope = min response_scope (ek_prefix k)"

definition answer_partition :: "ecs_key option \<Rightarrow> u8 option \<Rightarrow> ecs_key option" where
  "answer_partition query_ecs response_scope = (case query_ecs of
      None \<Rightarrow> None
    | Some k \<Rightarrow> with_scope k (effective_scope k (case response_scope of None \<Rightarrow> 0 | Some s \<Rightarrow> s)))"

section \<open>Cache keys\<close>

datatype cache_key = CacheKey (ck_name: name) (ck_type: rr_type) (ck_class: rr_class) (ck_ecs: "ecs_key option")

definition cache_key_plain :: "name \<Rightarrow> rr_type \<Rightarrow> rr_class \<Rightarrow> cache_key" where
  "cache_key_plain n t c = CacheKey n t c None"

definition with_type :: "cache_key \<Rightarrow> rr_type \<Rightarrow> cache_key" where
  "with_type k t = CacheKey (ck_name k) t (ck_class k) (ck_ecs k)"

definition with_ecs :: "cache_key \<Rightarrow> ecs_key option \<Rightarrow> cache_key" where
  "with_ecs k e = CacheKey (ck_name k) (ck_type k) (ck_class k) e"

definition is_ecs :: "cache_key \<Rightarrow> bool" where
  "is_ecs k \<longleftrightarrow> ck_ecs k \<noteq> None"

text \<open>\<^verbatim>\<open>#[derive(PartialOrd, Ord)]\<close>: the fields in order, lexicographically.\<close>

instantiation rr_class :: linorder
begin

definition less_eq_rr_class :: "rr_class \<Rightarrow> rr_class \<Rightarrow> bool" where
  "less_eq_rr_class a b \<longleftrightarrow> rr_class_to_u16 a \<le> rr_class_to_u16 b"

definition less_rr_class :: "rr_class \<Rightarrow> rr_class \<Rightarrow> bool" where
  "less_rr_class a b \<longleftrightarrow> rr_class_to_u16 a < rr_class_to_u16 b"

instance
  by standard (auto simp: less_eq_rr_class_def less_rr_class_def rr_class.expand)

end

definition ecs_key_fields :: "ecs_key \<Rightarrow> u16 \<times> u8 \<times> bytes" where
  "ecs_key_fields k = (ek_family k, ek_prefix k, ek_addr k)"

lemma ecs_key_fields_inj: "ecs_key_fields a = ecs_key_fields b \<longleftrightarrow> a = b"
  by (auto simp: ecs_key_fields_def intro: ecs_key.expand)

instantiation ecs_key :: linorder
begin

definition less_eq_ecs_key :: "ecs_key \<Rightarrow> ecs_key \<Rightarrow> bool" where
  "less_eq_ecs_key a b \<longleftrightarrow> ecs_key_fields a \<le> ecs_key_fields b"

definition less_ecs_key :: "ecs_key \<Rightarrow> ecs_key \<Rightarrow> bool" where
  "less_ecs_key a b \<longleftrightarrow> ecs_key_fields a < ecs_key_fields b"

instance
  by standard (auto simp: less_eq_ecs_key_def less_ecs_key_def ecs_key_fields_inj dest: order_antisym)

end

definition cache_key_fields :: "cache_key \<Rightarrow> name \<times> rr_type \<times> rr_class \<times> ecs_key option" where
  "cache_key_fields k = (ck_name k, ck_type k, ck_class k, ck_ecs k)"

lemma cache_key_fields_inj: "cache_key_fields a = cache_key_fields b \<longleftrightarrow> a = b"
  by (auto simp: cache_key_fields_def intro: cache_key.expand)

instantiation cache_key :: linorder
begin

definition less_eq_cache_key :: "cache_key \<Rightarrow> cache_key \<Rightarrow> bool" where
  "less_eq_cache_key a b \<longleftrightarrow> cache_key_fields a \<le> cache_key_fields b"

definition less_cache_key :: "cache_key \<Rightarrow> cache_key \<Rightarrow> bool" where
  "less_cache_key a b \<longleftrightarrow> cache_key_fields a < cache_key_fields b"

instance
  by standard (auto simp: less_eq_cache_key_def less_cache_key_def cache_key_fields_inj dest: order_antisym)

end

section \<open>Query keys\<close>

record query_key =
  qk_name :: name
  qk_type :: rr_type
  qk_class :: rr_class
  qk_ecs :: "ecs_key option"
  want_dnssec :: bool
  qk_cd :: bool

definition query_key_from_message :: "message \<Rightarrow> query_key option" where
  "query_key_from_message m = (case message_question m of
      None \<Rightarrow> None
    | Some q \<Rightarrow> Some \<lparr>qk_name = qname q, qk_type = qtype q, qk_class = qclass q,
        qk_ecs = Option.bind (Option.bind (msg_edns m) edns_ecs) from_ecs,
        want_dnssec = (case msg_edns m of Some e \<Rightarrow> dnssec_ok e | None \<Rightarrow> False),
        qk_cd = hf_cd (msg_flags m)\<rparr>)"

definition query_cache_key :: "query_key \<Rightarrow> cache_key" where
  "query_cache_key q = CacheKey (qk_name q) (qk_type q) (qk_class q) (qk_ecs q)"

definition ecs_option :: "query_key \<Rightarrow> ecs option" where
  "ecs_option q = (case qk_ecs q of
      None \<Rightarrow> None
    | Some k \<Rightarrow> Some \<lparr>ecs_family = ek_family k, source_prefix = ek_prefix k, scope_prefix = 0, ecs_address = ek_addr k\<rparr>)"

definition response_matches_query :: "message \<Rightarrow> message \<Rightarrow> bool" where
  "response_matches_query query response =
    (if msg_id query \<noteq> msg_id response then False
     else case (message_question query, message_question response) of
         (Some qq, Some rq) \<Rightarrow>
           if qtype rq \<noteq> qtype qq \<or> qclass rq \<noteq> qclass qq then False
           else if name_bytes (qname rq) = name_bytes (qname qq) then True
           else name_canonical (qname rq) = name_canonical (qname qq)
       | _ \<Rightarrow> False)"

section \<open>What a partition means\<close>

text \<open>The \<open>n\<close>-th bit of a network address, in network order; absent octets are zero.\<close>

definition net_bit :: "bytes \<Rightarrow> nat \<Rightarrow> bool" where
  "net_bit addr n \<longleftrightarrow> n div 8 < length addr \<and> bit (addr ! (n div 8)) (7 - n mod 8)"

lemma mask_last_update: "bs \<noteq> [] \<Longrightarrow> mask_last m bs = bs[length bs - 1 := bs ! (length bs - 1) AND m]"
  by (cases bs rule: rev_cases) (simp_all add: mask_last_def)

lemma truncate_to_ecs_mask: "truncate_to addr bits = ecs_mask addr bits"
proof (cases "bits mod 8 = 0")
  case False
  let ?n = "div_ceil (unat bits) 8" let ?out = "zip_copy (replicate ?n 0) addr"
  have r: "unat (bits mod 8) = unat bits mod 8" by (simp add: unat_mod)
  then have "unat (8 - bits mod 8) = 8 - unat (bits mod 8)" by (subst unat_sub) (simp_all add: word_le_nat_alt)
  then have m: "push_bit (unat (8 - bits mod 8)) 0xff = prefix_mask (bits mod 8)" by (simp add: prefix_mask_def)
  from r False have "0 < unat bits mod 8" by (metis gr0I unat_eq_zero)
  then have n: "0 < ?n" by (simp add: div_ceil_8 ceil_8)
  have len: "length ?out = ?n" by simp
  then have ne: "?out \<noteq> []" and "get_at ?out (?n - 1) = Some (?out ! (?n - 1))"
    using n by (auto simp: get_at_def simp flip: length_greater_0_conv)
  with False show ?thesis
    by (simp only: truncate_to_def ecs_mask_def Let_def m option.case if_True mask_last_update [OF ne] len)
next
  case True
  then show ?thesis by (simp add: truncate_to_def ecs_mask_def Let_def)
qed

lemma bit_masked:
  assumes "i < div_ceil (unat pre) 8" and "j < 8"
  shows "bit (ecs_mask addr pre ! i) j \<longleftrightarrow> i < length addr \<and> bit (addr ! i) j \<and> 8 * i + (7 - j) < unat pre"
proof -
  let ?n = "div_ceil (unat pre) 8" let ?a = "zip_copy (replicate ?n 0) addr"
  have "zip_copy (replicate ?n 0) ?a = ?a" by (rule nth_equalityI) (simp_all add: length_zip_copy nth_zip_copy)
  then have "ecs_mask addr pre = ecs_mask ?a pre" by (simp add: ecs_mask_def Let_def)
  with bit_ecs_mask [of i pre ?a j] assms show ?thesis by (auto simp: length_zip_copy nth_zip_copy)
qed

lemma net_bit_truncate: "net_bit (truncate_to addr s) n \<longleftrightarrow> n < unat s \<and> net_bit addr n"
proof (cases "n div 8 < div_ceil (unat s) 8")
  case True
  have "n mod 8 < 8" by simp
  then have "7 - (7 - n mod 8) = n mod 8" by linarith
  then have n: "8 * (n div 8) + (7 - (7 - n mod 8)) = n" by simp
  show ?thesis using bit_masked [OF True, of "7 - n mod 8" addr] True
    unfolding n by (auto simp: net_bit_def truncate_to_ecs_mask length_ecs_mask)
next
  case False
  then have "unat s \<le> n" unfolding div_ceil_8 by linarith
  with False show ?thesis by (simp add: net_bit_def truncate_to_ecs_mask length_ecs_mask)
qed

lemma bytes_eq_bits:
  assumes "length a = length b" and "\<And>n. net_bit a n = net_bit b n"
  shows "a = b"
proof (rule nth_equalityI)
  fix i assume i: "i < length a"
  show "a ! i = b ! i"
  proof (rule bit_word_eqI)
    fix j assume "j < LENGTH(8)"
    then have j: "7 - j < 8" "7 - (7 - j) = j" by simp_all
    then have "(8 * i + (7 - j)) mod 8 = 7 - j" by (metis mod_less mod_mult_self4)
    with j have d: "(8 * i + (7 - j)) div 8 = i" "7 - (8 * i + (7 - j)) mod 8 = j" by simp_all
    show "bit (a ! i) j = bit (b ! i) j" using assms(2) [of "8 * i + (7 - j)"] i assms(1) unfolding net_bit_def d by simp
  qed
qed (rule assms)

lemma truncate_eq_iff: "truncate_to a s = truncate_to b s \<longleftrightarrow> (\<forall>n < unat s. net_bit a n = net_bit b n)"
proof
  assume "truncate_to a s = truncate_to b s"
  then show "\<forall>n < unat s. net_bit a n = net_bit b n" using net_bit_truncate by metis
next
  assume "\<forall>n < unat s. net_bit a n = net_bit b n"
  then show "truncate_to a s = truncate_to b s"
    by (intro bytes_eq_bits) (auto simp: net_bit_truncate truncate_to_ecs_mask [THEN arg_cong [where f = length]] length_ecs_mask)
qed

lemma truncate_truncate: "s \<le> t \<Longrightarrow> truncate_to (truncate_to a t) s = truncate_to a s"
  by (auto simp: truncate_eq_iff net_bit_truncate word_le_nat_alt)

lemma truncate_inj_scope: "truncate_to a s = truncate_to b t \<Longrightarrow> div_ceil (unat s) 8 = div_ceil (unat t) 8"
  by (metis length_ecs_mask truncate_to_ecs_mask)

text \<open>Two clients share the partition an answer of scope \<open>s\<close> is stored in iff they agree on its first \<open>s\<close> bits.\<close>

lemma answer_partition_shared:
  assumes "0 < s" and "s \<le> ek_prefix k" and "s \<le> ek_prefix k'"
  shows "answer_partition (Some k) (Some s) = answer_partition (Some k') (Some s) \<longleftrightarrow>
    ek_family k = ek_family k' \<and> (\<forall>n < unat s. net_bit (ek_addr k) n = net_bit (ek_addr k') n)"
  using assms by (auto simp: answer_partition_def with_scope_def effective_scope_def Let_def truncate_eq_iff min_def)

lemma with_scope_widen:
  assumes "with_scope k t = Some k'" and "s \<le> t"
  shows "with_scope k' s = with_scope k s"
  using assms by (auto simp: with_scope_def Let_def truncate_truncate min_def split: if_splits)

text \<open>The option sent upstream for a query is canonical and gives back the query's partition.\<close>

lemma ecs_option_roundtrip:
  assumes "query_key_from_message m = Some q" and "ecs_option q = Some e"
  shows "from_ecs e = qk_ecs q" and "ecs_canonical (ecs_address e) (source_prefix e)"
proof -
  obtain e' where "from_ecs e' = qk_ecs q" "qk_ecs q \<noteq> None"
    using assms by (auto simp: query_key_from_message_def ecs_option_def split: option.splits bind_splits)
  then have k: "qk_ecs q = Some (EcsKey (ecs_family e') (source_prefix e') (truncate_to (ecs_address e') (source_prefix e')))"
    "ecs_family e' \<noteq> 0" "source_prefix e' \<noteq> 0" by (auto simp: from_ecs_def split: if_splits)
  with assms(2) have e: "ecs_family e = ecs_family e'" "source_prefix e = source_prefix e'"
    "ecs_address e = truncate_to (ecs_address e') (source_prefix e')" by (auto simp: ecs_option_def)
  with k show "from_ecs e = qk_ecs q" by (simp add: from_ecs_def truncate_truncate)
  show "ecs_canonical (ecs_address e) (source_prefix e)"
    using e by (simp add: truncate_to_ecs_mask ecs_mask_canonical)
qed

end
