(* ===== verification/Alias.thy ===== *)
theory Alias
  imports Cache_Key Ordered_Map Clock Machine
begin

text \<open>
  \<^verbatim>\<open>src/src/alias.rs\<close>: the graph of alias dependencies between cached keys.  A \<^verbatim>\<open>BTreeSet\<close> is the ascending
  list of its elements (\<open>insort_insert\<close> is its insertion).  The theory shows that the two directions of the
  graph are converses in every reachable state, that the edge counter counts the edges and respects the
  cap, and that the breadth-first closure is reachability.
\<close>

section \<open>Definitions\<close>

record alias_config =
  max_edges :: usize
  prune_age_secs :: u64

definition alias_config_default :: alias_config where
  "alias_config_default = \<lparr>max_edges = 100000, prune_age_secs = 3600\<rparr>"

type_synonym adjacency = "(cache_key, cache_key list) btree"

record alias_graph =
  ag_config :: alias_config
  fwd :: adjacency
  rev_deps :: adjacency
  ag_seen :: "(cache_key, ts) btree"
  ag_edges :: usize

definition alias_new :: "alias_config \<Rightarrow> alias_graph" where
  "alias_new c = \<lparr>ag_config = c, fwd = [], rev_deps = [], ag_seen = [], ag_edges = 0\<rparr>"

definition neighbours :: "adjacency \<Rightarrow> cache_key \<Rightarrow> cache_key list" where
  "neighbours m k = (case btree_get m k of Some s \<Rightarrow> s | None \<Rightarrow> [])"

definition add_neighbour :: "cache_key \<Rightarrow> cache_key \<Rightarrow> adjacency \<Rightarrow> adjacency" where
  "add_neighbour k x m = btree_insert k (insort_insert x (neighbours m k)) m"

definition alias_link :: "cache_key \<Rightarrow> cache_key \<Rightarrow> ts \<Rightarrow> alias_graph \<Rightarrow> alias_graph" where
  "alias_link a target now g =
    (let g = g\<lparr>ag_seen := btree_insert target now (btree_insert a now (ag_seen g))\<rparr> in
     if (case btree_get (fwd g) a of Some s \<Rightarrow> target \<in> set s | None \<Rightarrow> False) then g
     else if ag_edges g \<ge> max_edges (ag_config g) then g
     else g\<lparr>fwd := add_neighbour a target (fwd g), rev_deps := add_neighbour target a (rev_deps g),
            ag_edges := ag_edges g + 1\<rparr>)"

definition dependents :: "alias_graph \<Rightarrow> cache_key \<Rightarrow> cache_key list" where
  "dependents g k = neighbours (rev_deps g) k"

definition depends_on :: "alias_graph \<Rightarrow> cache_key \<Rightarrow> cache_key list" where
  "depends_on g k = neighbours (fwd g) k"

fun visit :: "cache_key list \<Rightarrow> cache_key list \<times> cache_key list \<Rightarrow> cache_key list \<times> cache_key list" where
  "visit [] (seen, queue) = (seen, queue)"
| "visit (next # ns) (seen, queue) =
    (if next \<in> set seen then visit ns (seen, queue) else visit ns (insort next seen, queue @ [next]))"

lemma visit_length:
  "visit ns (seen, queue) = (seen', queue') \<Longrightarrow>
   (seen', queue') = (seen, queue) \<or> length seen < length seen'"
  by (induction ns "(seen, queue)" arbitrary: seen queue rule: visit.induct) (fastforce split: if_splits)+

function closure_loop :: "alias_graph \<Rightarrow> usize \<Rightarrow> cache_key list \<Rightarrow> cache_key list \<Rightarrow> cache_key list" where
  "closure_loop g mx seen [] = seen"
| "closure_loop g mx seen (cur # queue) =
    (if length seen \<ge> mx then seen
     else let (seen, queue) = visit (depends_on g cur) (seen, queue) in closure_loop g mx seen queue)"
  by pat_completeness auto
termination
proof (relation "measures [\<lambda>(g, mx, seen, queue). mx - length seen, \<lambda>(g, mx, seen, queue). length queue]")
  fix g mx seen cur queue r seen' queue'
  assume r: "\<not> mx \<le> length seen" "r = visit (depends_on g cur) (seen, queue)" "(seen', queue') = r"
  then have "(seen', queue') = (seen, queue) \<or> length seen < length seen'" by (intro visit_length) simp
  with r(1) show "((g, mx, seen', queue'), (g, mx, seen, cur # queue))
      \<in> measures [\<lambda>(g, mx, seen, queue). mx - length seen, \<lambda>(g, mx, seen, queue). length queue]" by auto
qed simp

definition alias_closure :: "alias_graph \<Rightarrow> cache_key \<Rightarrow> usize \<Rightarrow> cache_key list" where
  "alias_closure g k mx = closure_loop g mx [k] [k]"

definition prune_side :: "cache_key list \<Rightarrow> adjacency \<Rightarrow> adjacency" where
  "prune_side dead m =
    btree_retain (\<lambda>k v. k \<notin> set dead \<and> v \<noteq> [])
      (map (\<lambda>(k, deps). (k, if k \<notin> set dead then filter (\<lambda>d. d \<notin> set dead) deps else deps)) m)"

definition alias_prune :: "ts \<Rightarrow> u64 \<Rightarrow> alias_graph \<Rightarrow> alias_graph" where
  "alias_prune now min_age_secs g =
    (let age = (if min_age_secs = 0 then prune_age_secs (ag_config g) else min_age_secs);
         cutoff = saturating_sub now (uint age * 1000000000);
         dead = map fst (filter (\<lambda>(_, t). t < cutoff) (ag_seen g))
     in if dead = [] then g
        else let f = prune_side dead (fwd g)
             in g\<lparr>ag_seen := btree_retain (\<lambda>k _. k \<notin> set dead) (ag_seen g), fwd := f,
                  rev_deps := prune_side dead (rev_deps g), ag_edges := sum_list (map (length \<circ> snd) f)\<rparr>)"

definition key_count :: "alias_graph \<Rightarrow> usize" where
  "key_count g = length (remdups (map fst (fwd g) @ map fst (rev_deps g)))"

section \<open>Edges\<close>

definition edges_of :: "adjacency \<Rightarrow> (cache_key \<times> cache_key) set" where
  "edges_of m = {(a, t). t \<in> set (neighbours m a)}"

definition adjacency_ok :: "adjacency \<Rightarrow> bool" where
  "adjacency_ok m \<longleftrightarrow> btree_inv m \<and> (\<forall>s \<in> snd ` set m. sorted s \<and> distinct s \<and> s \<noteq> [])"

lemma neighbours_add: "neighbours (add_neighbour k x m) k' = (if k = k' then insort_insert x (neighbours m k) else neighbours m k')"
  by (simp add: neighbours_def add_neighbour_def)

lemma edges_add: "edges_of (add_neighbour k x m) = insert (k, x) (edges_of m)"
  by (auto simp: edges_of_def neighbours_add set_insort_insert split: if_splits)

lemma neighbours_ok: "adjacency_ok m \<Longrightarrow> sorted (neighbours m k) \<and> distinct (neighbours m k)"
  by (auto simp: adjacency_ok_def neighbours_def split: option.splits dest!: map_of_SomeD)

lemma insort_insert_nonempty: "insort_insert x s \<noteq> []"
  by (metis insertI1 list.set(1) empty_iff set_insort_insert)

lemma adjacency_add: "adjacency_ok m \<Longrightarrow> adjacency_ok (add_neighbour k x m)"
  using neighbours_ok [of m k] set_btree_insert [of k "insort_insert x (neighbours m k)" m]
  by (auto simp: adjacency_ok_def add_neighbour_def sorted_insort_insert distinct_insort_insert insort_insert_nonempty)

lemma edges_card: "adjacency_ok m \<Longrightarrow> card (edges_of m) = sum_list (map (length \<circ> snd) m) \<and> finite (edges_of m)"
proof (induction m)
  case Nil
  then show ?case by (simp add: edges_of_def neighbours_def)
next
  case (Cons e m)
  obtain k s where e: "e = (k, s)" by fastforce
  have ok: "adjacency_ok m" using Cons.prems by (simp add: adjacency_ok_def e)
  have k: "btree_get m k = None" using Cons.prems by (auto simp: adjacency_ok_def e map_of_eq_None_iff)
  then have n: "neighbours m k = []" by (simp add: neighbours_def)
  have "edges_of (e # m) = Pair k ` set s \<union> edges_of m"
    using k by (auto simp: edges_of_def neighbours_def e split: if_splits)
  moreover have "Pair k ` set s \<inter> edges_of m = {}" using n by (auto simp: edges_of_def)
  moreover have "card (Pair k ` set s) = length s"
    using Cons.prems by (auto simp: adjacency_ok_def e card_image inj_on_def distinct_card)
  ultimately show ?case using Cons.IH [OF ok] by (simp add: card_Un_disjoint e)
qed

section \<open>The invariant\<close>

definition alias_inv :: "alias_graph \<Rightarrow> bool" where
  "alias_inv g \<longleftrightarrow> adjacency_ok (fwd g) \<and> adjacency_ok (rev_deps g) \<and> btree_inv (ag_seen g)
     \<and> edges_of (rev_deps g) = (edges_of (fwd g))\<inverse>
     \<and> ag_edges g = card (edges_of (fwd g)) \<and> ag_edges g \<le> max_edges (ag_config g)
     \<and> Field (edges_of (fwd g)) \<subseteq> dom (btree_get (ag_seen g))"

lemma linked_iff: "(case btree_get m a of Some s \<Rightarrow> t \<in> set s | None \<Rightarrow> False) \<longleftrightarrow> (a, t) \<in> edges_of m"
  by (auto simp: edges_of_def neighbours_def split: option.splits)

lemma link_edges:
  assumes "alias_inv g"
  shows "alias_inv (alias_link a t now g)"
    and "edges_of (fwd (alias_link a t now g)) =
      (if ag_edges g < max_edges (ag_config g) then insert (a, t) (edges_of (fwd g)) else edges_of (fwd g))"
proof -
  let ?g = "g\<lparr>ag_seen := btree_insert t now (btree_insert a now (ag_seen g))\<rparr>"
  let ?new = "?g\<lparr>fwd := add_neighbour a t (fwd g), rev_deps := add_neighbour t a (rev_deps g), ag_edges := ag_edges g + 1\<rparr>"
  have seen: "alias_inv ?g" using assms by (auto simp: alias_inv_def)
  have l: "alias_link a t now g = (if (a, t) \<in> edges_of (fwd g) \<or> max_edges (ag_config g) \<le> ag_edges g then ?g else ?new)"
    by (simp add: alias_link_def Let_def linked_iff)
  have "finite (edges_of (fwd g))" using assms edges_card [of "fwd g"] by (simp add: alias_inv_def)
  then have "alias_inv ?new" if "(a, t) \<notin> edges_of (fwd g)" "ag_edges g < max_edges (ag_config g)"
    using assms that by (auto simp: alias_inv_def adjacency_add edges_add Field_insert)
  with seen show "alias_inv (alias_link a t now g)" unfolding l by (simp add: not_le)
  show "edges_of (fwd (alias_link a t now g)) =
      (if ag_edges g < max_edges (ag_config g) then insert (a, t) (edges_of (fwd g)) else edges_of (fwd g))"
    unfolding l by (auto simp: edges_add)
qed

lemma prune_side_ok: "adjacency_ok m \<Longrightarrow> adjacency_ok (prune_side dead m)"
  unfolding adjacency_ok_def
proof (intro conjI ballI)
  assume ok: "btree_inv m \<and> (\<forall>s \<in> snd ` set m. sorted s \<and> distinct s \<and> s \<noteq> [])"
  show "btree_inv (prune_side dead m)"
    unfolding prune_side_def using ok by (intro inv_retain) (simp add: btree_inv_def comp_def case_prod_beta)
  show "sorted s" "distinct s" "s \<noteq> []" if "s \<in> snd ` set (prune_side dead m)" for s
    using that ok by (auto simp: prune_side_def btree_retain_def sorted_wrt_filter split: if_splits)
qed

lemma prune_side_edges:
  assumes "adjacency_ok m"
  shows "edges_of (prune_side dead m) = {(a, t) \<in> edges_of m. a \<notin> set dead \<and> t \<notin> set dead}"
proof -
  have mem: "t \<in> set (neighbours m a) \<longleftrightarrow> (\<exists>s. (a, s) \<in> set m \<and> t \<in> set s)" if "adjacency_ok m" for m a t
  proof -
    have "(a, s) \<in> set m \<longleftrightarrow> btree_get m a = Some s" for s using that by (simp add: adjacency_ok_def get_iff)
    then show ?thesis by (cases "btree_get m a") (simp_all add: neighbours_def)
  qed
  let ?f = "filter (\<lambda>d. d \<notin> set dead)"
  have p: "(a, s) \<in> set (prune_side dead m) \<longleftrightarrow> a \<notin> set dead \<and> s \<noteq> [] \<and> (\<exists>s0. (a, s0) \<in> set m \<and> s = ?f s0)" for a s
  proof -
    have "(a, s) \<in> set (prune_side dead m) \<longleftrightarrow>
        a \<notin> set dead \<and> s \<noteq> [] \<and> (\<exists>e \<in> set m. (a, s) = (fst e, if fst e \<notin> set dead then ?f (snd e) else snd e))"
      by (auto simp only: prune_side_def btree_retain_def set_filter set_map case_prod_beta fst_conv snd_conv mem_Collect_eq image_iff)
    also have "\<dots> \<longleftrightarrow> a \<notin> set dead \<and> s \<noteq> [] \<and> (\<exists>s0. (a, s0) \<in> set m \<and> s = ?f s0)" by force
    finally show ?thesis .
  qed
  have "(\<exists>s. (a, s) \<in> set (prune_side dead m) \<and> t \<in> set s) \<longleftrightarrow>
      a \<notin> set dead \<and> t \<notin> set dead \<and> (\<exists>s. (a, s) \<in> set m \<and> t \<in> set s)" for a t
  proof
    assume "a \<notin> set dead \<and> t \<notin> set dead \<and> (\<exists>s. (a, s) \<in> set m \<and> t \<in> set s)"
    then obtain s0 where "a \<notin> set dead" "(a, s0) \<in> set m" "t \<in> set (?f s0)" by auto
    moreover from this(3) have "?f s0 \<noteq> []" by (metis empty_iff list.set(1))
    ultimately show "\<exists>s. (a, s) \<in> set (prune_side dead m) \<and> t \<in> set s" using p by blast
  qed (auto simp: p)
  then show ?thesis
    unfolding edges_of_def mem [OF assms] mem [OF prune_side_ok [OF assms]] by auto
qed

lemma prune_edges:
  assumes "alias_inv g" and "alias_prune now min_age g = g'"
  defines "age \<equiv> (if min_age = 0 then prune_age_secs (ag_config g) else min_age)"
  defines "live \<equiv> {k. \<exists>t. btree_get (ag_seen g) k = Some t \<and> saturating_sub now (uint age * 1000000000) \<le> t}"
  shows "alias_inv g'" and "edges_of (fwd g') = {(a, t) \<in> edges_of (fwd g). a \<in> live \<and> t \<in> live}"
    and "dom (btree_get (ag_seen g')) = live"
proof -
  let ?cut = "saturating_sub now (uint age * 1000000000)" and ?E = "edges_of (fwd g)"
  define dead where "dead = map fst (filter (\<lambda>(_, t). t < ?cut) (ag_seen g))"
  have ok: "adjacency_ok (fwd g)" "adjacency_ok (rev_deps g)" and inv: "btree_inv (ag_seen g)"
    and conv: "edges_of (rev_deps g) = ?E\<inverse>" and fld: "Field ?E \<subseteq> dom (btree_get (ag_seen g))"
    and cnt: "ag_edges g = card ?E" "ag_edges g \<le> max_edges (ag_config g)" using assms(1) by (auto simp: alias_inv_def)
  have d: "k \<in> set dead \<longleftrightarrow> (\<exists>t. btree_get (ag_seen g) k = Some t \<and> t < ?cut)" for k
    by (force simp: dead_def get_iff [OF inv])
  then have live: "k \<in> live \<longleftrightarrow> k \<in> dom (btree_get (ag_seen g)) \<and> k \<notin> set dead" for k
    by (auto simp: live_def not_less)
  have f: "{(a, t) \<in> ?E. a \<notin> set dead \<and> t \<notin> set dead} = {(a, t) \<in> ?E. a \<in> live \<and> t \<in> live}"
    using fld by (auto simp: live Field_def)
  show "alias_inv g'" "edges_of (fwd g') = {(a, t) \<in> ?E. a \<in> live \<and> t \<in> live}" "dom (btree_get (ag_seen g')) = live"
  proof (atomize (full), cases "dead = []")
    case True
    then have "g' = g" using assms(2) by (simp add: alias_prune_def Let_def dead_def age_def)
    with True f live assms(1) show "alias_inv g' \<and> edges_of (fwd g') = {(a, t) \<in> ?E. a \<in> live \<and> t \<in> live}
        \<and> dom (btree_get (ag_seen g')) = live" by auto
  next
    case False
    then have g': "fwd g' = prune_side dead (fwd g)" "rev_deps g' = prune_side dead (rev_deps g)"
      "ag_seen g' = btree_retain (\<lambda>k _. k \<notin> set dead) (ag_seen g)" "ag_config g' = ag_config g"
      "ag_edges g' = sum_list (map (length \<circ> snd) (prune_side dead (fwd g)))"
      using assms(2) by (auto simp: alias_prune_def Let_def dead_def age_def)
    note ok' = prune_side_ok [OF ok(1), of dead] prune_side_ok [OF ok(2), of dead]
    have e: "edges_of (fwd g') = {(a, t) \<in> ?E. a \<in> live \<and> t \<in> live}"
      unfolding g' prune_side_edges [OF ok(1)] f ..
    have s: "dom (btree_get (ag_seen g')) = live"
      unfolding g' by (auto simp: get_retain [OF inv] live dom_def split: option.splits)
    have "card (edges_of (fwd g')) \<le> card ?E"
      using e edges_card [OF ok(1)] by (intro card_mono) auto
    moreover have "edges_of (rev_deps g') = (edges_of (fwd g'))\<inverse>"
      unfolding g' prune_side_edges [OF ok(1)] prune_side_edges [OF ok(2)] conv by auto
    moreover have "ag_edges g' = card (edges_of (fwd g'))" using edges_card [OF ok'(1)] by (simp add: g')
    ultimately show "alias_inv g' \<and> edges_of (fwd g') = {(a, t) \<in> ?E. a \<in> live \<and> t \<in> live}
        \<and> dom (btree_get (ag_seen g')) = live"
      using ok' inv e s cnt by (auto simp: alias_inv_def g'(1-4) Field_def)
  qed
qed

section \<open>The graph as a state machine\<close>

datatype alias_op = OpLink cache_key cache_key ts | OpPrune ts u64

fun alias_apply :: "alias_op \<Rightarrow> alias_graph \<Rightarrow> alias_graph" where
  "alias_apply (OpLink a t now) g = alias_link a t now g"
| "alias_apply (OpPrune now age) g = alias_prune now age g"

definition alias_step :: "alias_graph \<Rightarrow> alias_op \<Rightarrow> alias_graph \<Rightarrow> bool" where
  "alias_step g opn g' \<longleftrightarrow> g' = alias_apply opn g"

definition alias_initial :: "alias_graph \<Rightarrow> bool" where
  "alias_initial g \<longleftrightarrow> (\<exists>c. g = alias_new c)"

interpretation alias_machine: inductive_invariant alias_initial alias_step alias_inv
proof
  show "alias_initial g \<Longrightarrow> alias_inv g" for g
    by (auto simp: alias_initial_def alias_new_def alias_inv_def adjacency_ok_def edges_of_def neighbours_def)
  show "alias_inv g \<Longrightarrow> alias_step g opn g' \<Longrightarrow> alias_inv g'" for g opn g'
    by (cases opn) (auto simp: alias_step_def link_edges prune_edges [OF _ refl])
qed

section \<open>The closure\<close>

lemma visit_spec:
  assumes "visit ns (seen, queue) = (seen', queue')"
  shows "set seen' = set seen \<union> set ns \<and> set queue' = set queue \<union> (set ns - set seen)
    \<and> (distinct seen \<longrightarrow> distinct seen') \<and> (sorted seen \<longrightarrow> sorted seen')"
  using assms
proof (induction ns arbitrary: seen queue)
  case (Cons x ns)
  show ?case
  proof (cases "x \<in> set seen")
    case True
    with Cons.IH [of seen queue] Cons.prems show ?thesis by auto
  next
    case False
    with Cons.IH [of "insort x seen" "queue @ [x]"] Cons.prems show ?thesis
      by (auto simp: set_insort_key distinct_insort sorted_insort)
  qed
qed simp

text \<open>
  The loop's invariant: what was seen is reachable, and every edge out of a seen key leads to a seen key
  unless the key is still queued.
\<close>

lemma closure_loop_spec:
  assumes "set queue \<subseteq> set seen" and "k \<in> set seen" and "set seen \<subseteq> (edges_of (fwd g))\<^sup>* `` {k}"
    and "\<And>x y. x \<in> set seen \<Longrightarrow> x \<notin> set queue \<Longrightarrow> (x, y) \<in> edges_of (fwd g) \<Longrightarrow> y \<in> set seen"
    and "distinct seen" and "sorted seen"
  shows "k \<in> set (closure_loop g mx seen queue) \<and> set (closure_loop g mx seen queue) \<subseteq> (edges_of (fwd g))\<^sup>* `` {k}
    \<and> distinct (closure_loop g mx seen queue) \<and> sorted (closure_loop g mx seen queue)
    \<and> (length (closure_loop g mx seen queue) < mx \<longrightarrow> set (closure_loop g mx seen queue) = (edges_of (fwd g))\<^sup>* `` {k})"
  using assms
proof (induction g mx seen queue rule: closure_loop.induct)
  case (1 g mx seen)
  have "y \<in> set seen" if "(k, y) \<in> (edges_of (fwd g))\<^sup>*" for y
    using that 1 by (induction rule: rtrancl_induct) auto
  with 1 show ?case by auto
next
  case (2 g mx seen cur queue)
  show ?case
  proof (cases "mx \<le> length seen")
    case True
    with 2 show ?thesis by auto
  next
    case False
    obtain seen' queue' where v: "visit (depends_on g cur) (seen, queue) = (seen', queue')" by fastforce
    note vs = visit_spec [OF v]
    let ?E = "edges_of (fwd g)"
    have n: "y \<in> set (depends_on g cur) \<longleftrightarrow> (cur, y) \<in> ?E" for y by (simp add: depends_on_def edges_of_def)
    have cur: "(k, cur) \<in> ?E\<^sup>*" using "2.prems"(1,3) by auto
    have step: "closure_loop g mx seen (cur # queue) = closure_loop g mx seen' queue'" using False v by simp
    show ?thesis unfolding step
    proof (rule "2.IH" [OF False v [symmetric] refl])
      show "set queue' \<subseteq> set seen'" using vs "2.prems"(1) by auto
      show "k \<in> set seen'" using vs "2.prems"(2) by simp
      show "set seen' \<subseteq> ?E\<^sup>* `` {k}" using vs "2.prems"(3) n cur by (auto intro: rtrancl_into_rtrancl)
      show "y \<in> set seen'" if "x \<in> set seen'" "x \<notin> set queue'" "(x, y) \<in> ?E" for x y
        using that vs "2.prems"(4) [of x y] n by (cases "x = cur") auto
      show "distinct seen'" "sorted seen'" using vs "2.prems"(5,6) by auto
    qed
  qed
qed

lemma alias_closure_spec:
  shows "k \<in> set (alias_closure g k mx)" and "set (alias_closure g k mx) \<subseteq> (edges_of (fwd g))\<^sup>* `` {k}"
    and "distinct (alias_closure g k mx)" and "sorted (alias_closure g k mx)"
    and "length (alias_closure g k mx) < mx \<Longrightarrow> set (alias_closure g k mx) = (edges_of (fwd g))\<^sup>* `` {k}"
  using closure_loop_spec [of "[k]" "[k]" k g mx] by (auto simp: alias_closure_def)

text \<open>The bound is tested before a key is expanded, so the closure may end above it.\<close>

definition star_graph :: alias_graph where
  "star_graph =
    (let k = (\<lambda>c. cache_key_plain (Name [1, c, 0]) RrType_CNAME RrClass_IN) in
     alias_link (k 97) (k 98) 0 (alias_link (k 97) (k 99) 0 (alias_link (k 97) (k 100) 0
       (alias_new \<lparr>max_edges = 5, prune_age_secs = 1\<rparr>))))"

lemma closure_above_bound:
  "length (alias_closure star_graph (cache_key_plain (Name [1, 97, 0]) RrType_CNAME RrClass_IN) 2) = 4"
  by code_simp

end
