(* ===== verification/Engine.thy ===== *)
theory Engine
  imports Message Pattern
begin

text \<open>
  \<^verbatim>\<open>src/src/engine.rs\<close>: the pure half of iterative resolution.  Outgoing queries, the classification of
  responses, and DNAME synthesis.  The random source is an argument (\<^verbatim>\<open>next_u64\<close> with its state).  The
  theory shows what each class of response is made of, that referrals descend, and that synthesis
  replaces exactly the owner's labels.
\<close>

section \<open>Definitions\<close>

record edns_spec =
  spec_udp_size :: u16
  spec_dnssec_ok :: bool
  spec_ecs :: "ecs option"
  spec_client_cookie :: "bytes option"

definition to_edns :: "edns_spec \<Rightarrow> edns" where
  "to_edns s =
    (let e = (edns_new (max (spec_udp_size s) 512))\<lparr>dnssec_ok := spec_dnssec_ok s\<rparr>;
         e = (case spec_ecs s of Some x \<Rightarrow> e\<lparr>edns_options := edns_options e @ [Ecs x]\<rparr> | None \<Rightarrow> e)
     in case spec_client_cookie s of Some c \<Rightarrow> e\<lparr>edns_options := edns_options e @ [Cookie c []]\<rparr> | None \<Rightarrow> e)"

record out_query =
  oq_bytes :: bytes
  oq_qname :: name
  oq_id :: u16

definition build_query ::
  "('g \<Rightarrow> u64 \<times> 'g) \<Rightarrow> u16 \<Rightarrow> name \<Rightarrow> rr_type \<Rightarrow> bool \<Rightarrow> edns_spec option \<Rightarrow> bool \<Rightarrow> 'g \<Rightarrow> out_query \<times> 'g" where
  "build_query next_u64 i n t rd spec use_0x20 g =
    (let (wire_name, g) = (if use_0x20 \<and> is_0x20_eligible n then randomized_case next_u64 n g else (n, g));
         m = (message_new i)\<lparr>msg_flags := header_flags_default\<lparr>hf_rd := rd\<rparr>\<rparr>;
         m = m\<lparr>questions := questions m @ [\<lparr>qname = wire_name, qtype = t, qclass = RrClass_IN\<rparr>]\<rparr>;
         m = (case spec of Some s \<Rightarrow> m\<lparr>msg_edns := Some (to_edns s)\<rparr> | None \<Rightarrow> m);
         bs = (case to_bytes m of Inr b \<Rightarrow> b | Inl _ \<Rightarrow> [])
     in (\<lparr>oq_bytes = bs, oq_qname = wire_name, oq_id = i\<rparr>, g))"

datatype response_kind =
    Answer "dns_record list" "dns_record list"
  | CnameFound dns_record "dns_record list"
  | DnameFound dns_record
  | Negative rcode "dns_record option"
  | Referral name "dns_record list" "dns_record list"
  | EmptyResponse

type_synonym scan = "dns_record list \<times> dns_record list \<times> dns_record option \<times> dns_record option"

definition scan_answer :: "name \<Rightarrow> rr_type \<Rightarrow> scan \<Rightarrow> dns_record \<Rightarrow> scan" where
  "scan_answer n t s r = (case s of (sigs, data, cname, dname) \<Rightarrow>
    if rec_type r = RrType_RRSIG then (sigs @ [r], data, cname, dname)
    else
      (let (data, cname) =
             (if rec_name r = n then
                (if rec_type r = t then (data @ [r], cname)
                 else if rec_type r = RrType_CNAME \<and> cname = None then (data, Some r)
                 else (data, cname))
              else (data, cname));
           dname = (if rec_type r = RrType_DNAME \<and> is_strict_subdomain_of n (rec_name r) \<and> dname = None
                    then Some r else dname)
       in (sigs, data, cname, dname)))"

fun find_referral :: "name \<Rightarrow> dns_record list \<Rightarrow> dns_record list \<Rightarrow> dns_record list \<Rightarrow> (name \<times> dns_record list \<times> dns_record list) option" where
  "find_referral zone [] auths adds = None"
| "find_referral zone (r # rs) auths adds =
    (if rec_type r = RrType_NS \<and> is_strict_subdomain_of (rec_name r) zone then
       Some (rec_name r, filter (\<lambda>x. rec_type x = RrType_NS \<and> rec_name x = rec_name r) auths,
             filter (\<lambda>x. rec_type x = RrType_A \<or> rec_type x = RrType_AAAA) adds)
     else find_referral zone rs auths adds)"

definition classify_response :: "message \<Rightarrow> name \<Rightarrow> rr_type \<Rightarrow> name \<Rightarrow> response_kind" where
  "classify_response m n t zone =
    (if message_rcode m = 3 then Negative Rcode_NXDOMAIN (authority_soa m)
     else let (sigs, data, cname, dname) = foldl (scan_answer n t) ([], [], None, None) (answers m) in
       if data \<noteq> [] then Answer data sigs
       else case cname of
           Some c \<Rightarrow> CnameFound c sigs
         | None \<Rightarrow> (case dname of
             Some d \<Rightarrow> DnameFound d
           | None \<Rightarrow>
              (if authority_soa m \<noteq> None then Negative Rcode_NOERROR (authority_soa m)
               else case find_referral zone (authorities m) (authorities m) (additionals m) of
                   Some (z, ns, glue) \<Rightarrow> Referral z ns glue
                 | None \<Rightarrow> EmptyResponse)))"

definition in_bailiwick :: "name \<Rightarrow> name \<Rightarrow> bool" where
  "in_bailiwick owner zone = is_subdomain_of owner zone"

definition synthesize_dname_cname :: "name \<Rightarrow> name \<Rightarrow> name \<Rightarrow> name option" where
  "synthesize_dname_cname n owner target =
    (if \<not> is_strict_subdomain_of n owner then None
     else let keep = length (name_labels n) - name_label_count owner;
              out = push_labels (push_labels [] (take keep (name_labels n))) (name_labels target) @ [0]
          in case name_from_wire out 0 of Inr (r, _) \<Rightarrow> Some r | Inl _ \<Rightarrow> None)"

definition make_cname_record :: "name \<Rightarrow> name \<Rightarrow> u32 \<Rightarrow> dns_record" where
  "make_cname_record n target ttl =
    \<lparr>rec_name = n, rec_type = RrType_CNAME, rec_class = RrClass_IN, rec_ttl = ttl, rec_rdata = Cname target\<rparr>"

section \<open>What a response is classified as\<close>

definition owner_data :: "name \<Rightarrow> rr_type \<Rightarrow> dns_record list \<Rightarrow> dns_record list" where
  "owner_data n t rs = filter (\<lambda>r. rec_name r = n \<and> rec_type r = t \<and> rec_type r \<noteq> RrType_RRSIG) rs"

definition alias_records :: "name \<Rightarrow> rr_type \<Rightarrow> dns_record list \<Rightarrow> dns_record list" where
  "alias_records n t rs = filter (\<lambda>r. rec_name r = n \<and> rec_type r = RrType_CNAME \<and> t \<noteq> RrType_CNAME) rs"

definition dname_records :: "name \<Rightarrow> dns_record list \<Rightarrow> dns_record list" where
  "dname_records n rs = filter (\<lambda>r. rec_type r = RrType_DNAME \<and> is_strict_subdomain_of n (rec_name r)) rs"

definition head_option :: "'a list \<Rightarrow> 'a option" where
  "head_option xs = (case xs of [] \<Rightarrow> None | x # _ \<Rightarrow> Some x)"

lemma head_option_simps [simp]:
  "head_option [] = None" "head_option (x # xs) = Some x"
  "head_option (xs @ [x]) = (case head_option xs of None \<Rightarrow> Some x | Some y \<Rightarrow> Some y)"
  by (auto simp: head_option_def split: list.splits)

lemma scan_answers:
  "foldl (scan_answer n t) ([], [], None, None) rs =
    (filter (\<lambda>r. rec_type r = RrType_RRSIG) rs, owner_data n t rs, head_option (alias_records n t rs), head_option (dname_records n rs))"
proof (induction rs rule: rev_induct)
  case (snoc r rs)
  then show ?case
    by (auto simp: scan_answer_def owner_data_def alias_records_def dname_records_def rr_type_consts split: option.splits)
qed (simp add: owner_data_def alias_records_def dname_records_def)

lemma find_referral_Some:
  "find_referral zone rs auths adds = Some (z, ns, glue) \<longleftrightarrow>
    (\<exists>r. find (\<lambda>r. rec_type r = RrType_NS \<and> is_strict_subdomain_of (rec_name r) zone) rs = Some r \<and> z = rec_name r
      \<and> ns = filter (\<lambda>x. rec_type x = RrType_NS \<and> rec_name x = z) auths
      \<and> glue = filter (\<lambda>x. rec_type x = RrType_A \<or> rec_type x = RrType_AAAA) adds)"
  by (induction rs) auto

lemmas classify_unfold = classify_response_def scan_answers Let_def

lemma classify_Answer:
  "classify_response m n t zone = Answer data sigs \<longleftrightarrow>
    message_rcode m \<noteq> 3 \<and> data = owner_data n t (answers m) \<and> data \<noteq> []
      \<and> sigs = filter (\<lambda>r. rec_type r = RrType_RRSIG) (answers m)"
  by (auto simp: classify_unfold split: option.splits)

lemma classify_Cname:
  "classify_response m n t zone = CnameFound c sigs \<longleftrightarrow>
    message_rcode m \<noteq> 3 \<and> owner_data n t (answers m) = [] \<and> head_option (alias_records n t (answers m)) = Some c
      \<and> sigs = filter (\<lambda>r. rec_type r = RrType_RRSIG) (answers m)"
  by (auto simp: classify_unfold split: option.splits)

lemma classify_Referral:
  "classify_response m n t zone = Referral z ns glue \<longleftrightarrow>
    message_rcode m \<noteq> 3 \<and> owner_data n t (answers m) = [] \<and> alias_records n t (answers m) = []
      \<and> dname_records n (answers m) = [] \<and> authority_soa m = None
      \<and> find_referral zone (authorities m) (authorities m) (additionals m) = Some (z, ns, glue)"
  by (auto simp: classify_unfold head_option_def split: option.splits list.splits)

lemma strict_subdomain_longer: "is_strict_subdomain_of a b \<Longrightarrow> length (name_bytes b) < length (name_bytes a)"
  by (auto simp: is_strict_subdomain_of_def is_subdomain_of_def ends_with_def name.expand le_less)

lemma referral_descends:
  assumes "classify_response m n t zone = Referral z ns glue"
  shows "is_strict_subdomain_of z zone" and "ns \<noteq> []" and "length (name_bytes zone) < length (name_bytes z)"
    and "set ns \<subseteq> set (authorities m)" and "set glue \<subseteq> set (additionals m)"
proof -
  obtain r where r: "find (\<lambda>r. rec_type r = RrType_NS \<and> is_strict_subdomain_of (rec_name r) zone) (authorities m) = Some r"
    and z: "z = rec_name r" and ns: "ns = filter (\<lambda>x. rec_type x = RrType_NS \<and> rec_name x = z) (authorities m)"
    and gl: "set glue \<subseteq> set (additionals m)"
    using assms by (auto simp: classify_Referral find_referral_Some)
  then have "r \<in> set (authorities m)" "rec_type r = RrType_NS" and s: "is_strict_subdomain_of z zone"
    by (auto simp: find_Some_iff)
  with z ns show "ns \<noteq> []" by (auto simp: filter_empty_conv)
  from s show "is_strict_subdomain_of z zone" "length (name_bytes zone) < length (name_bytes z)"
    by (auto dest: strict_subdomain_longer)
  show "set ns \<subseteq> set (authorities m)" "set glue \<subseteq> set (additionals m)" using ns gl by auto
qed

text \<open>A chain of referrals, each answered by a server of the zone before.\<close>

definition refers :: "name \<Rightarrow> rr_type \<Rightarrow> name \<Rightarrow> name \<Rightarrow> bool" where
  "refers n t zone z \<longleftrightarrow> (\<exists>m ns glue. classify_response m n t zone = Referral z ns glue)"

lemma wf_name_length: "wf_name n \<Longrightarrow> 0 < length (name_bytes n) \<and> length (name_bytes n) \<le> 255"
  by (erule wf_nameE) (auto simp: wf_labels_def length_encode_labels)

lemma referral_chain_length:
  "successively (refers n t) zs \<Longrightarrow> zs \<noteq> [] \<Longrightarrow> length (name_bytes (hd zs)) + length zs \<le> length (name_bytes (last zs)) + 1"
proof (induction zs rule: induct_list012)
  case (3 x y zs)
  then have "length (name_bytes x) < length (name_bytes y)" by (auto simp: refers_def dest: referral_descends(3))
  with 3 show ?case by auto
qed auto

lemma referral_chain_bound:
  assumes "successively (refers n t) zs" and "list_all wf_name zs"
  shows "length zs \<le> 255"
proof (cases "zs = []")
  case False
  with assms(2) have "wf_name (hd zs)" "wf_name (last zs)" by (simp_all add: list_all_iff)
  with referral_chain_length [OF assms(1) False] wf_name_length [of "hd zs"] wf_name_length [of "last zs"] show ?thesis by linarith
qed simp

section \<open>DNAME synthesis\<close>

lemma name_at_root_inv: "name_at buf p ls h e \<Longrightarrow> buf ! p = 0 \<Longrightarrow> ls = []"
  by (erule name_at.cases) (auto simp: valid_label_def word_unat_eq_iff unat_of_nat)

lemma name_at_label_inv:
  assumes "name_at buf p ls h e" and "valid_label l" and "buf ! p = of_nat (length l)" and "occurs buf (p + 1) l"
  obtains ls' where "ls = l # ls'" and "name_at buf (p + 1 + length l) ls' h e"
  using assms(1)
proof (cases rule: name_at.cases)
  case root
  with assms(2,3) show ?thesis by (auto simp: valid_label_def word_unat_eq_iff unat_of_nat)
next
  case (label l' ls')
  have "unat (of_nat (length l) :: u8) = unat (of_nat (length l') :: u8)" using assms(3) label(4) by simp
  then have len: "length l' = length l" using assms(2) label(3) by (simp add: valid_label_def unat_of_nat)
  with label(5) assms(4) have "l' = l" unfolding occurs_def by (metis (no_types))
  with label that show ?thesis by blast
next
  case (pointer off h)
  with assms(2,3) show ?thesis by (auto simp: valid_label_def unat_of_nat)
qed

lemma name_at_encode_unique:
  "list_all valid_label ls \<Longrightarrow> occurs buf p (encode_labels ls) \<Longrightarrow> name_at buf p ls' h e \<Longrightarrow> ls' = ls"
proof (induction ls arbitrary: p ls')
  case Nil
  then show ?case by (auto simp: occurs_Cons intro: name_at_root_inv)
next
  case (Cons l ls)
  then have "valid_label l" "buf ! p = of_nat (length l)" "occurs buf (p + 1) l" "occurs buf (p + 1 + length l) (encode_labels ls)"
    by (simp_all add: occurs_Cons)
  with name_at_label_inv [OF Cons.prems(3)] Cons.IH Cons.prems(1) show ?case by (metis list.pred_inject(2))
qed

lemma name_from_wire_labels:
  assumes "list_all valid_label ls" and "list_all lower_label ls" and "rust_slice (encode_labels ls)"
  shows "labels_size ls + 1 \<le> 255 \<Longrightarrow> length ls < 127 \<Longrightarrow>
      name_from_wire (encode_labels ls) 0 = Ok (Name (encode_labels ls), length (encode_labels ls))"
    and "\<not> (labels_size ls + 1 \<le> 255 \<and> length ls < 127) \<Longrightarrow> \<nexists>r. name_from_wire (encode_labels ls) 0 = Ok r"
proof -
  have occ: "occurs (encode_labels ls) 0 (encode_labels ls)" by (simp add: occurs_def)
  show "name_from_wire (encode_labels ls) 0 = Ok (Name (encode_labels ls), length (encode_labels ls))"
    if "labels_size ls + 1 \<le> 255" "length ls < 127"
    using that name_from_wire_occurs [of "encode_labels ls" 0 "Name (encode_labels ls)"] occ assms
    by (simp add: wf_name_encode wf_labels_def)
  show "\<nexists>r. name_from_wire (encode_labels ls) 0 = Ok r" if "\<not> (labels_size ls + 1 \<le> 255 \<and> length ls < 127)"
    using that name_at_encode_unique [OF assms(1) occ] by (auto simp: name_from_wire_iff [OF assms(3)])
qed

lemma push_labels_body: "push_labels out ls = out @ label_body ls"
  using push_labels_encode [of out ls] by (simp add: encode_labels_body)

text \<open>
  Synthesis, for well-formed names and an owner whose length octet does not occur inside a label of the
  query name: the labels above the owner are kept, the owner's are replaced by the target's, and the
  result exists exactly when it is within the limits of a name.
\<close>

lemma synthesize_labels:
  assumes "wf_name n" and "wf_name owner" and "wf_name target" and "octet_aligned n owner"
  defines "ls \<equiv> take (length (name_labels n) - length (name_labels owner)) (name_labels n) @ name_labels target"
  shows "synthesize_dname_cname n owner target =
    (if strict_suffix (name_labels owner) (name_labels n) \<and> labels_size ls + 1 \<le> 255 \<and> length ls < 127
     then Some (Name (encode_labels ls)) else None)"
proof -
  have strict: "is_strict_subdomain_of n owner \<longleftrightarrow> strict_suffix (name_labels owner) (name_labels n)"
    using is_subdomain_of_iff [OF assms(1,2)] assms(4) wf_name_inj [OF assms(1,2)]
    by (auto simp: is_strict_subdomain_of_def octet_aligned_def strict_suffix_def)
  obtain a b where n: "wf_labels a" "name_labels n = a" and t: "wf_labels b" "name_labels target = b"
    using assms(1,3) by (meson wf_nameE)
  have v: "list_all valid_label ls" "list_all lower_label ls"
    using n t by (auto simp: ls_def wf_labels_def list_all_iff dest: in_set_takeD)
  have "labels_size ls \<le> labels_size a + labels_size b"
    using n t labels_size_append [of "take k a" "drop k a" for k] by (simp add: ls_def labels_size_append) (metis append_take_drop_id labels_size_append le_add1)
  then have "rust_slice (encode_labels ls)"
    using n(1) t(1) by (simp add: rust_slice_def wf_labels_def length_encode_labels)
  note fw = name_from_wire_labels [OF v this]
  have out: "push_labels (push_labels [] (take (length (name_labels n) - name_label_count owner) (name_labels n))) (name_labels target) @ [0]
      = encode_labels ls"
    unfolding push_labels_encode ls_def encode_labels_append by (simp add: push_labels_body name_label_count_def name_labels_def)
  show ?thesis
    unfolding synthesize_dname_cname_def Let_def strict out using fw by (auto split: sum.splits)
qed

end
