(* ===== verification/Ranked.thy ===== *)
theory Ranked
  imports Main "HOL-Library.Multiset"
begin

text \<open>
  Rules tried most specific first.  \<open>sort_desc\<close> is the stable sort \<^verbatim>\<open>sort_by_key(|e| Reverse(key(e)))\<close>; the
  locale \<open>ranked_rules\<close> is the contract of a rule table that was put in such an order, and shows that its
  first match is a match of the greatest rank.
\<close>

fun insert_desc :: "('a \<Rightarrow> 'r :: linorder) \<Rightarrow> 'a \<Rightarrow> 'a list \<Rightarrow> 'a list" where
  "insert_desc f x [] = [x]"
| "insert_desc f x (y # ys) = (if f y \<le> f x then x # y # ys else y # insert_desc f x ys)"

definition sort_desc :: "('a \<Rightarrow> 'r :: linorder) \<Rightarrow> 'a list \<Rightarrow> 'a list" where
  "sort_desc f xs = foldr (insert_desc f) xs []"

fun first_match :: "('p \<Rightarrow> 'n \<Rightarrow> bool) \<Rightarrow> ('p \<times> 'v) list \<Rightarrow> 'n \<Rightarrow> 'v option" where
  "first_match hit [] n = None"
| "first_match hit ((p, v) # rules) n = (if hit p n then Some v else first_match hit rules n)"

lemma mset_insert_desc [simp]: "mset (insert_desc f x ys) = add_mset x (mset ys)"
  by (induction ys) auto

lemma mset_sort_desc [simp]: "mset (sort_desc f xs) = mset xs"
  unfolding sort_desc_def by (induction xs) auto

lemma set_sort_desc [simp]: "set (sort_desc f xs) = set xs"
  by (metis mset_sort_desc set_mset_mset)

lemma set_insert_desc [simp]: "set (insert_desc f x ys) = insert x (set ys)"
  by (induction ys) auto

lemma sorted_insert_desc:
  "sorted_wrt (\<lambda>a b. f b \<le> f a) ys \<Longrightarrow> sorted_wrt (\<lambda>a b. f b \<le> f a) (insert_desc f x ys)"
  by (induction ys) (auto intro: order_trans)

lemma sorted_sort_desc: "sorted_wrt (\<lambda>a b. f b \<le> f a) (sort_desc f xs)"
  unfolding sort_desc_def by (induction xs) (auto intro: sorted_insert_desc)

text \<open>Stability: entries of equal rank keep their order.\<close>

lemma filter_insert_desc:
  "filter (\<lambda>y. f y = r) (insert_desc f x ys) = (if f x = r then x # filter (\<lambda>y. f y = r) ys else filter (\<lambda>y. f y = r) ys)"
  if "sorted_wrt (\<lambda>a b. f b \<le> f a) ys"
  using that by (induction ys) (auto simp: filter_empty_conv)

lemma sort_desc_stable: "filter (\<lambda>y. f y = r) (sort_desc f xs) = filter (\<lambda>y. f y = r) xs"
proof (induction xs)
  case (Cons x xs)
  then show ?case using filter_insert_desc [OF sorted_sort_desc, of f r x xs] by (simp add: sort_desc_def)
qed (simp add: sort_desc_def)

lemma first_match_None: "first_match hit rules n = None \<longleftrightarrow> (\<forall>(p, v) \<in> set rules. \<not> hit p n)"
  by (induction hit rules n rule: first_match.induct) auto

lemma first_match_Some: "first_match hit rules n = Some v \<Longrightarrow> \<exists>p. (p, v) \<in> set rules \<and> hit p n"
  by (induction hit rules n rule: first_match.induct) (auto split: if_splits)

lemma first_match_sorted:
  assumes "sorted_wrt (\<lambda>a b. rank (fst b) \<le> (rank (fst a) :: 'r :: linorder)) rules" and "first_match hit rules n = Some v"
  shows "\<exists>p. (p, v) \<in> set rules \<and> hit p n \<and> (\<forall>(q, w) \<in> set rules. hit q n \<longrightarrow> rank q \<le> rank p)"
  using assms
proof (induction hit rules n rule: first_match.induct)
  case (2 hit p v rules n)
  show ?case
  proof (cases "hit p n")
    case True
    with 2 show ?thesis by (intro exI [of _ p]) auto
  next
    case False
    with 2 show ?thesis by fastforce
  qed
qed simp

locale ranked_rules =
  fixes rank :: "'p \<Rightarrow> 'r :: linorder" and hit :: "'p \<Rightarrow> 'n \<Rightarrow> bool" and arrange :: "('p \<times> 'v) list \<Rightarrow> ('p \<times> 'v) list"
  assumes arrange_set: "set (arrange rules) = set rules"
    and arrange_desc: "sorted_wrt (\<lambda>a b. rank (fst b) \<le> rank (fst a)) (arrange rules)"
begin

lemma best_match:
  assumes "first_match hit (arrange rules) n = Some v"
  shows "\<exists>p. (p, v) \<in> set rules \<and> hit p n \<and> (\<forall>(q, w) \<in> set rules. hit q n \<longrightarrow> rank q \<le> rank p)"
  using first_match_sorted [OF arrange_desc assms] by (simp add: arrange_set)

lemma no_match: "first_match hit (arrange rules) n = None \<longleftrightarrow> (\<forall>(p, v) \<in> set rules. \<not> hit p n)"
  by (simp add: first_match_None arrange_set)

text \<open>When the matching rule of the greatest rank is unique, the order of the configuration is irrelevant.\<close>

lemma order_irrelevant:
  assumes "set rules = set rules'"
    and "\<And>p v q w. (p, v) \<in> set rules \<Longrightarrow> (q, w) \<in> set rules \<Longrightarrow> hit p n \<Longrightarrow> hit q n \<Longrightarrow> rank p = rank q \<Longrightarrow> v = w"
  shows "first_match hit (arrange rules) n = first_match hit (arrange rules') n"
proof (cases "first_match hit (arrange rules) n")
  case None
  then show ?thesis using no_match assms(1) by metis
next
  case (Some v)
  then obtain p where p: "(p, v) \<in> set rules" "hit p n" "\<And>q w. (q, w) \<in> set rules \<Longrightarrow> hit q n \<Longrightarrow> rank q \<le> rank p"
    using best_match by blast
  then obtain w where w: "first_match hit (arrange rules') n = Some w"
    using no_match [of rules' n] assms(1) by (cases "first_match hit (arrange rules') n") auto
  then obtain q where q: "(q, w) \<in> set rules'" "hit q n" "\<And>q' w'. (q', w') \<in> set rules' \<Longrightarrow> hit q' n \<Longrightarrow> rank q' \<le> rank q"
    using best_match by blast
  have "rank p = rank q" using p q assms(1) by (metis order_antisym)
  with assms p q have "v = w" by blast
  with Some w show ?thesis by simp
qed

end

end
