(* ===== verification/Hosts.thy ===== *)
theory Hosts
  imports Ranked Machine Pattern Ordered_Map Rdata
begin

text \<open>
  \<^verbatim>\<open>src/src/hosts.rs\<close>: the static table of pinned names.  Of the error messages the interpolated arguments
  are left out.  The theory shows that the table is kept most specific first, that a lookup returns the
  exact pin or the pin of the most specific matching pattern, and what an insertion adds.
\<close>

section \<open>Definitions\<close>

definition DEFAULT_HOSTS_TTL :: u32 where "DEFAULT_HOSTS_TTL = 60"

record hosts_table =
  hosts_ttl :: u32
  hosts_exact :: "(name, ip_addr list) btree"
  hosts_wildcard :: "(domain_pattern \<times> ip_addr list) list"

definition hosts_new :: "u32 \<Rightarrow> hosts_table" where
  "hosts_new ttl = \<lparr>hosts_ttl = ttl, hosts_exact = [], hosts_wildcard = []\<rparr>"

definition hosts_default :: hosts_table where
  "hosts_default = hosts_new DEFAULT_HOSTS_TTL"

definition hosts_len :: "hosts_table \<Rightarrow> usize" where
  "hosts_len t = length (hosts_exact t) + length (hosts_wildcard t)"

definition hosts_is_empty :: "hosts_table \<Rightarrow> bool" where
  "hosts_is_empty t \<longleftrightarrow> hosts_exact t = [] \<and> hosts_wildcard t = []"

fun add_addrs :: "ip_addr list \<Rightarrow> ip_addr list \<Rightarrow> ip_addr list" where
  "add_addrs slot [] = slot"
| "add_addrs slot (a # as) = (if a \<in> set slot then add_addrs slot as else add_addrs (slot @ [a]) as)"

fun union_slot :: "domain_pattern \<Rightarrow> ip_addr list \<Rightarrow> (domain_pattern \<times> ip_addr list) list \<Rightarrow> (domain_pattern \<times> ip_addr list) list option" where
  "union_slot p addrs [] = None"
| "union_slot p addrs ((q, slot) # ws) =
    (if q = p then Some ((q, add_addrs slot addrs) # ws) else map_option (Cons (q, slot)) (union_slot p addrs ws))"

definition hosts_arrange :: "(domain_pattern \<times> ip_addr list) list \<Rightarrow> (domain_pattern \<times> ip_addr list) list" where
  "hosts_arrange = sort_desc (\<lambda>e. pattern_label_count (fst e))"

definition hosts_insert :: "rust_str \<Rightarrow> ip_addr list \<Rightarrow> hosts_table \<Rightarrow> hosts_table result" where
  "hosts_insert pattern addrs t =
    rbind (pattern_parse pattern) (\<lambda>parsed. case parsed of
      AnyName \<Rightarrow> Err (error_config ''a catch-all entry in hosts would answer every name from the static table'')
    | ExactName n \<Rightarrow>
        Ok (t\<lparr>hosts_exact := btree_insert n
               (add_addrs (case btree_get (hosts_exact t) n of Some slot \<Rightarrow> slot | None \<Rightarrow> []) addrs) (hosts_exact t)\<rparr>)
    | _ \<Rightarrow>
        Ok (t\<lparr>hosts_wildcard := hosts_arrange
               (case union_slot parsed addrs (hosts_wildcard t) of
                  Some ws \<Rightarrow> ws
                | None \<Rightarrow> hosts_wildcard t @ [(parsed, add_addrs [] addrs)])\<rparr>))"

fun parse_addrs :: "rust_str list \<Rightarrow> ip_addr list result" where
  "parse_addrs [] = Ok []"
| "parse_addrs (v # vs) =
    rbind (ok_or (error_config ''hosts entry is not an IP address'') (parse_ip (str_trim v))) (\<lambda>ip.
    rbind (parse_addrs vs) (\<lambda>ips. Ok (ip # ips)))"

definition insert_from_config :: "rust_str \<Rightarrow> rust_str list \<Rightarrow> hosts_table \<Rightarrow> hosts_table result" where
  "insert_from_config pattern vals t =
    (if vals = [] then Err (error_config ''hosts entry has no addresses'')
     else rbind (parse_addrs vals) (\<lambda>addrs. hosts_insert pattern addrs t))"

definition hosts_lookup :: "hosts_table \<Rightarrow> name \<Rightarrow> ip_addr list option" where
  "hosts_lookup t n = (case btree_get (hosts_exact t) n of
      Some v \<Rightarrow> Some v
    | None \<Rightarrow> first_match pattern_matches (hosts_wildcard t) n)"

definition hosts_contains :: "hosts_table \<Rightarrow> name \<Rightarrow> bool" where
  "hosts_contains t n \<longleftrightarrow> hosts_lookup t n \<noteq> None"

fun address_rdata :: "rr_type \<Rightarrow> ip_addr \<Rightarrow> rdata option" where
  "address_rdata t (IpV4 v) = (if t = RrType_A then Some (A v) else None)"
| "address_rdata t (IpV6 v) = (if t = RrType_AAAA then Some (Aaaa v) else None)"

definition hosts_answer :: "hosts_table \<Rightarrow> name \<Rightarrow> rr_type \<Rightarrow> dns_record list option" where
  "hosts_answer t n rt =
    (if rt \<noteq> RrType_A \<and> rt \<noteq> RrType_AAAA then None
     else case hosts_lookup t n of
         None \<Rightarrow> None
       | Some addrs \<Rightarrow> Some (List.map_filter (\<lambda>ip. map_option (\<lambda>rd.
            \<lparr>rec_name = n, rec_type = rt, rec_class = RrClass_IN, rec_ttl = hosts_ttl t, rec_rdata = rd\<rparr>)
            (address_rdata rt ip)) addrs))"

section \<open>The order of the table\<close>

interpretation hosts_rules: ranked_rules pattern_label_count pattern_matches hosts_arrange
  by unfold_locales (simp_all add: hosts_arrange_def sorted_sort_desc)

definition hosts_inv :: "hosts_table \<Rightarrow> bool" where
  "hosts_inv t \<longleftrightarrow> btree_inv (hosts_exact t) \<and> distinct (map fst (hosts_wildcard t))
     \<and> sorted_wrt (\<lambda>a b. pattern_label_count (fst b) \<le> pattern_label_count (fst a)) (hosts_wildcard t)
     \<and> (\<forall>slot \<in> snd ` set (hosts_exact t) \<union> snd ` set (hosts_wildcard t). distinct slot)"

lemma set_add_addrs [simp]: "set (add_addrs slot as) = set slot \<union> set as"
  by (induction slot as rule: add_addrs.induct) auto

lemma distinct_add_addrs: "distinct slot \<Longrightarrow> distinct (add_addrs slot as)"
  by (induction slot as rule: add_addrs.induct) auto

lemma union_slot_Some:
  assumes "union_slot p addrs ws = Some ws'"
  shows "map fst ws' = map fst ws \<and> (\<exists>slot. (p, slot) \<in> set ws)
    \<and> (\<forall>slot \<in> snd ` set ws'. slot \<in> snd ` set ws \<or> (\<exists>s \<in> snd ` set ws. slot = add_addrs s addrs))
    \<and> (distinct (map fst ws) \<longrightarrow> map_of ws' = (map_of ws)(p \<mapsto> add_addrs (the (map_of ws p)) addrs))"
  using assms
proof (induction p addrs ws arbitrary: ws' rule: union_slot.induct)
  case (2 p addrs q slot ws)
  show ?case
  proof (cases "q = p")
    case True
    with 2 show ?thesis by auto
  next
    case False
    with 2 obtain ws2 where "union_slot p addrs ws = Some ws2" "ws' = (q, slot) # ws2" by auto
    with 2(1) [OF False, of ws2] False show ?thesis by (auto simp: fun_eq_iff)
  qed
qed simp

lemma union_slot_None: "union_slot p addrs ws = None \<longleftrightarrow> p \<notin> fst ` set ws"
  by (induction p addrs ws rule: union_slot.induct) auto

lemma map_of_arrange:
  assumes "distinct (map fst ws)"
  shows "distinct (map fst (hosts_arrange ws)) \<and> map_of (hosts_arrange ws) = map_of ws"
proof -
  have m: "mset (hosts_arrange ws) = mset ws" by (simp add: hosts_arrange_def)
  then have d: "distinct (map fst (hosts_arrange ws))" using assms by (metis mset_eq_imp_distinct_iff mset_map)
  moreover have "set (hosts_arrange ws) = set ws" by (rule hosts_rules.arrange_set)
  ultimately show ?thesis using assms by (simp add: map_of_inject_set)
qed

fun hosts_slot :: "hosts_table \<Rightarrow> domain_pattern \<Rightarrow> ip_addr list option" where
  "hosts_slot t (ExactName n) = btree_get (hosts_exact t) n"
| "hosts_slot t p = map_of (hosts_wildcard t) p"

definition hosts_addrs :: "hosts_table \<Rightarrow> domain_pattern \<Rightarrow> ip_addr set" where
  "hosts_addrs t p = (case hosts_slot t p of Some slot \<Rightarrow> set slot | None \<Rightarrow> {})"

text \<open>The table of patterns after an insertion, before it is put in order.\<close>

definition pin :: "domain_pattern \<Rightarrow> ip_addr list \<Rightarrow> (domain_pattern \<times> ip_addr list) list \<Rightarrow> (domain_pattern \<times> ip_addr list) list" where
  "pin p addrs ws = (case union_slot p addrs ws of Some ws' \<Rightarrow> ws' | None \<Rightarrow> ws @ [(p, add_addrs [] addrs)])"

lemma pin_spec:
  assumes "distinct (map fst ws)" and "\<forall>slot \<in> snd ` set ws. distinct slot"
  shows "distinct (map fst (pin p addrs ws)) \<and> (\<forall>slot \<in> snd ` set (pin p addrs ws). distinct slot)
    \<and> map_of (pin p addrs ws) = (map_of ws)(p \<mapsto> add_addrs (case map_of ws p of Some s \<Rightarrow> s | None \<Rightarrow> []) addrs)"
proof (cases "union_slot p addrs ws")
  case None
  then have "p \<notin> fst ` set ws" by (simp add: union_slot_None)
  moreover from this have "map_of ws p = None" by (simp add: map_of_eq_None_iff)
  ultimately show ?thesis
    using assms None by (auto simp: pin_def distinct_add_addrs map_add_def fun_eq_iff split: option.splits)
next
  case (Some ws')
  note u = union_slot_Some [OF Some]
  then obtain slot where "map_of ws p = Some slot" using assms(1) by (metis map_of_is_SomeI)
  moreover have "\<forall>slot \<in> snd ` set ws'. distinct slot" using u assms(2) by (metis distinct_add_addrs)
  ultimately show ?thesis using u assms(1) Some by (simp add: pin_def)
qed

lemma hosts_insert_spec:
  assumes "hosts_inv t" and "hosts_insert pattern addrs t = Ok t'" and "pattern_parse pattern = Ok p"
  shows "hosts_inv t' \<and> hosts_addrs t' p = hosts_addrs t p \<union> set addrs
    \<and> (\<forall>q. q \<noteq> p \<longrightarrow> hosts_slot t' q = hosts_slot t q) \<and> p \<noteq> AnyName"
proof (cases "\<exists>n. p = ExactName n")
  case True
  then obtain n where p: "p = ExactName n" by blast
  define slot where "slot = add_addrs (case btree_get (hosts_exact t) n of Some slot \<Rightarrow> slot | None \<Rightarrow> []) addrs"
  have t': "t' = t\<lparr>hosts_exact := btree_insert n slot (hosts_exact t)\<rparr>"
    using assms(2,3) by (simp add: hosts_insert_def p slot_def)
  have ne: "hosts_slot t' q = hosts_slot t q" if "q \<noteq> p" for q
    using that by (cases q) (auto simp: t' p)
  have "distinct slot" using assms(1) unfolding slot_def hosts_inv_def
    by (intro distinct_add_addrs) (force split: option.splits dest!: map_of_SomeD)
  then have "\<forall>x \<in> snd ` set (btree_insert n slot (hosts_exact t)). distinct x"
  proof (intro ballI)
    fix x assume d: "distinct slot" "x \<in> snd ` set (btree_insert n slot (hosts_exact t))"
    then have "x = slot \<or> x \<in> snd ` set (hosts_exact t)" using set_btree_insert [of n slot "hosts_exact t"] by auto
    with d(1) assms(1) show "distinct x" unfolding hosts_inv_def by blast
  qed
  then have "hosts_inv t'" using assms(1) by (auto simp: hosts_inv_def t')
  moreover have "hosts_addrs t' p = hosts_addrs t p \<union> set addrs"
    by (auto simp: hosts_addrs_def p t' slot_def split: option.splits)
  ultimately show ?thesis using ne by (simp add: p)
next
  case False
  have any: "p \<noteq> AnyName" using assms(2,3) by (auto simp: hosts_insert_def)
  let ?w = "pin p addrs (hosts_wildcard t)"
  have t': "t' = t\<lparr>hosts_wildcard := hosts_arrange ?w\<rparr>"
    using assms(2,3) False any by (cases p) (simp_all add: hosts_insert_def pin_def)
  note w = pin_spec [of "hosts_wildcard t" p addrs]
  have w': "distinct (map fst ?w)" "\<forall>slot \<in> snd ` set ?w. distinct slot"
    "map_of ?w = (map_of (hosts_wildcard t))(p \<mapsto> add_addrs (case map_of (hosts_wildcard t) p of Some s \<Rightarrow> s | None \<Rightarrow> []) addrs)"
    using w assms(1) by (auto simp: hosts_inv_def)
  note a = map_of_arrange [OF w'(1)]
  have "hosts_inv t'"
    using assms(1) w'(2) a hosts_rules.arrange_desc [of ?w] by (auto simp: hosts_inv_def t' hosts_rules.arrange_set)
  moreover have "hosts_slot t' q = hosts_slot t q" if "q \<noteq> p" for q using that a w'(3) by (cases q) (auto simp: t')
  moreover have "hosts_addrs t' p = hosts_addrs t p \<union> set addrs"
    using a w'(3) False by (cases p) (auto simp: hosts_addrs_def t' split: option.splits)
  ultimately show ?thesis using any by blast
qed

definition hosts_initial :: "hosts_table \<Rightarrow> bool" where
  "hosts_initial t \<longleftrightarrow> (\<exists>ttl. t = hosts_new ttl)"

definition hosts_step :: "hosts_table \<Rightarrow> rust_str \<times> rust_str list \<Rightarrow> hosts_table \<Rightarrow> bool" where
  "hosts_step t entry t' \<longleftrightarrow> insert_from_config (fst entry) (snd entry) t = Ok t'"

lemma insert_from_config_Ok:
  assumes "insert_from_config pattern vals t = Ok t'"
  obtains addrs p where "parse_addrs vals = Ok addrs" and "vals \<noteq> []" and "pattern_parse pattern = Ok p"
    and "hosts_insert pattern addrs t = Ok t'"
  using assms by (auto simp: insert_from_config_def hosts_insert_def split: if_splits)

interpretation hosts_machine: inductive_invariant hosts_initial hosts_step hosts_inv
proof
  show "hosts_initial t \<Longrightarrow> hosts_inv t" for t by (auto simp: hosts_initial_def hosts_new_def hosts_inv_def)
  show "hosts_inv t \<Longrightarrow> hosts_step t entry t' \<Longrightarrow> hosts_inv t'" for t entry t'
    unfolding hosts_step_def by (elim insert_from_config_Ok) (blast dest: hosts_insert_spec)
qed

lemma hosts_lookup_best:
  assumes "hosts_inv t" and "hosts_lookup t n = Some v" and "btree_get (hosts_exact t) n = None"
  shows "\<exists>p. (p, v) \<in> set (hosts_wildcard t) \<and> pattern_matches p n
    \<and> (\<forall>(q, w) \<in> set (hosts_wildcard t). pattern_matches q n \<longrightarrow> pattern_label_count q \<le> pattern_label_count p)"
  using assms by (intro first_match_sorted) (simp_all add: hosts_inv_def hosts_lookup_def)

lemma hosts_lookup_None:
  "hosts_lookup t n = None \<longleftrightarrow>
    btree_get (hosts_exact t) n = None \<and> (\<forall>(p, v) \<in> set (hosts_wildcard t). \<not> pattern_matches p n)"
  by (simp add: hosts_lookup_def first_match_None split: option.splits)

end
