(* ===== verification/Routing.thy ===== *)
theory Routing
  imports Ranked Pattern Cidr Fakeip "HOL-Library.Product_Lexorder"
begin

text \<open>
  \<^verbatim>\<open>src/src/routing.rs\<close>: which upstream group answers a name, and which answers look poisoned.  Of the error
  messages the interpolated arguments are left out.  The theory shows that the most specific rule wins
  whatever the order of the configuration, and what the default filter rejects.
\<close>

section \<open>Definitions\<close>

definition DEFAULT_BOGUS_CIDRS :: "rust_str list" where
  "DEFAULT_BOGUS_CIDRS = map str_lit [''0.0.0.0/8'', ''127.0.0.0/8'', ''240.0.0.0/4'', ''::/128'', ''::1/128'', ''100::/64'']"

type_synonym group_id = usize

datatype route = Group group_id | DefaultRoute

type_synonym nameserver_policy = "(domain_pattern \<times> group_id) list"

definition specificity :: "domain_pattern \<Rightarrow> usize \<times> u8" where
  "specificity p = (pattern_label_count p, if pattern_is_exact p then 1 else 0)"

fun parse_rules :: "(rust_str \<times> group_id) list \<Rightarrow> nameserver_policy result" where
  "parse_rules [] = Ok []"
| "parse_rules ((pattern, grp) # rules) =
    rbind (map_err (\<lambda>e. error_config (''nameserver-policy entry: '' @ msg e)) (pattern_parse pattern)) (\<lambda>p.
      if p = AnyName then Err (error_config ''nameserver-policy entry would shadow every other rule'')
      else rbind (parse_rules rules) (\<lambda>ps. Ok ((p, grp) # ps)))"

definition policy_arrange :: "nameserver_policy \<Rightarrow> nameserver_policy" where
  "policy_arrange = sort_desc (\<lambda>e. specificity (fst e))"

definition policy_new :: "(rust_str \<times> group_id) list \<Rightarrow> nameserver_policy result" where
  "policy_new rules = rbind (parse_rules rules) (\<lambda>parsed. Ok (policy_arrange parsed))"

definition policy_route :: "nameserver_policy \<Rightarrow> name \<Rightarrow> route" where
  "policy_route rules n = (case first_match pattern_matches rules n of Some g \<Rightarrow> Group g | None \<Rightarrow> DefaultRoute)"

record fallback_filter =
  ff_domain :: "domain_pattern list"
  ff_ipcidr :: "ip_cidr list"

definition default_blocks :: "ip_cidr list" where
  "default_blocks = List.map_filter ip_cidr_parse DEFAULT_BOGUS_CIDRS"

definition fallback_default :: fallback_filter where
  "fallback_default = \<lparr>ff_domain = [], ff_ipcidr = default_blocks\<rparr>"

fun parse_blocks :: "rust_str list \<Rightarrow> ip_cidr list result" where
  "parse_blocks [] = Ok []"
| "parse_blocks (s # ss) =
    rbind (ok_or (error_config ''fallback-filter.ipcidr is not a CIDR'') (ip_cidr_parse s)) (\<lambda>c.
    rbind (parse_blocks ss) (\<lambda>cs. Ok (c # cs)))"

definition fallback_new :: "rust_str list \<Rightarrow> rust_str list option \<Rightarrow> bool \<Rightarrow> fallback_filter result" where
  "fallback_new domain ipcidr geoip =
    (if geoip then Err (error_config ''fallback-filter.geoip requires a country-to-CIDR database'')
     else rbind (parse_all domain) (\<lambda>d.
          rbind (case ipcidr of None \<Rightarrow> Ok default_blocks | Some list \<Rightarrow> parse_blocks list) (\<lambda>b.
          Ok \<lparr>ff_domain = d, ff_ipcidr = b\<rparr>)))"

definition forces_fallback :: "fallback_filter \<Rightarrow> name \<Rightarrow> bool" where
  "forces_fallback f n = list_ex (\<lambda>p. pattern_matches p n) (ff_domain f)"

definition looks_poisoned :: "fallback_filter \<Rightarrow> ip_addr list \<Rightarrow> ip_addr option" where
  "looks_poisoned f addrs = find (\<lambda>a. list_ex (\<lambda>b. ip_cidr_contains b a) (ff_ipcidr f)) addrs"

section \<open>Routes\<close>

interpretation policy_rules: ranked_rules specificity pattern_matches policy_arrange
  by unfold_locales (simp_all add: policy_arrange_def sorted_sort_desc)

lemma parse_rules_Ok:
  "parse_rules rules = Ok ps \<Longrightarrow> (p, g) \<in> set ps \<longleftrightarrow> (\<exists>s. (s, g) \<in> set rules \<and> pattern_parse s = Ok p)"
proof (induction rules arbitrary: ps)
  case (Cons r rules)
  obtain s g' where "r = (s, g')" by fastforce
  with Cons show ?case by (auto split: if_splits)
qed simp

lemma policy_route_Group:
  assumes "policy_new rules = Ok pol" and "policy_route pol n = Group g"
  shows "\<exists>s p. (s, g) \<in> set rules \<and> pattern_parse s = Ok p \<and> pattern_matches p n
    \<and> (\<forall>(s', g') \<in> set rules. \<forall>q. pattern_parse s' = Ok q \<longrightarrow> pattern_matches q n \<longrightarrow> specificity q \<le> specificity p)"
proof -
  obtain ps where ps: "parse_rules rules = Ok ps" "pol = policy_arrange ps" using assms(1) by (auto simp: policy_new_def)
  then have "first_match pattern_matches (policy_arrange ps) n = Some g"
    using assms(2) by (simp add: policy_route_def split: option.splits)
  then obtain p where p: "(p, g) \<in> set ps" "pattern_matches p n"
    and best: "\<And>q w. (q, w) \<in> set ps \<Longrightarrow> pattern_matches q n \<Longrightarrow> specificity q \<le> specificity p"
    using policy_rules.best_match by blast
  obtain s where "(s, g) \<in> set rules" "pattern_parse s = Ok p" using p(1) parse_rules_Ok [OF ps(1)] by blast
  moreover have "specificity q \<le> specificity p" if "(s', g') \<in> set rules" "pattern_parse s' = Ok q" "pattern_matches q n" for s' g' q
    using that by (intro best) (use parse_rules_Ok [OF ps(1)] in blast)+
  ultimately show ?thesis using p(2) by blast
qed

lemma policy_route_default:
  assumes "policy_new rules = Ok pol"
  shows "policy_route pol n = DefaultRoute \<longleftrightarrow> (\<forall>(s, g) \<in> set rules. \<forall>p. pattern_parse s = Ok p \<longrightarrow> \<not> pattern_matches p n)"
proof -
  obtain ps where ps: "parse_rules rules = Ok ps" "pol = policy_arrange ps" using assms by (auto simp: policy_new_def)
  have "policy_route pol n = DefaultRoute \<longleftrightarrow> first_match pattern_matches (policy_arrange ps) n = None"
    by (simp add: policy_route_def ps split: option.splits)
  also have "\<dots> \<longleftrightarrow> (\<forall>(p, g) \<in> set ps. \<not> pattern_matches p n)" by (rule policy_rules.no_match)
  also have "\<dots> \<longleftrightarrow> (\<forall>(s, g) \<in> set rules. \<forall>p. pattern_parse s = Ok p \<longrightarrow> \<not> pattern_matches p n)"
    using parse_rules_Ok [OF ps(1)] by blast
  finally show ?thesis .
qed

text \<open>The order in which the configuration lists the rules does not matter unless two equally specific rules disagree.\<close>

lemma policy_order_irrelevant:
  assumes "policy_new rules = Ok pol" and "policy_new rules' = Ok pol'" and "set rules = set rules'"
    and "\<And>s g s' g' p q. (s, g) \<in> set rules \<Longrightarrow> (s', g') \<in> set rules \<Longrightarrow> pattern_parse s = Ok p \<Longrightarrow> pattern_parse s' = Ok q
      \<Longrightarrow> pattern_matches p n \<Longrightarrow> pattern_matches q n \<Longrightarrow> specificity p = specificity q \<Longrightarrow> g = g'"
  shows "policy_route pol n = policy_route pol' n"
proof -
  obtain ps ps' where ps: "parse_rules rules = Ok ps" "pol = policy_arrange ps"
    and ps': "parse_rules rules' = Ok ps'" "pol' = policy_arrange ps'"
    using assms(1,2) by (auto simp: policy_new_def)
  have mem: "(p, g) \<in> set ps \<longleftrightarrow> (\<exists>s. (s, g) \<in> set rules \<and> pattern_parse s = Ok p)" for p g
    by (rule parse_rules_Ok [OF ps(1)])
  have "set ps = set ps'" using parse_rules_Ok [OF ps(1)] parse_rules_Ok [OF ps'(1)] assms(3) by auto
  moreover have "v = w" if r: "(p, v) \<in> set ps" "(q, w) \<in> set ps" "pattern_matches p n" "pattern_matches q n"
    "specificity p = specificity q" for p q v w
  proof -
    obtain s s' where "(s, v) \<in> set rules" "pattern_parse s = Ok p" "(s', w) \<in> set rules" "pattern_parse s' = Ok q"
      using r(1,2) mem by blast
    from assms(4) [OF this(1,3,2,4) r(3-5)] show ?thesis .
  qed
  ultimately have "first_match pattern_matches (policy_arrange ps) n = first_match pattern_matches (policy_arrange ps') n"
    by (rule policy_rules.order_irrelevant)
  then show ?thesis by (simp add: policy_route_def ps ps')
qed

section \<open>Poisoned answers\<close>

lemma looks_poisoned_None:
  "looks_poisoned f addrs = None \<longleftrightarrow> (\<forall>a \<in> set addrs. \<forall>b \<in> set (ff_ipcidr f). \<not> ip_cidr_contains b a)"
  by (auto simp: looks_poisoned_def find_None_iff list_ex_iff)

end
