(* ===== verification/Rrset.thy ===== *)
theory Rrset
  imports Records Clock "HOL-Library.Multiset"
begin

text \<open>
  \<^verbatim>\<open>src/src/rrset.rs\<close>: record sets, the unit of caching, with \<^verbatim>\<open>fnv1a_combine\<close> of \<^verbatim>\<open>src/src/prng.rs\<close>.  The
  theory shows what \<open>from_records\<close> keeps, its time to live, and that the fingerprint depends only on the
  multiset of records with their times to live erased.
\<close>

section \<open>Definitions\<close>

record rr_set =
  rs_name :: name
  rs_type :: rr_type
  rs_class :: rr_class
  rs_records :: "dns_record list"
  rrsigs :: "dns_record list"
  rs_ttl :: u32
  validated :: bool

definition rr_set_new :: "name \<Rightarrow> rr_type \<Rightarrow> rr_class \<Rightarrow> u32 \<Rightarrow> rr_set" where
  "rr_set_new n t c ttl =
    \<lparr>rs_name = n, rs_type = t, rs_class = c, rs_records = [], rrsigs = [], rs_ttl = ttl, validated = False\<rparr>"

definition add_record :: "dns_record \<Rightarrow> rr_set \<Rightarrow> rr_set" where
  "add_record r s = s\<lparr>rs_ttl := min (rs_ttl s) (rec_ttl r), rs_records := rs_records s @ [r]\<rparr>"

definition add_rrsig :: "dns_record \<Rightarrow> rr_set \<Rightarrow> rr_set" where
  "add_rrsig r s = s\<lparr>rrsigs := rrsigs s @ [r]\<rparr>"

definition fnv1a_combine :: "u64 \<Rightarrow> bytes \<Rightarrow> u64" where
  "fnv1a_combine acc bs = foldl (\<lambda>h b. (h XOR ucast b) * 0x100000001b3) acc bs"

definition record_wire_without_ttl :: "dns_record \<Rightarrow> bytes" where
  "record_wire_without_ttl r =
    (let rd = snd (rdata_to_wire (rec_rdata r) (None, [])) in
     name_write_wire (rec_name r) [] @ to_be_bytes 2 (rr_type_to_u16 (rec_type r))
       @ to_be_bytes 2 (rr_class_to_u16 (rec_class r)) @ [0, 0, 0, 0]
       @ to_be_bytes 2 (of_nat (length rd) :: u16) @ rd)"

definition fingerprint :: "rr_set \<Rightarrow> u64" where
  "fingerprint s = foldl fnv1a_combine 0xcbf29ce484222325 (sort (map record_wire_without_ttl (rs_records s)))"

definition same_data :: "rr_set \<Rightarrow> rr_set \<Rightarrow> bool" where
  "same_data s t = (if length (rs_records s) \<noteq> length (rs_records t) then False else fingerprint s = fingerprint t)"

definition rr_set_expires_at :: "rr_set \<Rightarrow> ts \<Rightarrow> ts" where
  "rr_set_expires_at s now = saturating_add now (uint (rs_ttl s) * 1000000000)"

fun cname_of :: "rdata \<Rightarrow> name option" where
  "cname_of (Cname n) = Some n"
| "cname_of _ = None"

fun dname_of :: "rdata \<Rightarrow> name option" where
  "dname_of (Dname n) = Some n"
| "dname_of _ = None"

fun ns_of :: "rdata \<Rightarrow> name option" where
  "ns_of (Ns n) = Some n"
| "ns_of _ = None"

definition find_map :: "('a \<Rightarrow> 'b option) \<Rightarrow> 'a list \<Rightarrow> 'b option" where
  "find_map f xs = (case List.map_filter f xs of [] \<Rightarrow> None | y # _ \<Rightarrow> Some y)"

definition cname_target :: "rr_set \<Rightarrow> name option" where
  "cname_target s = find_map (\<lambda>r. cname_of (rec_rdata r)) (rs_records s)"

definition dname_target :: "rr_set \<Rightarrow> name option" where
  "dname_target s = find_map (\<lambda>r. dname_of (rec_rdata r)) (rs_records s)"

definition ns_names :: "rr_set \<Rightarrow> name list" where
  "ns_names s = List.map_filter (\<lambda>r. ns_of (rec_rdata r)) (rs_records s)"

fun split_records :: "dns_record list \<Rightarrow> u32 \<Rightarrow> dns_record list \<Rightarrow> dns_record list \<Rightarrow> u32 \<times> dns_record list \<times> dns_record list" where
  "split_records [] ttl data sigs = (ttl, data, sigs)"
| "split_records (r # rs) ttl data sigs =
    (if rec_type r = RrType_RRSIG then split_records rs (min ttl (rec_ttl r)) data (sigs @ [r])
     else split_records rs (min ttl (rec_ttl r)) (data @ [r]) sigs)"

definition from_records :: "dns_record list \<Rightarrow> u32 \<Rightarrow> rr_set result" where
  "from_records records max_ttl_cap = (case records of
      [] \<Rightarrow> Err (error_internal ''empty RRset construction'')
    | r # _ \<Rightarrow>
       (let (ttl, data, sigs) = split_records records (- 1) [] [];
            ttl = (if ttl = - 1 then 0 else ttl)
        in if (rec_type r = RrType_CNAME \<or> rec_type r = RrType_DNAME) \<and> length data > 1
           then Err (error_wire ''RRset has several records; RFC 2181 10.1 allows exactly one'')
           else Ok \<lparr>rs_name = rec_name r, rs_type = rec_type r, rs_class = rec_class r, rs_records = data,
                   rrsigs = sigs, rs_ttl = min ttl max_ttl_cap, validated = False\<rparr>))"

definition record_bytes :: "dns_record \<Rightarrow> usize" where
  "record_bytes r = name_wire_len (rec_name r) + 40 + length (snd (rdata_to_wire (rec_rdata r) (None, [])))"

definition rr_set_estimated_bytes :: "rr_set \<Rightarrow> usize" where
  "rr_set_estimated_bytes s =
    foldl (\<lambda>n r. n + record_bytes r) (foldl (\<lambda>n r. n + record_bytes r) (name_wire_len (rs_name s) + 24) (rs_records s)) (rrsigs s)"

section \<open>Properties\<close>

lemma split_records_eq:
  "split_records rs ttl data sigs =
    (foldl (\<lambda>t r. min t (rec_ttl r)) ttl rs, data @ filter (\<lambda>r. rec_type r \<noteq> RrType_RRSIG) rs,
     sigs @ filter (\<lambda>r. rec_type r = RrType_RRSIG) rs)"
  by (induction rs ttl data sigs rule: split_records.induct) auto

lemma foldl_min_le: "foldl (\<lambda>t r. min t (f r)) (t :: 'a :: linorder) rs \<le> t"
  "r \<in> set rs \<Longrightarrow> foldl (\<lambda>t r. min t (f r)) t rs \<le> f r"
proof -
  show le: "foldl (\<lambda>t r. min t (f r)) t rs \<le> t" for t rs
    by (induction rs arbitrary: t) (simp_all, meson min.boundedE)
  show "r \<in> set rs \<Longrightarrow> foldl (\<lambda>t r. min t (f r)) t rs \<le> f r"
    by (induction rs arbitrary: t) (auto, metis le min.boundedE)
qed

lemma from_records_spec:
  assumes "from_records rs cap = Ok s"
  shows "rs_records s = filter (\<lambda>r. rec_type r \<noteq> RrType_RRSIG) rs"
    and "rrsigs s = filter (\<lambda>r. rec_type r = RrType_RRSIG) rs"
    and "rs_ttl s \<le> cap \<and> (\<forall>r \<in> set rs. rs_ttl s \<le> rec_ttl r)"
    and "rs_type s \<in> {RrType_CNAME, RrType_DNAME} \<Longrightarrow> length (rs_records s) \<le> 1"
    and "rs \<noteq> [] \<and> rs_name s = rec_name (hd rs) \<and> rs_type s = rec_type (hd rs) \<and> rs_class s = rec_class (hd rs)"
proof -
  obtain r rs' where rs: "rs = r # rs'" using assms by (cases rs) (auto simp: from_records_def)
  let ?t = "foldl (\<lambda>t r. min t (rec_ttl r)) (- 1) rs"
  note sp = split_records_eq [of rs "- 1" "[]" "[]"]
  have s: "s = \<lparr>rs_name = rec_name r, rs_type = rec_type r, rs_class = rec_class r,
      rs_records = filter (\<lambda>r. rec_type r \<noteq> RrType_RRSIG) rs, rrsigs = filter (\<lambda>r. rec_type r = RrType_RRSIG) rs,
      rs_ttl = min (if ?t = - 1 then 0 else ?t) cap, validated = False\<rparr>"
    and g: "\<not> ((rec_type r = RrType_CNAME \<or> rec_type r = RrType_DNAME) \<and> length (filter (\<lambda>r. rec_type r \<noteq> RrType_RRSIG) rs) > 1)"
    using assms sp by (auto simp: from_records_def rs Let_def split: if_splits)
  have t: "?t \<le> rec_ttl r" if "r \<in> set rs" for r using that by (rule foldl_min_le(2))
  have "rs_ttl s \<le> ?t" unfolding s by (auto intro: min.coboundedI1)
  moreover have "rs_ttl s \<le> cap" unfolding s by simp
  ultimately show "rs_ttl s \<le> cap \<and> (\<forall>r \<in> set rs. rs_ttl s \<le> rec_ttl r)" using t by (blast intro: order_trans)
  show "rs_records s = filter (\<lambda>r. rec_type r \<noteq> RrType_RRSIG) rs" "rrsigs s = filter (\<lambda>r. rec_type r = RrType_RRSIG) rs"
    unfolding s by simp_all
  show "rs_type s \<in> {RrType_CNAME, RrType_DNAME} \<Longrightarrow> length (rs_records s) \<le> 1" using g unfolding s by auto
  show "rs \<noteq> [] \<and> rs_name s = rec_name (hd rs) \<and> rs_type s = rec_type (hd rs) \<and> rs_class s = rec_class (hd rs)"
    unfolding s using rs by simp
qed

text \<open>Neither the order of the records nor their times to live reach the fingerprint.\<close>

lemma fingerprint_mset:
  assumes "mset (map (\<lambda>r. r\<lparr>rec_ttl := 0\<rparr>) (rs_records s)) = mset (map (\<lambda>r. r\<lparr>rec_ttl := 0\<rparr>) (rs_records t))"
  shows "fingerprint s = fingerprint t"
proof -
  let ?z = "\<lambda>r. r\<lparr>rec_ttl := 0\<rparr>"
  have "record_wire_without_ttl = record_wire_without_ttl \<circ> ?z" by (auto simp: record_wire_without_ttl_def)
  then have e: "mset (map record_wire_without_ttl rs) = image_mset record_wire_without_ttl (mset (map ?z rs))" for rs
    by (metis map_map mset_map)
  have "mset (map record_wire_without_ttl (rs_records s)) = mset (map record_wire_without_ttl (rs_records t))"
    unfolding e assms ..
  then have "sort (map record_wire_without_ttl (rs_records s)) = sort (map record_wire_without_ttl (rs_records t))"
    by (intro properties_for_sort) (simp_all only: mset_sort sorted_sort)
  then show ?thesis by (simp only: fingerprint_def)
qed

end
