(* ===== verification/Prng_Correct.thy ===== *)
theory Prng_Correct
  imports Prng
begin

text \<open>
  What the random sources guarantee: \<^verbatim>\<open>below\<close> is bounded, unbiased and returns; the SplitMix64 output
  function is a bijection; the ChaCha20 generator is a stream.
\<close>

section \<open>Rejection sampling\<close>

definition draw :: "('g \<Rightarrow> u64 \<times> 'g) \<Rightarrow> nat \<Rightarrow> 'g \<Rightarrow> u64 \<times> 'g" where
  "draw next_u64 k g = next_u64 (((\<lambda>g. snd (next_u64 g)) ^^ k) g)"

lemma draw_0 [simp]: "draw next_u64 0 g = next_u64 g"
  by (simp add: draw_def)

lemma draw_Suc [simp]: "draw next_u64 (Suc k) g = draw next_u64 k (snd (next_u64 g))"
  by (simp add: draw_def) (simp add: funpow_swap1 [of "\<lambda>g. snd (next_u64 g)"])

text \<open>The loop returns the residue of the first draw below the limit, and returns if there is one.\<close>

lemma below_loop_draw:
  assumes "fst (draw next_u64 k g) < limit" and "\<And>j. j < k \<Longrightarrow> \<not> fst (draw next_u64 j g) < limit"
  shows "below_loop next_u64 n limit g = Some (fst (draw next_u64 k g) mod n, snd (draw next_u64 k g))"
  using assms
proof (induction k arbitrary: g)
  case 0
  then show ?case by (simp add: below_loop.simps)
next
  case (Suc k)
  have "\<not> fst (next_u64 g) < limit" using Suc.prems(2) [of 0] by simp
  moreover have "below_loop next_u64 n limit (snd (next_u64 g)) = Some (fst (draw next_u64 (Suc k) g) mod n, snd (draw next_u64 (Suc k) g))"
    using Suc.IH [of "snd (next_u64 g)"] Suc.prems(1) Suc.prems(2) [of "Suc j" for j] by simp
  ultimately show ?case by (subst below_loop.simps) simp
qed

lemma below_loop_bound:
  assumes "below_loop next_u64 n limit g = Some r"
  shows "0 < n \<longrightarrow> fst r < n"
  by (rule below_loop.raw_induct [of "\<lambda>_ n _ _ r. 0 < n \<longrightarrow> fst r < n", OF _ assms])
    (auto split: if_splits simp: word_mod_less_divisor)

lemma below_loop_returns:
  assumes "fst (draw next_u64 k g) < limit"
  shows "\<exists>r. below_loop next_u64 n limit g = Some r"
proof -
  define l where "l = (LEAST k. fst (draw next_u64 k g) < limit)"
  have "fst (draw next_u64 l g) < limit" unfolding l_def using assms by (rule LeastI)
  moreover have "\<And>j. j < l \<Longrightarrow> \<not> fst (draw next_u64 j g) < limit" unfolding l_def by (rule not_less_Least)
  ultimately have "below_loop next_u64 n limit g = Some (fst (draw next_u64 l g) mod n, snd (draw next_u64 l g))"
    by (rule below_loop_draw)
  then show ?thesis by blast
qed

lemma below_limit_unat: "1 < n \<Longrightarrow> unat (below_limit n) = (2 ^ 64 - 1) div unat n * unat n"
proof -
  assume "1 < n"
  let ?q = "(- 1) div n :: u64"
  have q: "unat ?q = (2 ^ 64 - 1) div unat n" by (simp add: unat_div) (simp add: unsigned_minus_1_eq_mask mask_eq_exp_minus_1)
  have "unat ?q * unat n \<le> 2 ^ 64 - 1" unfolding q by (rule div_times_less_eq_dividend)
  then have "unat (?q * n) = unat ?q * unat n" by (simp add: unat_word_ariths)
  then show ?thesis by (simp only: below_limit_def q)
qed

text \<open>Every residue below \<open>n\<close> is hit by the same number of accepted values.\<close>

lemma residues_card:
  fixes n q :: nat
  assumes "r < n"
  shows "card {v. v < q * n \<and> v mod n = r} = q"
proof -
  have "{v. v < q * n \<and> v mod n = r} = (\<lambda>i. i * n + r) ` {..<q}"
  proof (intro equalityI subsetI)
    fix v assume "v \<in> {v. v < q * n \<and> v mod n = r}"
    then have "v = v div n * n + r" "v div n < q" using assms by (auto simp: less_mult_imp_div_less)
    then show "v \<in> (\<lambda>i. i * n + r) ` {..<q}" by blast
  next
    fix v assume "v \<in> (\<lambda>i. i * n + r) ` {..<q}"
    then obtain i where i: "v = i * n + r" "i < q" by auto
    then have "v < Suc i * n" using assms by simp
    also have "\<dots> \<le> q * n" using i(2) by (intro mult_le_mono1) simp
    finally show "v \<in> {v. v < q * n \<and> v mod n = r}" using i assms by simp
  qed
  then show ?thesis using assms by (simp add: card_image inj_on_def)
qed

lemma below_unbiased:
  assumes "1 < n" and "r < n"
  shows "card {v. v < below_limit n \<and> v mod n = r} = (2 ^ 64 - 1) div unat n"
proof -
  let ?q = "(2 ^ 64 - 1) div unat n"
  have lim: "unat (below_limit n) = ?q * unat n" using assms(1) by (rule below_limit_unat)
  have "unat ` {v. v < below_limit n \<and> v mod n = r} = {v. v < ?q * unat n \<and> v mod unat n = unat r}"
  proof (intro equalityI subsetI)
    fix x assume x: "x \<in> {v. v < ?q * unat n \<and> v mod unat n = unat r}"
    then have "x < 2 ^ 64" using unsigned_less [where 'a = nat, of "below_limit n"] lim by simp
    then have u: "unat (of_nat x :: u64) = x" by (simp add: unat_of_nat)
    with x lim show "x \<in> unat ` {v. v < below_limit n \<and> v mod n = r}"
      by (intro image_eqI [of _ _ "of_nat x"]) (simp_all add: word_less_nat_alt word_unat_eq_iff unat_mod)
  qed (auto simp: word_less_nat_alt unat_mod lim)
  moreover have "card {v. v < ?q * unat n \<and> v mod unat n = unat r} = ?q"
    using assms(2) by (intro residues_card) (simp add: word_less_nat_alt)
  ultimately show ?thesis
    using card_image [of unat "{v. v < below_limit n \<and> v mod n = r}"] by (simp add: inj_on_def word_unat_eq_iff)
qed

section \<open>SplitMix64 visits every value\<close>

lemma xorshift_inj:
  assumes "0 < k" and "x XOR drop_bit k x = y XOR drop_bit k (y :: 'a :: len word)"
  shows "x = y"
proof -
  have step: "bit x n \<noteq> bit y n \<longleftrightarrow> bit x (k + n) \<noteq> bit y (k + n)" if "n < LENGTH('a)" for n
  proof -
    have "bit (x XOR drop_bit k x) n = bit (y XOR drop_bit k y) n" using assms(2) by simp
    with that show ?thesis by (auto simp: bit_simps)
  qed
  have "bit x n = bit y n" for n
  proof (induction "LENGTH('a) - n" arbitrary: n rule: less_induct)
    case less
    show ?case
    proof (cases "n < LENGTH('a)")
      case True
      then have "LENGTH('a) - (k + n) < LENGTH('a) - n" using assms(1) by simp
      from less [OF this] step [OF True] show ?thesis by blast
    next
      case False
      then show ?thesis by (metis bit_imp_le_length)
    qed
  qed
  then show ?thesis by (simp add: bit_eq_iff)
qed

lemma mult_inj: "d * c = 1 \<Longrightarrow> x * c = y * c \<Longrightarrow> x = (y :: 'a :: len word)"
  by (metis mult.commute mult.left_commute mult.right_neutral)

lemma mix64_inj: "mix64 x = mix64 y \<Longrightarrow> x = y"
proof -
  define f where "f z = (z XOR drop_bit 30 z) * 0xbf58476d1ce4e5b9" for z :: u64
  define h where "h z = (z XOR drop_bit 27 z) * 0x94d049bb133111eb" for z :: u64
  have f: "f a = f b \<Longrightarrow> a = b" for a b
    unfolding f_def by (rule xorshift_inj [of 30, OF _ mult_inj [of "0x96de1b173f119089"]]) simp_all
  have h: "h a = h b \<Longrightarrow> a = b" for a b
    unfolding h_def by (rule xorshift_inj [of 27, OF _ mult_inj [of "0x319642b2d24d8ec3"]]) simp_all
  have m: "mix64 z = h (f z) XOR drop_bit 31 (h (f z))" for z by (simp add: mix64_def f_def h_def Let_def)
  show "mix64 x = mix64 y \<Longrightarrow> x = y" unfolding m by (rule f, rule h, rule xorshift_inj [of 31]) simp_all
qed

lemma mix64_surj: "\<exists>x. mix64 x = y"
  using finite_UNIV_inj_surj [of mix64] mix64_inj by (metis finite injI surjD)

lemma weyl_draw:
  "draw (\<lambda>s. let s = s + c in (f s, s)) k (s :: u64) = (f (s + of_nat (Suc k) * c), s + of_nat (Suc k) * c)"
  by (induction k arbitrary: s) (simp_all add: algebra_simps Let_def)

lemma weyl_visits:
  assumes "d * c = (1 :: u64)" and "f t = y"
  shows "\<exists>k. fst (draw (\<lambda>s. let s = s + c in (f s, s)) k s) = y"
proof -
  define w where "w = (t - s) * d"
  define k where "k = (if w = 0 then 2 ^ 64 - 1 else unat w - 1)"
  have "of_nat (Suc k) = w"
  proof (cases "w = 0")
    case True
    then have "Suc k = 2 ^ 64" by (simp add: k_def)
    moreover have "(of_nat (2 ^ 64) :: u64) = 0" by simp
    ultimately show ?thesis using True by metis
  next
    case False
    then have "Suc k = unat w" by (simp add: k_def unat_gt_0)
    then show ?thesis by simp
  qed
  moreover have "w * c = t - s" using assms(1) by (simp add: w_def mult.assoc)
  ultimately have "fst (draw (\<lambda>s. let s = s + c in (f s, s)) k s) = f t" by (simp only: weyl_draw fst_conv) simp
  with assms(2) show ?thesis by blast
qed

lemma splitmix_visits: "\<exists>k. fst (draw splitmix_next k s) = y"
proof -
  obtain t where "mix64 t = y" using mix64_surj by blast
  moreover have "(0xf1de83e19937733d :: u64) * 0x9e3779b97f4a7c15 = 1" by simp
  ultimately show ?thesis unfolding splitmix_next_def using weyl_visits by blast
qed

lemma splitmix_below_returns: "\<exists>v s'. below splitmix_next n s = Some (v, s')"
proof (cases "n \<le> 1")
  case True
  then show ?thesis by (simp add: below_def)
next
  case False
  then have n: "1 < n" by simp
  have "0 < unat n" "unat n \<le> 2 ^ 64 - 1" using n unsigned_less [where 'a = nat, of n] by (auto simp: unat_gt_0)
  then have "0 < (2 ^ 64 - 1) div unat n * unat n" by (simp add: div_greater_zero_iff)
  then have "0 < below_limit n" using below_limit_unat [OF n] by (simp add: word_less_nat_alt)
  moreover obtain k where "fst (draw splitmix_next k s) = 0" using splitmix_visits by blast
  ultimately have "\<exists>r. below_loop splitmix_next n (below_limit n) s = Some r" by (intro below_loop_returns [of _ k]) simp
  with False show ?thesis by (auto simp: below_def)
qed

section \<open>The ChaCha20 stream\<close>

definition block_bytes :: "bytes \<Rightarrow> bytes \<Rightarrow> u32 \<Rightarrow> bytes" where
  "block_bytes key nonce counter = concat (map (to_le_bytes 4) (chacha20_block key counter nonce))"

text \<open>The octets a generator is going to emit: what is left of its block, then the blocks from its counter on.\<close>

definition stream :: "csprng \<Rightarrow> nat \<Rightarrow> u8" where
  "stream g i =
    (let left = 64 - cs_pos g in
     if i < left then cs_block g ! (cs_pos g + i)
     else block_bytes (cs_key g) (cs_nonce g) (cs_counter g + of_nat ((i - left) div 64)) ! ((i - left) mod 64))"

definition csprng_ok :: "csprng \<Rightarrow> bool" where
  "csprng_ok g \<longleftrightarrow> length (cs_block g) = 64 \<and> cs_pos g \<le> 64"

lemma length_foldl_set: "length (foldl (\<lambda>s i. set_word i (f s i) s) s is) = length s"
  by (induction "is" arbitrary: s) (simp_all add: set_word_def)

lemma length_quarter_round [simp]: "length (quarter_round a b c d s) = length s"
  by (simp add: quarter_round_def set_word_def Let_def split: prod.splits)

lemma length_double_rounds [simp]: "length ((double_round ^^ n) s) = length s"
  by (induction n) (simp_all add: double_round_def)

lemma length_load_words [simp]: "length (load_words i cs s) = length s"
  by (induction i cs s rule: load_words.induct) (simp_all add: set_word_def)

lemma length_chacha20_block [simp]: "length (chacha20_block key counter nonce) = 16"
  unfolding chacha20_block_def Let_def length_foldl_set by (simp add: chacha_init_def set_word_def)

lemma length_to_le_bytes [simp]: "length (to_le_bytes n w) = n"
  by (simp add: to_le_bytes_def)

lemma length_block_bytes [simp]: "length (block_bytes key nonce counter) = 64"
proof -
  have "length (concat (map (to_le_bytes 4) ws)) = 4 * length (ws :: u32 list)" for ws by (induction ws) simp_all
  then show ?thesis by (simp add: block_bytes_def)
qed

lemma store_word_block:
  assumes "4 * i + 4 \<le> length blk"
  shows "store_word blk (i, w) = take (4 * i) blk @ to_le_bytes 4 w @ drop (4 * i + 4) blk"
proof -
  have "length bs = 4 \<Longrightarrow> \<exists>a b c d. bs = [a, b, c, d]" for bs :: bytes by (auto simp: numeral_eq_Suc length_Suc_conv)
  then obtain a b c d where w: "to_le_bytes 4 w = [a, b, c, d]" using length_to_le_bytes [of 4 w] by blast
  obtain pre q where blk: "blk = pre @ q" "length pre = 4 * i" using assms by (metis append_take_drop_id length_take min_absorb2 le_add1 le_trans)
  then obtain e f g h post where q: "q = e # f # g # h # post"
    using assms by (cases q; cases "tl q"; cases "tl (tl q)"; cases "tl (tl (tl q))") auto
  show ?thesis using blk(2) by (simp add: store_word_def w blk(1) q list_update_append mult.commute)
qed

lemma refill_block:
  "4 * (k + length ws) \<le> length blk \<Longrightarrow>
   foldl store_word blk (enumerate k ws) = take (4 * k) blk @ concat (map (to_le_bytes 4) ws) @ drop (4 * (k + length ws)) blk"
proof (induction ws arbitrary: k blk)
  case (Cons w ws)
  let ?b = "take (4 * k) blk @ to_le_bytes 4 w @ drop (4 * k + 4) blk"
  have st: "store_word blk (k, w) = ?b" using Cons.prems by (intro store_word_block) simp
  have len: "length ?b = length blk" using Cons.prems by simp
  have "foldl store_word ?b (enumerate (Suc k) ws)
      = take (4 * Suc k) ?b @ concat (map (to_le_bytes 4) ws) @ drop (4 * (Suc k + length ws)) ?b"
    using Cons.prems len by (intro Cons.IH) simp
  moreover have "take (4 * Suc k) ?b = take (4 * k) blk @ to_le_bytes 4 w" using Cons.prems by simp
  moreover have "drop (4 * (Suc k + length ws)) ?b = drop (4 * (Suc k + length ws)) blk" using Cons.prems by (simp add: algebra_simps)
  ultimately show ?case by (simp add: st)
qed simp

lemma refill_eq:
  assumes "length (cs_block g) = 64"
  shows "refill g = g\<lparr>cs_block := block_bytes (cs_key g) (cs_nonce g) (cs_counter g), cs_counter := cs_counter g + 1, cs_pos := 0\<rparr>"
  using refill_block [of 0 "chacha20_block (cs_key g) (cs_counter g) (cs_nonce g)" "cs_block g"] assms
  by (simp add: refill_def block_bytes_def)

lemma stream_refill:
  assumes "length (cs_block g) = 64" and "cs_pos g = 64"
  shows "stream (refill g) = stream g"
proof
  fix i
  show "stream (refill g) i = stream g i"
  proof (cases "i < 64")
    case False
    then have "i = 64 + (i - 64)" by simp
    then have "i div 64 = Suc ((i - 64) div 64)" "i mod 64 = (i - 64) mod 64"
      by (metis div_add_self1 Suc_eq_plus1 zero_neq_numeral, metis mod_add_self1)
    with False show ?thesis by (simp add: stream_def refill_eq [OF assms(1)] assms(2) algebra_simps)
  qed (simp add: stream_def refill_eq [OF assms(1)] assms(2))
qed

lemma csprng_fill_spec:
  assumes "csprng_ok g"
  shows "csprng_ok (snd (csprng_fill out g)) \<and> fst (csprng_fill out g) = map (stream g) [0..<length out]
    \<and> (\<forall>i. stream (snd (csprng_fill out g)) i = stream g (length out + i))"
  using assms
proof (induction out g rule: csprng_fill.induct)
  case (1 out g)
  show ?case
  proof (cases "out = []")
    case True
    with 1 show ?thesis by (simp add: csprng_fill.simps)
  next
    case False
    define g1 where "g1 = (if cs_pos g \<ge> length (cs_block g) then refill g else g)"
    have g1: "length (cs_block g1) = 64" "cs_pos g1 < 64" "stream g1 = stream g"
    proof -
      have g: "length (cs_block g) = 64" "cs_pos g \<le> 64" using 1(2) by (auto simp: csprng_ok_def)
      show "length (cs_block g1) = 64" "cs_pos g1 < 64" using g by (auto simp: g1_def refill_eq)
      show "stream g1 = stream g" using g stream_refill [of g] by (simp add: g1_def)
    qed
    define n where "n = min (length (cs_block g1) - cs_pos g1) (length out)"
    have n: "0 < n" "n \<le> length out" "cs_pos g1 + n \<le> 64" using False g1 by (auto simp: n_def)
    define g2 where "g2 = g1\<lparr>cs_pos := cs_pos g1 + n, bytes_since_rekey := u64_saturating_add (bytes_since_rekey g1) (of_nat n)\<rparr>"
    have ok: "csprng_ok g2" using g1 n by (simp add: g2_def csprng_ok_def)
    have ih: "csprng_ok (snd (csprng_fill (drop n out) g2)) \<and>
        fst (csprng_fill (drop n out) g2) = map (stream g2) [0..<length (drop n out)] \<and>
        (\<forall>i. stream (snd (csprng_fill (drop n out) g2)) i = stream g2 (length (drop n out) + i))"
      using False n(1) ok by (intro 1(1) [OF False g1_def n_def]) (simp_all add: g2_def)
    have s2: "stream g2 i = stream g (n + i)" for i
    proof -
      have "64 - (cs_pos g1 + n) = 64 - cs_pos g1 - n" by simp
      moreover have "i < 64 - cs_pos g1 - n \<longleftrightarrow> n + i < 64 - cs_pos g1" "i - (64 - cs_pos g1 - n) = n + i - (64 - cs_pos g1)"
        using n(3) by linarith+
      ultimately show ?thesis unfolding g1(3) [symmetric] by (simp add: stream_def g2_def Let_def add.assoc)
    qed
    have src: "take n (drop (cs_pos g1) (cs_block g1)) = map (stream g) [0..<n]"
      using g1 n by (intro nth_equalityI) (auto simp: g1(3) [symmetric] stream_def Let_def)
    have fill: "csprng_fill out g = (take n (drop (cs_pos g1) (cs_block g1)) @ fst (csprng_fill (drop n out) g2), snd (csprng_fill (drop n out) g2))"
      using False n(1) by (subst csprng_fill.simps) (simp add: g1_def [symmetric] n_def [symmetric] g2_def Let_def split_def)
    have "map (stream g) [0..<length out] = map (stream g) [0..<n] @ map (\<lambda>i. stream g (n + i)) [0..<length out - n]"
    proof -
      have "[0..<length out] = [0..<n] @ [n..<length out]" using n(2) upt_add_eq_append [of 0 n "length out - n"] by simp
      moreover have "[n..<length out] = map (\<lambda>i. n + i) [0..<length out - n]"
        using map_add_upt [of n "length out - n"] n(2) by (simp add: add.commute)
      ultimately show ?thesis by (simp add: comp_def)
    qed
    with ih s2 src n(2) show ?thesis unfolding fill by simp
  qed
qed

lemma upt_split: "map f [0..<m] @ map (\<lambda>i. f (m + i)) [0..<k] = map f [0..<m + k]"
  by (induction k) (simp_all add: append_assoc [symmetric] del: append_assoc)

lemma csprng_fill_append:
  assumes "csprng_ok g"
  shows "fst (csprng_fill a g) @ fst (csprng_fill b (snd (csprng_fill a g))) = fst (csprng_fill (a @ b) g)"
  using csprng_fill_spec [OF assms] csprng_fill_spec [of "snd (csprng_fill a g)" b] assms
  by (simp add: upt_split [of "stream g" "length a" "length b", symmetric])

lemma csprng_new_ok [simp]: "csprng_ok (csprng_new key nonce)" "csprng_ok g \<Longrightarrow> csprng_ok (rekey key nonce g)"
  by (simp_all add: csprng_ok_def csprng_new_def rekey_def)

lemma stream_new:
  "stream (csprng_new key nonce) i = block_bytes key nonce (of_nat (i div 64)) ! (i mod 64)"
  "stream (rekey key nonce g) i = block_bytes key nonce (of_nat (i div 64)) ! (i mod 64)"
  by (simp_all add: stream_def csprng_new_def rekey_def)

end
