(* ===== verification/Cache.thy ===== *)
theory Cache
  imports Cache_Key Rrset Bounded Machine
begin

text \<open>
  \<^verbatim>\<open>src/src/cache/mod.rs\<close>: the capacity-bounded tiers with their eviction index, and the semantic cache
  over three of them.  Scores are \<^verbatim>\<open>f64\<close> and the refresh model is a floating-point estimator; both are
  parameters, collected in the record \<open>signals\<close>: every fact below holds for any score function, any order
  on scores and any ranking of them.  Counters are 64-bit words.
\<close>

section \<open>Entries\<close>

datatype tier = Hot | Warm | Cold

datatype entry_kind = Positive rr_set | NegativeKind rcode "dns_record option" u32

record ('f, 'm) cache_entry =
  ce_key :: cache_key
  ce_kind :: entry_kind
  ce_inserted :: ts
  ce_expires :: ts
  ce_served :: u64
  last_served :: ts
  stability :: 'm
  ce_validated :: bool
  ce_score :: 'f
  ce_tier :: tier
  refreshing :: bool
  cost_ms :: 'f

record ('f, 'm, 'i) signals =
  sg_ge :: "'f \<Rightarrow> 'f \<Rightarrow> bool"
  sg_rank :: "'f \<Rightarrow> u64"
  sg_zero :: 'f
  sg_score :: "u32 \<Rightarrow> ts \<Rightarrow> ts \<Rightarrow> 'm \<Rightarrow> 'i \<Rightarrow> usize \<Rightarrow> 'f"
  sg_default :: 'i
  sg_cost :: "'i \<Rightarrow> 'f"
  sg_model :: "u32 \<Rightarrow> ts \<Rightarrow> 'm"
  sg_observe_weighted :: "u32 \<Rightarrow> bool \<Rightarrow> ts \<Rightarrow> bool \<Rightarrow> 'm \<Rightarrow> 'm"
  sg_observe :: "u32 \<Rightarrow> bool \<Rightarrow> ts \<Rightarrow> 'm \<Rightarrow> 'm"
  sg_failure :: "ts \<Rightarrow> 'm \<Rightarrow> 'm"

definition ttl_secs :: "('f, 'm) cache_entry \<Rightarrow> u32" where
  "ttl_secs e = (case ce_kind e of Positive s \<Rightarrow> rs_ttl s | NegativeKind _ _ ttl \<Rightarrow> ttl)"

definition entry_rrset :: "('f, 'm) cache_entry \<Rightarrow> rr_set option" where
  "entry_rrset e = (case ce_kind e of Positive s \<Rightarrow> Some s | _ \<Rightarrow> None)"

definition remaining_ttl :: "('f, 'm) cache_entry \<Rightarrow> ts \<Rightarrow> u32" where
  "remaining_ttl e now =
    (if ce_expires e \<le> now then 0
     else word_of_int (min ((ce_expires e - now) div 1000000000) (2 ^ 32 - 1)))"

definition is_fresh :: "('f, 'm) cache_entry \<Rightarrow> ts \<Rightarrow> bool" where
  "is_fresh e now \<longleftrightarrow> now < ce_expires e"

definition is_stale_servable :: "('f, 'm) cache_entry \<Rightarrow> ts \<Rightarrow> u32 \<Rightarrow> bool" where
  "is_stale_servable e now stale_window_secs \<longleftrightarrow>
    (let end' = saturating_add (ce_expires e) (uint stale_window_secs * 1000000000)
     in now \<ge> ce_expires e \<and> now < end')"

definition entry_estimated_bytes :: "('f, 'm) cache_entry \<Rightarrow> usize" where
  "entry_estimated_bytes e = (case ce_kind e of
      Positive s \<Rightarrow> rr_set_estimated_bytes s
    | NegativeKind _ soa _ \<Rightarrow> name_wire_len (ck_name (ce_key e)) + 64
        + (case soa of None \<Rightarrow> 0 | Some r \<Rightarrow> length (snd (rdata_to_wire (rec_rdata r) (None, []))) + 40))"

record negative_entry =
  ne_expires :: ts
  ne_rcode :: rcode
  ne_soa :: "dns_record option"
  ne_inserted :: ts
  ne_served :: u64

datatype ('f, 'm) lookup_outcome =
    Fresh "('f, 'm) cache_entry"
  | Stale "('f, 'm) cache_entry"
  | CnameHit name u32 ts bool
  | NxDomainHit ts "dns_record option"
  | Miss

definition is_hit :: "('f, 'm) lookup_outcome \<Rightarrow> bool" where
  "is_hit out \<longleftrightarrow> out \<noteq> Miss"

section \<open>Tiers\<close>

record ('f, 'm) tier_map =
  tm_map :: "(cache_key, ('f, 'm) cache_entry) btree"
  tm_rank :: "(u64 \<times> cache_key, unit) btree"
  tm_capacity :: usize

definition tier_new :: "usize \<Rightarrow> ('f, 'm) tier_map" where
  "tier_new cap = \<lparr>tm_map = [], tm_rank = [], tm_capacity = cap\<rparr>"

definition tier_len :: "('f, 'm) tier_map \<Rightarrow> usize" where
  "tier_len t = length (tm_map t)"

fun pop_loop :: "(u64 \<times> cache_key, unit) btree \<Rightarrow> (cache_key, ('f, 'm) cache_entry) btree
    \<Rightarrow> ('f, 'm) cache_entry option \<times> (u64 \<times> cache_key, unit) btree \<times> (cache_key, ('f, 'm) cache_entry) btree" where
  "pop_loop [] m = (None, [], m)"
| "pop_loop (((r, k), _) # rest) m = (case btree_get m k of
      Some e \<Rightarrow> (Some e, rest, btree_remove k m)
    | None \<Rightarrow> pop_loop rest m)"

definition pop_lowest :: "('f, 'm) tier_map \<Rightarrow> ('f, 'm) cache_entry option \<times> ('f, 'm) tier_map" where
  "pop_lowest t = (case pop_loop (tm_rank t) (tm_map t) of (v, r, m) \<Rightarrow> (v, t\<lparr>tm_map := m, tm_rank := r\<rparr>))"

definition tier_insert ::
  "('f, 'm, 'i) signals \<Rightarrow> ('f, 'm) cache_entry \<Rightarrow> ('f, 'm) tier_map \<Rightarrow> ('f, 'm) cache_entry option \<times> ('f, 'm) tier_map" where
  "tier_insert sg e t =
    (let k = ce_key e;
         (victim, t) = (if tm_capacity t > 0 \<and> btree_get (tm_map t) k = None \<and> tier_len t \<ge> tm_capacity t
                        then pop_lowest t else (None, t));
         rank = (case btree_get (tm_map t) k of
                   Some old \<Rightarrow> btree_remove (sg_rank sg (ce_score old), k) (tm_rank t)
                 | None \<Rightarrow> tm_rank t);
         m = btree_remove k (tm_map t)
     in (victim, t\<lparr>tm_rank := btree_insert (sg_rank sg (ce_score e), k) () rank, tm_map := btree_insert k e m\<rparr>))"

definition tier_remove ::
  "('f, 'm, 'i) signals \<Rightarrow> cache_key \<Rightarrow> ('f, 'm) tier_map \<Rightarrow> ('f, 'm) cache_entry option \<times> ('f, 'm) tier_map" where
  "tier_remove sg k t = (case btree_get (tm_map t) k of
      None \<Rightarrow> (None, t)
    | Some e \<Rightarrow> (Some e, t\<lparr>tm_map := btree_remove k (tm_map t),
                          tm_rank := btree_remove (sg_rank sg (ce_score e), k) (tm_rank t)\<rparr>))"

definition tier_retain ::
  "('f, 'm, 'i) signals \<Rightarrow> (cache_key \<Rightarrow> ('f, 'm) cache_entry \<Rightarrow> bool) \<Rightarrow> ('f, 'm) tier_map \<Rightarrow> ('f, 'm) tier_map" where
  "tier_retain sg keep t =
    foldl (\<lambda>t k. snd (tier_remove sg k t)) t (map fst (filter (\<lambda>(k, e). \<not> keep k e) (tm_map t)))"

text \<open>\<^verbatim>\<open>get_mut\<close> hands out a reference; the source changes only fields other than key and score through it.\<close>

definition tier_alter ::
  "cache_key \<Rightarrow> (('f, 'm) cache_entry \<Rightarrow> ('f, 'm) cache_entry) \<Rightarrow> ('f, 'm) tier_map \<Rightarrow> ('f, 'm) tier_map" where
  "tier_alter k f t = t\<lparr>tm_map := btree_alter k f (tm_map t)\<rparr>"

section \<open>The cache\<close>

record 'f cache_config =
  hot_capacity :: usize
  warm_capacity :: usize
  cold_capacity :: usize
  nx_capacity :: usize
  stale_window_secs :: u32
  negative_ttl_cap :: u32
  max_ttl_cap :: u32
  hot_admit_score :: 'f
  warm_admit_score :: 'f
  min_admit_score :: 'f

record cache_stats =
  hot_len :: usize
  warm_len :: usize
  cold_len :: usize
  nx_len :: usize
  hits :: u64
  misses :: u64
  stale_served :: u64
  inserts :: u64
  evictions :: u64

record ('f, 'm) semantic_cache =
  cc_config :: "'f cache_config"
  hot :: "('f, 'm) tier_map"
  warm :: "('f, 'm) tier_map"
  cold :: "('f, 'm) tier_map"
  nx :: "(name, negative_entry) btree"
  stats :: cache_stats

definition NX_EVICT_STRIDE :: usize where "NX_EVICT_STRIDE = 8"

definition stats_zero :: cache_stats where
  "stats_zero = \<lparr>hot_len = 0, warm_len = 0, cold_len = 0, nx_len = 0, hits = 0, misses = 0,
     stale_served = 0, inserts = 0, evictions = 0\<rparr>"

definition cache_new :: "'f cache_config \<Rightarrow> ('f, 'm) semantic_cache" where
  "cache_new config =
    \<lparr>cc_config = config, hot = tier_new (hot_capacity config), warm = tier_new (warm_capacity config),
     cold = tier_new (cold_capacity config), nx = [], stats = stats_zero\<rparr>"

definition cache_stats_now :: "('f, 'm) semantic_cache \<Rightarrow> cache_stats" where
  "cache_stats_now c = (stats c)\<lparr>hot_len := tier_len (hot c), warm_len := tier_len (warm c),
     cold_len := tier_len (cold c), nx_len := length (nx c)\<rparr>"

definition count_hit :: "('f, 'm) semantic_cache \<Rightarrow> ('f, 'm) semantic_cache" where
  "count_hit c = c\<lparr>stats := (stats c)\<lparr>hits := hits (stats c) + 1\<rparr>\<rparr>"

definition count_miss :: "('f, 'm) semantic_cache \<Rightarrow> ('f, 'm) semantic_cache" where
  "count_miss c = c\<lparr>stats := (stats c)\<lparr>misses := misses (stats c) + 1\<rparr>\<rparr>"

definition count_stale :: "('f, 'm) semantic_cache \<Rightarrow> ('f, 'm) semantic_cache" where
  "count_stale c = c\<lparr>stats := (stats c)\<lparr>stale_served := stale_served (stats c) + 1\<rparr>\<rparr>"

definition count_insert :: "('f, 'm) semantic_cache \<Rightarrow> ('f, 'm) semantic_cache" where
  "count_insert c = c\<lparr>stats := (stats c)\<lparr>inserts := inserts (stats c) + 1\<rparr>\<rparr>"

definition count_eviction :: "('f, 'm) semantic_cache \<Rightarrow> ('f, 'm) semantic_cache" where
  "count_eviction c = c\<lparr>stats := (stats c)\<lparr>evictions := evictions (stats c) + 1\<rparr>\<rparr>"

fun get_tier :: "tier \<Rightarrow> ('f, 'm) semantic_cache \<Rightarrow> ('f, 'm) tier_map" where
  "get_tier Hot c = hot c"
| "get_tier Warm c = warm c"
| "get_tier Cold c = cold c"

fun set_tier :: "tier \<Rightarrow> ('f, 'm) tier_map \<Rightarrow> ('f, 'm) semantic_cache \<Rightarrow> ('f, 'm) semantic_cache" where
  "set_tier Hot t c = c\<lparr>hot := t\<rparr>"
| "set_tier Warm t c = c\<lparr>warm := t\<rparr>"
| "set_tier Cold t c = c\<lparr>cold := t\<rparr>"

fun tier_below :: "tier \<Rightarrow> tier option" where
  "tier_below Hot = Some Warm"
| "tier_below Warm = Some Cold"
| "tier_below Cold = None"

definition tier_for :: "('f, 'm, 'i) signals \<Rightarrow> ('f, 'm) semantic_cache \<Rightarrow> 'f \<Rightarrow> tier option" where
  "tier_for sg c sc =
    (let cfg = cc_config c;
         tier = (if sg_ge sg sc (hot_admit_score cfg) then Some Hot
                 else if sg_ge sg sc (warm_admit_score cfg) then Some Warm
                 else if sg_ge sg sc (min_admit_score cfg) then Some Cold
                 else None)
     in case tier of
          None \<Rightarrow> None
        | Some t \<Rightarrow>
            if tm_capacity (get_tier t c) = 0
            then (case tier_below t of
                    None \<Rightarrow> None
                  | Some u \<Rightarrow> if tm_capacity (get_tier u c) > 0 then Some u else None)
            else Some t)"

definition spill :: "('f, 'm, 'i) signals \<Rightarrow> ('f, 'm) cache_entry \<Rightarrow> tier \<Rightarrow> ('f, 'm) semantic_cache \<Rightarrow> ('f, 'm) semantic_cache" where
  "spill sg victim from c =
    (let c = count_eviction c in
     case tier_below from of
       None \<Rightarrow> c
     | Some u \<Rightarrow>
         if tm_capacity (get_tier u c) = 0 then c
         else set_tier u (snd (tier_insert sg (victim\<lparr>ce_tier := u\<rparr>) (get_tier u c))) c)"

definition place :: "('f, 'm, 'i) signals \<Rightarrow> ('f, 'm) cache_entry \<Rightarrow> ('f, 'm) semantic_cache \<Rightarrow> ('f, 'm) semantic_cache" where
  "place sg e c = (case tier_for sg c (ce_score e) of
      None \<Rightarrow> c
    | Some t \<Rightarrow>
       (case tier_insert sg (e\<lparr>ce_tier := t\<rparr>) (get_tier t c) of
          (Some victim, tm) \<Rightarrow> spill sg victim t (set_tier t tm c)
        | (None, tm) \<Rightarrow> set_tier t tm c))"

definition park :: "('f, 'm, 'i) signals \<Rightarrow> ('f, 'm) cache_entry \<Rightarrow> ('f, 'm) semantic_cache \<Rightarrow> ('f, 'm) semantic_cache" where
  "park sg e c = c\<lparr>cold := snd (tier_insert sg (e\<lparr>ce_tier := Cold\<rparr>) (cold c))\<rparr>"

definition score_entry :: "('f, 'm, 'i) signals \<Rightarrow> ('f, 'm) cache_entry \<Rightarrow> ts \<Rightarrow> 'i \<Rightarrow> 'f" where
  "score_entry sg e now inputs =
    sg_score sg (ttl_secs e) now (last_served e) (stability e) inputs (entry_estimated_bytes e)"

fun lookup_exact_in :: "('f, 'm, 'i) signals \<Rightarrow> cache_key \<Rightarrow> ts \<Rightarrow> tier list \<Rightarrow> ('f, 'm) semantic_cache
    \<Rightarrow> ('f, 'm) lookup_outcome option \<times> ('f, 'm) semantic_cache" where
  "lookup_exact_in sg k now [] c = (None, c)"
| "lookup_exact_in sg k now (t # ts) c = (case tier_remove sg k (get_tier t c) of
      (None, _) \<Rightarrow> lookup_exact_in sg k now ts c
    | (Some e, tm) \<Rightarrow>
       (let c = set_tier t tm c;
            e = e\<lparr>last_served := now, ce_served := ce_served e + 1\<rparr>
        in if is_fresh e now then
             (let c = count_hit c; e = e\<lparr>ce_score := score_entry sg e now (sg_default sg)\<rparr>
              in (Some (Fresh e), place sg e c))
           else if is_stale_servable e now (stale_window_secs (cc_config c)) then
             (let c = count_stale (count_hit c) in (Some (Stale e), park sg (e\<lparr>ce_tier := Cold\<rparr>) c))
           else lookup_exact_in sg k now ts (count_miss c)))"

definition lookup_exact :: "('f, 'm, 'i) signals \<Rightarrow> cache_key \<Rightarrow> ts \<Rightarrow> ('f, 'm) semantic_cache
    \<Rightarrow> ('f, 'm) lookup_outcome option \<times> ('f, 'm) semantic_cache" where
  "lookup_exact sg k now = lookup_exact_in sg k now [Hot, Warm, Cold]"

fun lookup_cname_in :: "('f, 'm, 'i) signals \<Rightarrow> cache_key \<Rightarrow> ts \<Rightarrow> tier list \<Rightarrow> ('f, 'm) semantic_cache
    \<Rightarrow> ('f, 'm) lookup_outcome option \<times> ('f, 'm) semantic_cache" where
  "lookup_cname_in sg k now [] c = (None, c)"
| "lookup_cname_in sg k now (t # ts) c = (case tier_remove sg k (get_tier t c) of
      (None, _) \<Rightarrow> lookup_cname_in sg k now ts c
    | (Some e, tm) \<Rightarrow>
       (let c = set_tier t tm c in
        case (case ce_kind e of Positive s \<Rightarrow> cname_target s | _ \<Rightarrow> None) of
          None \<Rightarrow> lookup_cname_in sg k now ts (place sg e c)
        | Some target \<Rightarrow>
            if \<not> is_fresh e now then
              lookup_cname_in sg k now ts
                (if is_stale_servable e now (stale_window_secs (cc_config c))
                 then park sg (e\<lparr>ce_tier := Cold\<rparr>) c else c)
            else
              (let c = count_hit c;
                   e = e\<lparr>last_served := now, ce_served := ce_served e + 1\<rparr>;
                   e = e\<lparr>ce_score := score_entry sg e now (sg_default sg)\<rparr>
               in (Some (CnameHit target (ttl_secs e) (ce_expires e) (ce_validated e)), place sg e c))))"

definition lookup_cname :: "('f, 'm, 'i) signals \<Rightarrow> cache_key \<Rightarrow> ts \<Rightarrow> ('f, 'm) semantic_cache
    \<Rightarrow> ('f, 'm) lookup_outcome option \<times> ('f, 'm) semantic_cache" where
  "lookup_cname sg k now = lookup_cname_in sg k now [Hot, Warm, Cold]"

fun walk_scopes :: "(cache_key \<Rightarrow> 's \<Rightarrow> 'a option \<times> 's) \<Rightarrow> cache_key \<Rightarrow> ecs_key \<Rightarrow> nat \<Rightarrow> 's \<Rightarrow> 'a option \<times> 's" where
  "walk_scopes f key e (Suc (Suc n)) s = (case with_scope e (of_nat (Suc n)) of
      None \<Rightarrow> f (with_ecs key None) s
    | Some broader \<Rightarrow> (case f (with_ecs key (Some broader)) s of
        (Some hit, s) \<Rightarrow> (Some hit, s)
      | (None, s) \<Rightarrow> walk_scopes f key e (Suc n) s))"
| "walk_scopes f key e _ s = f (with_ecs key None) s"

definition walk_partitions :: "cache_key \<Rightarrow> (cache_key \<Rightarrow> 's \<Rightarrow> 'a option \<times> 's) \<Rightarrow> 's \<Rightarrow> 'a option \<times> 's" where
  "walk_partitions key f s = (case f key s of
      (Some hit, s) \<Rightarrow> (Some hit, s)
    | (None, s) \<Rightarrow> (case ck_ecs key of
        None \<Rightarrow> (None, s)
      | Some e \<Rightarrow> walk_scopes f key e (unat (ek_prefix e)) s))"

definition cache_lookup :: "('f, 'm, 'i) signals \<Rightarrow> cache_key \<Rightarrow> ts \<Rightarrow> ('f, 'm) semantic_cache
    \<Rightarrow> ('f, 'm) lookup_outcome \<times> ('f, 'm) semantic_cache" where
  "cache_lookup sg key now c = (case walk_partitions key (\<lambda>k. lookup_exact sg k now) c of
      (Some out, c) \<Rightarrow> (out, c)
    | (None, c) \<Rightarrow>
       (case (if ck_type key \<noteq> RrType_CNAME \<and> ck_type key \<noteq> RrType 255
              then walk_partitions (with_type key RrType_CNAME) (\<lambda>k. lookup_cname sg k now) c
              else (None, c)) of
          (Some out, c) \<Rightarrow> (out, c)
        | (None, c) \<Rightarrow>
           (case btree_get (nx c) (ck_name key) of
              Some neg \<Rightarrow>
                if now < ne_expires neg then (NxDomainHit (ne_expires neg) (ne_soa neg), count_hit c)
                else (Miss, count_miss c)
            | None \<Rightarrow> (Miss, count_miss c))))"

definition take_entry_any :: "('f, 'm, 'i) signals \<Rightarrow> cache_key \<Rightarrow> ('f, 'm) semantic_cache
    \<Rightarrow> ('f, 'm) cache_entry option \<times> ('f, 'm) semantic_cache" where
  "take_entry_any sg k c = (case tier_remove sg k (hot c) of
      (Some e, t) \<Rightarrow> (Some e, c\<lparr>hot := t\<rparr>)
    | (None, _) \<Rightarrow> (case tier_remove sg k (warm c) of
        (Some e, t) \<Rightarrow> (Some e, c\<lparr>warm := t\<rparr>)
      | (None, _) \<Rightarrow> (case tier_remove sg k (cold c) of
          (Some e, t) \<Rightarrow> (Some e, c\<lparr>cold := t\<rparr>)
        | (None, _) \<Rightarrow> (None, c))))"

definition insert_positive ::
  "('f, 'm, 'i) signals \<Rightarrow> cache_key \<Rightarrow> rr_set \<Rightarrow> ts \<Rightarrow> 'i \<Rightarrow> bool \<Rightarrow> ('f, 'm) semantic_cache \<Rightarrow> ('f, 'm) semantic_cache" where
  "insert_positive sg key s now inputs valid c =
    (let s = s\<lparr>rs_ttl := min (rs_ttl s) (max_ttl_cap (cc_config c))\<rparr>;
         expires = saturating_add now (uint (rs_ttl s) * 1000000000)
     in case take_entry_any sg key c of
          (Some e, c) \<Rightarrow>
           (let changed = (case ce_kind e of Positive old \<Rightarrow> \<not> same_data old s | _ \<Rightarrow> True);
                e = e\<lparr>stability := sg_observe_weighted sg (rs_ttl s) changed now valid (stability e),
                      ce_inserted := now, ce_expires := expires,
                      ce_validated := valid \<or> (\<not> changed \<and> ce_validated e),
                      refreshing := False, ce_kind := Positive s\<rparr>
            in place sg (e\<lparr>ce_score := score_entry sg e now inputs\<rparr>) c)
        | (None, c) \<Rightarrow>
           (let e = \<lparr>ce_key = key, ce_kind = Positive s, ce_inserted = now, ce_expires = expires, ce_served = 0,
                     last_served = now,
                     stability = sg_observe_weighted sg (rs_ttl s) False now valid (sg_model sg (rs_ttl s) now),
                     ce_validated = valid, ce_score = sg_zero sg, ce_tier = Warm, refreshing = False,
                     cost_ms = sg_cost sg inputs\<rparr>
            in place sg (e\<lparr>ce_score := score_entry sg e now inputs\<rparr>) (count_insert c)))"

definition insert_negative ::
  "('f, 'm, 'i) signals \<Rightarrow> cache_key \<Rightarrow> rcode \<Rightarrow> dns_record option \<Rightarrow> u32 \<Rightarrow> ts \<Rightarrow> 'i \<Rightarrow> ('f, 'm) semantic_cache \<Rightarrow> ('f, 'm) semantic_cache" where
  "insert_negative sg key rcode soa authoritative_ttl now inputs c =
    (let ttl = min authoritative_ttl (negative_ttl_cap (cc_config c));
         expires = saturating_add now (uint ttl * 1000000000)
     in case take_entry_any sg key c of
          (Some e, c) \<Rightarrow>
           (let e = e\<lparr>ce_inserted := now, ce_expires := expires, stability := sg_observe sg ttl True now (stability e),
                      ce_kind := NegativeKind rcode soa ttl, refreshing := False\<rparr>
            in place sg (e\<lparr>ce_score := score_entry sg e now inputs\<rparr>) c)
        | (None, c) \<Rightarrow>
           (let e = \<lparr>ce_key = key, ce_kind = NegativeKind rcode soa ttl, ce_inserted = now, ce_expires = expires,
                     ce_served = 0, last_served = now, stability = sg_model sg ttl now, ce_validated = False,
                     ce_score = sg_zero sg, ce_tier = Warm, refreshing = False, cost_ms = sg_cost sg inputs\<rparr>
            in place sg (e\<lparr>ce_score := score_entry sg e now inputs\<rparr>) (count_insert c)))"

definition restore_entry :: "('f, 'm, 'i) signals \<Rightarrow> ('f, 'm) cache_entry \<Rightarrow> ts \<Rightarrow> ('f, 'm) semantic_cache \<Rightarrow> ('f, 'm) semantic_cache" where
  "restore_entry sg e now c = (if ce_expires e \<le> now then park sg e c else place sg e c)"

definition insert_nxdomain ::
  "name \<Rightarrow> rcode \<Rightarrow> dns_record option \<Rightarrow> u32 \<Rightarrow> ts \<Rightarrow> ('f, 'm) semantic_cache \<Rightarrow> ('f, 'm) semantic_cache" where
  "insert_nxdomain name rcode soa authoritative_ttl now c =
    (let ttl = min authoritative_ttl (negative_ttl_cap (cc_config c));
         expires = saturating_add now (uint ttl * 1000000000)
     in case btree_get (nx c) name of
          Some e \<Rightarrow> c\<lparr>nx := btree_alter name (\<lambda>e. e\<lparr>ne_expires := max (ne_expires e) expires, ne_inserted := now,
                        ne_soa := (case soa of Some r \<Rightarrow> Some r | None \<Rightarrow> ne_soa e)\<rparr>) (nx c)\<rparr>
        | None \<Rightarrow>
           (let m = (if length (nx c) \<ge> nx_capacity (cc_config c)
                     then fst (evict_for_capacity (nx c) now NX_EVICT_STRIDE ne_expires) else nx c)
            in c\<lparr>nx := btree_insert name
                  \<lparr>ne_expires = expires, ne_rcode = rcode, ne_soa = soa, ne_inserted = now, ne_served = 0\<rparr> m\<rparr>))"

definition rescore :: "('f, 'm, 'i) signals \<Rightarrow> cache_key \<Rightarrow> 'i \<Rightarrow> ts \<Rightarrow> ('f, 'm) semantic_cache \<Rightarrow> ('f, 'm) semantic_cache" where
  "rescore sg key inputs now c = (case take_entry_any sg key c of
      (None, c) \<Rightarrow> c
    | (Some e, c) \<Rightarrow> place sg (e\<lparr>ce_score := score_entry sg e now inputs\<rparr>) c)"

definition sweep :: "('f, 'm, 'i) signals \<Rightarrow> ts \<Rightarrow> ('f, 'm) semantic_cache \<Rightarrow> ('f, 'm) semantic_cache" where
  "sweep sg now c =
    (let stale_window = uint (stale_window_secs (cc_config c)) * 1000000000;
         keep = (\<lambda>_ e. saturating_add (ce_expires e) stale_window \<ge> now)
     in c\<lparr>hot := tier_retain sg keep (hot c), warm := tier_retain sg keep (warm c),
          cold := tier_retain sg keep (cold c), nx := btree_retain (\<lambda>_ e. ne_expires e > now) (nx c)\<rparr>)"

text \<open>\<^verbatim>\<open>hot.get_mut(key).or_else(...)\<close>: the first tier that holds the key.\<close>

definition alter_any :: "cache_key \<Rightarrow> (('f, 'm) cache_entry \<Rightarrow> ('f, 'm) cache_entry) \<Rightarrow> ('f, 'm) semantic_cache \<Rightarrow> ('f, 'm) semantic_cache" where
  "alter_any k f c =
    (if btree_get (tm_map (hot c)) k \<noteq> None then c\<lparr>hot := tier_alter k f (hot c)\<rparr>
     else if btree_get (tm_map (warm c)) k \<noteq> None then c\<lparr>warm := tier_alter k f (warm c)\<rparr>
     else c\<lparr>cold := tier_alter k f (cold c)\<rparr>)"

definition find_any :: "cache_key \<Rightarrow> ('f, 'm) semantic_cache \<Rightarrow> ('f, 'm) cache_entry option" where
  "find_any k c = (case btree_get (tm_map (hot c)) k of Some e \<Rightarrow> Some e
    | None \<Rightarrow> (case btree_get (tm_map (warm c)) k of Some e \<Rightarrow> Some e
      | None \<Rightarrow> btree_get (tm_map (cold c)) k))"

definition record_refresh_failure :: "('f, 'm, 'i) signals \<Rightarrow> cache_key \<Rightarrow> ts \<Rightarrow> ('f, 'm) semantic_cache \<Rightarrow> ('f, 'm) semantic_cache" where
  "record_refresh_failure sg key now c =
    alter_any key (\<lambda>e. e\<lparr>stability := sg_failure sg now (stability e), refreshing := False\<rparr>) c"

definition clear_refreshing :: "cache_key \<Rightarrow> ('f, 'm) semantic_cache \<Rightarrow> ('f, 'm) semantic_cache" where
  "clear_refreshing key c = alter_any key (\<lambda>e. e\<lparr>refreshing := False\<rparr>) c"

definition mark_refreshing :: "cache_key \<Rightarrow> ('f, 'm) semantic_cache \<Rightarrow> bool \<times> ('f, 'm) semantic_cache" where
  "mark_refreshing key c = (case find_any key c of
      None \<Rightarrow> (False, c)
    | Some e \<Rightarrow> if refreshing e then (False, c) else (True, alter_any key (\<lambda>e. e\<lparr>refreshing := True\<rparr>) c))"

definition cache_len :: "('f, 'm) semantic_cache \<Rightarrow> usize" where
  "cache_len c = tier_len (hot c) + tier_len (warm c) + tier_len (cold c) + length (nx c)"

definition cache_is_empty :: "('f, 'm) semantic_cache \<Rightarrow> bool" where
  "cache_is_empty c \<longleftrightarrow> cache_len c = 0"

definition iter_entries :: "('f, 'm) semantic_cache \<Rightarrow> ('f, 'm) cache_entry list" where
  "iter_entries c = map snd (tm_map (hot c)) @ map snd (tm_map (warm c)) @ map snd (tm_map (cold c))"

end
