(* ===== verification/Cache_Inv.thy ===== *)
theory Cache_Inv
  imports Cache
begin

text \<open>
  The invariants of the semantic cache.  A tier is a store with eviction (locale \<open>eviction_store\<close>): an
  insert adds its entry and may give back one other, a removal takes one key.  From these laws the
  cache-wide facts follow: the eviction index and the capacity bounds in every reachable state, and that
  an entry lives in one tier.
\<close>

section \<open>Stores with eviction\<close>

locale eviction_store =
  fixes get :: "'t \<Rightarrow> 'k \<Rightarrow> 'e option"
    and ins :: "'e \<Rightarrow> 't \<Rightarrow> 'e option \<times> 't"
    and rem :: "'k \<Rightarrow> 't \<Rightarrow> 'e option \<times> 't"
    and key :: "'e \<Rightarrow> 'k"
    and ok :: "'t \<Rightarrow> bool"
  assumes ins_ok: "ok t \<Longrightarrow> ins e t = (v, t') \<Longrightarrow> ok t'"
    and ins_get: "ok t \<Longrightarrow> ins e t = (v, t') \<Longrightarrow>
      get t' = (case v of None \<Rightarrow> get t | Some x \<Rightarrow> (get t)(key x := None)) (key e \<mapsto> e)"
    and ins_victim: "ok t \<Longrightarrow> ins e t = (Some x, t') \<Longrightarrow> get t (key x) = Some x \<and> key x \<noteq> key e"
    and rem_ok: "ok t \<Longrightarrow> rem k t = (r, t') \<Longrightarrow> ok t'"
    and rem_get: "rem k t = (r, t') \<Longrightarrow> r = get t k \<and> get t' = (get t)(k := None)"
begin

lemma ins_sub: "ok t \<Longrightarrow> ins e t = (v, t') \<Longrightarrow> get t' k = Some x \<Longrightarrow> (k = key e \<and> x = e) \<or> get t k = Some x"
  using ins_get by (auto split: if_splits option.splits)

lemma ins_new: "ok t \<Longrightarrow> ins e t = (v, t') \<Longrightarrow> get t' (key e) = Some e"
  using ins_get by simp

lemma remove_all: "ok t \<Longrightarrow> ok (foldl (\<lambda>t k. snd (rem k t)) t ks)
    \<and> get (foldl (\<lambda>t k. snd (rem k t)) t ks) = (\<lambda>k. if k \<in> set ks then None else get t k)"
proof (induction ks arbitrary: t)
  case (Cons k ks)
  obtain r t' where r: "rem k t = (r, t')" by fastforce
  with rem_ok [OF Cons.prems] Cons.IH [of t'] rem_get [OF r] show ?case by auto
qed simp

end

section \<open>Tiers\<close>

definition ranks :: "('f, 'm, 'i) signals \<Rightarrow> (cache_key \<Rightarrow> ('f, 'm) cache_entry option) \<Rightarrow> (u64 \<times> cache_key) set" where
  "ranks sg g = {(sg_rank sg (ce_score e), k) | k e. g k = Some e}"

lemma ranks_iff: "(r, k) \<in> ranks sg g \<longleftrightarrow> (\<exists>e. g k = Some e \<and> sg_rank sg (ce_score e) = r)"
  by (auto simp: ranks_def)

lemma ranks_remove: "g k = Some e \<Longrightarrow> ranks sg (g(k := None)) = ranks sg g - {(sg_rank sg (ce_score e), k)}"
  by (auto simp: ranks_iff set_eq_iff)

lemma ranks_insert: "g k = None \<Longrightarrow> ranks sg (g(k \<mapsto> e)) = insert (sg_rank sg (ce_score e), k) (ranks sg g)"
  by (auto simp: ranks_iff set_eq_iff)

definition tier_inv :: "('f, 'm, 'i) signals \<Rightarrow> ('f, 'm) tier_map \<Rightarrow> bool" where
  "tier_inv sg t \<longleftrightarrow>
    btree_inv (tm_map t) \<and> btree_inv (tm_rank t) \<and>
    (\<forall>k e. btree_get (tm_map t) k = Some e \<longrightarrow> ce_key e = k) \<and>
    dom (btree_get (tm_rank t)) = ranks sg (btree_get (tm_map t)) \<and>
    (0 < tm_capacity t \<longrightarrow> tier_len t \<le> tm_capacity t)"

lemma tier_invD:
  assumes "tier_inv sg t"
  shows "btree_inv (tm_map t)" "btree_inv (tm_rank t)" "btree_get (tm_map t) k = Some e \<Longrightarrow> ce_key e = k"
    "dom (btree_get (tm_rank t)) = ranks sg (btree_get (tm_map t))" "0 < tm_capacity t \<Longrightarrow> tier_len t \<le> tm_capacity t"
  using assms by (auto simp: tier_inv_def)

lemma tier_new_inv: "tier_inv sg (tier_new cap)"
  by (simp add: tier_inv_def tier_new_def tier_len_def ranks_def)

lemma length_remove: "btree_inv m \<Longrightarrow> length (btree_remove k m) = length m - (if btree_get m k = None then 0 else 1)"
proof (induction m)
  case (Cons a m)
  obtain k' v where a: "a = (k', v)" by fastforce
  have "filter (\<lambda>e. fst e \<noteq> k') m = m" if "\<forall>x \<in> set (map fst m). k' < x" using that by (auto simp: filter_id_conv)
  moreover have "\<forall>x \<in> set (map fst m). k' < x" "btree_inv m" using Cons.prems by (simp_all add: a btree_inv_def)
  moreover have "length (btree_remove k m) = length m - (if btree_get m k = None then 0 else 1)" using Cons calculation by simp
  moreover have "m \<noteq> []" if "btree_get m k \<noteq> None" using that by auto
  ultimately show ?case by (auto simp: a btree_remove_def Suc_diff_le Suc_leI)
qed (simp add: btree_remove_def)

text \<open>Popping takes the entry of the least rank.\<close>

lemma pop_lowest_spec:
  assumes inv: "tier_inv sg t" and ne: "tm_map t \<noteq> []"
  shows "\<exists>e. pop_lowest t = (Some e, t\<lparr>tm_map := btree_remove (ce_key e) (tm_map t),
        tm_rank := btree_remove (sg_rank sg (ce_score e), ce_key e) (tm_rank t)\<rparr>)
    \<and> btree_get (tm_map t) (ce_key e) = Some e
    \<and> (\<forall>k' e'. btree_get (tm_map t) k' = Some e' \<longrightarrow> (sg_rank sg (ce_score e), ce_key e) \<le> (sg_rank sg (ce_score e'), k'))"
proof -
  note I = tier_invD [OF inv]
  obtain k0 e0 where "btree_get (tm_map t) k0 = Some e0" using ne by (cases "tm_map t") (simp, metis map_of_Cons_code(2) prod.collapse)
  then have "(sg_rank sg (ce_score e0), k0) \<in> dom (btree_get (tm_rank t))" unfolding I(4) by (auto simp: ranks_iff)
  then obtain r k u rest where rk: "tm_rank t = ((r, k), u) # rest" by (cases "tm_rank t") auto
  then have "(r, k) \<in> dom (btree_get (tm_rank t))" by (simp add: domIff)
  then obtain e where e: "btree_get (tm_map t) k = Some e" "sg_rank sg (ce_score e) = r" unfolding I(4) ranks_iff by blast
  have sorted: "\<forall>x \<in> set (map fst rest). (r, k) < x" using I(2) rk by (simp add: btree_inv_def)
  then have "filter (\<lambda>x. fst x \<noteq> (r, k)) rest = rest" by (intro filter_True) force
  then have rem: "btree_remove (r, k) (tm_rank t) = rest" by (simp add: rk btree_remove_def)
  have least: "(r, k) \<le> (sg_rank sg (ce_score e'), k')" if g: "btree_get (tm_map t) k' = Some e'" for k' e'
  proof -
    have "(sg_rank sg (ce_score e'), k') \<in> dom (btree_get (tm_rank t))" unfolding I(4) using g by (auto simp: ranks_iff)
    then have "(sg_rank sg (ce_score e'), k') \<in> insert (r, k) (set (map fst rest))"
      unfolding rk dom_map_of_conv_image_fst by auto
    with sorted show ?thesis by (metis insertE less_imp_le order_refl)
  qed
  have pop: "pop_lowest t = (Some e, t\<lparr>tm_map := btree_remove k (tm_map t), tm_rank := rest\<rparr>)"
    by (simp add: pop_lowest_def rk e)
  show ?thesis
    using pop e rem least I(3) [OF e(1)] by (intro exI [of _ e]) simp
qed

definition drop_entry :: "('f, 'm, 'i) signals \<Rightarrow> ('f, 'm) cache_entry \<Rightarrow> ('f, 'm) tier_map \<Rightarrow> ('f, 'm) tier_map" where
  "drop_entry sg e t = t\<lparr>tm_map := btree_remove (ce_key e) (tm_map t),
     tm_rank := btree_remove (sg_rank sg (ce_score e), ce_key e) (tm_rank t)\<rparr>"

lemma drop_entry_inv:
  assumes inv: "tier_inv sg t" and e: "btree_get (tm_map t) (ce_key e) = Some e"
  shows "tier_inv sg (drop_entry sg e t)" and "tier_len (drop_entry sg e t) = tier_len t - 1"
proof -
  note I = tier_invD [OF inv]
  show "tier_len (drop_entry sg e t) = tier_len t - 1"
    using length_remove [OF I(1)] e by (simp add: drop_entry_def tier_len_def)
  moreover have "dom ((btree_get (tm_rank t))((sg_rank sg (ce_score e), ce_key e) := None))
      = ranks sg ((btree_get (tm_map t))(ce_key e := None))"
    unfolding ranks_remove [of "btree_get (tm_map t)", OF e] I(4) [symmetric] by simp
  ultimately show "tier_inv sg (drop_entry sg e t)"
    using I by (auto simp: tier_inv_def drop_entry_def split: if_splits)
qed

lemma tier_remove_drop:
  "tier_inv sg t \<Longrightarrow> tier_remove sg k t = (case btree_get (tm_map t) k of None \<Rightarrow> (None, t) | Some e \<Rightarrow> (Some e, drop_entry sg e t))"
  using tier_invD(3) by (fastforce simp: tier_remove_def drop_entry_def split: option.splits)

lemma tier_remove_inv: "tier_inv sg t \<Longrightarrow> tier_remove sg k t = (r, t') \<Longrightarrow> tier_inv sg t'"
  using tier_invD(3) [of sg t k] drop_entry_inv(1) [of sg t]
  by (auto simp: tier_remove_drop split: option.splits)

lemma tier_remove_get:
  "tier_remove sg k t = (r, t') \<Longrightarrow> r = btree_get (tm_map t) k \<and> btree_get (tm_map t') = (btree_get (tm_map t))(k := None)"
  by (auto simp: tier_remove_def split: option.splits)

definition add_entry :: "('f, 'm, 'i) signals \<Rightarrow> ('f, 'm) cache_entry \<Rightarrow> ('f, 'm) tier_map \<Rightarrow> ('f, 'm) tier_map" where
  "add_entry sg e t = t\<lparr>tm_rank := btree_insert (sg_rank sg (ce_score e), ce_key e) () (tm_rank t),
     tm_map := btree_insert (ce_key e) e (tm_map t)\<rparr>"

lemma add_entry_inv:
  assumes inv: "tier_inv sg t" and e: "btree_get (tm_map t) (ce_key e) = None"
    and cap: "0 < tm_capacity t \<Longrightarrow> tier_len t < tm_capacity t"
  shows "tier_inv sg (add_entry sg e t)"
proof -
  note I = tier_invD [OF inv]
  have "dom ((btree_get (tm_rank t))((sg_rank sg (ce_score e), ce_key e) \<mapsto> ()))
      = ranks sg ((btree_get (tm_map t))(ce_key e \<mapsto> e))"
    unfolding ranks_insert [of "btree_get (tm_map t)", OF e] I(4) [symmetric] by simp
  moreover have "length (btree_insert (ce_key e) e (tm_map t)) \<le> Suc (length (tm_map t))"
    using e by (simp add: length_insert [OF I(1)])
  ultimately show ?thesis using I cap by (auto simp: tier_inv_def add_entry_def tier_len_def split: if_splits)
qed


lemma remove_absent: "btree_get m k = None \<Longrightarrow> btree_remove k m = m"
  unfolding btree_remove_def map_of_eq_None_iff by (intro filter_True) force

lemma tier_insert_cases:
  assumes inv: "tier_inv sg t" and ins: "tier_insert sg e t = (v, t')"
  obtains (replace) old where "btree_get (tm_map t) (ce_key e) = Some old" "v = None" "t' = add_entry sg e (drop_entry sg old t)"
  | (evict) x where "btree_get (tm_map t) (ce_key e) = None" "v = Some x" "btree_get (tm_map t) (ce_key x) = Some x"
      "tier_len t = tm_capacity t" "0 < tm_capacity t" "t' = add_entry sg e (drop_entry sg x t)"
      "\<forall>k' e'. btree_get (tm_map t) k' = Some e' \<longrightarrow> (sg_rank sg (ce_score x), ce_key x) \<le> (sg_rank sg (ce_score e'), k')"
  | (add) "btree_get (tm_map t) (ce_key e) = None" "v = None" "t' = add_entry sg e t" "0 < tm_capacity t \<longrightarrow> tier_len t < tm_capacity t"
proof (cases "btree_get (tm_map t) (ce_key e)")
  case (Some old)
  then have "ce_key old = ce_key e" using tier_invD(3) [OF inv] by blast
  with Some ins that(1) show ?thesis by (auto simp: tier_insert_def Let_def add_entry_def drop_entry_def)
next
  case None
  show ?thesis
  proof (cases "tm_capacity t > 0 \<and> tier_len t \<ge> tm_capacity t")
    case True
    then have "tm_map t \<noteq> []" by (auto simp: tier_len_def)
    from pop_lowest_spec [OF inv this] obtain x where x: "pop_lowest t = (Some x, drop_entry sg x t)"
      "btree_get (tm_map t) (ce_key x) = Some x"
      "\<forall>k' e'. btree_get (tm_map t) k' = Some e' \<longrightarrow> (sg_rank sg (ce_score x), ce_key x) \<le> (sg_rank sg (ce_score e'), k')"
      unfolding drop_entry_def by blast
    have "btree_get (tm_map (drop_entry sg x t)) (ce_key e) = None" using None by (simp add: drop_entry_def)
    then have "tier_insert sg e t = (Some x, add_entry sg e (drop_entry sg x t))"
      using True None x(1) by (simp add: tier_insert_def Let_def add_entry_def remove_absent)
    moreover have "tier_len t = tm_capacity t" using True tier_invD(5) [OF inv] by simp
    ultimately show ?thesis using that(2) [of x] None x True ins by simp
  next
    case False
    then have "tier_insert sg e t = (None, add_entry sg e t)"
      using None by (auto simp: tier_insert_def Let_def add_entry_def remove_absent)
    with that(3) None ins False show ?thesis by auto
  qed
qed

lemma drop_entry_fields [simp]:
  "tm_capacity (drop_entry sg x t) = tm_capacity t" "tm_capacity (add_entry sg x t) = tm_capacity t"
  "btree_get (tm_map (drop_entry sg x t)) = (btree_get (tm_map t))(ce_key x := None)"
  "btree_get (tm_map (add_entry sg x t)) = (btree_get (tm_map t))(ce_key x \<mapsto> x)"
  by (simp_all add: drop_entry_def add_entry_def)

lemma tier_insert_inv:
  assumes inv: "tier_inv sg t" and ins: "tier_insert sg e t = (v, t')"
  shows "tier_inv sg t'" and "tm_capacity t' = tm_capacity t"
    and "btree_get (tm_map t') = (case v of None \<Rightarrow> btree_get (tm_map t) | Some x \<Rightarrow> (btree_get (tm_map t))(ce_key x := None)) (ce_key e \<mapsto> e)"
    and "v = Some x \<Longrightarrow> btree_get (tm_map t) (ce_key x) = Some x \<and> ce_key x \<noteq> ce_key e
      \<and> (\<forall>k' e'. btree_get (tm_map t) k' = Some e' \<longrightarrow> (sg_rank sg (ce_score x), ce_key x) \<le> (sg_rank sg (ce_score e'), k'))"
proof -
  have "tier_inv sg t' \<and> tm_capacity t' = tm_capacity t \<and>
      btree_get (tm_map t') = (case v of None \<Rightarrow> btree_get (tm_map t) | Some x \<Rightarrow> (btree_get (tm_map t))(ce_key x := None)) (ce_key e \<mapsto> e)"
    using inv ins
  proof (cases rule: tier_insert_cases)
    case (replace old)
    have key: "ce_key old = ce_key e" using tier_invD(3) [OF inv replace(1)] .
    have "0 < tier_len t" using replace(1) by (cases "tm_map t") (auto simp: tier_len_def)
    then have "tier_inv sg (add_entry sg e (drop_entry sg old t))"
      using drop_entry_inv [OF inv, of old] replace(1) key tier_invD(5) [OF inv] by (intro add_entry_inv) (auto simp: key)
    with replace key show ?thesis by simp
  next
    case (evict x)
    then have "tier_inv sg (add_entry sg e (drop_entry sg x t))"
      using drop_entry_inv [OF inv evict(3)] by (intro add_entry_inv) auto
    with evict show ?thesis by simp
  next
    case add
    with add_entry_inv [OF inv] show ?thesis by simp
  qed
  then show "tier_inv sg t'" "tm_capacity t' = tm_capacity t"
    "btree_get (tm_map t') = (case v of None \<Rightarrow> btree_get (tm_map t) | Some x \<Rightarrow> (btree_get (tm_map t))(ce_key x := None)) (ce_key e \<mapsto> e)"
    by blast+
  show "btree_get (tm_map t) (ce_key x) = Some x \<and> ce_key x \<noteq> ce_key e
      \<and> (\<forall>k' e'. btree_get (tm_map t) k' = Some e' \<longrightarrow> (sg_rank sg (ce_score x), ce_key x) \<le> (sg_rank sg (ce_score e'), k'))"
    if "v = Some x" using inv ins that by (cases rule: tier_insert_cases) auto
qed

interpretation tier: eviction_store "\<lambda>t. btree_get (tm_map t)" "tier_insert sg" "tier_remove sg" ce_key "tier_inv sg" for sg
proof unfold_locales
  fix t t' :: "('a, 'b) tier_map" and e v x k r
  show "tier_inv sg t'" if "tier_inv sg t" "tier_insert sg e t = (v, t')" using that by (rule tier_insert_inv)
  show "btree_get (tm_map t') = (case v of None \<Rightarrow> btree_get (tm_map t) | Some x \<Rightarrow> (btree_get (tm_map t))(ce_key x := None)) (ce_key e \<mapsto> e)"
    if "tier_inv sg t" "tier_insert sg e t = (v, t')" using that by (rule tier_insert_inv)
  show "btree_get (tm_map t) (ce_key x) = Some x \<and> ce_key x \<noteq> ce_key e"
    if "tier_inv sg t" "tier_insert sg e t = (Some x, t')" using tier_insert_inv(4) [OF that refl] by blast
  show "tier_inv sg t'" if "tier_inv sg t" "tier_remove sg k t = (r, t')" using that by (rule tier_remove_inv)
  show "r = btree_get (tm_map t) k \<and> btree_get (tm_map t') = (btree_get (tm_map t))(k := None)"
    if "tier_remove sg k t = (r, t')" using that by (rule tier_remove_get)
qed

lemma tier_retain_spec:
  assumes "tier_inv sg t"
  shows "tier_inv sg (tier_retain sg keep t)"
    and "btree_get (tm_map (tier_retain sg keep t)) k = (case btree_get (tm_map t) k of
      None \<Rightarrow> None | Some e \<Rightarrow> if keep k e then Some e else None)"
proof -
  have dead: "k \<in> set (map fst (filter (\<lambda>(k, e). \<not> keep k e) (tm_map t))) \<longleftrightarrow> (\<exists>e. btree_get (tm_map t) k = Some e \<and> \<not> keep k e)"
    unfolding get_iff [OF tier_invD(1) [OF assms]] by force
  show "tier_inv sg (tier_retain sg keep t)" unfolding tier_retain_def using tier.remove_all [OF assms] by blast
  show "btree_get (tm_map (tier_retain sg keep t)) k = (case btree_get (tm_map t) k of
      None \<Rightarrow> None | Some e \<Rightarrow> if keep k e then Some e else None)"
    unfolding tier_retain_def tier.remove_all [OF assms, THEN conjunct2] dead by (auto split: option.splits)
qed

lemma tier_remove_capacity: "tier_remove sg k t = (r, t') \<Longrightarrow> tm_capacity t' = tm_capacity t"
  by (auto simp: tier_remove_def split: option.splits)

lemma tier_retain_capacity: "tm_capacity (tier_retain sg keep t) = tm_capacity t"
proof -
  have "tm_capacity (foldl (\<lambda>t k. snd (tier_remove sg k t)) t ks) = tm_capacity t" for ks
    by (induction ks arbitrary: t) (simp_all add: tier_remove_capacity [OF prod.collapse [symmetric]])
  then show ?thesis by (simp add: tier_retain_def)
qed

end
