(* ===== verification/Cache_State.thy ===== *)
theory Cache_State
  imports Cache_Inv
begin

text \<open>
  The state of the semantic cache as a whole: its operations are steps of a machine whose invariant bounds
  every table, keeps the eviction indexes exact and keeps every entry under its own key.
\<close>

section \<open>What a cache holds\<close>

abbreviation view :: "('f, 'm) semantic_cache \<Rightarrow> tier \<Rightarrow> cache_key \<Rightarrow> ('f, 'm) cache_entry option" where
  "view c t \<equiv> btree_get (tm_map (get_tier t c))"

fun tier_capacity :: "tier \<Rightarrow> 'f cache_config \<Rightarrow> usize" where
  "tier_capacity Hot cfg = hot_capacity cfg"
| "tier_capacity Warm cfg = warm_capacity cfg"
| "tier_capacity Cold cfg = cold_capacity cfg"

definition cache_inv :: "('f, 'm, 'i) signals \<Rightarrow> ('f, 'm) semantic_cache \<Rightarrow> bool" where
  "cache_inv sg c \<longleftrightarrow> (\<forall>t. tier_inv sg (get_tier t c) \<and> tm_capacity (get_tier t c) = tier_capacity t (cc_config c))
    \<and> btree_inv (nx c) \<and> length (nx c) \<le> max 1 (nx_capacity (cc_config c))"

lemma get_set_tier [simp]: "get_tier u (set_tier t tm c) = (if u = t then tm else get_tier u c)"
  by (cases t; cases u) simp_all

lemma set_tier_rest [simp]:
  "cc_config (set_tier t tm c) = cc_config c" "nx (set_tier t tm c) = nx c" "stats (set_tier t tm c) = stats c"
  by (cases t; simp)+

lemma tier_fields [simp]:
  "hot (set_tier t tm c) = (if t = Hot then tm else hot c)"
  "warm (set_tier t tm c) = (if t = Warm then tm else warm c)"
  "cold (set_tier t tm c) = (if t = Cold then tm else cold c)"
  by (cases t; simp)+

text \<open>Counters are irrelevant to everything below.\<close>

lemma count_simps [simp]:
  "get_tier t (count_hit c) = get_tier t c" "get_tier t (count_miss c) = get_tier t c"
  "get_tier t (count_stale c) = get_tier t c" "get_tier t (count_insert c) = get_tier t c"
  "get_tier t (count_eviction c) = get_tier t c"
  "cc_config (count_hit c) = cc_config c" "cc_config (count_miss c) = cc_config c" "cc_config (count_stale c) = cc_config c"
  "cc_config (count_insert c) = cc_config c" "cc_config (count_eviction c) = cc_config c"
  "nx (count_hit c) = nx c" "nx (count_miss c) = nx c" "nx (count_stale c) = nx c" "nx (count_insert c) = nx c"
  "nx (count_eviction c) = nx c"
  by (cases t; simp add: count_hit_def count_miss_def count_stale_def count_insert_def count_eviction_def)+

lemma cache_inv_cong:
  assumes "\<And>t. get_tier t c = get_tier t c'" and "cc_config c = cc_config c'" and "nx c = nx c'"
  shows "cache_inv sg c = cache_inv sg c'"
  using assms by (simp add: cache_inv_def)

lemma count_inv [simp]:
  "cache_inv sg (count_hit c) = cache_inv sg c" "cache_inv sg (count_miss c) = cache_inv sg c"
  "cache_inv sg (count_stale c) = cache_inv sg c" "cache_inv sg (count_insert c) = cache_inv sg c"
  "cache_inv sg (count_eviction c) = cache_inv sg c"
  by (rule cache_inv_cong; simp)+

lemma cache_inv_set_tier:
  assumes "cache_inv sg c" and "tier_inv sg tm" and "tm_capacity tm = tm_capacity (get_tier t c)"
  shows "cache_inv sg (set_tier t tm c)"
  using assms by (auto simp: cache_inv_def)

lemma cache_inv_tier: "cache_inv sg c \<Longrightarrow> tier_inv sg (get_tier t c)"
  by (simp add: cache_inv_def)

lemma cache_new_inv: "cache_inv sg (cache_new cfg)"
proof -
  have "get_tier t (cache_new cfg :: ('a, 'b) semantic_cache) = tier_new (tier_capacity t cfg)" for t
    by (cases t) (simp_all add: cache_new_def)
  then show ?thesis by (simp add: cache_inv_def tier_new_inv) (simp add: cache_new_def tier_new_def)
qed

section \<open>Placing entries\<close>

text \<open>The data of an entry without the label of its tier.\<close>

definition untiered :: "('f, 'm) cache_entry \<Rightarrow> ('f, 'm) cache_entry" where
  "untiered e = e\<lparr>ce_tier := Hot\<rparr>"

lemma untiered_upd [simp]: "untiered (e\<lparr>ce_tier := t\<rparr>) = untiered e"
  by (simp add: untiered_def)

lemma untiered_eq:
  "untiered x = untiered y \<Longrightarrow> ce_key x = ce_key y \<and> ce_kind x = ce_kind y \<and> ce_expires x = ce_expires y
    \<and> ce_validated x = ce_validated y \<and> ce_score x = ce_score y"
  by (cases x; cases y) (simp add: untiered_def)

text \<open>One insertion into a tier.\<close>

lemma set_tier_insert:
  assumes inv: "cache_inv sg c" and ins: "tier_insert sg e (get_tier t c) = (v, tm)"
  shows "cache_inv sg (set_tier t tm c)"
    and "view (set_tier t tm c) u k = Some x \<Longrightarrow> (u = t \<and> k = ce_key e \<and> x = e) \<or> view c u k = Some x"
    and "v = Some w \<Longrightarrow> view c t (ce_key w) = Some w \<and> ce_key w \<noteq> ce_key e"
    and "view (set_tier t tm c) t (ce_key e) = Some e"
    and "v = Some w \<Longrightarrow> view (set_tier t tm c) t (ce_key w) = None"
proof -
  note ti = cache_inv_tier [OF inv, of t]
  note I = tier_insert_inv [OF ti ins]
  show "cache_inv sg (set_tier t tm c)" using cache_inv_set_tier [OF inv I(1,2)] .
  show "(u = t \<and> k = ce_key e \<and> x = e) \<or> view c u k = Some x" if "view (set_tier t tm c) u k = Some x"
    using that tier.ins_sub [OF ti ins] by (auto split: if_splits)
  show "view c t (ce_key w) = Some w \<and> ce_key w \<noteq> ce_key e" if "v = Some w" using I(4) [OF that] by blast
  show "view (set_tier t tm c) t (ce_key e) = Some e" using tier.ins_new [OF ti ins] by simp
  show "view (set_tier t tm c) t (ce_key w) = None" if "v = Some w" using I(3) I(4) [OF that] that by simp
qed

definition exclusive :: "('f, 'm) semantic_cache \<Rightarrow> bool" where
  "exclusive c \<longleftrightarrow> (\<forall>k t u. view c t k \<noteq> None \<and> view c u k \<noteq> None \<longrightarrow> t = u)"

definition absent :: "cache_key \<Rightarrow> ('f, 'm) semantic_cache \<Rightarrow> bool" where
  "absent k c \<longleftrightarrow> (\<forall>t. view c t k = None)"

lemma tier_for_capacity: "tier_for sg c s = Some t \<Longrightarrow> 0 < tm_capacity (get_tier t c)"
  by (auto simp: tier_for_def Let_def split: option.splits if_splits)

lemma tier_below_neq: "tier_below t = Some u \<Longrightarrow> u \<noteq> t"
  by (cases t) auto

lemma spill_cases:
  assumes "spill sg w t c = c'"
  obtains (drop) "c' = count_eviction c"
  | (demote) u v tm where "tier_below t = Some u" "0 < tm_capacity (get_tier u c)"
      "tier_insert sg (w\<lparr>ce_tier := u\<rparr>) (get_tier u (count_eviction c)) = (v, tm)" "c' = set_tier u tm (count_eviction c)"
  using assms by (auto simp: spill_def Let_def split: option.splits if_splits) (metis prod.collapse)

lemma exclusiveI:
  assumes "exclusive c" and "\<And>t k x. view c' t k = Some x \<Longrightarrow> (t = home \<and> k = key) \<or> (\<exists>y. view c t k = Some y)" and "absent key c"
  shows "exclusive c'"
  unfolding exclusive_def
proof (intro allI impI)
  fix k t u
  assume "view c' t k \<noteq> None \<and> view c' u k \<noteq> None"
  then obtain x y where "view c' t k = Some x" "view c' u k = Some y" by blast
  from assms(2) [OF this(1)] assms(2) [OF this(2)] show "t = u"
    using assms(1,3) unfolding absent_def exclusive_def by (metis option.distinct(1))
qed

lemma spill_spec:
  assumes inv: "cache_inv sg c"
  shows "cache_inv sg (spill sg w t c)"
    and "view (spill sg w t c) u k = Some x \<Longrightarrow> (u \<noteq> t \<and> k = ce_key w \<and> untiered x = untiered w) \<or> view c u k = Some x"
    and "view (spill sg w t c) t = view c t"
    and "cc_config (spill sg w t c) = cc_config c" and "nx (spill sg w t c) = nx c"
    and "exclusive c \<Longrightarrow> absent (ce_key w) c \<Longrightarrow> exclusive (spill sg w t c)"
proof -
  have inv': "cache_inv sg (count_eviction c)" using inv by simp
  have "cache_inv sg (spill sg w t c) \<and> (\<forall>u k x. view (spill sg w t c) u k = Some x \<longrightarrow>
      (u \<noteq> t \<and> k = ce_key w \<and> untiered x = untiered w) \<or> view c u k = Some x)
    \<and> view (spill sg w t c) t = view c t \<and> cc_config (spill sg w t c) = cc_config c \<and> nx (spill sg w t c) = nx c
    \<and> (exclusive c \<and> absent (ce_key w) c \<longrightarrow> exclusive (spill sg w t c))"
  proof (cases rule: spill_cases [OF refl, of sg w t c, case_names drop demote])
    case drop
    then show ?thesis using inv by (simp add: exclusive_def)
  next
    case (demote u v tm)
    note S = set_tier_insert [OF inv' demote(3)]
    note ne = tier_below_neq [OF demote(1)]
    have sub: "(u' = u \<and> k = ce_key w \<and> x = w\<lparr>ce_tier := u\<rparr>) \<or> view c u' k = Some x"
      if g: "view (spill sg w t c) u' k = Some x" for u' k x
      using S(2) [of u' k x] g by (simp add: demote(4))
    have "exclusive (spill sg w t c)" if "exclusive c" "absent (ce_key w) c"
      using that(1) _ that(2) by (rule exclusiveI) (use sub in blast)
    moreover have "view (spill sg w t c) t = view c t" using ne by (simp add: demote(4))
    moreover have "(u' \<noteq> t \<and> k = ce_key w \<and> untiered x = untiered w) \<or> view c u' k = Some x"
      if "view (spill sg w t c) u' k = Some x" for u' k x
      using sub [OF that] ne by auto
    ultimately show ?thesis using S(1) by (simp add: demote(4))
  qed
  then show "cache_inv sg (spill sg w t c)"
    and "view (spill sg w t c) u k = Some x \<Longrightarrow> (u \<noteq> t \<and> k = ce_key w \<and> untiered x = untiered w) \<or> view c u k = Some x"
    and "view (spill sg w t c) t = view c t"
    and "cc_config (spill sg w t c) = cc_config c" and "nx (spill sg w t c) = nx c"
    and "exclusive c \<Longrightarrow> absent (ce_key w) c \<Longrightarrow> exclusive (spill sg w t c)" by blast+
qed

text \<open>What is new in a state relative to another: at most one entry.\<close>

definition grows :: "('f, 'm) cache_entry option \<Rightarrow> ('f, 'm) semantic_cache \<Rightarrow> ('f, 'm) semantic_cache \<Rightarrow> bool" where
  "grows e c c' \<longleftrightarrow> cc_config c' = cc_config c \<and>
    (\<forall>t k x. view c' t k = Some x \<longrightarrow>
      (\<exists>y. e = Some y \<and> k = ce_key y \<and> untiered x = untiered y) \<or> (\<exists>u y. view c u k = Some y \<and> untiered x = untiered y))"

lemma growsD: "grows e c c' \<Longrightarrow> view c' t k = Some x \<Longrightarrow>
    (\<exists>y. e = Some y \<and> k = ce_key y \<and> untiered x = untiered y) \<or> (\<exists>u y. view c u k = Some y \<and> untiered x = untiered y)"
  unfolding grows_def by blast

lemma grows_refl: "grows e c c"
  unfolding grows_def by blast

lemma grows_trans: "grows None c c' \<Longrightarrow> grows e c' c'' \<Longrightarrow> grows e c c''"
  unfolding grows_def by (metis option.distinct(1))

lemma grows_cong:
  assumes "\<And>t. get_tier t c' = get_tier t c''" and "cc_config c' = cc_config c''"
  shows "grows e c c' = grows e c c''" and "grows e c' c = grows e c'' c"
  using assms by (simp_all add: grows_def)

lemma place_spec:
  assumes inv: "cache_inv sg c"
  shows "cache_inv sg (place sg e c)" and "grows (Some e) c (place sg e c)" and "nx (place sg e c) = nx c"
    and "exclusive c \<Longrightarrow> absent (ce_key e) c \<Longrightarrow> exclusive (place sg e c)"
    and "tier_for sg c (ce_score e) = Some t \<Longrightarrow> view (place sg e c) t (ce_key e) = Some (e\<lparr>ce_tier := t\<rparr>)"
proof -
  have "cache_inv sg (place sg e c) \<and> grows (Some e) c (place sg e c) \<and> nx (place sg e c) = nx c
    \<and> (exclusive c \<and> absent (ce_key e) c \<longrightarrow> exclusive (place sg e c))
    \<and> (tier_for sg c (ce_score e) = Some t \<longrightarrow> view (place sg e c) t (ce_key e) = Some (e\<lparr>ce_tier := t\<rparr>))"
  proof (cases "tier_for sg c (ce_score e)")
    case None
    then show ?thesis using inv by (simp add: place_def grows_refl)
  next
    case (Some t')
    obtain v tm where ins: "tier_insert sg (e\<lparr>ce_tier := t'\<rparr>) (get_tier t' c) = (v, tm)" by fastforce
    note S = set_tier_insert [OF inv ins]
    let ?c1 = "set_tier t' tm c"
    have g1: "grows (Some e) c ?c1"
      unfolding grows_def
    proof (intro conjI allI impI)
      fix u k x
      assume "view ?c1 u k = Some x"
      from S(2) [OF this]
      show "(\<exists>y. Some e = Some y \<and> k = ce_key y \<and> untiered x = untiered y) \<or> (\<exists>u y. view c u k = Some y \<and> untiered x = untiered y)"
        by auto
    qed simp
    have x1: "exclusive ?c1" if "exclusive c" "absent (ce_key e) c"
      using that(1) _ that(2) by (rule exclusiveI [where home = t']) (use S(2) in fastforce)
    show ?thesis
    proof (cases v)
      case None
      then have p: "place sg e c = ?c1" using Some ins by (simp add: place_def)
      show ?thesis unfolding p using S(1,4) g1 x1 Some by auto
    next
      case w: (Some w)
      have p: "place sg e c = spill sg w t' ?c1" using Some ins w by (simp add: place_def)
      note P = spill_spec [OF S(1), where w = w and t = t']
      have old: "view c t' (ce_key w) = Some w" "ce_key w \<noteq> ce_key e" using S(3) [OF w] by simp_all
      have ab: "absent (ce_key w) ?c1" if "exclusive c"
        unfolding absent_def
      proof
        fix u
        show "view ?c1 u (ce_key w) = None"
          using S(5) [OF w] old that unfolding exclusive_def by (cases "u = t'") (auto, metis option.distinct(1) option.exhaust)
      qed
      have "grows (Some e) c (place sg e c)"
        unfolding grows_def
      proof (intro conjI allI impI)
        fix u k x
        assume "view (place sg e c) u k = Some x"
        then consider "k = ce_key w" "untiered x = untiered w" | "view ?c1 u k = Some x" using P(2) [of u k x] unfolding p by blast
        then show "(\<exists>y. Some e = Some y \<and> k = ce_key y \<and> untiered x = untiered y) \<or> (\<exists>u y. view c u k = Some y \<and> untiered x = untiered y)"
        proof cases
          case 1
          with old show ?thesis by blast
        next
          case 2
          from growsD [OF g1 this] show ?thesis .
        qed
      qed (simp add: p P(4))
      moreover have "view (place sg e c) t' (ce_key e) = Some (e\<lparr>ce_tier := t'\<rparr>)"
        unfolding p P(3) using S(4) by simp
      ultimately show ?thesis using P(1,5) P(6) [OF x1 ab] Some unfolding p by auto
    qed
  qed
  then show "cache_inv sg (place sg e c)" and "grows (Some e) c (place sg e c)" and "nx (place sg e c) = nx c"
    and "exclusive c \<Longrightarrow> absent (ce_key e) c \<Longrightarrow> exclusive (place sg e c)"
    and "tier_for sg c (ce_score e) = Some t \<Longrightarrow> view (place sg e c) t (ce_key e) = Some (e\<lparr>ce_tier := t\<rparr>)" by blast+
qed

lemma park_eq: "park sg e c = set_tier Cold (snd (tier_insert sg (e\<lparr>ce_tier := Cold\<rparr>) (get_tier Cold c))) c"
  by (simp add: park_def)

lemma park_spec:
  assumes inv: "cache_inv sg c"
  shows "cache_inv sg (park sg e c)" and "grows (Some e) c (park sg e c)" and "nx (park sg e c) = nx c"
    and "exclusive c \<Longrightarrow> absent (ce_key e) c \<Longrightarrow> exclusive (park sg e c)"
proof -
  obtain v tm where ins: "tier_insert sg (e\<lparr>ce_tier := Cold\<rparr>) (get_tier Cold c) = (v, tm)" by fastforce
  note S = set_tier_insert [OF inv ins]
  have p: "park sg e c = set_tier Cold tm c" unfolding park_eq ins by simp
  show "cache_inv sg (park sg e c)" "nx (park sg e c) = nx c" unfolding p using S(1) by simp_all
  show "grows (Some e) c (park sg e c)" unfolding p grows_def using S(2) by fastforce
  show "exclusive (park sg e c)" if "exclusive c" "absent (ce_key e) c"
    unfolding p using that(1) _ that(2) by (rule exclusiveI [where home = Cold]) (use S(2) in fastforce)
qed

lemma set_tier_remove:
  assumes inv: "cache_inv sg c" and rem: "tier_remove sg k (get_tier t c) = (r, tm)"
  shows "cache_inv sg (set_tier t tm c)" and "r = view c t k"
    and "view (set_tier t tm c) u k' = (if u = t \<and> k' = k then None else view c u k')"
    and "grows None c (set_tier t tm c)" and "exclusive c \<Longrightarrow> exclusive (set_tier t tm c)"
    and "exclusive c \<Longrightarrow> r \<noteq> None \<Longrightarrow> absent k (set_tier t tm c)"
proof -
  note R = tier.rem_get [OF rem]
  show v: "view (set_tier t tm c) u k' = (if u = t \<and> k' = k then None else view c u k')" for u k' using R by simp
  show "cache_inv sg (set_tier t tm c)"
    by (rule cache_inv_set_tier [OF inv tier.rem_ok [OF cache_inv_tier [OF inv] rem] tier_remove_capacity [OF rem]])
  show r: "r = view c t k" using R by simp
  show "grows None c (set_tier t tm c)" unfolding grows_def using v by (auto split: if_splits)
  show "exclusive (set_tier t tm c)" if "exclusive c" using that v unfolding exclusive_def by presburger
  show "absent k (set_tier t tm c)" if "exclusive c" "r \<noteq> None"
    using that v r unfolding exclusive_def absent_def by metis
qed

section \<open>Lookups\<close>

text \<open>Where an outcome comes from: an entry of the state before, still within its time.\<close>

definition served_from :: "('f, 'm) semantic_cache \<Rightarrow> cache_key \<Rightarrow> ts \<Rightarrow> ('f, 'm) lookup_outcome \<Rightarrow> bool" where
  "served_from c k now out \<longleftrightarrow> (case out of
      Fresh e \<Rightarrow> ce_key e = k \<and> is_fresh e now \<and>
        (\<exists>t y. view c t k = Some y \<and> ce_kind e = ce_kind y \<and> ce_expires e = ce_expires y \<and> ce_validated e = ce_validated y)
    | Stale e \<Rightarrow> ce_key e = k \<and> is_stale_servable e now (stale_window_secs (cc_config c)) \<and>
        (\<exists>t y. view c t k = Some y \<and> ce_kind e = ce_kind y \<and> ce_expires e = ce_expires y \<and> ce_validated e = ce_validated y)
    | CnameHit target ttl expires valid \<Rightarrow> now < expires \<and>
        (\<exists>t y s. view c t k = Some y \<and> ce_kind y = Positive s \<and> cname_target s = Some target \<and> ttl = rs_ttl s
           \<and> ce_expires y = expires \<and> ce_validated y = valid)
    | _ \<Rightarrow> False)"

lemma served_from_grows:
  assumes "grows None c c'" and "served_from c' k now out"
  shows "served_from c k now out"
proof -
  have prior: "\<exists>u z. view c u k = Some z \<and> ce_kind z = ce_kind y \<and> ce_expires z = ce_expires y \<and> ce_validated z = ce_validated y"
    if "view c' t k = Some y" for t y
    using growsD [OF assms(1) that] untiered_eq by (metis option.distinct(1))
  have cfg: "cc_config c' = cc_config c" using assms(1) by (simp add: grows_def)
  show ?thesis
  proof (cases out)
    case (Fresh e)
    with assms(2) obtain t y where "view c' t k = Some y" "ce_kind e = ce_kind y" "ce_expires e = ce_expires y" "ce_validated e = ce_validated y"
      and r: "ce_key e = k" "is_fresh e now" by (auto simp: served_from_def)
    with prior [OF this(1)] show ?thesis unfolding served_from_def Fresh by (simp add: r) metis
  next
    case (Stale e)
    with assms(2) obtain t y where "view c' t k = Some y" "ce_kind e = ce_kind y" "ce_expires e = ce_expires y" "ce_validated e = ce_validated y"
      and r: "ce_key e = k" "is_stale_servable e now (stale_window_secs (cc_config c))" by (auto simp: served_from_def cfg)
    with prior [OF this(1)] show ?thesis unfolding served_from_def Stale by (simp add: r) metis
  next
    case (CnameHit target ttl expires valid)
    with assms(2) obtain t y s where "view c' t k = Some y" "ce_kind y = Positive s" "cname_target s = Some target"
      "ttl = rs_ttl s" "ce_expires y = expires" "ce_validated y = valid" and r: "now < expires"
      by (auto simp: served_from_def)
    with prior [OF this(1)] show ?thesis unfolding served_from_def CnameHit by (simp add: r) metis
  qed (use assms(2) in \<open>simp_all add: served_from_def\<close>)
qed

end
