(* ===== verification/Cache_Lookup.thy ===== *)
theory Cache_Lookup
  imports Cache_State
begin

text \<open>
  Lookups.  \<open>partition_lookup\<close> is the contract of a lookup in one partition; the walk over partitions is
  correct for every such lookup: what it returns was stored under a key the requester may read.
\<close>

section \<open>The walk over partitions\<close>

text \<open>A partition \<open>b\<close> whose network contains the network of \<open>e\<close>.\<close>

definition covers_net :: "ecs_key \<Rightarrow> ecs_key \<Rightarrow> bool" where
  "covers_net b e \<longleftrightarrow> ek_family b = ek_family e \<and> ek_prefix b \<le> ek_prefix e \<and> ek_addr b = truncate_to (ek_addr e) (ek_prefix b)"

definition readable :: "cache_key \<Rightarrow> cache_key \<Rightarrow> bool" where
  "readable key k \<longleftrightarrow> ck_name k = ck_name key \<and> ck_type k = ck_type key \<and> ck_class k = ck_class key \<and>
    (ck_ecs k = None \<or> ck_ecs k = ck_ecs key \<or>
     (\<exists>e b. ck_ecs key = Some e \<and> ck_ecs k = Some b \<and> covers_net b e))"

lemma readable_self: "readable key key"
  by (simp add: readable_def)

lemma readable_global: "readable key (with_ecs key None)"
  by (simp add: readable_def with_ecs_def)

lemma readable_scope: "ck_ecs key = Some e \<Longrightarrow> with_scope e n = Some b \<Longrightarrow> readable key (with_ecs key (Some b))"
  by (auto simp: readable_def with_ecs_def with_scope_def covers_net_def Let_def min_def split: if_splits)

locale partition_lookup =
  fixes f :: "cache_key \<Rightarrow> 's \<Rightarrow> 'a option \<times> 's"
    and ok :: "'s \<Rightarrow> bool" and le :: "'s \<Rightarrow> 's \<Rightarrow> bool" and serves :: "'s \<Rightarrow> cache_key \<Rightarrow> 'a \<Rightarrow> bool"
  assumes keeps: "ok s \<Longrightarrow> f k s = (r, s') \<Longrightarrow> ok s'"
    and miss: "ok s \<Longrightarrow> f k s = (None, s') \<Longrightarrow> le s s'"
    and hit: "ok s \<Longrightarrow> f k s = (Some x, s') \<Longrightarrow> serves s k x"
    and le_trans: "le s s' \<Longrightarrow> le s' s'' \<Longrightarrow> le s s''"
    and le_serves: "le s s' \<Longrightarrow> serves s' k x \<Longrightarrow> serves s k x"
begin

lemma global:
  assumes "ok s" and "f (with_ecs key None) s = (r, s')"
  shows "ok s' \<and> (case r of None \<Rightarrow> le s s' | Some x \<Rightarrow> \<exists>k. readable key k \<and> serves s k x)"
  using keeps [OF assms] miss [OF assms(1)] hit [OF assms(1)] assms(2) readable_global [of key]
  by (auto split: option.splits)

lemma scopes:
  assumes "ok s" and e: "ck_ecs key = Some e" and "walk_scopes f key e n s = (r, s')"
  shows "ok s' \<and> (case r of None \<Rightarrow> le s s' | Some x \<Rightarrow> \<exists>k. readable key k \<and> serves s k x)"
  using assms(1,3)
proof (induction n arbitrary: s)
  case (Suc n)
  show ?case
  proof (cases n)
    case n: (Suc m)
    show ?thesis
    proof (cases "with_scope e (of_nat n)")
      case None
      with Suc.prems n show ?thesis by (auto intro!: global)
    next
      case (Some b)
      obtain r1 s1 where f: "f (with_ecs key (Some b)) s = (r1, s1)" by fastforce
      show ?thesis
      proof (cases r1)
        case None
        with Suc.prems(2) n Some f have w: "walk_scopes f key e n s1 = (r, s')" by simp
        note s1 = keeps [OF Suc.prems(1) f] miss [OF Suc.prems(1) f [unfolded None]]
        from Suc.IH [OF s1(1) w] show ?thesis using s1(2) le_trans le_serves by (auto split: option.splits)
      next
        case hit': (Some x)
        with Suc.prems(2) n Some f have "r = Some x" "s' = s1" by simp_all
        then show ?thesis
          using keeps [OF Suc.prems(1) f] hit [OF Suc.prems(1) f [unfolded hit']] readable_scope [OF e Some] by auto
      qed
    qed
  qed (use Suc.prems in \<open>auto intro!: global\<close>)
qed (auto intro!: global)

lemma walk:
  assumes "ok s" and "walk_partitions key f s = (r, s')"
  shows "ok s' \<and> (case r of None \<Rightarrow> le s s' | Some x \<Rightarrow> \<exists>k. readable key k \<and> serves s k x)"
proof -
  obtain r1 s1 where f: "f key s = (r1, s1)" by fastforce
  show ?thesis
  proof (cases r1)
    case (Some x)
    with f assms(2) have "r = Some x" "s' = s1" by (simp_all add: walk_partitions_def)
    then show ?thesis
      using keeps [OF assms(1) f] hit [OF assms(1) f [unfolded Some]] readable_self [of key] by auto
  next
    case None
    note s1 = keeps [OF assms(1) f] miss [OF assms(1) f [unfolded None]]
    show ?thesis
    proof (cases "ck_ecs key")
      case None
      with \<open>r1 = None\<close> f assms(2) s1 show ?thesis by (auto simp: walk_partitions_def)
    next
      case (Some e)
      with \<open>r1 = None\<close> f assms(2) have "walk_scopes f key e (unat (ek_prefix e)) s1 = (r, s')"
        by (simp add: walk_partitions_def)
      from scopes [OF s1(1) Some this] show ?thesis using s1(2) le_trans le_serves by (auto split: option.splits)
    qed
  qed
qed

end

section \<open>Lookups in one partition\<close>

definition shrinks :: "('f, 'm) semantic_cache \<Rightarrow> ('f, 'm) semantic_cache \<Rightarrow> bool" where
  "shrinks c c' \<longleftrightarrow> grows None c c' \<and> nx c' = nx c"

lemma shrinks_refl: "shrinks c c"
  by (simp add: shrinks_def grows_refl)

lemma shrinks_trans: "shrinks c c' \<Longrightarrow> shrinks c' c'' \<Longrightarrow> shrinks c c''"
  by (auto simp: shrinks_def intro: grows_trans)

lemma shrinks_remove: "cache_inv sg c \<Longrightarrow> tier_remove sg k (get_tier t c) = (r, tm) \<Longrightarrow> shrinks c (set_tier t tm c)"
  by (simp add: shrinks_def set_tier_remove(4))

lemma shrinks_miss: "shrinks c c' \<Longrightarrow> shrinks c (count_miss c')"
  by (simp add: shrinks_def grows_cong [of "count_miss c'" c'])

text \<open>Putting back an entry that was taken out adds nothing.\<close>

lemma grows_back:
  assumes "grows None c c1" and "grows (Some e) c1 c2" and "view c t (ce_key e) = Some y" and "untiered e = untiered y"
  shows "grows None c c2"
  unfolding grows_def
proof (intro conjI allI impI)
  fix u k x
  assume "view c2 u k = Some x"
  from growsD [OF assms(2) this] show "(\<exists>y. None = Some y \<and> k = ce_key y \<and> untiered x = untiered y)
      \<or> (\<exists>u y. view c u k = Some y \<and> untiered x = untiered y)"
  proof (elim disjE exE conjE)
    fix u' y' assume "view c1 u' k = Some y'" "untiered x = untiered y'"
    with growsD [OF assms(1) this(1)] show ?thesis by auto
  qed (use assms(3,4) in auto)
qed (use assms(1,2) in \<open>simp add: grows_def\<close>)

lemma exclusive_count [simp]:
  "exclusive (count_hit c) = exclusive c" "exclusive (count_miss c) = exclusive c" "exclusive (count_stale c) = exclusive c"
  "exclusive (count_insert c) = exclusive c"
  unfolding exclusive_def count_simps by (rule refl)+

lemma absent_count [simp]:
  "absent k (count_hit c) = absent k c" "absent k (count_miss c) = absent k c" "absent k (count_stale c) = absent k c"
  "absent k (count_insert c) = absent k c"
  unfolding absent_def count_simps by (rule refl)+

text \<open>The effect of \<open>place\<close> and \<open>park\<close> at the end of a successful lookup.\<close>

definition settled :: "('f, 'm, 'i) signals \<Rightarrow> ('f, 'm) semantic_cache \<Rightarrow> ('f, 'm) semantic_cache \<Rightarrow> bool" where
  "settled sg c c' \<longleftrightarrow> cache_inv sg c' \<and> (exclusive c \<longrightarrow> exclusive c') \<and> cc_config c' = cc_config c \<and> nx c' = nx c"

lemma settled_put:
  assumes "cache_inv sg c1" and "exclusive c \<Longrightarrow> exclusive c1 \<and> absent (ce_key e) c1"
    and "cc_config c1 = cc_config c" and "nx c1 = nx c"
  shows "settled sg c (place sg e c1)" and "settled sg c (park sg e c1)"
  using place_spec [OF assms(1), of e] park_spec [OF assms(1), of e] assms(2-4) by (simp_all add: settled_def grows_def)

lemma lookup_exact_in_spec:
  assumes "cache_inv sg c" and "lookup_exact_in sg k now ts c = (r, c')"
  shows "cache_inv sg c' \<and> (exclusive c \<longrightarrow> exclusive c') \<and> cc_config c' = cc_config c \<and> nx c' = nx c
    \<and> (case r of None \<Rightarrow> shrinks c c' | Some out \<Rightarrow> served_from c k now out)"
  using assms
proof (induction ts arbitrary: c)
  case Nil
  then show ?case by (simp add: shrinks_refl)
next
  case (Cons t ts)
  obtain o1 tm where rem: "tier_remove sg k (get_tier t c) = (o1, tm)" by fastforce
  note R = set_tier_remove [OF Cons.prems(1) rem]
  let ?c1 = "set_tier t tm c"
  show ?case
  proof (cases o1)
    case None
    with Cons rem show ?thesis by simp
  next
    case (Some e)
    have e: "view c t k = Some e" using R(2) Some by simp
    have key: "ce_key e = k" using tier_invD(3) [OF cache_inv_tier [OF Cons.prems(1)] e] .
    let ?e = "e\<lparr>last_served := now, ce_served := ce_served e + 1\<rparr>"
    have f: "is_fresh ?e = is_fresh e" "is_stale_servable ?e = is_stale_servable e"
      by (simp_all add: is_fresh_def is_stale_servable_def fun_eq_iff)
    consider (fresh) "is_fresh e now" | (stale) "\<not> is_fresh e now" "is_stale_servable e now (stale_window_secs (cc_config c))"
      | (dead) "\<not> is_fresh e now" "\<not> is_stale_servable e now (stale_window_secs (cc_config c))" by blast
    then show ?thesis
    proof cases
      case fresh
      let ?e' = "?e\<lparr>ce_score := score_entry sg ?e now (sg_default sg)\<rparr>"
      have "r = Some (Fresh ?e')" "c' = place sg ?e' (count_hit ?c1)"
        using Cons.prems(2) rem Some fresh f by (simp_all add: Let_def)
      moreover have "served_from c k now (Fresh ?e')" using e key fresh by (auto simp: served_from_def is_fresh_def)
      moreover have "exclusive (count_hit ?c1)" "absent k (count_hit ?c1)" if "exclusive c"
        using R(5,6) that Some by simp_all
      ultimately show ?thesis
        using settled_put(1) [of sg "count_hit ?c1" c ?e'] R(1) key by (simp add: settled_def)
    next
      case stale
      let ?c2 = "count_stale (count_hit ?c1)"
      have "r = Some (Stale ?e)" "c' = park sg (?e\<lparr>ce_tier := Cold\<rparr>) ?c2"
        using Cons.prems(2) rem Some stale f by (simp_all add: Let_def)
      moreover have "served_from c k now (Stale ?e)" using e key stale f by (auto simp: served_from_def)
      moreover have "exclusive ?c2" "absent k ?c2" if "exclusive c"
        using R(5,6) that Some by simp_all
      ultimately show ?thesis
        using settled_put(2) [of sg ?c2 c "?e\<lparr>ce_tier := Cold\<rparr>"] R(1) key by (simp add: settled_def)
    next
      case dead
      then have "lookup_exact_in sg k now ts (count_miss ?c1) = (r, c')"
        using Cons.prems(2) rem Some f by (simp add: Let_def)
      moreover have "shrinks c (count_miss ?c1)" using shrinks_miss [OF shrinks_remove [OF Cons.prems(1) rem]] .
      moreover have "exclusive (count_miss ?c1)" if "exclusive c" using R(5) [OF that] by simp
      ultimately show ?thesis
        using Cons.IH [of "count_miss ?c1"] R(1) shrinks_trans [of c "count_miss ?c1" c']
          served_from_grows [of c "count_miss ?c1" k now]
        by (auto simp: shrinks_def split: option.splits)
    qed
  qed
qed

lemma lookup_cname_in_spec:
  assumes "cache_inv sg c" and "lookup_cname_in sg k now ts c = (r, c')"
  shows "cache_inv sg c' \<and> (exclusive c \<longrightarrow> exclusive c') \<and> cc_config c' = cc_config c \<and> nx c' = nx c
    \<and> (case r of None \<Rightarrow> shrinks c c' | Some out \<Rightarrow> served_from c k now out)"
  using assms
proof (induction ts arbitrary: c)
  case Nil
  then show ?case by (simp add: shrinks_refl)
next
  case (Cons t ts)
  obtain o1 tm where rem: "tier_remove sg k (get_tier t c) = (o1, tm)" by fastforce
  note R = set_tier_remove [OF Cons.prems(1) rem]
  let ?c1 = "set_tier t tm c"
  show ?case
  proof (cases o1)
    case None
    with Cons rem show ?thesis by simp
  next
    case (Some e)
    have e: "view c t k = Some e" using R(2) Some by simp
    have key: "ce_key e = k" using tier_invD(3) [OF cache_inv_tier [OF Cons.prems(1)] e] .
    let ?target = "case ce_kind e of Positive s \<Rightarrow> cname_target s | _ \<Rightarrow> None"
    have ex: "exclusive ?c1 \<and> absent k ?c1" if "exclusive c" using R(5,6) that Some by simp
    have go: ?thesis if c2: "lookup_cname_in sg k now ts c2 = (r, c')" "cache_inv sg c2" "shrinks c c2"
      "exclusive c \<longrightarrow> exclusive c2" for c2
      using Cons.IH [OF c2(2,1)] shrinks_trans [OF c2(3), of c'] served_from_grows [of c c2 k now] c2(3,4)
      by (auto simp: shrinks_def grows_def split: option.splits)
    have restored: "shrinks c c2" if "grows (Some e) ?c1 c2" "nx c2 = nx ?c1" for c2
      using grows_back [OF R(4) that(1)] e key that(2) by (simp add: shrinks_def)
    show ?thesis
    proof (cases ?target)
      case None
      then have "lookup_cname_in sg k now ts (place sg e ?c1) = (r, c')"
        using Cons.prems(2) rem Some by (simp add: Let_def)
      then show ?thesis
        by (rule go) (use place_spec [OF R(1), of e] restored ex key in auto)
    next
      case target: (Some n)
      then obtain s where s: "ce_kind e = Positive s" "cname_target s = Some n" by (auto split: entry_kind.splits)
      consider (fresh) "is_fresh e now" | (stale) "\<not> is_fresh e now" "is_stale_servable e now (stale_window_secs (cc_config c))"
        | (dead) "\<not> is_fresh e now" "\<not> is_stale_servable e now (stale_window_secs (cc_config c))" by blast
      then show ?thesis
      proof cases
        case fresh
        let ?e = "e\<lparr>last_served := now, ce_served := ce_served e + 1\<rparr>"
        let ?e' = "?e\<lparr>ce_score := score_entry sg ?e now (sg_default sg)\<rparr>"
        have "r = Some (CnameHit n (ttl_secs ?e') (ce_expires ?e') (ce_validated ?e'))" "c' = place sg ?e' (count_hit ?c1)"
          using Cons.prems(2) rem Some s fresh by (simp_all add: Let_def)
        moreover have "served_from c k now (CnameHit n (ttl_secs ?e') (ce_expires ?e') (ce_validated ?e'))"
          using e s fresh by (auto simp: served_from_def is_fresh_def ttl_secs_def)
        moreover have "exclusive (count_hit ?c1)" "absent k (count_hit ?c1)" if "exclusive c"
          using ex [OF that] by simp_all
        ultimately show ?thesis
          using settled_put(1) [of sg "count_hit ?c1" c ?e'] R(1) key by (simp add: settled_def)
      next
        case stale
        let ?p = "e\<lparr>ce_tier := Cold\<rparr>"
        have "lookup_cname_in sg k now ts (park sg ?p ?c1) = (r, c')"
          using Cons.prems(2) rem Some s stale by (simp add: Let_def)
        moreover have "park sg ?p ?c1 = park sg e ?c1" by (simp add: park_def)
        ultimately show ?thesis
          by (intro go) (use park_spec [OF R(1), of e] restored ex key in auto)
      next
        case dead
        then have "lookup_cname_in sg k now ts ?c1 = (r, c')"
          using Cons.prems(2) rem Some s by (simp add: Let_def)
        then show ?thesis by (rule go) (use R ex shrinks_remove [OF Cons.prems(1) rem] in auto)
      qed
    qed
  qed
qed

end
