(* ===== verification/Cache_Machine.thy ===== *)
theory Cache_Machine
  imports Cache_Lookup
begin

text \<open>
  The semantic cache as a machine: every operation keeps the invariant of \<open>Cache_State\<close>, every operation but
  the restoring of a snapshot keeps entries in one tier, and what was inserted and admitted is what a
  lookup returns.
\<close>

section \<open>What a lookup returns\<close>

fun is_cname_hit :: "('f, 'm) lookup_outcome \<Rightarrow> bool" where
  "is_cname_hit (CnameHit _ _ _ _) = True"
| "is_cname_hit _ = False"

lemma lookup_exact_kind: "fst (lookup_exact_in sg k now ts c) = Some out \<Longrightarrow> \<not> is_cname_hit out"
  by (induction ts arbitrary: c) (auto simp: Let_def split: prod.splits option.splits if_splits)

lemma lookup_cname_kind: "fst (lookup_cname_in sg k now ts c) = Some out \<Longrightarrow> is_cname_hit out"
  by (induction ts arbitrary: c) (auto simp: Let_def split: prod.splits option.splits if_splits)

interpretation exact_walk: partition_lookup "\<lambda>k. lookup_exact sg k now" "cache_inv sg" shrinks
  "\<lambda>c k out. served_from c k now out \<and> \<not> is_cname_hit out" for sg now
proof unfold_locales
  fix c c' c'' :: "('a, 'b) semantic_cache" and k r out
  show "cache_inv sg c'" if "cache_inv sg c" "lookup_exact sg k now c = (r, c')"
    using lookup_exact_in_spec that unfolding lookup_exact_def by blast
  show "shrinks c c'" if "cache_inv sg c" "lookup_exact sg k now c = (None, c')"
    using lookup_exact_in_spec [of sg c] that unfolding lookup_exact_def by fastforce
  show "served_from c k now out \<and> \<not> is_cname_hit out" if "cache_inv sg c" "lookup_exact sg k now c = (Some out, c')"
    using lookup_exact_in_spec [OF that(1) that(2) [unfolded lookup_exact_def]] lookup_exact_kind that(2) [unfolded lookup_exact_def]
    by (metis fst_conv option.case(2))
  show "shrinks c c''" if "shrinks c c'" "shrinks c' c''" using that by (rule shrinks_trans)
  show "served_from c k now out \<and> \<not> is_cname_hit out" if "shrinks c c'" "served_from c' k now out \<and> \<not> is_cname_hit out"
    using that served_from_grows by (auto simp: shrinks_def)
qed

interpretation cname_walk: partition_lookup "\<lambda>k. lookup_cname sg k now" "cache_inv sg" shrinks
  "\<lambda>c k out. served_from c k now out \<and> is_cname_hit out" for sg now
proof unfold_locales
  fix c c' c'' :: "('a, 'b) semantic_cache" and k r out
  show "cache_inv sg c'" if "cache_inv sg c" "lookup_cname sg k now c = (r, c')"
    using lookup_cname_in_spec that unfolding lookup_cname_def by blast
  show "shrinks c c'" if "cache_inv sg c" "lookup_cname sg k now c = (None, c')"
    using lookup_cname_in_spec [of sg c] that unfolding lookup_cname_def by fastforce
  show "served_from c k now out \<and> is_cname_hit out" if "cache_inv sg c" "lookup_cname sg k now c = (Some out, c')"
    using lookup_cname_in_spec [OF that(1) that(2) [unfolded lookup_cname_def]] lookup_cname_kind that(2) [unfolded lookup_cname_def]
    by (metis fst_conv option.case(2))
  show "shrinks c c''" if "shrinks c c'" "shrinks c' c''" using that by (rule shrinks_trans)
  show "served_from c k now out \<and> is_cname_hit out" if "shrinks c c'" "served_from c' k now out \<and> is_cname_hit out"
    using that served_from_grows by (auto simp: shrinks_def)
qed

lemma cache_lookup_spec:
  assumes inv: "cache_inv sg c" and look: "cache_lookup sg key now c = (out, c')"
  shows "cache_inv sg c' \<and>
    (case out of
       CnameHit _ _ _ _ \<Rightarrow> \<exists>k. readable (with_type key RrType_CNAME) k \<and> served_from c k now out
     | NxDomainHit expires soa \<Rightarrow> now < expires \<and>
         (\<exists>neg. btree_get (nx c) (ck_name key) = Some neg \<and> ne_expires neg = expires \<and> ne_soa neg = soa)
     | Miss \<Rightarrow> True
     | _ \<Rightarrow> \<exists>k. readable key k \<and> served_from c k now out)"
proof -
  obtain r1 c1 where w1: "walk_partitions key (\<lambda>k. lookup_exact sg k now) c = (r1, c1)" by fastforce
  note W1 = exact_walk.walk [OF inv w1]
  show ?thesis
  proof (cases r1)
    case (Some o1)
    with look w1 have "out = o1" "c' = c1" by (simp_all add: cache_lookup_def)
    with W1 Some show ?thesis by (cases out) (auto simp: served_from_def)
  next
    case None
    obtain r2 c2 where w2: "(if ck_type key \<noteq> RrType_CNAME \<and> ck_type key \<noteq> RrType 255
        then walk_partitions (with_type key RrType_CNAME) (\<lambda>k. lookup_cname sg k now) c1 else (None, c1)) = (r2, c2)" by fastforce
    have s1: "cache_inv sg c1" "shrinks c c1" using W1 None by simp_all
    have W2: "cache_inv sg c2 \<and> (case r2 of None \<Rightarrow> shrinks c1 c2
        | Some x \<Rightarrow> \<exists>k. readable (with_type key RrType_CNAME) k \<and> served_from c1 k now x \<and> is_cname_hit x)"
      using cname_walk.walk [OF s1(1)] w2 s1(1) by (auto simp: shrinks_refl split: if_splits)
    show ?thesis
    proof (cases r2)
      case (Some o2)
      with look w1 w2 None have "out = o2" "c' = c2" by (simp_all add: cache_lookup_def)
      with W2 Some obtain k where k: "readable (with_type key RrType_CNAME) k" "served_from c1 k now out" "is_cname_hit out" by auto
      have "served_from c k now out" using served_from_grows [OF _ k(2)] s1(2) by (simp add: shrinks_def)
      with k W2 \<open>c' = c2\<close> show ?thesis by (cases out) auto
    next
      case r2: None
      have "nx c2 = nx c" using W2 r2 s1(2) by (simp add: shrinks_def)
      with look w1 w2 None r2 W2 show ?thesis
        by (auto simp: cache_lookup_def split: option.splits if_splits)
    qed
  qed
qed

section \<open>Updates\<close>

lemma take_entry_any_cases:
  assumes "take_entry_any sg k c = (r, c')"
  obtains (found) t tm e where "tier_remove sg k (get_tier t c) = (Some e, tm)" "r = Some e" "c' = set_tier t tm c"
  | (none) "r = None" "c' = c" "absent k c"
proof -
  obtain r1 t1 r2 t2 r3 t3 where R: "tier_remove sg k (get_tier Hot c) = (r1, t1)"
    "tier_remove sg k (get_tier Warm c) = (r2, t2)" "tier_remove sg k (get_tier Cold c) = (r3, t3)"
    by (metis prod.collapse)
  note G = tier.rem_get [OF R(1)] tier.rem_get [OF R(2)] tier.rem_get [OF R(3)]
  show thesis
  proof (cases r1)
    case (Some e)
    then show thesis using assms R found [of Hot e t1] by (simp add: take_entry_any_def)
  next
    case r1: None
    show thesis
    proof (cases r2)
      case (Some e)
      then show thesis using assms R r1 found [of Warm e t2] by (simp add: take_entry_any_def)
    next
      case r2: None
      show thesis
      proof (cases r3)
        case (Some e)
        then show thesis using assms R r1 r2 found [of Cold e t3] by (simp add: take_entry_any_def)
      next
        case None
        have "view c t k = None" for t using G r1 r2 None by (cases t) simp_all
        then show thesis using assms R r1 r2 None none by (simp add: take_entry_any_def absent_def)
      qed
    qed
  qed
qed

lemma take_entry_any_spec:
  assumes inv: "cache_inv sg c" and take: "take_entry_any sg k c = (r, c')"
  shows "cache_inv sg c'" and "shrinks c c'" and "exclusive c \<Longrightarrow> exclusive c'"
    and "exclusive c \<Longrightarrow> absent k c'" and "r = Some e \<Longrightarrow> ce_key e = k"
proof -
  have "cache_inv sg c' \<and> shrinks c c' \<and> (exclusive c \<longrightarrow> exclusive c' \<and> absent k c') \<and> (\<forall>e. r = Some e \<longrightarrow> ce_key e = k)"
    using take
  proof (cases rule: take_entry_any_cases)
    case (found t tm e)
    note R = set_tier_remove [OF inv found(1)]
    have "ce_key e = k" using tier_invD(3) [OF cache_inv_tier [OF inv], of t k e] R(2) by simp
    then show ?thesis using R(1,5,6) shrinks_remove [OF inv found(1)] found(2,3) by auto
  qed (use inv in \<open>simp add: shrinks_refl\<close>)
  then show "cache_inv sg c'" and "shrinks c c'" and "exclusive c \<Longrightarrow> exclusive c'"
    and "exclusive c \<Longrightarrow> absent k c'" and "r = Some e \<Longrightarrow> ce_key e = k" by blast+
qed

definition kept :: "('f, 'm, 'i) signals \<Rightarrow> ('f, 'm) semantic_cache \<Rightarrow> ('f, 'm) semantic_cache \<Rightarrow> bool" where
  "kept sg c c' \<longleftrightarrow> cache_inv sg c' \<and> (exclusive c \<longrightarrow> exclusive c')"

lemma kept_place:
  assumes "cache_inv sg c1" and "exclusive c \<Longrightarrow> exclusive c1 \<and> absent (ce_key e) c1"
  shows "kept sg c (place sg e c1)"
  using place_spec [OF assms(1), of e] assms(2) by (simp add: kept_def)

lemma insert_positive_kept:
  assumes inv: "cache_inv sg c"
  shows "kept sg c (insert_positive sg key s now inputs valid c)"
proof -
  obtain r c1 where t: "take_entry_any sg key c = (r, c1)" by fastforce
  note T = take_entry_any_spec [OF inv t]
  show ?thesis
    unfolding insert_positive_def Let_def t
    by (cases r) (auto intro!: kept_place simp: T)
qed

lemma insert_negative_kept:
  assumes inv: "cache_inv sg c"
  shows "kept sg c (insert_negative sg key rcode soa ttl now inputs c)"
proof -
  obtain r c1 where t: "take_entry_any sg key c = (r, c1)" by fastforce
  note T = take_entry_any_spec [OF inv t]
  show ?thesis
    unfolding insert_negative_def Let_def t
    by (cases r) (auto intro!: kept_place simp: T)
qed

lemma rescore_kept:
  assumes inv: "cache_inv sg c"
  shows "kept sg c (rescore sg key inputs now c)"
proof -
  obtain r c1 where t: "take_entry_any sg key c = (r, c1)" by fastforce
  note T = take_entry_any_spec [OF inv t]
  show ?thesis
    unfolding rescore_def t
    by (cases r) (use T in \<open>auto simp: kept_def place_spec\<close>)
qed

lemma restore_entry_inv: "cache_inv sg c \<Longrightarrow> cache_inv sg (restore_entry sg e now c)"
  by (simp add: restore_entry_def place_spec park_spec)

lemma cache_inv_nx:
  assumes "cache_inv sg c" and "btree_inv m" and "length m \<le> max 1 (nx_capacity (cc_config c))"
  shows "kept sg c (c\<lparr>nx := m\<rparr>)"
proof -
  have g: "get_tier t (c\<lparr>nx := m\<rparr>) = get_tier t c" for t by (cases t) simp_all
  show ?thesis using assms unfolding kept_def cache_inv_def exclusive_def g by simp
qed

lemma insert_nxdomain_kept:
  assumes inv: "cache_inv sg c"
  shows "kept sg c (insert_nxdomain n rcode soa ttl now c)"
proof -
  have I: "btree_inv (nx c)" "length (nx c) \<le> max 1 (nx_capacity (cc_config c))" using inv by (simp_all add: cache_inv_def)
  show ?thesis
  proof (cases "btree_get (nx c) n")
    case (Some e)
    then show ?thesis using I inv by (auto simp: insert_nxdomain_def Let_def intro!: cache_inv_nx)
  next
    case None
    let ?ev = "evict_for_capacity (nx c) now NX_EVICT_STRIDE ne_expires"
    have ev: "btree_inv (fst ?ev) \<and> Suc (length (fst ?ev)) \<le> max 1 (nx_capacity (cc_config c))"
      if full: "length (nx c) \<ge> nx_capacity (cc_config c)"
    proof (cases "nx c = []")
      case True
      then show ?thesis using full by (simp add: evict_for_capacity_def)
    next
      case False
      from evict_for_capacity_ok [OF I(1) False prod.collapse [symmetric]]
      have "0 < snd ?ev" "length (fst ?ev) + snd ?ev = length (nx c)" "btree_inv (fst ?ev)" by blast+
      then show ?thesis using I(2) by auto
    qed
    have ins: "length (btree_insert n e m) \<le> Suc (length m)" if "btree_inv m" for e and m :: "(name, negative_entry) btree"
      using length_insert [OF that, of n e] by simp
    show ?thesis
      unfolding insert_nxdomain_def Let_def None option.case
    proof (rule cache_inv_nx [OF inv], goal_cases)
      case 1
      show ?case using I ev by simp
    next
      case 2
      let ?m = "if nx_capacity (cc_config c) \<le> length (nx c) then fst ?ev else nx c"
      have "btree_inv ?m" "Suc (length ?m) \<le> max 1 (nx_capacity (cc_config c))" using I ev by auto
      then show ?case using ins le_trans by blast
    qed
  qed
qed

lemma sweep_kept:
  assumes inv: "cache_inv sg c"
  shows "kept sg c (sweep sg now c)"
    and "view (sweep sg now c) t k = (case view c t k of None \<Rightarrow> None
      | Some e \<Rightarrow> if now \<le> saturating_add (ce_expires e) (uint (stale_window_secs (cc_config c)) * 1000000000) then Some e else None)"
proof -
  let ?keep = "\<lambda>_ e. now \<le> saturating_add (ce_expires e) (uint (stale_window_secs (cc_config c)) * 1000000000)"
  have g: "get_tier t (sweep sg now c) = tier_retain sg ?keep (get_tier t c)" for t
    by (cases t) (simp_all add: sweep_def Let_def)
  have rest: "cc_config (sweep sg now c) = cc_config c" "nx (sweep sg now c) = btree_retain (\<lambda>_ e. ne_expires e > now) (nx c)"
    by (simp_all add: sweep_def Let_def)
  show v: "view (sweep sg now c) t k = (case view c t k of None \<Rightarrow> None
      | Some e \<Rightarrow> if now \<le> saturating_add (ce_expires e) (uint (stale_window_secs (cc_config c)) * 1000000000) then Some e else None)" for t k
    unfolding g tier_retain_spec(2) [OF cache_inv_tier [OF inv]] ..
  have "cache_inv sg (sweep sg now c)"
    using inv tier_retain_spec(1) [OF cache_inv_tier [OF inv]] length_retain [of _ "nx c"]
    unfolding cache_inv_def g rest tier_retain_capacity by (meson inv_retain le_trans)
  moreover have "exclusive (sweep sg now c)" if "exclusive c"
    using that unfolding exclusive_def v by (metis (mono_tags, lifting) option.case_eq_if)
  ultimately show "kept sg c (sweep sg now c)" by (simp add: kept_def)
qed

lemma tier_alter_inv:
  assumes inv: "tier_inv sg t" and f: "\<And>e. ce_key (f e) = ce_key e" "\<And>e. ce_score (f e) = ce_score e"
  shows "tier_inv sg (tier_alter k f t)"
proof -
  have "ranks sg (btree_get (btree_alter k f m)) = ranks sg (btree_get m)" for m
    by (auto simp: ranks_def f split: if_splits option.splits) (metis f(2))+
  then show ?thesis using inv by (auto simp: tier_inv_def tier_alter_def tier_len_def f split: if_splits)
qed

lemma alter_any_kept:
  assumes inv: "cache_inv sg c" and f: "\<And>e. ce_key (f e) = ce_key e" "\<And>e. ce_score (f e) = ce_score e"
  shows "kept sg c (alter_any k f c)"
proof -
  have one: "kept sg c (set_tier t (tier_alter k f (get_tier t c)) c)" for t
  proof -
    have "cache_inv sg (set_tier t (tier_alter k f (get_tier t c)) c)"
      by (rule cache_inv_set_tier [OF inv tier_alter_inv [OF cache_inv_tier [OF inv] f]]) (simp add: tier_alter_def)
    moreover have "view (set_tier t (tier_alter k f (get_tier t c)) c) u k' = None \<longleftrightarrow> view c u k' = None" for u k'
      by (simp add: tier_alter_def)
    ultimately show ?thesis by (simp add: kept_def exclusive_def)
  qed
  show ?thesis using one [of Hot] one [of Warm] one [of Cold] by (simp add: alter_any_def)
qed

section \<open>The machine\<close>

datatype ('f, 'm, 'i) cache_op =
    CacheLookupOp cache_key ts
  | CachePositiveOp cache_key rr_set ts 'i bool
  | CacheNegativeOp cache_key rcode "dns_record option" u32 ts 'i
  | CacheNxdomainOp name rcode "dns_record option" u32 ts
  | CacheRescoreOp cache_key 'i ts
  | CacheSweepOp ts
  | CacheFailureOp cache_key ts
  | CacheClearOp cache_key
  | CacheMarkOp cache_key
  | CacheRestoreOp "('f, 'm) cache_entry" ts

fun cache_apply :: "('f, 'm, 'i) signals \<Rightarrow> ('f, 'm, 'i) cache_op \<Rightarrow> ('f, 'm) semantic_cache \<Rightarrow> ('f, 'm) semantic_cache" where
  "cache_apply sg (CacheLookupOp k now) c = snd (cache_lookup sg k now c)"
| "cache_apply sg (CachePositiveOp k s now inputs valid) c = insert_positive sg k s now inputs valid c"
| "cache_apply sg (CacheNegativeOp k rc soa ttl now inputs) c = insert_negative sg k rc soa ttl now inputs c"
| "cache_apply sg (CacheNxdomainOp n rc soa ttl now) c = insert_nxdomain n rc soa ttl now c"
| "cache_apply sg (CacheRescoreOp k inputs now) c = rescore sg k inputs now c"
| "cache_apply sg (CacheSweepOp now) c = sweep sg now c"
| "cache_apply sg (CacheFailureOp k now) c = record_refresh_failure sg k now c"
| "cache_apply sg (CacheClearOp k) c = clear_refreshing k c"
| "cache_apply sg (CacheMarkOp k) c = snd (mark_refreshing k c)"
| "cache_apply sg (CacheRestoreOp e now) c = restore_entry sg e now c"

definition cache_initial :: "('f, 'm) semantic_cache \<Rightarrow> bool" where
  "cache_initial c \<longleftrightarrow> (\<exists>cfg. c = cache_new cfg)"

definition cache_step :: "('f, 'm, 'i) signals \<Rightarrow> ('f, 'm) semantic_cache \<Rightarrow> ('f, 'm, 'i) cache_op \<Rightarrow> ('f, 'm) semantic_cache \<Rightarrow> bool" where
  "cache_step sg c opn c' \<longleftrightarrow> c' = cache_apply sg opn c"

fun is_restore :: "('f, 'm, 'i) cache_op \<Rightarrow> bool" where
  "is_restore (CacheRestoreOp _ _) = True"
| "is_restore _ = False"

definition live_step :: "('f, 'm, 'i) signals \<Rightarrow> ('f, 'm) semantic_cache \<Rightarrow> ('f, 'm, 'i) cache_op \<Rightarrow> ('f, 'm) semantic_cache \<Rightarrow> bool" where
  "live_step sg c opn c' \<longleftrightarrow> \<not> is_restore opn \<and> cache_step sg c opn c'"

interpretation exact_excl: partition_lookup "\<lambda>k. lookup_exact sg k now" "\<lambda>c. cache_inv sg c \<and> exclusive c"
  "\<lambda>_ _. True" "\<lambda>_ _ _. True" for sg now
  using lookup_exact_in_spec unfolding lookup_exact_def by unfold_locales blast+

interpretation cname_excl: partition_lookup "\<lambda>k. lookup_cname sg k now" "\<lambda>c. cache_inv sg c \<and> exclusive c"
  "\<lambda>_ _. True" "\<lambda>_ _ _. True" for sg now
  using lookup_cname_in_spec unfolding lookup_cname_def by unfold_locales blast+

lemma cache_lookup_exclusive:
  assumes "cache_inv sg c \<and> exclusive c"
  shows "exclusive (snd (cache_lookup sg key now c))"
proof -
  obtain r1 c1 where w1: "walk_partitions key (\<lambda>k. lookup_exact sg k now) c = (r1, c1)" by fastforce
  obtain r2 c2 where w2: "walk_partitions (with_type key RrType_CNAME) (\<lambda>k. lookup_cname sg k now) c1 = (r2, c2)" by fastforce
  have x1: "cache_inv sg c1 \<and> exclusive c1" using exact_excl.walk [OF assms w1] by blast
  have x2: "exclusive c2" using cname_excl.walk [OF x1 w2] by blast
  show ?thesis using x1 x2 by (auto simp: cache_lookup_def w1 w2 split: option.splits)
qed

lemma refreshing_kept:
  assumes "cache_inv sg c"
  shows "kept sg c (record_refresh_failure sg k now c)" "kept sg c (clear_refreshing k c)" "kept sg c (snd (mark_refreshing k c))"
proof -
  have "kept sg c c" using assms by (simp add: kept_def)
  then show "kept sg c (record_refresh_failure sg k now c)" "kept sg c (clear_refreshing k c)" "kept sg c (snd (mark_refreshing k c))"
    by (simp_all add: record_refresh_failure_def clear_refreshing_def mark_refreshing_def alter_any_kept [OF assms] split: option.split)
qed

lemma lookup_kept: "cache_inv sg c \<Longrightarrow> kept sg c (snd (cache_lookup sg key now c))"
  using cache_lookup_spec [OF _ prod.collapse [symmetric], of sg c key now] cache_lookup_exclusive [of sg c key now] by (simp add: kept_def)

lemma live_apply_kept: "cache_inv sg c \<Longrightarrow> \<not> is_restore opn \<Longrightarrow> kept sg c (cache_apply sg opn c)"
  by (cases opn) (simp_all add: lookup_kept insert_positive_kept insert_negative_kept insert_nxdomain_kept rescore_kept
    sweep_kept(1) refreshing_kept)

lemma cache_apply_inv: "cache_inv sg c \<Longrightarrow> cache_inv sg (cache_apply sg opn c)"
  using live_apply_kept [of sg c opn] by (cases opn) (simp_all add: kept_def restore_entry_inv)

interpretation cache_machine: inductive_invariant cache_initial "cache_step sg" "cache_inv sg" for sg
  by unfold_locales (auto simp: cache_initial_def cache_step_def cache_new_inv cache_apply_inv)

lemma cache_new_exclusive: "exclusive (cache_new cfg :: ('f, 'm) semantic_cache)"
proof -
  have "view (cache_new cfg :: ('f, 'm) semantic_cache) t k = None" for t k by (cases t) (simp_all add: cache_new_def tier_new_def)
  then show ?thesis unfolding exclusive_def by simp
qed

interpretation live_machine: inductive_invariant cache_initial "live_step sg" "\<lambda>c. cache_inv sg c \<and> exclusive c" for sg
proof unfold_locales
  fix c c' :: "('a, 'b) semantic_cache" and opn
  show "cache_inv sg c \<and> exclusive c" if "cache_initial c"
    using that unfolding cache_initial_def by (elim exE) (simp only: cache_new_inv cache_new_exclusive)
  show "cache_inv sg c' \<and> exclusive c'" if i: "cache_inv sg c \<and> exclusive c" and s: "live_step sg c opn c'"
    using s i unfolding live_step_def cache_step_def using live_apply_kept [of sg c opn] by (auto simp: kept_def)
qed

section \<open>Insert, then look up\<close>

lemma lookup_exact_in_hit:
  assumes inv: "cache_inv sg c" and ex: "exclusive c" and e: "view c t k = Some e" "is_fresh e now" and t: "t \<in> set ts"
  shows "\<exists>e'. fst (lookup_exact_in sg k now ts c) = Some (Fresh e') \<and> ce_kind e' = ce_kind e \<and> ce_expires e' = ce_expires e
    \<and> ce_validated e' = ce_validated e"
  using t
proof (induction ts)
  case (Cons u ts)
  obtain r tm where rem: "tier_remove sg k (get_tier u c) = (r, tm)" by fastforce
  have r: "r = view c u k" using tier.rem_get [OF rem] by simp
  show ?case
  proof (cases "u = t")
    case True
    then have "r = Some e" using r e by simp
    then show ?thesis using rem e(2) by (simp add: Let_def is_fresh_def)
  next
    case False
    then have "r = None" using ex e(1) r unfolding exclusive_def by (metis option.distinct(1))
    then show ?thesis using rem Cons False by simp
  qed
qed simp

lemma cache_lookup_hit:
  assumes "cache_inv sg c" and "exclusive c" and "view c t k = Some e" and "is_fresh e now"
  shows "\<exists>e' c'. cache_lookup sg k now c = (Fresh e', c') \<and> ce_kind e' = ce_kind e \<and> ce_expires e' = ce_expires e
    \<and> ce_validated e' = ce_validated e"
proof -
  have "t \<in> set [Hot, Warm, Cold]" by (cases t) simp_all
  from lookup_exact_in_hit [OF assms this] obtain e' where
    "fst (lookup_exact sg k now c) = Some (Fresh e')" "ce_kind e' = ce_kind e" "ce_expires e' = ce_expires e" "ce_validated e' = ce_validated e"
    unfolding lookup_exact_def by blast
  moreover from this obtain c' where "lookup_exact sg k now c = (Some (Fresh e'), c')" by (metis prod.collapse)
  ultimately show ?thesis by (simp add: cache_lookup_def walk_partitions_def)
qed

lemma tier_for_total:
  assumes "cache_inv sg c" and "\<And>t. 0 < tier_capacity t (cc_config c)" and "\<And>x. sg_ge sg x (min_admit_score (cc_config c))"
  shows "\<exists>t. tier_for sg c x = Some t"
proof -
  have "0 < tm_capacity (get_tier t c)" for t using assms(1,2) by (simp add: cache_inv_def)
  from this [of Hot] this [of Warm] this [of Cold] assms(3) show ?thesis by (simp add: tier_for_def Let_def)
qed

lemma place_found:
  assumes "cache_inv sg c" and "exclusive c" and "absent (ce_key e) c" and "tier_for sg c (ce_score e) = Some t" and "is_fresh e now"
  shows "\<exists>e' c'. cache_lookup sg (ce_key e) now (place sg e c) = (Fresh e', c') \<and> ce_kind e' = ce_kind e \<and> ce_expires e' = ce_expires e
    \<and> ce_validated e' = ce_validated e"
proof -
  note P = place_spec [OF assms(1), of e]
  have "is_fresh (e\<lparr>ce_tier := t\<rparr>) now" using assms(5) by (simp add: is_fresh_def)
  from cache_lookup_hit [OF P(1) P(4) [OF assms(2,3)] P(5) [OF assms(4)] this] show ?thesis by simp
qed

lemma insert_positive_found:
  assumes inv: "cache_inv sg c" and ex: "exclusive c"
    and cap: "\<And>t. 0 < tier_capacity t (cc_config c)" and all: "\<And>x. sg_ge sg x (min_admit_score (cc_config c))"
    and "later < saturating_add now (uint (min (rs_ttl s) (max_ttl_cap (cc_config c))) * 1000000000)"
  shows "\<exists>e c'. cache_lookup sg key later (insert_positive sg key s now inputs valid c) = (Fresh e, c') \<and>
    ce_kind e = Positive (s\<lparr>rs_ttl := min (rs_ttl s) (max_ttl_cap (cc_config c))\<rparr>) \<and>
    ce_expires e = saturating_add now (uint (min (rs_ttl s) (max_ttl_cap (cc_config c))) * 1000000000) \<and>
    (valid \<longrightarrow> ce_validated e)"
proof -
  let ?s = "s\<lparr>rs_ttl := min (rs_ttl s) (max_ttl_cap (cc_config c))\<rparr>"
  let ?x = "saturating_add now (uint (min (rs_ttl s) (max_ttl_cap (cc_config c))) * 1000000000)"
  obtain r c1 where t: "take_entry_any sg key c = (r, c1)" by fastforce
  note T = take_entry_any_spec [OF inv t]
  have cfg: "cc_config c1 = cc_config c" using T(2) by (simp add: shrinks_def grows_def)
  have "\<exists>e c2. insert_positive sg key s now inputs valid c = place sg e c2 \<and> cache_inv sg c2 \<and> exclusive c2 \<and> absent key c2
      \<and> cc_config c2 = cc_config c \<and> ce_key e = key \<and> ce_kind e = Positive ?s \<and> ce_expires e = ?x \<and> (valid \<longrightarrow> ce_validated e)"
  proof (cases r)
    case None
    then show ?thesis
      by (intro exI conjI, simp add: insert_positive_def Let_def t) (use T ex cfg in simp_all)
  next
    case (Some e0)
    then show ?thesis
      by (intro exI conjI, simp add: insert_positive_def Let_def t) (use T ex cfg Some in simp_all)
  qed
  then obtain e c2 where e: "insert_positive sg key s now inputs valid c = place sg e c2" "cache_inv sg c2" "exclusive c2"
    "absent (ce_key e) c2" "cc_config c2 = cc_config c" "ce_key e = key" "ce_kind e = Positive ?s" "ce_expires e = ?x" "valid \<longrightarrow> ce_validated e"
    by blast
  obtain t where "tier_for sg c2 (ce_score e) = Some t" using tier_for_total [OF e(2)] cap all e(5) by metis
  moreover have "is_fresh e later" using assms(5) e(8) by (simp add: is_fresh_def)
  ultimately obtain e' c' where "cache_lookup sg (ce_key e) later (place sg e c2) = (Fresh e', c')"
    "ce_kind e' = ce_kind e" "ce_expires e' = ce_expires e" "ce_validated e' = ce_validated e"
    using place_found [OF e(2,3,4)] by blast
  with e show ?thesis by auto
qed

section \<open>A tier of capacity zero\<close>

text \<open>
  A capacity of zero disables a tier for \<open>place\<close>, but \<open>park\<close> inserts into the cold tier without asking, and
  \<open>tier_insert\<close> reads zero as unbounded.
\<close>

definition filler_key :: "nat \<Rightarrow> cache_key" where
  "filler_key n = CacheKey (Name (replicate n 0)) RrType_A RrClass_IN None"

definition filler :: "('f, 'm, 'i) signals \<Rightarrow> nat \<Rightarrow> ('f, 'm) cache_entry" where
  "filler sg n = \<lparr>ce_key = filler_key n, ce_kind = NegativeKind Rcode_NOERROR None 0, ce_inserted = 0, ce_expires = 0,
     ce_served = 0, last_served = 0, stability = sg_model sg 0 0, ce_validated = False, ce_score = sg_zero sg, ce_tier = Cold,
     refreshing = False, cost_ms = sg_zero sg\<rparr>"

definition no_cold_config :: "('f, 'm, 'i) signals \<Rightarrow> 'f cache_config" where
  "no_cold_config sg = \<lparr>hot_capacity = 8, warm_capacity = 8, cold_capacity = 0, nx_capacity = 8, stale_window_secs = 60,
     negative_ttl_cap = 300, max_ttl_cap = 3600, hot_admit_score = sg_zero sg, warm_admit_score = sg_zero sg,
     min_admit_score = sg_zero sg\<rparr>"

lemma filler_key_inj: "filler_key m = filler_key n \<longleftrightarrow> m = n"
  by (auto simp: filler_key_def dest: arg_cong [where f = length])

lemma park_unbounded:
  assumes inv: "cache_inv sg c" and "cold_capacity (cc_config c) = 0" and "view c Cold (ce_key e) = None"
  shows "tier_len (cold (park sg e c)) = Suc (tier_len (cold c))"
    and "view (park sg e c) Cold = (view c Cold)(ce_key e \<mapsto> e\<lparr>ce_tier := Cold\<rparr>)"
    and "cc_config (park sg e c) = cc_config c"
proof -
  have "tm_capacity (get_tier Cold c) = tier_capacity Cold (cc_config c)" using inv unfolding cache_inv_def by blast
  then have "tier_insert sg (e\<lparr>ce_tier := Cold\<rparr>) (cold c) = (None, add_entry sg (e\<lparr>ce_tier := Cold\<rparr>) (cold c))"
    using assms(2,3) by (simp add: tier_insert_def Let_def add_entry_def remove_absent)
  then have p: "cold (park sg e c) = add_entry sg (e\<lparr>ce_tier := Cold\<rparr>) (cold c)" by (simp add: park_def)
  have b: "btree_inv (tm_map (cold c))" using tier_invD(1) [OF cache_inv_tier [OF inv, of Cold]] by simp
  show "tier_len (cold (park sg e c)) = Suc (tier_len (cold c))"
    using assms(3) unfolding p by (simp add: tier_len_def add_entry_def length_insert [OF b] map_of_eq_None_iff)
  show "view (park sg e c) Cold = (view c Cold)(ce_key e \<mapsto> e\<lparr>ce_tier := Cold\<rparr>)" by (simp add: p)
  show "cc_config (park sg e c) = cc_config c" by (simp add: park_def)
qed

lemma cold_fills:
  "\<exists>c. reachable cache_initial (cache_step sg) c \<and> cold_capacity (cc_config c) = 0 \<and> tier_len (cold c) = n
    \<and> dom (view c Cold) = filler_key ` {..<n}"
proof (induction n)
  case 0
  have "reachable cache_initial (cache_step sg) (cache_new (no_cold_config sg))"
    by (rule reachable.reach_init) (auto simp: cache_initial_def)
  moreover have "cold_capacity (cc_config (cache_new (no_cold_config sg))) = 0" by (simp add: cache_new_def no_cold_config_def)
  ultimately show ?case by (intro exI [of _ "cache_new (no_cold_config sg)"]) (simp add: cache_new_def tier_new_def tier_len_def)
next
  case (Suc n)
  then obtain c where c: "reachable cache_initial (cache_step sg) c" "cold_capacity (cc_config c) = 0" "tier_len (cold c) = n"
    "dom (view c Cold) = filler_key ` {..<n}" by blast
  let ?c = "park sg (filler sg n) c"
  note inv = cache_machine.reachable_inv [OF c(1)]
  have "filler_key n \<notin> dom (view c Cold)" unfolding c(4) using filler_key_inj by auto
  then have "view c Cold (ce_key (filler sg n)) = None" unfolding domIff by (simp add: filler_def)
  note P = park_unbounded [OF inv c(2) this]
  have "?c = cache_apply sg (CacheRestoreOp (filler sg n) 0) c" by (simp add: restore_entry_def filler_def)
  with c(1) have "reachable cache_initial (cache_step sg) ?c" by (metis cache_step_def reachable.reach_step)
  moreover have "dom (view ?c Cold) = filler_key ` {..<Suc n}"
    unfolding P(2) using c(4) by (simp add: filler_def lessThan_Suc)
  ultimately show ?case using P(1,3) c(2,3) by (intro exI [of _ ?c]) simp
qed

section \<open>A sample cache\<close>

definition sample_signals :: "(nat, unit, unit) signals" where
  "sample_signals = \<lparr>sg_ge = (\<ge>), sg_rank = of_nat, sg_zero = 0, sg_score = (\<lambda>ttl _ _ _ _ _. unat ttl), sg_default = (),
     sg_cost = (\<lambda>_. 0), sg_model = (\<lambda>_ _. ()), sg_observe_weighted = (\<lambda>_ _ _ _ _. ()), sg_observe = (\<lambda>_ _ _ _. ()),
     sg_failure = (\<lambda>_ _. ())\<rparr>"

definition sample_config :: "nat cache_config" where
  "sample_config = \<lparr>hot_capacity = 1, warm_capacity = 2, cold_capacity = 2, nx_capacity = 1, stale_window_secs = 60,
     negative_ttl_cap = 300, max_ttl_cap = 3600, hot_admit_score = 100, warm_admit_score = 10, min_admit_score = 0\<rparr>"

definition sample_set :: rr_set where
  "sample_set = rr_set_new (Name [1, 97, 0]) RrType_A RrClass_IN 120"

definition sample_client :: ecs_key where
  "sample_client = EcsKey 1 24 [10, 0, 7]"

definition sample_key :: cache_key where
  "sample_key = CacheKey (Name [1, 97, 0]) RrType_A RrClass_IN None"

definition sample_cache :: "(nat, unit) semantic_cache" where
  "sample_cache = insert_positive sample_signals sample_key sample_set 0 () True (cache_new sample_config)"

lemma sample_cache_live: "reachable cache_initial (live_step sample_signals) sample_cache"
proof -
  have "reachable cache_initial (live_step sample_signals) (cache_new sample_config)"
    by (rule reachable.reach_init) (auto simp: cache_initial_def)
  moreover have "live_step sample_signals (cache_new sample_config) (CachePositiveOp sample_key sample_set 0 () True) sample_cache"
    by (simp add: live_step_def cache_step_def sample_cache_def)
  ultimately show ?thesis by (rule reachable.reach_step)
qed

lemma live_reachable: "reachable cache_initial (live_step sg) c \<Longrightarrow> reachable cache_initial (cache_step sg) c"
  by (induction rule: reachable.induct) (auto simp: live_step_def intro: reachable.intros)

lemma sample_capacities: "0 < tier_capacity t sample_config"
  by (cases t) (simp_all add: sample_config_def)

end
