(* ===== verification/Dnssec.thy ===== *)
theory Dnssec
  imports Rsa_Verify Rrset Cache_Key Ordered_Map
begin

text \<open>
  \<^verbatim>\<open>src/src/dnssec/mod.rs\<close>: key tags, DS matching, the canonical form that is signed, and the verdict for
  an answer chain.  Two things are parameters.  \<^verbatim>\<open>sha256\<close> is \<^verbatim>\<open>courierust_crypto::sha256\<close>, a third-party
  function.  The resolver is a function on a state of its own, since a lookup may change its cache: it
  stands for \<^verbatim>\<open>Resolver::resolve\<close>, of whose result the validator reads only the answers.
\<close>

section \<open>Verdicts\<close>

datatype verdict = Secure | Insecure | Bogus | Indeterminate

datatype validation_state = StateIndeterminate | StateInsecure | CryptoVerified | ChainAnchored

fun state_permits_authentic_data :: "validation_state \<Rightarrow> bool" where
  "state_permits_authentic_data ChainAnchored = True"
| "state_permits_authentic_data _ = False"

fun is_signature_verified :: "validation_state \<Rightarrow> bool" where
  "is_signature_verified CryptoVerified = True"
| "is_signature_verified ChainAnchored = True"
| "is_signature_verified _ = False"

fun validation_state_as_str :: "validation_state \<Rightarrow> string" where
  "validation_state_as_str StateIndeterminate = ''indeterminate''"
| "validation_state_as_str StateInsecure = ''insecure''"
| "validation_state_as_str CryptoVerified = ''crypto-verified''"
| "validation_state_as_str ChainAnchored = ''chain-anchored''"

fun verdict_state :: "verdict \<Rightarrow> bool \<Rightarrow> validation_state" where
  "verdict_state Secure anchored = (if anchored then ChainAnchored else CryptoVerified)"
| "verdict_state Insecure _ = StateInsecure"
| "verdict_state Indeterminate _ = StateIndeterminate"
| "verdict_state Bogus _ = StateIndeterminate"

record verification =
  ver_verdict :: verdict
  ver_state :: validation_state
  answer_groups :: usize
  answer_groups_authenticated :: usize
  authority_authenticated :: "bool option"

definition verification_empty :: verification where
  "verification_empty =
    \<lparr>ver_verdict = Insecure, ver_state = StateInsecure, answer_groups = 0,
     answer_groups_authenticated = 0, authority_authenticated = None\<rparr>"

definition permits_authentic_data :: "verification \<Rightarrow> bool" where
  "permits_authentic_data v \<longleftrightarrow>
    state_permits_authentic_data (ver_state v) \<and> answer_groups v > 0 \<and>
    answer_groups v = answer_groups_authenticated v \<and>
    (case authority_authenticated v of None \<Rightarrow> True | Some b \<Rightarrow> b)"

section \<open>Keys and signatures\<close>

definition key_tag :: "u16 \<Rightarrow> u8 \<Rightarrow> u8 \<Rightarrow> bytes \<Rightarrow> u16" where
  "key_tag flags protocol algorithm public_key =
    (let rdata = to_be_bytes 2 flags @ [protocol, algorithm] @ public_key;
         ac = foldl (\<lambda>ac (i, b). if i AND 1 = 1 then ac + ucast b else ac + push_bit 8 (ucast b))
                (0 :: u32) (enumerate 0 rdata);
         ac = ac + (drop_bit 16 ac AND 0xffff)
     in ucast (ac AND 0xffff))"

fun dnskey_fields :: "rdata \<Rightarrow> (u16 \<times> u8 \<times> dnssec_algorithm \<times> bytes) option" where
  "dnskey_fields (Dnskey flags protocol alg public_key) = Some (flags, protocol, alg, public_key)"
| "dnskey_fields _ = None"

fun ds_fields :: "rdata \<Rightarrow> (u16 \<times> dnssec_algorithm \<times> ds_digest_type \<times> bytes) option" where
  "ds_fields (Ds tag alg digest_type digest) = Some (tag, alg, digest_type, digest)"
| "ds_fields _ = None"

definition dnskey_matches_ds :: "(bytes \<Rightarrow> bytes) \<Rightarrow> dns_record \<Rightarrow> dns_record \<Rightarrow> bool" where
  "dnskey_matches_ds sha256 dnskey ds =
    (case dnskey_fields (rec_rdata dnskey) of None \<Rightarrow> False | Some (flags, protocol, alg, public_key) \<Rightarrow>
     (case ds_fields (rec_rdata ds) of None \<Rightarrow> False | Some (tag, ds_alg, digest_type, digest) \<Rightarrow>
      if alg \<noteq> ds_alg then False
      else if key_tag flags protocol (dnssec_algorithm_to_u8 alg) public_key \<noteq> tag then False
      else
        (let digest_input = name_write_wire (rec_name dnskey) [] @ to_be_bytes 2 flags
               @ [protocol, dnssec_algorithm_to_u8 alg] @ public_key
         in if digest_type = DsDigestType 2 then sha256 digest_input = digest else False)))"

fun rrsig_rdata_without_signature :: "rdata \<Rightarrow> bytes option" where
  "rrsig_rdata_without_signature (Rrsig type_covered alg labels original_ttl expiration inception tag signer signature) =
    Some (name_write_wire signer (to_be_bytes 2 (rr_type_to_u16 type_covered) @ [dnssec_algorithm_to_u8 alg, labels]
      @ to_be_bytes 4 original_ttl @ to_be_bytes 4 expiration @ to_be_bytes 4 inception @ to_be_bytes 2 tag))"
| "rrsig_rdata_without_signature _ = None"

definition canonical_item :: "u32 \<Rightarrow> dns_record \<Rightarrow> bytes" where
  "canonical_item original_ttl r =
    (let rd = snd (rdata_to_wire (rec_rdata r) (None, [])) in
     name_write_wire (rec_name r) [] @ to_be_bytes 2 (rr_type_to_u16 (rec_type r))
       @ to_be_bytes 2 (rr_class_to_u16 (rec_class r)) @ to_be_bytes 4 original_ttl
       @ to_be_bytes 2 (of_nat (length rd) :: u16) @ rd)"

definition canonical_rrset :: "dns_record list \<Rightarrow> u32 \<Rightarrow> bytes" where
  "canonical_rrset records original_ttl = concat (sort (map (canonical_item original_ttl) records))"

definition verify_rrsig :: "(bytes \<Rightarrow> bytes) \<Rightarrow> dns_record \<Rightarrow> dns_record \<Rightarrow> dns_record list \<Rightarrow> u32 \<Rightarrow> string + bool" where
  "verify_rrsig sha256 dnskey rrsig records now_secs =
    (case rec_rdata rrsig of
       Rrsig type_covered alg labels original_ttl expiration inception sig_key_tag signer signature \<Rightarrow>
        (case dnskey_fields (rec_rdata dnskey) of
           None \<Rightarrow> Err ''dnskey rdata''
         | Some (flags, _, key_alg, public_key) \<Rightarrow>
            if alg \<noteq> key_alg then Ok False
            else if now_secs < inception \<or> expiration < now_secs then Ok False
            else if labels \<noteq> of_nat (name_label_count (rec_name rrsig)) then Ok False
            else if key_tag flags 3 (dnssec_algorithm_to_u8 key_alg) public_key \<noteq> sig_key_tag then Ok False
            else if dnssec_algorithm_to_u8 alg = 8 then
              rbind (ok_or ''rrsig'' (rrsig_rdata_without_signature (rec_rdata rrsig))) (\<lambda>rrsig_rdata.
              let signed_data = rrsig_rdata @ canonical_rrset records original_ttl in
              Ok (verify_pkcs1v15_sha256 public_key (sha256 signed_data) signature))
            else if dnssec_algorithm_to_u8 alg \<in> {1, 5, 7, 3} then Err ''deprecated DNSSEC algorithm''
            else Err ''unsupported DNSSEC algorithm'')
     | _ \<Rightarrow> Err ''rrsig rdata'')"

fun is_rrsig :: "rdata \<Rightarrow> bool" where
  "is_rrsig (Rrsig _ _ _ _ _ _ _ _ _) = True"
| "is_rrsig _ = False"

text \<open>The loops of \<^verbatim>\<open>validate_rrset\<close>: \<open>None\<close> is the early return of \<^verbatim>\<open>Secure\<close>, otherwise the flag \<^verbatim>\<open>attempted\<close>.\<close>

fun try_keys :: "(bytes \<Rightarrow> bytes) \<Rightarrow> dns_record \<Rightarrow> dns_record list \<Rightarrow> u32 \<Rightarrow> dns_record list \<Rightarrow> bool \<Rightarrow> bool option" where
  "try_keys sha256 rrsig records now_secs [] attempted = Some attempted"
| "try_keys sha256 rrsig records now_secs (key # keys) attempted =
    (case verify_rrsig sha256 key rrsig records now_secs of
       Inr True \<Rightarrow> None
     | Inr False \<Rightarrow> try_keys sha256 rrsig records now_secs keys True
     | Inl _ \<Rightarrow> try_keys sha256 rrsig records now_secs keys attempted)"

fun try_sigs :: "(bytes \<Rightarrow> bytes) \<Rightarrow> dns_record list \<Rightarrow> dns_record list \<Rightarrow> u32 \<Rightarrow> dns_record list \<Rightarrow> bool \<Rightarrow> bool option" where
  "try_sigs sha256 records keys now_secs [] attempted = Some attempted"
| "try_sigs sha256 records keys now_secs (rrsig # sigs) attempted =
    (if \<not> is_rrsig (rec_rdata rrsig) then try_sigs sha256 records keys now_secs sigs attempted
     else (case try_keys sha256 rrsig records now_secs keys attempted of
             None \<Rightarrow> None
           | Some attempted \<Rightarrow> try_sigs sha256 records keys now_secs sigs attempted))"

definition validate_rrset :: "(bytes \<Rightarrow> bytes) \<Rightarrow> dns_record list \<Rightarrow> dns_record list \<Rightarrow> dns_record list \<Rightarrow> u32 \<Rightarrow> verdict" where
  "validate_rrset sha256 records sigs dnskey_records now_secs =
    (if records = [] then Indeterminate
     else if sigs = [] then (if dnskey_records = [] then Insecure else Bogus)
     else (case try_sigs sha256 records dnskey_records now_secs sigs False of
             None \<Rightarrow> Secure
           | Some attempted \<Rightarrow> if attempted then Bogus else Indeterminate))"

fun covers_type :: "rr_type \<Rightarrow> rdata \<Rightarrow> bool" where
  "covers_type t (Rrsig type_covered _ _ _ _ _ _ _ _) \<longleftrightarrow> type_covered = t"
| "covers_type t _ \<longleftrightarrow> False"

definition rrsigs_for :: "dns_record list \<Rightarrow> rr_type \<Rightarrow> dns_record list" where
  "rrsigs_for sigs t = filter (\<lambda>r. covers_type t (rec_rdata r)) sigs"

fun signer_of :: "rdata \<Rightarrow> name option" where
  "signer_of (Rrsig _ _ _ _ _ _ _ signer _) = Some signer"
| "signer_of _ = None"

definition rrsig_signer :: "dns_record \<Rightarrow> name option" where
  "rrsig_signer r = signer_of (rec_rdata r)"

section \<open>Answer chains\<close>

type_synonym 's resolver = "name \<Rightarrow> rr_type \<Rightarrow> 's \<Rightarrow> dns_record list result \<times> 's"

definition verify_rrset_quietly :: "(bytes \<Rightarrow> bytes) \<Rightarrow> dns_record list \<Rightarrow> dns_record list \<Rightarrow> dns_record \<Rightarrow> u32 \<Rightarrow> bool" where
  "verify_rrset_quietly sha256 records sigs key now_secs \<longleftrightarrow>
    list_ex (\<lambda>rrsig. verify_rrsig sha256 key rrsig records now_secs = Ok True) sigs"

definition key_is_anchored :: "(bytes \<Rightarrow> bytes) \<Rightarrow> 's resolver \<Rightarrow> name \<Rightarrow> dns_record \<Rightarrow> 's \<Rightarrow> bool \<times> 's" where
  "key_is_anchored sha256 resolve signer key s = (case resolve signer RrType_DS s of
      (Inr ds_answers, s) \<Rightarrow>
        (list_ex (dnskey_matches_ds sha256 key) (filter (\<lambda>r. rec_type r = RrType_DS \<and> rec_name r = signer) ds_answers), s)
    | (Inl _, s) \<Rightarrow> (False, s))"

fun anchored_key :: "(bytes \<Rightarrow> bytes) \<Rightarrow> 's resolver \<Rightarrow> dns_record list \<Rightarrow> dns_record list \<Rightarrow> name \<Rightarrow> u32 \<Rightarrow> dns_record list \<Rightarrow> 's \<Rightarrow> bool \<times> 's" where
  "anchored_key sha256 resolve records sigs signer now_secs [] s = (False, s)"
| "anchored_key sha256 resolve records sigs signer now_secs (key # keys) s =
    (if verify_rrset_quietly sha256 records sigs key now_secs then
       (case key_is_anchored sha256 resolve signer key s of
          (True, s) \<Rightarrow> (True, s)
        | (False, s) \<Rightarrow> anchored_key sha256 resolve records sigs signer now_secs keys s)
     else anchored_key sha256 resolve records sigs signer now_secs keys s)"

definition validate_group :: "(bytes \<Rightarrow> bytes) \<Rightarrow> 's resolver \<Rightarrow> dns_record list \<Rightarrow> dns_record list \<Rightarrow> u32 \<Rightarrow> 's \<Rightarrow> verdict \<times> 's" where
  "validate_group sha256 resolve records sigs now_secs s = (case sigs of
      [] \<Rightarrow> (Indeterminate, s)
    | first # _ \<Rightarrow> (case rrsig_signer first of
        None \<Rightarrow> (Indeterminate, s)
      | Some signer \<Rightarrow> (case resolve signer RrType_DNSKEY s of
          (Inl _, s) \<Rightarrow> (Indeterminate, s)
        | (Inr dnskey_answers, s) \<Rightarrow>
            (let keys = filter (\<lambda>r. rec_type r = RrType_DNSKEY \<and> rec_name r = signer) dnskey_answers
             in if keys = [] then (Indeterminate, s)
                else (case anchored_key sha256 resolve records sigs signer now_secs keys s of
                        (True, s) \<Rightarrow> (Secure, s)
                      | (False, s) \<Rightarrow> (validate_rrset sha256 records sigs keys now_secs, s))))))"

definition group_records :: "dns_record list \<Rightarrow> (name \<times> rr_type, dns_record list) btree" where
  "group_records records =
    foldl (\<lambda>groups r. let k = (rec_name r, rec_type r) in
        btree_insert k ((case btree_get groups k of None \<Rightarrow> [] | Some g \<Rightarrow> g) @ [r]) groups) [] records"

definition covering :: "dns_record list \<Rightarrow> name \<Rightarrow> rr_type \<Rightarrow> dns_record list" where
  "covering sigs owner t = filter (\<lambda>s. rrsig_signer s = Some owner \<or> rec_name s = owner) (rrsigs_for sigs t)"

text \<open>The accumulator of \<^verbatim>\<open>verify_section\<close>: signed groups, authenticated groups, \<^verbatim>\<open>all_secure\<close> and \<^verbatim>\<open>worst\<close>.\<close>

type_synonym tally = "usize \<times> usize \<times> bool \<times> verdict"

fun note_verdict :: "verdict \<Rightarrow> tally \<Rightarrow> tally" where
  "note_verdict Secure (n_signed, authenticated, all_secure, worst) = (n_signed + 1, authenticated + 1, all_secure, worst)"
| "note_verdict Bogus (n_signed, authenticated, all_secure, worst) = (n_signed + 1, authenticated, False, Bogus)"
| "note_verdict Indeterminate (n_signed, authenticated, all_secure, worst) =
    (n_signed + 1, authenticated, False, if worst = Insecure then Indeterminate else worst)"
| "note_verdict Insecure (n_signed, authenticated, all_secure, worst) = (n_signed + 1, authenticated, False, worst)"

fun verify_groups :: "(bytes \<Rightarrow> bytes) \<Rightarrow> 's resolver \<Rightarrow> dns_record list \<Rightarrow> u32 \<Rightarrow> (name \<times> rr_type, dns_record list) btree \<Rightarrow> tally \<Rightarrow> 's \<Rightarrow> tally \<times> 's" where
  "verify_groups sha256 resolve sigs now_secs [] tally s = (tally, s)"
| "verify_groups sha256 resolve sigs now_secs (((owner, t), members) # groups) tally s =
    (let covered = covering sigs owner t in
     if covered = [] then
       (case tally of (n_signed, authenticated, _, worst) \<Rightarrow>
          verify_groups sha256 resolve sigs now_secs groups (n_signed, authenticated, False, worst) s)
     else (case validate_group sha256 resolve members covered now_secs s of
             (v, s) \<Rightarrow> verify_groups sha256 resolve sigs now_secs groups (note_verdict v tally) s))"

definition verify_section :: "(bytes \<Rightarrow> bytes) \<Rightarrow> 's resolver \<Rightarrow> dns_record list \<Rightarrow> dns_record list \<Rightarrow> u32 \<Rightarrow> 's \<Rightarrow> (verdict \<times> usize \<times> usize) \<times> 's" where
  "verify_section sha256 resolve records sigs now_secs s =
    (let groups = group_records records in
     if groups = [] then ((Insecure, 0, 0), s)
     else (case verify_groups sha256 resolve sigs now_secs groups (0, 0, True, Insecure) s of
             ((n_signed, authenticated, all_secure, worst), s) \<Rightarrow>
               ((if n_signed > 0 \<and> all_secure then Secure
                 else if worst = Bogus then Bogus
                 else if n_signed = 0 then Insecure
                 else worst, n_signed, authenticated), s)))"

text \<open>Integer division of the source truncates towards zero, and \<^verbatim>\<open>as u32\<close> keeps the low 32 bits.\<close>

definition chain_secs :: "ts \<Rightarrow> u32" where
  "chain_secs now = word_of_int (if 0 \<le> now then now div 1000000000 else - (- now div 1000000000))"

definition verify_chain :: "(bytes \<Rightarrow> bytes) \<Rightarrow> 's resolver \<Rightarrow> ts \<Rightarrow> dns_record list \<Rightarrow> dns_record list \<Rightarrow> dns_record list \<Rightarrow> bool \<Rightarrow> 's \<Rightarrow> verification \<times> 's" where
  "verify_chain sha256 resolve now ans sigs auth anchored s =
    (let now_secs = chain_secs now in
     case verify_section sha256 resolve ans sigs now_secs s of
       ((v, n_signed, authenticated), s) \<Rightarrow>
        (let relevant = filter (\<lambda>r. rec_type r \<in> {RrType_SOA, RrType_NSEC, RrType_NSEC3, RrType_NS}) auth;
             (authority, s) =
               (if auth = [] \<or> relevant = [] then (None, s)
                else (case verify_section sha256 resolve relevant (filter (\<lambda>r. rec_type r = RrType_RRSIG) auth) now_secs s of
                        ((_, at, aa), s) \<Rightarrow> (Some (at > 0 \<and> at = aa), s)))
         in (\<lparr>ver_verdict = v, ver_state = verdict_state v anchored, answer_groups = n_signed,
              answer_groups_authenticated = authenticated, authority_authenticated = authority\<rparr>, s)))"

text \<open>
  The single validation slot is a flag: \<open>validating\<close> is its value on entry.  The guard clears it when
  the validation returns, so the flag after the call is \<open>False\<close> unless the slot was taken.
\<close>

definition slot_taken :: verification where
  "slot_taken =
    \<lparr>ver_verdict = Indeterminate, ver_state = StateIndeterminate, answer_groups = 0,
     answer_groups_authenticated = 0, authority_authenticated = None\<rparr>"

definition guarded :: "bool \<Rightarrow> (bool \<Rightarrow> 's \<Rightarrow> verification \<times> 's) \<Rightarrow> 's \<Rightarrow> verification \<times> bool \<times> 's" where
  "guarded validating run s =
    (if validating then (slot_taken, True, s) else (case run True s of (v, s) \<Rightarrow> (v, False, s)))"

definition validate_resolution_detailed ::
  "(bytes \<Rightarrow> bytes) \<Rightarrow> (bool \<Rightarrow> 's resolver) \<Rightarrow> ts \<Rightarrow> dns_record list \<Rightarrow> dns_record list \<Rightarrow> dns_record list \<Rightarrow> bool
    \<Rightarrow> bool \<Rightarrow> 's \<Rightarrow> verification \<times> bool \<times> 's" where
  "validate_resolution_detailed sha256 resolve now ans sigs auth anchored validating s =
    (if ans = [] then (verification_empty, validating, s)
     else guarded validating (\<lambda>flag. verify_chain sha256 (resolve flag) now ans sigs auth anchored) s)"

definition split_section :: "dns_record list \<Rightarrow> dns_record list \<times> dns_record list" where
  "split_section recs = (filter (\<lambda>r. rec_type r \<noteq> RrType_RRSIG) recs, filter (\<lambda>r. rec_type r = RrType_RRSIG) recs)"

definition validate_message_detailed ::
  "(bytes \<Rightarrow> bytes) \<Rightarrow> (bool \<Rightarrow> 's resolver) \<Rightarrow> ts \<Rightarrow> message \<Rightarrow> bool \<Rightarrow> bool \<Rightarrow> 's \<Rightarrow> verification \<times> bool \<times> 's" where
  "validate_message_detailed sha256 resolve now resp anchored validating s =
    (if answers resp = [] then (verification_empty, validating, s)
     else guarded validating
       (\<lambda>flag. let (data, sigs) = split_section (answers resp);
                  (authority, _) = split_section (authorities resp)
              in verify_chain sha256 (resolve flag) now data sigs authority anchored) s)"

definition validate_resolution ::
  "(bytes \<Rightarrow> bytes) \<Rightarrow> (bool \<Rightarrow> 's resolver) \<Rightarrow> ts \<Rightarrow> dns_record list \<Rightarrow> dns_record list \<Rightarrow> dns_record list
    \<Rightarrow> bool \<Rightarrow> 's \<Rightarrow> verdict \<times> bool \<times> 's" where
  "validate_resolution sha256 resolve now ans sigs auth validating s =
    map_prod ver_verdict id (validate_resolution_detailed sha256 resolve now ans sigs auth False validating s)"

definition validate_message ::
  "(bytes \<Rightarrow> bytes) \<Rightarrow> (bool \<Rightarrow> 's resolver) \<Rightarrow> ts \<Rightarrow> message \<Rightarrow> bool \<Rightarrow> 's \<Rightarrow> verdict \<times> bool \<times> 's" where
  "validate_message sha256 resolve now resp validating s =
    map_prod ver_verdict id (validate_message_detailed sha256 resolve now resp False validating s)"

end
