(* ===== verification/Dnssec_Correct.thy ===== *)
theory Dnssec_Correct
  imports Dnssec
begin

text \<open>
  What a verdict of \<^verbatim>\<open>dnssec/mod.rs\<close> rests on: the arithmetic of key tags, the order independence of the
  canonical form, the exact condition under which a signature is accepted, and which signatures and keys
  stand behind a \<^verbatim>\<open>Secure\<close> answer.
\<close>

section \<open>Key tags\<close>

fun tag_sum :: "bytes \<Rightarrow> nat" where
  "tag_sum [] = 0"
| "tag_sum [a] = 256 * unat a"
| "tag_sum (a # b # bs) = 256 * unat a + unat b + tag_sum bs"

lemma octet_at_most: "unat (b :: u8) \<le> 255"
  using unsigned_less [of b, where ?'a = nat] by simp

lemma tag_sum_le: "tag_sum bs \<le> 65280 * length bs"
proof (induction bs rule: tag_sum.induct)
  case (2 a)
  then show ?case using octet_at_most [of a] by simp
next
  case (3 a b bs)
  then show ?case using octet_at_most [of a] octet_at_most [of b] by simp
qed simp

definition tag_step :: "u32 \<Rightarrow> nat \<times> u8 \<Rightarrow> u32" where
  "tag_step ac = (\<lambda>(i, b). if i AND 1 = 1 then ac + ucast b else ac + push_bit 8 (ucast b))"

lemma tag_step_simps:
  "even i \<Longrightarrow> tag_step ac (i, b) = ac + of_nat (256 * unat b)"
  "odd i \<Longrightarrow> tag_step ac (i, b) = ac + of_nat (unat b)"
  by (simp_all add: tag_step_def and_one_eq odd_iff_mod_2_eq_one push_bit_eq_mult)

lemma tag_fold: "even i \<Longrightarrow> foldl tag_step ac (enumerate i bs) = ac + of_nat (tag_sum bs)"
  by (induction bs arbitrary: i ac rule: tag_sum.induct) (simp_all add: tag_step_simps add.assoc)

lemma tag_carry:
  fixes ac :: u32
  assumes "unat ac + unat ac div 65536 < 2 ^ 32"
  shows "unat (ucast ((ac + (drop_bit 16 ac AND 0xffff)) AND 0xffff) :: u16) = (unat ac + unat ac div 65536) mod 65536"
proof -
  have m: "(0xffff :: u32) = mask 16" by (simp add: mask_eq_exp_minus_1)
  have "unat ac < 2 ^ 32" using assms by simp
  then have "unat (take_bit 16 (drop_bit 16 ac)) = unat ac div 65536"
    unfolding unsigned_take_bit_eq unsigned_drop_bit_eq by (simp add: drop_bit_eq_div take_bit_eq_mod)
  then have "unat (ac + take_bit 16 (drop_bit 16 ac)) = unat ac + unat ac div 65536"
    using assms by (simp add: unat_word_ariths)
  then show ?thesis
    unfolding m take_bit_eq_mask [symmetric] unsigned_ucast_eq unsigned_take_bit_eq by (simp add: take_bit_eq_mod [of _ "_ :: nat"])
qed

lemma key_tag_rfc4034:
  assumes "length public_key \<le> 65535"
  shows "unat (key_tag flags protocol algorithm public_key) =
    (let s = tag_sum (to_be_bytes 2 flags @ [protocol, algorithm] @ public_key) in (s + s div 65536) mod 65536)"
proof -
  define r where "r = to_be_bytes 2 flags @ [protocol, algorithm] @ public_key"
  define ac where "ac = (of_nat (tag_sum r) :: u32)"
  have s: "tag_sum r \<le> 4278385920" using tag_sum_le [of r] assms by (simp add: r_def)
  then have u: "unat ac = tag_sum r" by (simp add: ac_def unsigned_of_nat take_bit_nat_eq_self)
  have f: "foldl tag_step 0 (enumerate 0 r) = ac" by (simp add: tag_fold ac_def)
  have "key_tag flags protocol algorithm public_key = ucast ((ac + (drop_bit 16 ac AND 0xffff)) AND 0xffff)"
    unfolding key_tag_def r_def [symmetric] tag_step_def [abs_def, symmetric] Let_def f ..
  moreover have "unat ac + unat ac div 65536 < 2 ^ 32" using s by (simp add: u)
  ultimately show ?thesis unfolding r_def [symmetric] Let_def by (simp add: tag_carry u)
qed

section \<open>The canonical form\<close>

lemma canonical_rrset_mset:
  assumes "mset rs = mset rs'"
  shows "canonical_rrset rs ttl = canonical_rrset rs' ttl"
  proof -
  have "sort (map (canonical_item ttl) rs) = sort (map (canonical_item ttl) rs')"
    by (rule properties_for_sort) (simp_all add: assms)
  then show ?thesis by (simp add: canonical_rrset_def)
qed

section \<open>Accepted signatures\<close>

lemma verify_rrsig_shape: "verify_rrsig h key sig rs now = Ok True \<Longrightarrow> is_rrsig (rec_rdata sig)"
  by (auto simp: verify_rrsig_def split: rdata.splits)

lemma verify_rrsig_True:
  "verify_rrsig h key sig rs now = Ok True \<longleftrightarrow>
    (\<exists>t labels ttl expiration inception tag signer signature flags protocol public_key.
       rec_rdata sig = Rrsig t (DnssecAlgorithm 8) labels ttl expiration inception tag signer signature
     \<and> rec_rdata key = Dnskey flags protocol (DnssecAlgorithm 8) public_key
     \<and> inception \<le> now \<and> now \<le> expiration \<and> labels = of_nat (name_label_count (rec_name sig))
     \<and> tag = key_tag flags 3 8 public_key
     \<and> verify_pkcs1v15_sha256 public_key
         (h (the (rrsig_rdata_without_signature (rec_rdata sig)) @ canonical_rrset rs ttl)) signature)"
  (is "?l \<longleftrightarrow> ?r")
proof
  assume ?l
  then show ?r
    by (cases "rec_rdata sig"; cases "rec_rdata key")
      (auto simp: verify_rrsig_def ok_or_def dnssec_algorithm.expand split: if_splits dnssec_algorithm.splits)
next
  assume ?r
  then show ?l by (auto simp: verify_rrsig_def ok_or_def)
qed

lemma try_keys_None: "try_keys h sig rs now keys att = None \<longleftrightarrow> (\<exists>key \<in> set keys. verify_rrsig h key sig rs now = Ok True)"
  by (induction h sig rs now keys att rule: try_keys.induct) (auto split: sum.splits bool.splits)

lemma try_sigs_None:
  "try_sigs h rs keys now sigs att = None \<longleftrightarrow>
    (\<exists>sig \<in> set sigs. \<exists>key \<in> set keys. verify_rrsig h key sig rs now = Ok True)"
proof (induction sigs arbitrary: att)
  case (Cons sig sigs)
  show ?case
  proof (cases "\<exists>key \<in> set keys. verify_rrsig h key sig rs now = Ok True")
    case True
    then show ?thesis using try_keys_None [of h sig rs now keys att] verify_rrsig_shape by fastforce
  next
    case False
    then obtain att' where "try_keys h sig rs now keys att = Some att'" using try_keys_None by (metis not_Some_eq)
    with False have "try_sigs h rs keys now (sig # sigs) att = None \<longleftrightarrow>
        (\<exists>s \<in> set sigs. \<exists>key \<in> set keys. verify_rrsig h key s rs now = Ok True)"
      by (simp only: try_sigs.simps Cons.IH option.case split: if_split) simp
    with False show ?thesis by simp
  qed
qed simp

lemma validate_rrset_Secure:
  "validate_rrset h rs sigs keys now = Secure \<longleftrightarrow>
    rs \<noteq> [] \<and> (\<exists>sig \<in> set sigs. \<exists>key \<in> set keys. verify_rrsig h key sig rs now = Ok True)"
proof -
  have "validate_rrset h rs sigs keys now = Secure \<longleftrightarrow> rs \<noteq> [] \<and> sigs \<noteq> [] \<and> try_sigs h rs keys now sigs False = None"
    by (simp add: validate_rrset_def split: option.split)
  then show ?thesis unfolding try_sigs_None by auto
qed


section \<open>Groups\<close>

definition same_group :: "dns_record list \<Rightarrow> name \<times> rr_type \<Rightarrow> dns_record list" where
  "same_group rs k = filter (\<lambda>r. (rec_name r, rec_type r) = k) rs"

lemma group_records_inv: "btree_inv (group_records rs)"
proof -
  have "btree_inv g \<Longrightarrow> btree_inv (foldl (\<lambda>groups r. let k = (rec_name r, rec_type r) in
      btree_insert k ((case btree_get groups k of None \<Rightarrow> [] | Some g \<Rightarrow> g) @ [r]) groups) g rs)" for g
    by (induction rs arbitrary: g) (simp_all add: Let_def)
  then show ?thesis by (simp add: group_records_def)
qed

lemma group_records_get:
  "btree_get (group_records rs) k = (if same_group rs k = [] then None else Some (same_group rs k))"
proof (induction rs rule: rev_induct)
  case (snoc r rs)
  then show ?case by (auto simp: group_records_def Let_def same_group_def)
qed (simp add: group_records_def same_group_def)

lemma group_records_mem:
  "(k, g) \<in> set (group_records rs) \<longleftrightarrow> g = same_group rs k \<and> g \<noteq> []"
  unfolding get_iff [OF group_records_inv, symmetric] group_records_get by auto

lemma group_records_Nil: "group_records rs = [] \<longleftrightarrow> rs = []"
proof
  assume e: "group_records rs = []"
  show "rs = []"
  proof (rule ccontr)
    assume "rs \<noteq> []"
    then obtain r where "r \<in> set rs" by (cases rs) auto
    then have "same_group rs (rec_name r, rec_type r) \<noteq> []" by (auto simp: same_group_def filter_empty_conv)
    with e group_records_get [of rs "(rec_name r, rec_type r)"] show False by simp
  qed
qed (simp add: group_records_def)

text \<open>The verdict on a group does not depend on the DS records of the signer.\<close>

definition signer_keys :: "'s resolver \<Rightarrow> name \<Rightarrow> 's \<Rightarrow> dns_record list" where
  "signer_keys resolve signer s = (case fst (resolve signer RrType_DNSKEY s) of
      Inl _ \<Rightarrow> [] | Inr rs \<Rightarrow> filter (\<lambda>r. rec_type r = RrType_DNSKEY \<and> rec_name r = signer) rs)"

lemma anchored_key_verifies:
  "fst (anchored_key h resolve rs sigs signer now keys s) \<Longrightarrow>
    \<exists>sig \<in> set sigs. \<exists>key \<in> set keys. verify_rrsig h key sig rs now = Ok True"
  by (induction h resolve rs sigs signer now keys s rule: anchored_key.induct)
    (auto simp: verify_rrset_quietly_def list_ex_iff split: prod.splits bool.splits if_splits)

lemma validate_group_verdict:
  assumes "rs \<noteq> []"
  shows "fst (validate_group h resolve rs sigs now s) = (case sigs of [] \<Rightarrow> Indeterminate
    | sig # _ \<Rightarrow> (case rrsig_signer sig of None \<Rightarrow> Indeterminate
      | Some signer \<Rightarrow> if signer_keys resolve signer s = [] then Indeterminate
          else validate_rrset h rs sigs (signer_keys resolve signer s) now))"
proof -
  have a: "fst (case x of (True, s) \<Rightarrow> (Secure, s) | (False, s) \<Rightarrow> (v, s)) = (if fst x then Secure else v)"
    for x :: "bool \<times> 's" and v
    by (auto split: prod.split bool.split)
  show ?thesis
  proof (cases sigs)
    case (Cons sig rest)
    show ?thesis
    proof (cases "rrsig_signer sig")
      case (Some signer)
      obtain a s' where r: "resolve signer RrType_DNSKEY s = (a, s')" by fastforce
      have sec: "validate_rrset h rs sigs keys now = Secure"
        if k: "fst (anchored_key h resolve rs sigs signer now keys s')" for keys
        using anchored_key_verifies [OF k] assms by (simp add: validate_rrset_Secure)
      show ?thesis
        by (cases a) (auto simp: validate_group_def Cons Some r signer_keys_def Let_def a
            dest: sec [unfolded Cons])
    qed (simp add: validate_group_def Cons)
  qed (simp add: validate_group_def)
qed

lemma validate_group_Secure:
  assumes "rs \<noteq> []" and "fst (validate_group h resolve rs sigs now s) = Secure"
  shows "\<exists>sig \<in> set sigs. \<exists>signer. rrsig_signer (hd sigs) = Some signer \<and>
    (\<exists>key \<in> set (signer_keys resolve signer s). verify_rrsig h key sig rs now = Ok True)"
  using assms(2) unfolding validate_group_verdict [OF assms(1)]
  by (auto simp: validate_rrset_Secure split: list.splits option.splits if_splits)

section \<open>Sections\<close>

lemma note_verdict_fields:
  "fst (note_verdict v t) = Suc (fst t)"
  "fst (snd (note_verdict v t)) = fst (snd t) + (if v = Secure then 1 else 0)"
  "fst (snd (snd (note_verdict v t))) = (fst (snd (snd t)) \<and> v = Secure)"
  by (cases t; cases v; simp)+

definition backed :: "(bytes \<Rightarrow> bytes) \<Rightarrow> 's resolver \<Rightarrow> dns_record list \<Rightarrow> u32 \<Rightarrow> name \<times> rr_type \<Rightarrow> dns_record list \<Rightarrow> bool" where
  "backed h resolve sigs now k g \<longleftrightarrow>
    (\<exists>sig \<in> set (covering sigs (fst k) (snd k)). \<exists>s signer. rrsig_signer (hd (covering sigs (fst k) (snd k))) = Some signer \<and>
      (\<exists>key \<in> set (signer_keys resolve signer s). verify_rrsig h key sig g now = Ok True))"

lemma verify_groups_backed:
  assumes "verify_groups h resolve sigs now gs t s = ((n, a, True, w), s')" and "\<forall>(k, g) \<in> set gs. g \<noteq> []"
  shows "(\<forall>(k, g) \<in> set gs. backed h resolve sigs now k g) \<and> n = fst t + length gs \<and> a = fst (snd t) + length gs"
  using assms
proof (induction h resolve sigs now gs t s rule: verify_groups.induct)
  case (2 h resolve sigs now owner ty members gs t s)
  let ?c = "covering sigs owner ty"
  have never: "verify_groups h resolve sigs now gs (x, y, False, z) s0 \<noteq> ((n, a, True, w), s')" for x y z s0 gs
  proof (induction gs arbitrary: x y z s0)
    case (Cons kg gs)
    obtain o' t' m' where "kg = ((o', t'), m')" by (cases kg) auto
    moreover have "\<exists>x' y' z'. note_verdict v (x, y, False, z) = (x', y', False, z')" for v by (cases v) auto
    ultimately show ?case using Cons by (auto simp: Let_def split: prod.split) metis
  qed simp
  have c: "?c \<noteq> []"
  proof
    assume "?c = []"
    with 2(3) show False using never by (cases t) auto
  qed
  obtain v s1 where v: "validate_group h resolve members ?c now s = (v, s1)" by fastforce
  have step: "verify_groups h resolve sigs now gs (note_verdict v t) s1 = ((n, a, True, w), s')"
    using 2(3) c v by simp
  have sec: "v = Secure"
  proof (rule ccontr)
    assume "v \<noteq> Secure"
    then obtain x y z where "note_verdict v t = (x, y, False, z)" using note_verdict_fields(3) [of v t] by (metis prod.collapse)
    with step never show False by simp
  qed
  have "members \<noteq> []" using 2(4) by simp
  then have "backed h resolve sigs now (owner, ty) members"
    using validate_group_Secure [of members h resolve ?c now s] v sec unfolding backed_def by (metis fst_conv snd_conv)
  moreover have "(\<forall>(k, g) \<in> set gs. backed h resolve sigs now k g) \<and> n = fst (note_verdict v t) + length gs
      \<and> a = fst (snd (note_verdict v t)) + length gs"
    using 2(2) [OF refl c v [symmetric] step] 2(4) by simp
  ultimately show ?case using sec by (simp add: note_verdict_fields)
qed simp

lemma verify_groups_worst:
  assumes "verify_groups h resolve sigs now gs t s = ((n, a, b, w), s')" and "snd (snd (snd t)) \<noteq> Secure"
  shows "w \<noteq> Secure"
  using assms
proof (induction h resolve sigs now gs t s rule: verify_groups.induct)
  case (2 h resolve sigs now owner ty members gs t s)
  have "snd (snd (snd (note_verdict v t))) \<noteq> Secure" for v using 2(4) by (cases t; cases v) auto
  with 2 show ?case by (auto simp: Let_def split: prod.splits if_splits)
qed simp

lemma verify_section_Secure:
  assumes "verify_section h resolve rs sigs now s = ((Secure, n, a), s')"
  shows "rs \<noteq> [] \<and> n = length (group_records rs) \<and> a = n \<and>
    (\<forall>r \<in> set rs. let k = (rec_name r, rec_type r) in backed h resolve sigs now k (same_group rs k))"
proof -
  let ?gs = "group_records rs"
  have gs: "?gs \<noteq> []" using assms by (auto simp: verify_section_def Let_def)
  obtain n' a' b w s2 where v: "verify_groups h resolve sigs now ?gs (0, 0, True, Insecure) s = ((n', a', b, w), s2)"
    by (metis prod.collapse)
  have "w \<noteq> Secure" using verify_groups_worst [OF v] by simp
  with assms gs v have b: "b" "n = n'" "a = a'" by (auto simp: verify_section_def Let_def split: if_splits)
  have ne: "\<forall>(k, g) \<in> set ?gs. g \<noteq> []" by (auto simp: group_records_mem)
  from verify_groups_backed [OF v [unfolded b(1) [THEN eqTrueI]] ne]
  have all: "\<forall>(k, g) \<in> set ?gs. backed h resolve sigs now k g" and na: "n' = length ?gs" "a' = length ?gs" by simp_all
  have "backed h resolve sigs now (rec_name r, rec_type r) (same_group rs (rec_name r, rec_type r))" if r: "r \<in> set rs" for r
  proof -
    have "same_group rs (rec_name r, rec_type r) \<noteq> []" using r by (auto simp: same_group_def filter_empty_conv)
    then have "((rec_name r, rec_type r), same_group rs (rec_name r, rec_type r)) \<in> set ?gs" by (simp add: group_records_mem)
    with all show ?thesis by blast
  qed
  with gs na b show ?thesis by (simp add: group_records_Nil Let_def)
qed

lemma verify_chain_fields:
  assumes "verify_chain h resolve now ans sigs auth anchored s = (ver, s')"
  shows "\<exists>n a s1. verify_section h resolve ans sigs (chain_secs now) s
      = ((ver_verdict ver, n, a), s1) \<and> ver_state ver = verdict_state (ver_verdict ver) anchored
      \<and> answer_groups ver = n \<and> answer_groups_authenticated ver = a"
  using assms by (auto simp: verify_chain_def Let_def split: prod.splits if_splits)

lemma verified_is_Secure: "is_signature_verified (verdict_state v anchored) \<longleftrightarrow> v = Secure"
  by (cases v) simp_all

lemma permits_is_Secure: "state_permits_authentic_data (verdict_state v anchored) \<longleftrightarrow> v = Secure \<and> anchored"
  by (cases v) simp_all

lemma verify_chain_backed:
  assumes "verify_chain h resolve now ans sigs auth anchored s = (ver, s')" and "is_signature_verified (ver_state ver)"
  shows "ans \<noteq> [] \<and> answer_groups ver = answer_groups_authenticated ver \<and>
    (\<forall>r \<in> set ans. let k = (rec_name r, rec_type r) in
       backed h resolve sigs (chain_secs now) k (same_group ans k))"
proof -
  from verify_chain_fields [OF assms(1)] obtain n a s1 where
    v: "verify_section h resolve ans sigs (chain_secs now) s
      = ((ver_verdict ver, n, a), s1)" and st: "ver_state ver = verdict_state (ver_verdict ver) anchored"
    "answer_groups ver = n" "answer_groups_authenticated ver = a" by blast
  have "ver_verdict ver = Secure" using assms(2) st(1) by (simp add: verified_is_Secure)
  with verify_section_Secure [OF v [unfolded this]] st show ?thesis by simp
qed

section \<open>A signer outside the zone\<close>

text \<open>
  A forged answer: the record of a victim name with a signature by the key of an unrelated name, under a
  resolver that knows that key and no DS record.  The key has exponent one, so the padded digest is its
  own signature.
\<close>

definition rsa_unit_key :: bytes where
  "rsa_unit_key = 1 # 1 # replicate 62 0xff"

lemma rsa_unit_key_accepts:
  assumes "length d = 32"
  shows "verify_pkcs1v15_sha256 rsa_unit_key d (encoded_message 8 d)"
proof -
  have p: "parse_dnskey_rsa rsa_unit_key = Some (replicate 62 0xff, [1])"
    by (simp add: rsa_unit_key_def parse_dnskey_rsa_def checked_add_def get_range_def get_from_def usize_bound_def)
  have t: "trim_leading_zeros (replicate 62 0xff) = replicate 62 0xff"
    by (simp add: trim_leading_zeros_def Let_def dropWhile_eq_self_iff)
  have "be_val (encoded_message 8 d) = be_val (tl (encoded_message 8 d))" by (simp add: encoded_message_def)
  also have "\<dots> < 256 ^ length (tl (encoded_message 8 d))" by (rule be_val_less)
  also have "\<dots> = 256 ^ 61" using assms by (simp add: length_encoded)
  also have "\<dots> \<le> be_val ([0xff] @ replicate 61 0xff)" by (simp add: be_val_append)
  also have "[0xff] @ replicate 61 0xff = (replicate 62 0xff :: bytes)" by (simp add: numeral_eq_Suc)
  finally show ?thesis using verify_pkcs1v15_iff [OF assms, of rsa_unit_key] p t assms by (auto simp: length_encoded)
qed

definition victim :: name where "victim = Name [1, 97, 0]"
definition foreign :: name where "foreign = Name [1, 101, 0]"

definition foreign_key :: dns_record where
  "foreign_key = \<lparr>rec_name = foreign, rec_type = RrType_DNSKEY, rec_class = RrClass_IN, rec_ttl = 0,
     rec_rdata = Dnskey 256 3 (DnssecAlgorithm 8) rsa_unit_key\<rparr>"

definition forged_answer :: dns_record where
  "forged_answer = \<lparr>rec_name = victim, rec_type = RrType_A, rec_class = RrClass_IN, rec_ttl = 60, rec_rdata = A 0x01020304\<rparr>"

definition forged_rdata :: "bytes \<Rightarrow> rdata" where
  "forged_rdata = Rrsig RrType_A (DnssecAlgorithm 8) 1 60 (- 1) 0 (key_tag 256 3 8 rsa_unit_key) foreign"

definition forged_sig :: "(bytes \<Rightarrow> bytes) \<Rightarrow> dns_record" where
  "forged_sig h = \<lparr>rec_name = victim, rec_type = RrType_RRSIG, rec_class = RrClass_IN, rec_ttl = 60,
     rec_rdata = forged_rdata (encoded_message 8
       (h (the (rrsig_rdata_without_signature (forged_rdata [])) @ canonical_rrset [forged_answer] 60)))\<rparr>"

definition foreign_resolver :: "unit resolver" where
  "foreign_resolver n t s =
    (if n = foreign \<and> t = RrType_DNSKEY then Ok [foreign_key] else Err (error_wire ''no data''), s)"

lemma forged_sig_verifies:
  assumes "\<And>x. length (h x) = 32"
  shows "verify_rrsig h foreign_key (forged_sig h) [forged_answer] 0 = Ok True"
proof -
  have "name_label_count victim = 1" by code_simp
  moreover have "rrsig_rdata_without_signature (forged_rdata x) = rrsig_rdata_without_signature (forged_rdata [])" for x
    by (simp add: forged_rdata_def)
  ultimately show ?thesis
    unfolding verify_rrsig_True using rsa_unit_key_accepts [OF assms]
    by (simp add: forged_sig_def foreign_key_def) (simp add: forged_rdata_def)
qed

lemma foreign_keys: "signer_keys foreign_resolver foreign s = [foreign_key]"
  by (simp add: signer_keys_def foreign_resolver_def foreign_key_def)

lemma forged_cover: "covering [forged_sig h] victim RrType_A = [forged_sig h]" "rrsig_signer (forged_sig h) = Some foreign"
  by (simp_all add: covering_def rrsigs_for_def forged_sig_def forged_rdata_def rrsig_signer_def)

lemma forged_chain:
  assumes "\<And>x. length (h x) = 32"
  shows "permits_authentic_data (fst (verify_chain h foreign_resolver 0 [forged_answer] [forged_sig h] [] True ()))"
proof -
  have "fst (validate_group h foreign_resolver [forged_answer] [forged_sig h] 0 ()) = Secure"
    using forged_sig_verifies [OF assms]
    by (simp add: validate_group_verdict forged_cover foreign_keys validate_rrset_Secure)
  then have g: "validate_group h foreign_resolver [forged_answer] [forged_sig h] 0 () = (Secure, ())"
    by (metis prod.collapse old.unit.exhaust)
  have "group_records [forged_answer] = [((victim, RrType_A), [forged_answer])]"
    by (simp add: group_records_def forged_answer_def)
  then have "verify_section h foreign_resolver [forged_answer] [forged_sig h] 0 () = ((Secure, 1, 1), ())"
    by (simp add: verify_section_def forged_cover g)
  then show ?thesis by (simp add: verify_chain_def chain_secs_def permits_authentic_data_def)
qed

end
