(* ===== verification/Forward.thy ===== *)
theory Forward
  imports Engine Routing Hosts Fakeip Dnssec Prng
begin

text \<open>
  \<^verbatim>\<open>src/src/forward.rs\<close> and the forwarding part of \<^verbatim>\<open>src/src/resolver.rs\<close>: the list of forwarders, one
  exchange with a group, the choice of the group and the gate against poisoned answers.  The transports
  are a parameter \<open>send\<close> on a state of their own: it stands for \<^verbatim>\<open>ForwarderSet::exchange_one\<close>, which does
  nothing but network input and output.
\<close>

section \<open>Forwarders\<close>

datatype proto = Udp | Tcp | Tls | DoH | DoH3 | DoQ

record endpoint =
  ep_ip :: ip_addr
  ep_port :: u16
  ep_proto :: proto

record forwarder =
  fw_endpoint :: endpoint
  fw_host :: "rust_str option"
  fw_path :: "rust_str option"

definition forwarder_plain :: "endpoint \<Rightarrow> forwarder" where
  "forwarder_plain ep = \<lparr>fw_endpoint = ep, fw_host = None, fw_path = None\<rparr>"

definition forwarder_encrypted :: "endpoint \<Rightarrow> rust_str \<Rightarrow> forwarder" where
  "forwarder_encrypted ep host = \<lparr>fw_endpoint = ep, fw_host = Some host, fw_path = None\<rparr>"

definition with_path :: "rust_str \<Rightarrow> forwarder \<Rightarrow> forwarder" where
  "with_path p f = f\<lparr>fw_path := Some p\<rparr>"

definition doh_path :: "forwarder \<Rightarrow> rust_str" where
  "doh_path f = (case fw_path f of Some p \<Rightarrow> p | None \<Rightarrow> str_lit ''/dns-query'')"

datatype transport_key = TransportKey endpoint "rust_str option" "rust_str option"

definition transport_key_of :: "forwarder \<Rightarrow> transport_key" where
  "transport_key_of f =
    (let p = (case fw_path f of None \<Rightarrow> None | Some p \<Rightarrow> if p = str_lit ''/dns-query'' then None else Some p)
     in TransportKey (fw_endpoint f) (fw_host f) p)"

definition forwarder_add :: "forwarder \<Rightarrow> forwarder list \<Rightarrow> forwarder list" where
  "forwarder_add f fs =
    (let key = transport_key_of f in
     if list_ex (\<lambda>e. transport_key_of e = key) fs then fs else fs @ [f])"

section \<open>Exchanges\<close>

text \<open>The checks on one server's bytes: they parse, echo the question, and carry no failure code.\<close>

definition accept_response :: "message \<Rightarrow> bytes \<Rightarrow> message result" where
  "accept_response query bs =
    rbind (message_parse bs) (\<lambda>resp.
      if \<not> response_matches_query query resp then Err (error_transport ''forwarder response did not match query'')
      else
        (let code = message_rcode resp in
         if code \<le> 255 \<and> is_failure (Rcode (ucast code)) then
           Err (error_new (if Rcode (ucast code) = Rcode 5 then Refused else Servfail) ''the upstream answered a failure code'')
         else Ok resp))"

fun exchange_loop :: "(forwarder \<Rightarrow> bytes \<Rightarrow> u64 \<Rightarrow> 's \<Rightarrow> bytes result \<times> 's) \<Rightarrow> forwarder list \<Rightarrow> message \<Rightarrow> bytes \<Rightarrow> u64 \<Rightarrow>
    error option \<Rightarrow> 's \<Rightarrow> message result \<times> 's" where
  "exchange_loop send [] query query_bytes timeout_ms last_err s =
    (Err (case last_err of Some e \<Rightarrow> e | None \<Rightarrow> error_new NoUpstream ''no forwarder answered''), s)"
| "exchange_loop send (f # fs) query query_bytes timeout_ms last_err s =
    (case send f query_bytes timeout_ms s of
       (Inl e, s) \<Rightarrow> exchange_loop send fs query query_bytes timeout_ms (Some e) s
     | (Inr bs, s) \<Rightarrow> (case accept_response query bs of
          Inl e \<Rightarrow> exchange_loop send fs query query_bytes timeout_ms (Some e) s
        | Inr resp \<Rightarrow> (Ok resp, s)))"

definition exchange_with :: "(forwarder \<Rightarrow> bytes \<Rightarrow> u64 \<Rightarrow> 's \<Rightarrow> bytes result \<times> 's) \<Rightarrow> forwarder list \<Rightarrow> message \<Rightarrow> bytes \<Rightarrow> u64 \<Rightarrow>
    's \<Rightarrow> message result \<times> 's" where
  "exchange_with send grp query query_bytes timeout_ms s = exchange_loop send grp query query_bytes timeout_ms None s"

definition build_forward_query :: "query_key \<Rightarrow> u16 \<Rightarrow> bool \<Rightarrow> ('g \<Rightarrow> u64 \<times> 'g) \<Rightarrow> 'g \<Rightarrow> message \<times> 'g" where
  "build_forward_query key edns_udp_size dnssec next_u64 g =
    (let (r, g) = next_u32 next_u64 g;
         m = message_new (ucast (r AND 0xffff));
         m = m\<lparr>msg_flags := (msg_flags m)\<lparr>hf_rd := True\<rparr>,
               questions := questions m @ [\<lparr>qname = qk_name key, qtype = qk_type key, qclass = qk_class key\<rparr>],
               msg_edns := Some (to_edns \<lparr>spec_udp_size = edns_udp_size, spec_dnssec_ok = dnssec \<or> want_dnssec key,
                 spec_ecs = ecs_option key, spec_client_cookie = None\<rparr>)\<rparr>
     in (m, g))"

section \<open>Resolutions\<close>

record resolution =
  res_name :: name
  res_type :: rr_type
  res_class :: rr_class
  res_rcode :: rcode
  res_answers :: "dns_record list"
  res_authorities :: "dns_record list"
  res_rrsigs :: "dns_record list"
  res_validated :: bool
  res_ttl :: u32
  from_cache :: bool
  res_stale :: bool
  ecs_scope :: "u8 option"
  served_at :: ts

definition empty_answer :: "query_key \<Rightarrow> u32 \<Rightarrow> ts \<Rightarrow> resolution" where
  "empty_answer key ttl now =
    \<lparr>res_name = qk_name key, res_type = qk_type key, res_class = qk_class key, res_rcode = Rcode_NOERROR,
     res_answers = [], res_authorities = [], res_rrsigs = [], res_validated = False, res_ttl = ttl,
     from_cache = False, res_stale = False, ecs_scope = None, served_at = now\<rparr>"

definition response_to_resolution :: "query_key \<Rightarrow> message \<Rightarrow> resolution" where
  "response_to_resolution key resp =
    (let (ttl, data, sigs) = split_records (answers resp) (- 1) [] [];
         ttl = (if ttl = - 1 then 0 else ttl);
         code = message_rcode resp
     in \<lparr>res_name = qk_name key, res_type = qk_type key, res_class = qk_class key,
         res_rcode = (if code \<le> 255 then Rcode (ucast code) else Rcode_SERVFAIL),
         res_answers = data, res_authorities = authorities resp, res_rrsigs = sigs, res_validated = False,
         res_ttl = ttl, from_cache = False, res_stale = False,
         ecs_scope = map_option scope_prefix (Option.bind (msg_edns resp) edns_ecs), served_at = 0\<rparr>)"

fun address_of :: "rdata \<Rightarrow> ip_addr option" where
  "address_of (A v) = Some (IpV4 v)"
| "address_of (Aaaa v) = Some (IpV6 v)"
| "address_of _ = None"

definition answer_addresses :: "resolution \<Rightarrow> ip_addr list" where
  "answer_addresses res = List.map_filter (\<lambda>r. address_of (rec_rdata r)) (res_answers res)"

section \<open>Groups\<close>

record upstream_groups =
  ug_default :: "forwarder list"
  ug_fallback :: "forwarder list"
  ug_extra :: "forwarder list list"

definition groups_get :: "upstream_groups \<Rightarrow> usize \<Rightarrow> forwarder list option" where
  "groups_get g i =
    (if i = 0 then Some (ug_default g) else if i = 1 then Some (ug_fallback g)
     else if i - 2 < length (ug_extra g) then Some (ug_extra g ! (i - 2)) else None)"

definition has_fallback :: "upstream_groups \<Rightarrow> bool" where
  "has_fallback g \<longleftrightarrow> ug_fallback g \<noteq> []"

definition groups_is_empty :: "upstream_groups \<Rightarrow> bool" where
  "groups_is_empty g \<longleftrightarrow> ug_default g = [] \<and> ug_fallback g = [] \<and> list_all (\<lambda>x. x = []) (ug_extra g)"

definition groups_all :: "upstream_groups \<Rightarrow> forwarder list" where
  "groups_all g = foldl (@) (ug_default g @ ug_fallback g) (ug_extra g)"

record dns_policy =
  dp_hosts :: hosts_table
  dp_fake_ip :: "fake_ip_settings option"
  dp_policy :: nameserver_policy
  dp_fallback :: fallback_filter
  dp_upstreams :: upstream_groups

definition fake_ip_enabled :: "dns_policy \<Rightarrow> bool" where
  "fake_ip_enabled d \<longleftrightarrow> dp_fake_ip d \<noteq> None"

definition policy_is_default :: "dns_policy \<Rightarrow> bool" where
  "policy_is_default d \<longleftrightarrow> hosts_is_empty (dp_hosts d) \<and> dp_fake_ip d = None \<and> dp_policy d = []"

definition forward_route :: "dns_policy \<Rightarrow> query_key \<Rightarrow> forwarder list option" where
  "forward_route dns key =
    (let groups = dp_upstreams dns in
     if forces_fallback (dp_fallback dns) (qk_name key) \<and> has_fallback groups then Some (ug_fallback groups)
     else
       (let ruled = (case policy_route (dp_policy dns) (qk_name key) of
                       Group i \<Rightarrow> groups_get groups i | DefaultRoute \<Rightarrow> None)
        in case ruled of
             Some g \<Rightarrow> if g \<noteq> [] then Some g
                       else if ug_default groups \<noteq> [] then Some (ug_default groups) else None
           | None \<Rightarrow> if ug_default groups \<noteq> [] then Some (ug_default groups) else None))"

text \<open>
  One exchange, and the resolution through a group with the gate behind it.  \<open>fe_draw\<close> is the random source
  behind its lock, \<open>fe_validate\<close> the validator of \<open>Dnssec\<close> applied to the resolver and \<open>fe_count\<close> the two
  counters of \<^verbatim>\<open>Stats\<close>; all work on one state of the caller's.
\<close>

datatype forward_event = PolicyRouted | FallbackTriggered

record 's forward_env =
  fe_send :: "forwarder \<Rightarrow> bytes \<Rightarrow> u64 \<Rightarrow> 's \<Rightarrow> bytes result \<times> 's"
  fe_draw :: "'s \<Rightarrow> u64 \<times> 's"
  fe_validate :: "message \<Rightarrow> 's \<Rightarrow> verification \<times> 's"
  fe_count :: "forward_event \<Rightarrow> 's \<Rightarrow> 's"
  fe_edns_udp_size :: u16
  fe_dnssec :: bool
  fe_timeout_ms :: u64

definition forward_once :: "'s forward_env \<Rightarrow> query_key \<Rightarrow> forwarder list \<Rightarrow> 's \<Rightarrow> resolution result \<times> 's" where
  "forward_once env key grp s =
    (case build_forward_query key (fe_edns_udp_size env) (fe_dnssec env) (fe_draw env) s of (query, s) \<Rightarrow>
     (case to_bytes query of
        Inl e \<Rightarrow> (Err e, s)
      | Inr bs \<Rightarrow>
         (case exchange_with (fe_send env) grp query bs (fe_timeout_ms env) s of
            (Inl e, s) \<Rightarrow> (Err e, s)
          | (Inr resp, s) \<Rightarrow>
             if fe_dnssec env \<and> \<not> qk_cd key then
               (case fe_validate env resp s of (v, s) \<Rightarrow>
                 (Ok ((response_to_resolution key resp)\<lparr>res_validated := is_signature_verified (ver_state v)\<rparr>), s))
             else (Ok (response_to_resolution key resp), s))))"

definition forward_resolve :: "'s forward_env \<Rightarrow> dns_policy \<Rightarrow> query_key \<Rightarrow> 's \<Rightarrow> resolution result \<times> 's" where
  "forward_resolve env dns key s =
    (let groups = dp_upstreams dns;
         forced = forces_fallback (dp_fallback dns) (qk_name key) \<and> has_fallback groups
     in case forward_route dns key of
          None \<Rightarrow> (Err (error_new NoUpstream ''no upstream group is responsible for the name''), s)
        | Some primary \<Rightarrow> (case forward_once env key primary s of
            (Inl e, s) \<Rightarrow> (Err e, s)
          | (Inr res, s) \<Rightarrow>
             (let s = (if \<not> forced \<and> policy_route (dp_policy dns) (qk_name key) \<noteq> DefaultRoute
                       then fe_count env PolicyRouted s else s)
              in if \<not> forced \<and> has_fallback groups \<and> looks_poisoned (dp_fallback dns) (answer_addresses res) \<noteq> None then
                   (let s = fe_count env FallbackTriggered s in
                    case forward_once env key (ug_fallback groups) s of
                      (Inr fb, s) \<Rightarrow> (Ok fb, s)
                    | (Inl _, s) \<Rightarrow> (Ok res, s))
                 else (Ok res, s))))"

section \<open>Properties\<close>

lemma forwarder_add_distinct:
  "distinct (map transport_key_of fs) \<Longrightarrow> distinct (map transport_key_of (forwarder_add f fs))"
  by (auto simp: forwarder_add_def Let_def list_ex_iff)

lemma accept_response_Ok:
  "accept_response query bs = Ok resp \<longleftrightarrow> message_parse bs = Ok resp \<and> response_matches_query query resp
    \<and> \<not> (message_rcode resp \<le> 255 \<and> is_failure (Rcode (ucast (message_rcode resp))))"
  by (auto simp: accept_response_def Let_def split: if_splits)

text \<open>The first server that gives an acceptable answer decides; the others failed before it.\<close>

lemma exchange_loop_Ok:
  "exchange_loop send grp query bs timeout err s = (Ok resp, s') \<Longrightarrow>
    \<exists>before f after s1 s2 raw. grp = before @ f # after \<and> send f bs timeout s1 = (Ok raw, s2) \<and> accept_response query raw = Ok resp"
proof (induction grp arbitrary: err s)
  case (Cons f fs)
  obtain r s1 where r: "send f bs timeout s = (r, s1)" by fastforce
  show ?case
  proof (cases "\<exists>raw. r = Ok raw \<and> accept_response query raw = Ok resp")
    case True
    with r show ?thesis by (metis append_Nil)
  next
    case False
    with Cons.prems r have "\<exists>e. exchange_loop send fs query bs timeout (Some e) s1 = (Ok resp, s')"
      by (cases r) (auto split: sum.splits)
    with Cons.IH show ?thesis by (metis append_Cons)
  qed
qed simp

end
