(* ===== verification/Core_Claims.thy ===== *)
theory Core_Claims
  imports Cache_Machine Dnssec_Correct Alias Engine Prng_Correct Samples
begin

text \<open>
  The properties of the cache, the validator, client-subnet partitions, the alias graph, DNAME synthesis and
  the random source, each evaluated on a sample.
\<close>

section \<open>The cache\<close>

text \<open>
  C11. In every state the live operations lead to, a tier with a capacity holds at most that many entries, its
  score index lists exactly the entries of its map with their ranks, every entry is filed under its own
  key, no key is in two tiers, and the name store of denials is bounded.
\<close>

theorem cache_tiers_consistent:
  assumes "reachable cache_initial (live_step sg) c" and "0 < tier_capacity t (cc_config c)"
  shows "tier_len (get_tier t c) \<le> tier_capacity t (cc_config c)
    \<and> dom (btree_get (tm_rank (get_tier t c))) = ranks sg (view c t)
    \<and> (view c t k = Some e \<longrightarrow> ce_key e = k) \<and> exclusive c \<and> length (nx c) \<le> max 1 (nx_capacity (cc_config c))"
proof -
  have inv: "cache_inv sg c" "exclusive c" using live_machine.reachable_inv [OF assms(1)] by simp_all
  then have "tier_inv sg (get_tier t c)" "tm_capacity (get_tier t c) = tier_capacity t (cc_config c)" by (simp_all add: cache_inv_def)
  with inv assms(2) show ?thesis by (auto simp: tier_inv_def cache_inv_def)
qed

theorem cache_tiers_consistent_witness:
  "tier_len (get_tier Hot sample_cache) \<le> 1 \<and> exclusive sample_cache"
proof -
  have c: "cc_config sample_cache = sample_config" by code_simp
  from cache_tiers_consistent [OF sample_cache_live, unfolded c, OF sample_capacities, of Hot] show ?thesis
    by (simp add: sample_config_def)
qed

text \<open>
  C9. What a lookup returns was stored: a fresh or stale hit is an entry of a partition the client may read
  (its own, a broader scope of its network, or the global one), within its lifetime or the stale window; an
  alias hit is the unexpired CNAME entry of the name; a denial is the unexpired entry of the name store.
\<close>

theorem cache_lookup_sound:
  assumes "reachable cache_initial (cache_step sg) c" and "cache_lookup sg key now c = (out, c')"
  shows "case out of
       CnameHit _ _ _ _ \<Rightarrow> \<exists>k. readable (with_type key RrType_CNAME) k \<and> served_from c k now out
     | NxDomainHit expires soa \<Rightarrow> now < expires \<and>
         (\<exists>neg. btree_get (nx c) (ck_name key) = Some neg \<and> ne_expires neg = expires \<and> ne_soa neg = soa)
     | Miss \<Rightarrow> True
     | _ \<Rightarrow> \<exists>k. readable key k \<and> served_from c k now out"
  using cache_lookup_spec [OF cache_machine.reachable_inv [OF assms(1)] assms(2)] by blast

theorem cache_lookup_sound_witness:
  "case fst (cache_lookup sample_signals sample_key 1 sample_cache) of
       CnameHit _ _ _ _ \<Rightarrow> \<exists>k. readable (with_type sample_key RrType_CNAME) k
         \<and> served_from sample_cache k 1 (fst (cache_lookup sample_signals sample_key 1 sample_cache))
     | NxDomainHit expires soa \<Rightarrow> 1 < expires \<and>
         (\<exists>neg. btree_get (nx sample_cache) (ck_name sample_key) = Some neg \<and> ne_expires neg = expires \<and> ne_soa neg = soa)
     | Miss \<Rightarrow> True
     | _ \<Rightarrow> \<exists>k. readable sample_key k \<and> served_from sample_cache k 1 (fst (cache_lookup sample_signals sample_key 1 sample_cache))"
  by (rule cache_lookup_sound [OF live_reachable [OF sample_cache_live] prod.collapse [symmetric]])

text \<open>
  C10. A stored answer is found: when every tier has room and the score floor admits everything, the RRset
  just inserted is what a lookup of its key returns until it expires, with the capped TTL.
\<close>

theorem cache_insert_lookup:
  assumes "reachable cache_initial (live_step sg) c"
    and "\<And>t. 0 < tier_capacity t (cc_config c)" and "\<And>x. sg_ge sg x (min_admit_score (cc_config c))"
    and "later < saturating_add now (uint (min (rs_ttl s) (max_ttl_cap (cc_config c))) * 1000000000)"
  shows "\<exists>e c'. cache_lookup sg key later (insert_positive sg key s now inputs valid c) = (Fresh e, c')
    \<and> ce_kind e = Positive (s\<lparr>rs_ttl := min (rs_ttl s) (max_ttl_cap (cc_config c))\<rparr>)"
  using insert_positive_found [of sg c later now s] live_machine.reachable_inv [OF assms(1)] assms(2-4) by meson

theorem cache_insert_lookup_witness:
  "\<exists>e c'. cache_lookup sample_signals sample_key 1 (insert_positive sample_signals sample_key sample_set 0 () True (cache_new sample_config))
      = (Fresh e, c') \<and> ce_kind e = Positive (sample_set\<lparr>rs_ttl := min (rs_ttl sample_set) (max_ttl_cap sample_config)\<rparr>)"
proof -
  have c: "cc_config (cache_new sample_config) = sample_config" by (simp add: cache_new_def)
  have "reachable cache_initial (live_step sample_signals) (cache_new sample_config)"
    by (rule reachable.reach_init) (auto simp: cache_initial_def)
  moreover have "sg_ge sample_signals x (min_admit_score sample_config)" for x by (simp add: sample_signals_def sample_config_def)
  moreover have "1 < saturating_add 0 (uint (min (rs_ttl sample_set) (max_ttl_cap sample_config)) * 1000000000)" by code_simp
  ultimately show ?thesis
    using cache_insert_lookup [of sample_signals "cache_new sample_config", unfolded c, OF _ sample_capacities] by meson
qed

text \<open>
  Restoring a snapshot ignores a cold capacity of zero: for every number there is a history after which
  the cold tier of a cache configured without one holds that many entries.
\<close>

theorem cold_tier_unbounded:
  "\<exists>c :: ('f, 'm) semantic_cache. reachable cache_initial (cache_step sg) c \<and> cold_capacity (cc_config c) = 0 \<and> tier_len (cold c) = n"
  using cold_fills [of sg n] by blast

section \<open>The validator\<close>

text \<open>
  C15. A verified answer is signed: when the chain check reports the answer as verified, the answer is not
  empty and every RRset in it is covered by a signature that verifies over the whole set under a DNSKEY the
  resolver returned for the signer.
\<close>

theorem chain_verified_backed:
  assumes "verify_chain h resolve now ans sigs auth anchored s = (ver, s')" and "is_signature_verified (ver_state ver)"
  shows "ans \<noteq> [] \<and> (\<forall>r \<in> set ans. backed h resolve sigs (chain_secs now) (rec_name r, rec_type r) (same_group ans (rec_name r, rec_type r)))"
  using verify_chain_backed [OF assms] by (simp add: Let_def)

theorem chain_verified_backed_witness:
  "backed (\<lambda>_. replicate 32 0) foreign_resolver [forged_sig (\<lambda>_. replicate 32 0)] (chain_secs 0) (victim, RrType_A) [forged_answer]"
proof -
  let ?h = "\<lambda>_ :: bytes. replicate 32 (0 :: u8)"
  let ?v = "verify_chain ?h foreign_resolver 0 [forged_answer] [forged_sig ?h] [] True ()"
  have "permits_authentic_data (fst ?v)" by (rule forged_chain) simp
  then have "is_signature_verified (ver_state (fst ?v))" by (cases "ver_state (fst ?v)") (simp_all add: permits_authentic_data_def)
  from chain_verified_backed [OF prod.collapse [symmetric] this] show ?thesis by (simp add: same_group_def forged_answer_def)
qed

text \<open>
  C19. The chain is not anchored: a key that no DS record vouches for, of a name that is no ancestor of the
  answer's, is enough for an answer to be reported as authentic.  Only the length of a digest is used of
  the hash function.
\<close>

theorem unanchored_chain_accepted:
  assumes "\<And>x. length (h x) = 32"
  shows "permits_authentic_data (fst (verify_chain h foreign_resolver 0 [forged_answer] [forged_sig h] [] True ()))
    \<and> \<not> is_subdomain_of (rec_name forged_answer) foreign \<and> (\<forall>n s. \<exists>e. fst (foreign_resolver n RrType_DS s) = Err e)"
proof -
  have "\<not> is_subdomain_of (rec_name forged_answer) foreign" by code_simp
  then show ?thesis using forged_chain [OF assms] by (simp add: foreign_resolver_def rr_type_consts)
qed

theorem unanchored_chain_accepted_witness:
  "permits_authentic_data (fst (verify_chain (\<lambda>_. replicate 32 0) foreign_resolver 0 [forged_answer] [forged_sig (\<lambda>_. replicate 32 0)] [] True ()))"
  using unanchored_chain_accepted [of "\<lambda>_. replicate 32 0"] by simp

text \<open>
  The key tag is the one of RFC 4034: the 16-bit one's-complement-style sum of the DNSKEY RDATA, with a
  single carry folded in, computed without overflow for every key that fits in a record.
\<close>

theorem key_tag_exact:
  assumes "length public_key \<le> 65535"
  shows "unat (key_tag flags protocol algorithm public_key) =
    (let s = tag_sum (to_be_bytes 2 flags @ [protocol, algorithm] @ public_key) in (s + s div 65536) mod 65536)"
  using assms by (rule key_tag_rfc4034)

theorem key_tag_exact_witness: "unat (key_tag 257 3 8 [1, 2]) = 1291"
  using key_tag_exact [of "[1, 2]" 257 3 8] by (simp add: to_be_bytes_numerals)

section \<open>Client subnets\<close>

text \<open>The bits of a client's network an answer of a given scope is filed under: no more than the client sent.\<close>

definition shared_bits :: "ecs_key \<Rightarrow> u8 option \<Rightarrow> nat" where
  "shared_bits k scope = (case scope of None \<Rightarrow> 0 | Some s \<Rightarrow> min (unat s) (unat (ek_prefix k)))"

lemma effective_scope_bits: "unat (effective_scope k (case scope of None \<Rightarrow> 0 | Some s \<Rightarrow> s)) = shared_bits k scope"
  by (simp add: effective_scope_def shared_bits_def min_def word_le_nat_alt split: option.split)

lemma partition_bits:
  "answer_partition (Some k) scope = (if shared_bits k scope = 0 then None
     else Some (EcsKey (ek_family k) (of_nat (shared_bits k scope)) (truncate_to (ek_addr k) (of_nat (shared_bits k scope)))))"
proof -
  have "effective_scope k s \<le> ek_prefix k" for s by (simp add: effective_scope_def)
  then show ?thesis
    unfolding effective_scope_bits [symmetric] by (simp add: answer_partition_def with_scope_def Let_def min_absorb1 unat_gt_0)
qed

text \<open>
  C33. Scoped answers reach the right clients.  An answer is filed under the first bits of the client's network: as
  many as its scope says, but no more than the client sent.  Two clients that sent a subnet share the
  partition exactly when these numbers agree and, unless they are zero, their addresses are of one family and
  agree on these bits; zero is the global partition, which clients without a subnet use.
\<close>

theorem answer_partition_exact:
  "(answer_partition (Some k) scope = answer_partition (Some k') scope \<longleftrightarrow>
      shared_bits k scope = shared_bits k' scope
      \<and> (shared_bits k scope = 0
         \<or> ek_family k = ek_family k' \<and> (\<forall>n < shared_bits k scope. net_bit (ek_addr k) n = net_bit (ek_addr k') n)))
    \<and> (answer_partition (Some k) scope = answer_partition None scope \<longleftrightarrow> shared_bits k scope = 0)"
proof -
  have small: "shared_bits k scope < 256" for k
    using unsigned_less [of "ek_prefix k"] by (auto simp: shared_bits_def min_def split: option.split)
  then have nat: "unat (of_nat (shared_bits k scope) :: u8) = shared_bits k scope" for k
    by (simp add: unat_of_nat take_bit_eq_mod)
  then have "(of_nat (shared_bits k scope) :: u8) = of_nat (shared_bits k' scope) \<longleftrightarrow> shared_bits k scope = shared_bits k' scope"
    by metis
  moreover have "answer_partition None scope = None" by (simp add: answer_partition_def)
  ultimately show ?thesis using nat by (auto simp: partition_bits truncate_eq_iff)
qed

theorem answer_partition_exact_witness:
  "answer_partition (Some (EcsKey 1 24 [10, 0, 7])) (Some 16) = answer_partition (Some (EcsKey 1 20 [10, 0, 9])) (Some 16)
    \<and> answer_partition (Some (EcsKey 1 24 [10, 0, 7])) (Some 24) \<noteq> answer_partition (Some (EcsKey 1 20 [10, 0, 7])) (Some 24)"
proof -
  let ?k = "EcsKey 1 24 [10, 0, 7]" and ?k' = "EcsKey 1 20 [10, 0, 9]" and ?k'' = "EcsKey 1 20 [10, 0, 7]"
  have b: "shared_bits ?k (Some 16) = 16" "shared_bits ?k' (Some 16) = 16" "shared_bits ?k (Some 24) = 24" "shared_bits ?k'' (Some 24) = 20"
    by (simp_all add: shared_bits_def)
  have "\<forall>n < 16. net_bit [10, 0, 7] n = net_bit [10, 0, 9] n" by code_simp
  with answer_partition_exact [of ?k "Some 16" ?k'] answer_partition_exact [of ?k "Some 24" ?k''] show ?thesis by (simp add: b)
qed

section \<open>Aliases\<close>

text \<open>
  C34. The alias graph stays consistent: in every reachable graph the reverse index is the converse of the
  forward one, the edge counter counts the edges and respects the bound, and a closure below its bound is
  exactly the set of keys reachable along aliases.
\<close>

theorem alias_closure_exact:
  assumes "reachable alias_initial alias_step g"
  shows "edges_of (rev_deps g) = (edges_of (fwd g))\<inverse> \<and> ag_edges g = card (edges_of (fwd g)) \<and> ag_edges g \<le> max_edges (ag_config g)
    \<and> (length (alias_closure g k mx) < mx \<longrightarrow> set (alias_closure g k mx) = (edges_of (fwd g))\<^sup>* `` {k})"
  using alias_machine.reachable_inv [OF assms] alias_closure_spec(5) [of g k mx] by (simp add: alias_inv_def)

definition sample_graph :: alias_graph where
  "sample_graph = alias_link (cache_key_plain wit_name RrType_CNAME RrClass_IN) (cache_key_plain name_root RrType_A RrClass_IN) 0
     (alias_new alias_config_default)"

theorem alias_closure_exact_witness:
  "ag_edges sample_graph = card (edges_of (fwd sample_graph))
    \<and> edges_of (rev_deps sample_graph) = (edges_of (fwd sample_graph))\<inverse>"
proof -
  have "reachable alias_initial alias_step (alias_new alias_config_default)"
    by (rule reachable.reach_init) (auto simp: alias_initial_def)
  then have "reachable alias_initial alias_step sample_graph"
    by (rule reachable.reach_step [where opn = "OpLink (cache_key_plain wit_name RrType_CNAME RrClass_IN) (cache_key_plain name_root RrType_A RrClass_IN) 0"])
       (simp add: alias_step_def sample_graph_def)
  from alias_closure_exact [OF this] show ?thesis by blast
qed

section \<open>DNAME\<close>

text \<open>
  C32. DNAME synthesis replaces exactly the owner's labels: for well-formed names, when the octet that starts the
  owner occurs inside no label of the query name (the code compares octets, not labels), the result is the
  query name with its suffix exchanged for the target, and there is one exactly when the owner is a proper
  suffix and the result is within the limits of a name.
\<close>

theorem dname_synthesis_exact:
  assumes "wf_name n" and "wf_name owner" and "wf_name target" and "octet_aligned n owner"
  defines "ls \<equiv> take (length (name_labels n) - length (name_labels owner)) (name_labels n) @ name_labels target"
  shows "synthesize_dname_cname n owner target =
    (if strict_suffix (name_labels owner) (name_labels n) \<and> labels_size ls + 1 \<le> 255 \<and> length ls < 127
     then Some (Name (encode_labels ls)) else None)"
  unfolding ls_def by (rule synthesize_labels [OF assms(1-4)])

theorem dname_synthesis_exact_witness: "synthesize_dname_cname wit_name (Name [1, 98, 0]) wit_name = Some (Name [1, 97, 1, 97, 1, 98, 0])"
proof -
  have "Name [1, 98, 0] = Name (encode_labels [[98]])" by simp
  then have b: "wf_name (Name [1, 98, 0])"
    using wf_name_encode [of "[[98]]"] by (simp add: wf_labels_def valid_label_def lower_label_def is_ascii_uppercase_def)
  have b': "name_labels (Name [1, 98, 0]) = [[98]]" by code_simp
  have a: "name_labels wit_name = [[97], [98]]" by code_simp
  have o: "octet_aligned wit_name (Name [1, 98, 0])" by (simp add: octet_aligned_def a b')
  from dname_synthesis_exact [OF wit_name_wf b wit_name_wf o] show ?thesis
    by (simp add: a b' strict_suffix_def labels_size_def suffix_def)
qed

section \<open>Random numbers\<close>

text \<open>
  C40. Bounded draws return and are unbiased: with the SplitMix64 generator \<^verbatim>\<open>below\<close> always ends, within bounds,
  and every residue has the same number of accepted preimages.
\<close>

theorem below_uniform:
  assumes "1 < n" and "r < n"
  shows "(\<exists>v s'. below splitmix_next n s = Some (v, s') \<and> v < n) \<and> card {v. v < below_limit n \<and> v mod n = r} = (2 ^ 64 - 1) div unat n"
proof -
  obtain v s' where v: "below splitmix_next n s = Some (v, s')" using splitmix_below_returns by blast
  have "0 < n" using assms(1) by (simp add: word_less_nat_alt)
  with v have "v < n" using assms(1) below_loop_bound [of splitmix_next n "below_limit n" s "(v, s')"] by (auto simp: below_def split: if_splits)
  with v below_unbiased [OF assms] show ?thesis by blast
qed

theorem below_uniform_witness: "\<exists>v s'. below splitmix_next 6 0 = Some (v, s') \<and> v < 6"
  using below_uniform [of 6 3 0] by simp

end
