(* ===== verification/Inflight.thy ===== *)
theory Inflight
  imports Forward Ordered_Map
begin

text \<open>
  The in-flight table of \<^verbatim>\<open>src/src/resolver.rs\<close> (\<^verbatim>\<open>Slot\<close>, \<^verbatim>\<open>Owner\<close>, \<^verbatim>\<open>Inflight\<close>): callers of the same query
  share one slot.  Slots are shared references, so they live in a store of their own and the table holds
  their indices; an owner evicted from the table still publishes to its slot.  A lock is free whenever the
  code asks for it: the model is one thread.  The theory shows that the table is bounded, that the first
  published result is the one every reader sees, and what a second claim meets.
\<close>

section \<open>Definitions\<close>

record slot =
  slot_result :: "resolution result option"
  slot_done :: bool

definition slot_new :: slot where
  "slot_new = \<lparr>slot_result = None, slot_done = False\<rparr>"

definition slot_publish :: "resolution result \<Rightarrow> slot \<Rightarrow> slot" where
  "slot_publish r s = (if slot_result s = None then s\<lparr>slot_result := Some r, slot_done := True\<rparr> else s)"

text \<open>\<^verbatim>\<open>#[derive(Ord)]\<close> of \<^verbatim>\<open>QueryKey\<close> compares the fields in order.\<close>

type_synonym query_tuple = "name \<times> rr_type \<times> rr_class \<times> ecs_key option \<times> bool \<times> bool"

definition query_fields :: "query_key \<Rightarrow> query_tuple" where
  "query_fields k = (qk_name k, qk_type k, qk_class k, qk_ecs k, want_dnssec k, qk_cd k)"

record inflight =
  if_slots :: "(query_tuple, nat) btree"
  if_max :: usize
  if_store :: "slot list"

definition inflight_new :: "usize \<Rightarrow> inflight" where
  "inflight_new n = \<lparr>if_slots = [], if_max = max n 1, if_store = []\<rparr>"

definition inflight_len :: "inflight \<Rightarrow> usize" where
  "inflight_len t = length (if_slots t)"

datatype claim = Owner nat | Waiter nat

definition claim_fresh :: "query_key \<Rightarrow> inflight \<Rightarrow> claim \<times> inflight" where
  "claim_fresh key t =
    (let table = (if length (if_slots t) \<ge> if_max t then tl (if_slots t) else if_slots t);
         i = length (if_store t)
     in (Owner i, t\<lparr>if_slots := btree_insert (query_fields key) i table, if_store := if_store t @ [slot_new]\<rparr>))"

definition inflight_claim :: "query_key \<Rightarrow> inflight \<Rightarrow> claim \<times> inflight" where
  "inflight_claim key t = (case btree_get (if_slots t) (query_fields key) of
      None \<Rightarrow> claim_fresh key t
    | Some i \<Rightarrow>
        if \<not> slot_done (if_store t ! i) then (Waiter i, t)
        else claim_fresh key (t\<lparr>if_slots := btree_remove (query_fields key) (if_slots t)\<rparr>))"

definition owner_release :: "query_key \<Rightarrow> inflight \<Rightarrow> inflight" where
  "owner_release key t = t\<lparr>if_slots := btree_remove (query_fields key) (if_slots t)\<rparr>"

definition owner_publish :: "query_key \<Rightarrow> nat \<Rightarrow> resolution result \<Rightarrow> inflight \<Rightarrow> inflight" where
  "owner_publish key i r t = owner_release key (t\<lparr>if_store := (if_store t)[i := slot_publish r (if_store t ! i)]\<rparr>)"

text \<open>\<^verbatim>\<open>Slot::read\<close> waits until the owner publishes; \<open>None\<close> is a wait that nobody ends.\<close>

definition slot_read :: "nat \<Rightarrow> inflight \<Rightarrow> resolution result option" where
  "slot_read i t = slot_result (if_store t ! i)"

definition owner_drop :: "query_key \<Rightarrow> nat \<Rightarrow> inflight \<Rightarrow> inflight" where
  "owner_drop key i t = owner_publish key i (Err (error_internal ''resolution aborted before completion'')) t"

section \<open>The table\<close>

definition slot_ok :: "slot \<Rightarrow> bool" where
  "slot_ok s \<longleftrightarrow> (slot_done s \<longleftrightarrow> slot_result s \<noteq> None)"

definition inflight_inv :: "inflight \<Rightarrow> bool" where
  "inflight_inv t \<longleftrightarrow> btree_inv (if_slots t) \<and> 0 < if_max t \<and> length (if_slots t) \<le> if_max t
    \<and> (\<forall>i \<in> snd ` set (if_slots t). i < length (if_store t)) \<and> list_all slot_ok (if_store t)"

lemma inflight_new_inv: "inflight_inv (inflight_new n)"
  by (simp add: inflight_inv_def inflight_new_def)

lemma btree_inv_tl: "btree_inv m \<Longrightarrow> btree_inv (tl m)"
  by (cases m) auto

lemma claim_fresh_inv:
  assumes "inflight_inv t" and "claim_fresh key t = (c, t')"
  shows "inflight_inv t'"
proof -
  let ?m = "if length (if_slots t) \<ge> if_max t then tl (if_slots t) else if_slots t"
  have m: "btree_inv ?m" "length ?m < if_max t" "set ?m \<subseteq> set (if_slots t)"
    using assms(1) by (auto simp: inflight_inv_def btree_inv_tl dest: set_mono_suffix [OF suffix_tl, THEN subsetD])
  have t': "t' = t\<lparr>if_slots := btree_insert (query_fields key) (length (if_store t)) ?m, if_store := if_store t @ [slot_new]\<rparr>"
    using assms(2) by (auto simp: claim_fresh_def Let_def)
  have "length (btree_insert (query_fields key) (length (if_store t)) ?m) \<le> if_max t"
    using m by (simp add: length_insert)
  moreover have "\<forall>i \<in> snd ` set (btree_insert (query_fields key) (length (if_store t)) ?m). i < Suc (length (if_store t))"
    using set_btree_insert [of "query_fields key" "length (if_store t)" ?m] m(3) assms(1)
    by (fastforce simp: inflight_inv_def)
  ultimately show ?thesis using assms(1) m(1) by (auto simp: t' inflight_inv_def slot_ok_def slot_new_def)
qed

lemma inflight_claim_inv:
  assumes "inflight_inv t" and "inflight_claim key t = (c, t')"
  shows "inflight_inv t'"
proof -
  have "inflight_inv (t\<lparr>if_slots := btree_remove (query_fields key) (if_slots t)\<rparr>)"
    using assms(1) by (auto simp: inflight_inv_def btree_remove_def intro: inv_filter le_trans [OF length_filter_le])
  with assms show ?thesis by (auto simp: inflight_claim_def claim_fresh_inv split: option.splits if_splits)
qed

lemma owner_publish_inv: "inflight_inv t \<Longrightarrow> inflight_inv (owner_publish key i r t)"
  by (auto simp: inflight_inv_def owner_publish_def owner_release_def btree_remove_def slot_ok_def slot_publish_def list_all_iff
      intro: inv_filter le_trans [OF length_filter_le] dest!: set_update_subset_insert [THEN subsetD] split: if_splits)

text \<open>While the first owner has not published, every further claim of the key waits on its slot.\<close>

lemma second_claim_waits:
  assumes "inflight_claim key t = (Owner i, t')"
  shows "inflight_claim key t' = (Waiter i, t')" and "slot_read i t' = None"
proof -
  have "claim_fresh key u = (Owner i, t') \<Longrightarrow> if_slots t' = btree_insert (query_fields key) i (if length (if_slots u) \<ge> if_max u then tl (if_slots u) else if_slots u)
      \<and> if_store t' ! i = slot_new" for u
    by (auto simp: claim_fresh_def Let_def)
  with assms have "btree_get (if_slots t') (query_fields key) = Some i" "if_store t' ! i = slot_new"
    by (auto simp: inflight_claim_def split: option.splits if_splits)
  then show "inflight_claim key t' = (Waiter i, t')" "slot_read i t' = None"
    by (simp_all add: inflight_claim_def slot_read_def slot_new_def)
qed

lemma publish_read:
  assumes "i < length (if_store t)"
  shows "slot_read i (owner_publish key i r t) = Some (case slot_read i t of None \<Rightarrow> r | Some r' \<Rightarrow> r')"
  using assms by (auto simp: slot_read_def owner_publish_def owner_release_def slot_publish_def split: option.splits)

lemma claim_Owner_fresh: "inflight_claim key t = (Owner i, t') \<Longrightarrow> i = length (if_store t) \<and> i < length (if_store t')"
  by (auto simp: inflight_claim_def claim_fresh_def Let_def split: option.splits if_splits)

end
