(* ===== verification/Budget.thy ===== *)
theory Budget
  imports Errors
begin

text \<open>
  \<^verbatim>\<open>src/src/budget.rs\<close>: the work one client query may cause.  Counters are machine words, as in the source.
  The one floating-point test, whether the glued share of a referral is below the configured fraction, is
  the parameter \<open>too_thin\<close> of \<open>admit_referral\<close>.  The theory shows that no counter passes its limit,
  whatever the order of charges.
\<close>

section \<open>Definitions\<close>

record 'f fetch_limits =
  max_delegation_depth :: u32
  max_ns_names :: u32
  max_glue_addresses :: u32
  max_ns_address_lookups :: u32
  max_subqueries :: u32
  max_bytes :: u64
  min_glue_fraction :: 'f
  small_referral_ns :: u32

definition fetch_limits_default :: "'f \<Rightarrow> 'f fetch_limits" where
  "fetch_limits_default half =
    \<lparr>max_delegation_depth = 32, max_ns_names = 13, max_glue_addresses = 64, max_ns_address_lookups = 32,
     max_subqueries = 96, max_bytes = 0x100000, min_glue_fraction = half, small_referral_ns = 2\<rparr>"

definition fetch_limits_none :: "'f \<Rightarrow> 'f fetch_limits" where
  "fetch_limits_none one =
    \<lparr>max_delegation_depth = 0, max_ns_names = 0, max_glue_addresses = 0, max_ns_address_lookups = 0,
     max_subqueries = 0, max_bytes = 0, min_glue_fraction = one, small_referral_ns = 0\<rparr>"

datatype exhausted = Depth | NsNames | GlueAddresses | NsAddressLookups | Subqueries | BytesSpent

fun exhausted_as_str :: "exhausted \<Rightarrow> string" where
  "exhausted_as_str Depth = ''depth''"
| "exhausted_as_str NsNames = ''ns-names''"
| "exhausted_as_str GlueAddresses = ''glue-addresses''"
| "exhausted_as_str NsAddressLookups = ''ns-address-lookups''"
| "exhausted_as_str Subqueries = ''subqueries''"
| "exhausted_as_str BytesSpent = ''bytes''"

datatype referral_rejected = TooManyNs | InsufficientGlue

fun referral_rejected_as_str :: "referral_rejected \<Rightarrow> string" where
  "referral_rejected_as_str TooManyNs = ''too-many-ns''"
| "referral_rejected_as_str InsufficientGlue = ''insufficient-glue''"

datatype referral_admission = AcceptReferral (adm_ns_names: u32) (adm_glue: u32) (adm_lookups: u32) | RejectReferral referral_rejected

record work =
  delegations :: u32
  wk_referrals :: u32
  referrals_refused :: u32
  wk_ns_names :: u32
  glue_addresses :: u32
  ns_address_lookups :: u32
  subqueries :: u32
  wk_bytes :: u64

definition work_default :: work where
  "work_default = \<lparr>delegations = 0, wk_referrals = 0, referrals_refused = 0, wk_ns_names = 0, glue_addresses = 0,
    ns_address_lookups = 0, subqueries = 0, wk_bytes = 0\<rparr>"

record 'f fetch_budget =
  limits :: "'f fetch_limits"
  wk :: work

definition budget_new :: "'f fetch_limits \<Rightarrow> 'f fetch_budget" where
  "budget_new l = \<lparr>limits = l, wk = work_default\<rparr>"

definition budget_is_enabled :: "'f fetch_budget \<Rightarrow> bool" where
  "budget_is_enabled b \<longleftrightarrow> max_subqueries (limits b) > 0"

definition spend_delegation :: "'f fetch_budget \<Rightarrow> (exhausted + u32) \<times> 'f fetch_budget" where
  "spend_delegation b =
    (if delegations (wk b) \<ge> max_delegation_depth (limits b) then (Err Depth, b)
     else let b = b\<lparr>wk := (wk b)\<lparr>delegations := delegations (wk b) + 1\<rparr>\<rparr> in (Ok (delegations (wk b)), b))"

definition spend_subquery :: "'f fetch_budget \<Rightarrow> (exhausted + unit) \<times> 'f fetch_budget" where
  "spend_subquery b =
    (if subqueries (wk b) \<ge> max_subqueries (limits b) then (Err Subqueries, b)
     else (Ok (), b\<lparr>wk := (wk b)\<lparr>subqueries := subqueries (wk b) + 1\<rparr>\<rparr>))"

definition word_saturating_add :: "'a :: len word \<Rightarrow> 'a word \<Rightarrow> 'a word" where
  "word_saturating_add a b = (if unat a + unat b < 2 ^ LENGTH('a) then a + b else - 1)"

definition spend_ns_address_lookup :: "u32 \<Rightarrow> 'f fetch_budget \<Rightarrow> (exhausted + unit) \<times> 'f fetch_budget" where
  "spend_ns_address_lookup n b =
    (if word_saturating_add (ns_address_lookups (wk b)) n > max_ns_address_lookups (limits b) then (Err NsAddressLookups, b)
     else (Ok (), b\<lparr>wk := (wk b)\<lparr>ns_address_lookups := ns_address_lookups (wk b) + n\<rparr>\<rparr>))"

definition spend_bytes :: "u64 \<Rightarrow> 'f fetch_budget \<Rightarrow> (exhausted + unit) \<times> 'f fetch_budget" where
  "spend_bytes n b =
    (if word_saturating_add (wk_bytes (wk b)) n > max_bytes (limits b) then (Err BytesSpent, b)
     else (Ok (), b\<lparr>wk := (wk b)\<lparr>wk_bytes := wk_bytes (wk b) + n\<rparr>\<rparr>))"

text \<open>
  \<open>too_thin covered ns_count fraction\<close> stands for
  \<^verbatim>\<open>min_glue_fraction > 0.0 && covered as f64 / ns_count as f64 + 1e-9 < min_glue_fraction\<close>.
\<close>

definition admit_referral ::
  "(u32 \<Rightarrow> u32 \<Rightarrow> 'f \<Rightarrow> bool) \<Rightarrow> u32 \<Rightarrow> u32 \<Rightarrow> u32 \<Rightarrow> 'f fetch_budget \<Rightarrow> referral_admission \<times> 'f fetch_budget" where
  "admit_referral too_thin ns_count glue_count ns_with_glue b =
    (let b = b\<lparr>wk := (wk b)\<lparr>wk_referrals := wk_referrals (wk b) + 1\<rparr>\<rparr>;
         lim = limits b;
         refuse = (\<lambda>why. (RejectReferral why, b\<lparr>wk := (wk b)\<lparr>referrals_refused := referrals_refused (wk b) + 1\<rparr>\<rparr>))
     in if ns_count > max_ns_names lim then refuse TooManyNs
        else
          (let unresolved = ns_count - min ns_with_glue ns_count in
           if ns_count > small_referral_ns lim \<and> too_thin (ns_count - unresolved) ns_count (min_glue_fraction lim)
           then refuse InsufficientGlue
           else
             (let glue = min glue_count (max_glue_addresses lim);
                  address_lookups = min unresolved (max_ns_address_lookups lim)
              in (AcceptReferral ns_count glue address_lookups,
                  b\<lparr>wk := (wk b)\<lparr>wk_ns_names := wk_ns_names (wk b) + ns_count,
                                 glue_addresses := glue_addresses (wk b) + glue\<rparr>\<rparr>))))"

section \<open>Metered resources\<close>

text \<open>
  What the four charging operations promise: a granted charge is counted exactly, a refused one changes
  nothing and would have passed the limit.
\<close>

fun spend_each :: "('n \<Rightarrow> 'b \<Rightarrow> ('e + 'r) \<times> 'b) \<Rightarrow> 'n list \<Rightarrow> 'b \<Rightarrow> 'n list \<times> 'b" where
  "spend_each spend [] b = ([], b)"
| "spend_each spend (n # ns) b = (case spend n b of
      (Inr _, b) \<Rightarrow> (case spend_each spend ns b of (granted, b) \<Rightarrow> (n # granted, b))
    | (Inl _, b) \<Rightarrow> spend_each spend ns b)"

locale metered =
  fixes spend :: "'n \<Rightarrow> 'b \<Rightarrow> ('e + 'r) \<times> 'b" and cost :: "'n \<Rightarrow> nat" and used :: "'b \<Rightarrow> nat" and limit :: "'b \<Rightarrow> nat"
    and sane :: "'b \<Rightarrow> bool"
  assumes granted: "sane b \<Longrightarrow> spend n b = (Inr r, b') \<Longrightarrow>
      used b' = used b + cost n \<and> limit b' = limit b \<and> used b' \<le> limit b \<and> sane b'"
    and refused: "sane b \<Longrightarrow> spend n b = (Inl e, b') \<Longrightarrow> b' = b \<and> limit b < used b + cost n"
begin

lemma spend_each_total:
  assumes "sane b" and "used b \<le> limit b" and "spend_each spend ns b = (gs, b')"
  shows "used b' = used b + sum_list (map cost gs) \<and> limit b' = limit b \<and> used b' \<le> limit b'"
  using assms
proof (induction ns arbitrary: b gs)
  case (Cons n ns)
  obtain r b1 where s: "spend n b = (r, b1)" by fastforce
  show ?case
  proof (cases r)
    case (Inl e)
    with s refused Cons.prems(1) have "b1 = b" by blast
    with Inl s Cons.prems Cons.IH [of b gs] show ?thesis by simp
  next
    case (Inr v)
    with s granted Cons.prems(1) have g: "used b1 = used b + cost n" "limit b1 = limit b" "used b1 \<le> limit b1" "sane b1"
      by fastforce+
    with Inr s Cons.prems(3) obtain gs' where gs: "spend_each spend ns b1 = (gs', b')" "gs = n # gs'"
      by (auto split: prod.splits)
    with Cons.IH [OF g(4,3) gs(1)] g show ?thesis by simp
  qed
qed simp

end

lemma unat_bound: "unat (w :: 'a :: len word) < 2 ^ LENGTH('a)"
  by (rule unsigned_less)

lemma unat_all_ones: "unat (- 1 :: 'a :: len word) = 2 ^ LENGTH('a) - 1"
  by (simp add: unsigned_minus_1_eq_mask mask_eq_exp_minus_1)

lemma saturating_check:
  fixes a n m :: "'a :: len word"
  assumes "m \<noteq> - 1"
  shows "m < word_saturating_add a n \<longleftrightarrow> unat m < unat a + unat n"
    and "\<not> m < word_saturating_add a n \<Longrightarrow> unat (a + n) = unat a + unat n"
proof -
  have "unat m \<noteq> 2 ^ LENGTH('a) - 1" using assms by (metis unat_all_ones word_unat_eq_iff)
  with unat_bound [of m] have top: "unat m < 2 ^ LENGTH('a) - 1" by linarith
  have sum: "unat (a + n) = unat a + unat n" if "unat a + unat n < 2 ^ LENGTH('a)"
    using that by (simp add: unat_word_ariths)
  show "m < word_saturating_add a n \<longleftrightarrow> unat m < unat a + unat n"
    using top sum by (auto simp: word_saturating_add_def word_less_nat_alt unat_all_ones)
  then show "unat (a + n) = unat a + unat n" if "\<not> m < word_saturating_add a n"
    using that sum unat_bound [of m] by linarith
qed

lemma unat_word_inc:
  fixes a m :: "'a :: len word"
  assumes "unat a < unat m"
  shows "unat (a + 1) = Suc (unat a)"
proof -
  have "Suc (unat a) < 2 ^ LENGTH('a)" using assms unat_bound [of m] by linarith
  then show ?thesis by (simp add: unat_word_ariths)
qed

interpretation subquery_meter: metered "\<lambda>_ :: unit. spend_subquery" "\<lambda>_. 1"
  "\<lambda>b. unat (subqueries (wk b))" "\<lambda>b. unat (max_subqueries (limits b))" "\<lambda>_. True"
  by unfold_locales (auto simp: spend_subquery_def not_le unat_word_inc word_le_nat_alt split: if_splits)

interpretation delegation_meter: metered "\<lambda>_ :: unit. spend_delegation" "\<lambda>_. 1"
  "\<lambda>b. unat (delegations (wk b))" "\<lambda>b. unat (max_delegation_depth (limits b))" "\<lambda>_. True"
  by unfold_locales (auto simp: spend_delegation_def Let_def not_le unat_word_inc word_le_nat_alt split: if_splits)

interpretation lookup_meter: metered spend_ns_address_lookup unat
  "\<lambda>b. unat (ns_address_lookups (wk b))" "\<lambda>b. unat (max_ns_address_lookups (limits b))"
  "\<lambda>b. max_ns_address_lookups (limits b) \<noteq> - 1"
  by unfold_locales (auto simp: spend_ns_address_lookup_def saturating_check not_less split: if_splits)

interpretation byte_meter: metered spend_bytes unat
  "\<lambda>b. unat (wk_bytes (wk b))" "\<lambda>b. unat (max_bytes (limits b))" "\<lambda>b. max_bytes (limits b) \<noteq> - 1"
  by unfold_locales (auto simp: spend_bytes_def saturating_check not_less split: if_splits)

text \<open>With the largest limit the saturated sum never exceeds it, so the counter wraps around to below.\<close>

lemma spend_bytes_wraps:
  "max_bytes (limits b) = - 1 \<Longrightarrow> wk_bytes (wk b) = - 1 \<Longrightarrow> \<exists>b'. spend_bytes 1 b = (Ok (), b') \<and> wk_bytes (wk b') = 0"
  by (simp add: spend_bytes_def word_saturating_add_def)

section \<open>Referrals\<close>

text \<open>What an admitted referral may cost, and when one is refused.\<close>

lemma admit_referral_Accept:
  assumes "admit_referral too_thin ns glue covered b = (AcceptReferral n g l, b')"
  shows "n = ns" and "ns \<le> max_ns_names (limits b)" and "g \<le> max_glue_addresses (limits b)"
    and "l \<le> max_ns_address_lookups (limits b)" and "unat l + unat (min covered ns) \<le> unat ns \<or> l = max_ns_address_lookups (limits b)"
    and "ns > small_referral_ns (limits b) \<Longrightarrow> \<not> too_thin (min covered ns) ns (min_glue_fraction (limits b))"
  using assms by (auto simp: admit_referral_def Let_def not_less unat_sub min_def word_le_nat_alt split: if_splits)

lemma admit_referral_keeps:
  assumes "admit_referral too_thin ns glue covered b = (r, b')"
  shows "limits b' = limits b" and "subqueries (wk b') = subqueries (wk b)" and "delegations (wk b') = delegations (wk b)"
    and "ns_address_lookups (wk b') = ns_address_lookups (wk b)" and "wk_bytes (wk b') = wk_bytes (wk b)"
  using assms by (auto simp: admit_referral_def Let_def split: if_splits)

end
