(* ===== verification/Access_Policy.thy ===== *)
theory Access_Policy
  imports Message Bounded Prng Cidr Name_Labels
begin

text \<open>
  \<^verbatim>\<open>src/src/policy.rs\<close>: token buckets in a bounded table, block rules and the validation of client queries.
  Token levels are \<^verbatim>\<open>f64\<close>: the operations the source uses on them are the parameter \<open>level_ops\<close>.  The
  theory shows that the table stays within its bound whoever asks, that a caller without a bucket is
  admitted, and which queries pass validation.
\<close>

section \<open>Token buckets\<close>

definition BUCKET_RETENTION_SECS :: ts where "BUCKET_RETENTION_SECS = 60"
definition POLICY_EVICT_STRIDE :: usize where "POLICY_EVICT_STRIDE = 8"

record 'f level_ops =
  lv_zero :: 'f
  lv_one :: 'f
  lv_max :: "'f \<Rightarrow> 'f \<Rightarrow> 'f"
  lv_ge :: "'f \<Rightarrow> 'f \<Rightarrow> bool"
  lv_sub :: "'f \<Rightarrow> 'f \<Rightarrow> 'f"
  lv_refill :: "'f \<Rightarrow> ts \<Rightarrow> 'f \<Rightarrow> 'f \<Rightarrow> 'f"

record 'f token_bucket =
  tb_capacity :: 'f
  tb_tokens :: 'f
  tb_refill_per_sec :: 'f
  last_refill :: ts

definition bucket_new :: "'f level_ops \<Rightarrow> 'f \<Rightarrow> 'f \<Rightarrow> ts \<Rightarrow> 'f token_bucket" where
  "bucket_new lv cap rate now =
    \<lparr>tb_capacity = lv_max lv cap (lv_one lv), tb_tokens = lv_max lv cap (lv_one lv),
     tb_refill_per_sec = lv_max lv rate (lv_zero lv), last_refill = now\<rparr>"

text \<open>\<open>lv_refill lv tokens dt rate capacity\<close> is \<^verbatim>\<open>(tokens + dt as f64 / 1e9 * rate).min(capacity)\<close>.\<close>

definition bucket_refill :: "'f level_ops \<Rightarrow> ts \<Rightarrow> 'f token_bucket \<Rightarrow> 'f token_bucket" where
  "bucket_refill lv now b =
    (if now > last_refill b then
       b\<lparr>tb_tokens := lv_refill lv (tb_tokens b) (now - last_refill b) (tb_refill_per_sec b) (tb_capacity b), last_refill := now\<rparr>
     else b)"

definition bucket_take :: "'f level_ops \<Rightarrow> 'f \<Rightarrow> ts \<Rightarrow> 'f token_bucket \<Rightarrow> bool \<times> 'f token_bucket" where
  "bucket_take lv n now b =
    (let b = bucket_refill lv now b in
     if lv_ge lv (tb_tokens b) n then (True, b\<lparr>tb_tokens := lv_sub lv (tb_tokens b) n\<rparr>) else (False, b))"

definition bucket_level :: "'f level_ops \<Rightarrow> 'f token_bucket \<Rightarrow> ts \<Rightarrow> 'f" where
  "bucket_level lv b now = tb_tokens (bucket_refill lv now b)"

section \<open>The rate limiter\<close>

record 'f rate_limiter =
  rl_buckets :: "(u64, 'f token_bucket) btree"
  rl_capacity :: 'f
  rl_refill_per_sec :: 'f
  max_buckets :: usize

definition limiter_new :: "'f level_ops \<Rightarrow> 'f \<Rightarrow> 'f \<Rightarrow> usize \<Rightarrow> 'f rate_limiter" where
  "limiter_new lv cap rate n =
    \<lparr>rl_buckets = [], rl_capacity = lv_max lv cap (lv_one lv), rl_refill_per_sec = lv_max lv rate (lv_zero lv), max_buckets = max n 1\<rparr>"

definition limiter_admit :: "'f level_ops \<Rightarrow> u64 \<Rightarrow> ts \<Rightarrow> 'f rate_limiter \<Rightarrow> 'f rate_limiter" where
  "limiter_admit lv key now l =
    (if btree_get (rl_buckets l) key \<noteq> None then l
     else
       (let bs = (if length (rl_buckets l) \<ge> max_buckets l then
                    fst (evict_for_capacity (rl_buckets l) (saturating_sub now (BUCKET_RETENTION_SECS * 1000000000))
                           POLICY_EVICT_STRIDE last_refill)
                  else rl_buckets l)
        in l\<lparr>rl_buckets := btree_insert key (bucket_new lv (rl_capacity l) (rl_refill_per_sec l) now) bs\<rparr>))"

definition limiter_allow :: "'f level_ops \<Rightarrow> u64 \<Rightarrow> ts \<Rightarrow> 'f rate_limiter \<Rightarrow> bool \<times> 'f rate_limiter" where
  "limiter_allow lv key now l =
    (let l = limiter_admit lv key now l in
     case btree_get (rl_buckets l) key of
       None \<Rightarrow> (False, l)
     | Some b \<Rightarrow> (case bucket_take lv (lv_one lv) now b of
         (ok, b) \<Rightarrow> (ok, l\<lparr>rl_buckets := btree_alter key (\<lambda>_. b) (rl_buckets l)\<rparr>)))"

definition limiter_len :: "'f rate_limiter \<Rightarrow> usize" where
  "limiter_len l = length (rl_buckets l)"

definition limiter_is_empty :: "'f rate_limiter \<Rightarrow> bool" where
  "limiter_is_empty l \<longleftrightarrow> rl_buckets l = []"

fun hash_ip :: "ip_addr \<Rightarrow> u64" where
  "hash_ip (IpV4 v) = fnv1a64 (to_be_bytes 4 v)"
| "hash_ip (IpV6 v) = fnv1a64 (to_be_bytes 16 v)"

section \<open>The policy engine\<close>

definition RrType_IXFR :: rr_type where "RrType_IXFR = RrType 251"
definition RrType_AXFR :: rr_type where "RrType_AXFR = RrType 252"

record block_rule =
  br_suffix :: name
  br_exact :: bool

definition rule_subtree :: "name \<Rightarrow> block_rule" where
  "rule_subtree n = \<lparr>br_suffix = n, br_exact = False\<rparr>"

definition rule_exact :: "name \<Rightarrow> block_rule" where
  "rule_exact n = \<lparr>br_suffix = n, br_exact = True\<rparr>"

record policy_config =
  pc_block :: "block_rule list"
  max_qname_labels :: usize
  enforce_single_question :: bool
  enforce_query_opcode :: bool

definition policy_config_default :: policy_config where
  "policy_config_default = \<lparr>pc_block = [], max_qname_labels = 127, enforce_single_question = True, enforce_query_opcode = True\<rparr>"

definition is_blocked :: "policy_config \<Rightarrow> name \<Rightarrow> bool" where
  "is_blocked p n \<longleftrightarrow> list_ex (\<lambda>r. if br_exact r then br_suffix r = n else is_subdomain_of n (br_suffix r)) (pc_block p)"

definition client_allowed :: "'f level_ops \<Rightarrow> ip_addr \<Rightarrow> ts \<Rightarrow> 'f rate_limiter \<Rightarrow> bool \<times> 'f rate_limiter" where
  "client_allowed lv ip now l = limiter_allow lv (hash_ip ip) now l"

definition validate_query :: "policy_config \<Rightarrow> message \<Rightarrow> unit result" where
  "validate_query p m =
    (if enforce_query_opcode p \<and> hf_opcode (msg_flags m) \<noteq> Opcode_QUERY then Err (error_new Policy ''only QUERY opcode is supported'')
     else if enforce_single_question p \<and> length (questions m) \<noteq> 1 then Err (error_new Policy ''exactly one question required'')
     else case message_question m of
       None \<Rightarrow> Ok ()
     | Some q \<Rightarrow>
         if name_label_count (qname q) > max_qname_labels p then Err (error_new Policy ''query name has too many labels'')
         else if qtype q = RrType_AXFR \<or> qtype q = RrType_IXFR then Err (error_new Policy ''zone transfers are not served'')
         else Ok ())"


section \<open>The bound on the bucket table\<close>

definition limiter_inv :: "'f rate_limiter \<Rightarrow> bool" where
  "limiter_inv l \<longleftrightarrow> btree_inv (rl_buckets l) \<and> 0 < max_buckets l \<and> length (rl_buckets l) \<le> max_buckets l"

lemma limiter_new_inv: "limiter_inv (limiter_new lv cap rate n)"
  by (simp add: limiter_inv_def limiter_new_def)

lemma limiter_admit_inv:
  assumes "limiter_inv l"
  shows "limiter_inv (limiter_admit lv key now l)" and "max_buckets (limiter_admit lv key now l) = max_buckets l"
    and "\<exists>b. btree_get (rl_buckets (limiter_admit lv key now l)) key = Some b
      \<and> (btree_get (rl_buckets l) key = None \<longrightarrow> b = bucket_new lv (rl_capacity l) (rl_refill_per_sec l) now)
      \<and> (btree_get (rl_buckets l) key \<noteq> None \<longrightarrow> btree_get (rl_buckets l) key = Some b)"
proof -
  let ?cut = "saturating_sub now (BUCKET_RETENTION_SECS * 1000000000)"
  define bs where "bs = (if length (rl_buckets l) \<ge> max_buckets l then
      fst (evict_for_capacity (rl_buckets l) ?cut POLICY_EVICT_STRIDE last_refill) else rl_buckets l)"
  have bs: "btree_inv bs \<and> length bs < max_buckets l"
  proof (cases "length (rl_buckets l) \<ge> max_buckets l")
    case True
    obtain m' n where e: "evict_for_capacity (rl_buckets l) ?cut POLICY_EVICT_STRIDE last_refill = (m', n)" by fastforce
    from True assms have "btree_inv (rl_buckets l)" "rl_buckets l \<noteq> []" "length (rl_buckets l) = max_buckets l"
      by (auto simp: limiter_inv_def)
    with evict_for_capacity_ok [OF this(1,2) e] True e show ?thesis by (auto simp: bs_def)
  qed (use assms in \<open>auto simp: bs_def limiter_inv_def\<close>)
  have admit: "limiter_admit lv key now l = (if btree_get (rl_buckets l) key \<noteq> None then l
      else l\<lparr>rl_buckets := btree_insert key (bucket_new lv (rl_capacity l) (rl_refill_per_sec l) now) bs\<rparr>)"
    by (simp add: limiter_admit_def bs_def Let_def)
  have "length (btree_insert key b bs) \<le> max_buckets l" for b
    using bs by (simp add: length_insert)
  with bs assms show "limiter_inv (limiter_admit lv key now l)" by (auto simp: admit limiter_inv_def)
  show "max_buckets (limiter_admit lv key now l) = max_buckets l" by (simp add: admit)
  show "\<exists>b. btree_get (rl_buckets (limiter_admit lv key now l)) key = Some b
      \<and> (btree_get (rl_buckets l) key = None \<longrightarrow> b = bucket_new lv (rl_capacity l) (rl_refill_per_sec l) now)
      \<and> (btree_get (rl_buckets l) key \<noteq> None \<longrightarrow> btree_get (rl_buckets l) key = Some b)"
    by (auto simp: admit)
qed

lemma limiter_allow_inv:
  assumes "limiter_inv l"
  shows "limiter_inv (snd (limiter_allow lv key now l)) \<and> max_buckets (snd (limiter_allow lv key now l)) = max_buckets l"
proof -
  obtain b where "btree_get (rl_buckets (limiter_admit lv key now l)) key = Some b" using limiter_admit_inv(3) [OF assms] by blast
  moreover obtain ok b' where "bucket_take lv (lv_one lv) now b = (ok, b')" by fastforce
  ultimately have "snd (limiter_allow lv key now l)
      = (limiter_admit lv key now l)\<lparr>rl_buckets := btree_alter key (\<lambda>_. b') (rl_buckets (limiter_admit lv key now l))\<rparr>"
    by (simp add: limiter_allow_def Let_def)
  with limiter_admit_inv [OF assms] show ?thesis by (auto simp: limiter_inv_def)
qed

text \<open>A caller without a bucket starts with a full one, so the request is allowed.\<close>

lemma limiter_allow_new:
  assumes "limiter_inv l" and "btree_get (rl_buckets l) key = None"
    and "lv_ge lv (lv_max lv (rl_capacity l) (lv_one lv)) (lv_one lv)"
  shows "fst (limiter_allow lv key now l)"
proof -
  obtain b where "btree_get (rl_buckets (limiter_admit lv key now l)) key = Some b"
    and "b = bucket_new lv (rl_capacity l) (rl_refill_per_sec l) now" using limiter_admit_inv(3) [OF assms(1)] assms(2) by blast
  with assms(3) show ?thesis by (simp add: limiter_allow_def bucket_take_def bucket_refill_def bucket_new_def Let_def)
qed

section \<open>Queries that pass\<close>

lemma validate_query_Ok:
  "validate_query p m = Ok u \<longleftrightarrow>
    (enforce_query_opcode p \<longrightarrow> hf_opcode (msg_flags m) = Opcode_QUERY) \<and>
    (enforce_single_question p \<longrightarrow> length (questions m) = 1) \<and>
    (\<forall>q. message_question m = Some q \<longrightarrow>
      name_label_count (qname q) \<le> max_qname_labels p \<and> qtype q \<noteq> RrType_AXFR \<and> qtype q \<noteq> RrType_IXFR)"
  by (auto simp: validate_query_def not_less split: option.splits if_splits)

lemma validate_query_Err: "validate_query p m = Err e \<Longrightarrow> kind e = Policy"
  by (auto simp: validate_query_def error_new_def split: option.splits if_splits)

end
