(* ===== verification/Resolver_State.thy ===== *)
theory Resolver_State
  imports Inflight Cache_Machine Alias Budget Access_Policy
begin

text \<open>
  The state of \<^verbatim>\<open>src/src/resolver.rs\<close>: configuration, shared tables, counters, deadlines.  What the resolver
  asks of the world outside (\<open>resolver_env\<close>) is a record of functions on a state of their own type: clocks,
  the random source, sockets, and the floating-point models (upstream ranking, popularity estimates, the
  stale planner, the refresh budget).  The features \<^verbatim>\<open>dnssec\<close> and the encrypted transports are taken as on,
  \<^verbatim>\<open>persist\<close> as off.
\<close>

section \<open>Configuration\<close>

record 'f engine_config =
  root_servers :: "(ip_addr \<times> u16) list"
  timeout_ms :: u64
  query_budget_ms :: u64
  auth_port :: u16
  max_attempts_per_server :: u32
  qname_minimization :: bool
  use_0x20 :: bool
  max_cname_depth :: usize
  max_referrals :: usize
  edns_udp_size :: u16
  ec_dnssec :: bool
  dnssec_anchored :: bool
  ec_fetch_limits :: "'f fetch_limits"
  tcp_fallback :: bool
  max_ns_depth :: usize
  max_servers_tried :: usize
  max_total_attempts :: u32
  decorrelate_refresh :: bool

definition engine_config_default :: "'f \<Rightarrow> 'f engine_config" where
  "engine_config_default half =
    \<lparr>root_servers = [], timeout_ms = 1500, query_budget_ms = 20000, auth_port = 53, max_attempts_per_server = 2,
     qname_minimization = True, use_0x20 = True, max_cname_depth = 8, max_referrals = 32, edns_udp_size = 1232,
     ec_dnssec = False, dnssec_anchored = False, ec_fetch_limits = fetch_limits_default half, tcp_fallback = True,
     max_ns_depth = 6, max_servers_tried = 6, max_total_attempts = 10, decorrelate_refresh = True\<rparr>"

record 'f rate_limit_config =
  client_capacity :: 'f
  client_refill_per_sec :: 'f
  max_client_buckets :: usize

record 'f resolver_config =
  rc_cache :: "'f cache_config"
  rc_policy :: policy_config
  rc_dns :: dns_policy
  rc_engine :: "'f engine_config"
  rc_rate_limit :: "'f rate_limit_config"
  max_inflight :: usize
  max_concurrent_refreshes :: usize
  max_chain_refresh :: usize
  stale_serve_ttl :: u32

section \<open>Counters\<close>

text \<open>The counters of \<^verbatim>\<open>Stats\<close> that the modelled code changes.\<close>

datatype stat =
    St_queries | St_cache_hits | St_cache_misses | St_prefetches | St_stale_risk_refused
  | St_stale_refused_after_failure | St_refresh_budget_denied | St_fetch_budget_exhausted | St_referrals_refused
  | St_affinity_lotteries | St_propagated | St_alias_edges | St_upstream_queries | St_upstream_timeouts | St_servfails
  | St_rate_limited | St_policy_blocked | St_coalesced | St_errors | St_hosts_answered | St_fake_ip_filtered
  | St_fake_ip_answered | St_fake_ip_ptr | St_fake_ip_entries | St_fake_ip_evicted | St_policy_routed
  | St_fallback_triggered | St_resolve_time_us_sum | St_resolve_count
  | St_refresh_undecorrelated | St_refresh_scheduled

type_synonym stats = "stat \<Rightarrow> u64"

section \<open>The world outside\<close>

datatype observation =
    RecordTimeout endpoint ts
  | RecordSuccess endpoint u64 ts
  | RecordServfail endpoint ts
  | ObserveFailure name
  | ObserveUpstream name u64
  | ObserveQuery name ts

text \<open>
  The entries an answer from the cache depends on, with their hop and whether they are fresh: what
  \<^verbatim>\<open>push_answer_dependency\<close> and the stale planner read.
\<close>

type_synonym ('f, 'm) dependency = "('f, 'm) cache_entry \<times> nat \<times> bool"

record ('f, 'm, 'i, 'n) resolver_env =
  en_signals :: "('f, 'm, 'i) signals"
  en_levels :: "'f level_ops"
  en_too_thin :: "u32 \<Rightarrow> u32 \<Rightarrow> 'f \<Rightarrow> bool"
  en_sha256 :: "bytes \<Rightarrow> bytes"
  en_now :: "'n \<Rightarrow> ts \<times> 'n"
  en_instant :: "'n \<Rightarrow> nat \<times> 'n"
  en_instant_max :: nat
  en_draw :: "'n \<Rightarrow> u64 \<times> 'n"
  en_exchange :: "endpoint \<Rightarrow> bytes \<Rightarrow> u64 \<Rightarrow> 'n \<Rightarrow> bytes result \<times> 'n"
  en_forward :: "forwarder \<Rightarrow> bytes \<Rightarrow> u64 \<Rightarrow> 'n \<Rightarrow> bytes result \<times> 'n"
  en_rank :: "endpoint list \<Rightarrow> bytes \<Rightarrow> ts \<Rightarrow> 'n \<Rightarrow> bool \<times> endpoint list"
  en_root_endpoints :: "endpoint list"
  en_score_inputs :: "name \<Rightarrow> ts \<Rightarrow> 'n \<Rightarrow> 'i"
  en_observe :: "observation \<Rightarrow> 'n \<Rightarrow> 'n"
  en_serve_stale :: "query_key \<Rightarrow> ('f, 'm) dependency list \<Rightarrow> bool \<Rightarrow> ts \<Rightarrow> 'n \<Rightarrow> bool \<times> 'n"
  en_failures :: "'m \<Rightarrow> nat"
  en_refresh_token :: "ts \<Rightarrow> 'n \<Rightarrow> bool \<times> 'n"

section \<open>The resolver's state\<close>

record ('f, 'm, 'n) world =
  w_cache :: "('f, 'm) semantic_cache"
  w_aliases :: alias_graph
  w_limiter :: "'f rate_limiter"
  w_fake_ip :: "fake_ip_pool option"
  w_inflight :: inflight
  w_validating :: bool
  w_refreshing :: u64
  w_spawned :: "cache_key list"
  w_stats :: stats
  w_net :: 'n

definition world_new :: "('f, 'm, 'i, 'n) resolver_env \<Rightarrow> 'f resolver_config \<Rightarrow> 'n \<Rightarrow> ('f, 'm, 'n) world" where
  "world_new env cfg net =
    \<lparr>w_cache = cache_new (rc_cache cfg), w_aliases = alias_new alias_config_default,
     w_limiter = limiter_new (en_levels env) (client_capacity (rc_rate_limit cfg)) (client_refill_per_sec (rc_rate_limit cfg))
       (max_client_buckets (rc_rate_limit cfg)),
     w_fake_ip = map_option settings_build (dp_fake_ip (rc_dns cfg)), w_inflight = inflight_new (max_inflight cfg),
     w_validating = False, w_refreshing = 0, w_spawned = [], w_stats = (\<lambda>_. 0), w_net = net\<rparr>"

definition count_stat :: "stat \<Rightarrow> u64 \<Rightarrow> ('f, 'm, 'n) world \<Rightarrow> ('f, 'm, 'n) world" where
  "count_stat st n w = w\<lparr>w_stats := (w_stats w)(st := w_stats w st + n)\<rparr>"

abbreviation bump :: "stat \<Rightarrow> ('f, 'm, 'n) world \<Rightarrow> ('f, 'm, 'n) world" where
  "bump st \<equiv> count_stat st 1"

definition gauge_stat :: "stat \<Rightarrow> u64 \<Rightarrow> ('f, 'm, 'n) world \<Rightarrow> ('f, 'm, 'n) world" where
  "gauge_stat st n w = w\<lparr>w_stats := (w_stats w)(st := n)\<rparr>"

definition on_net :: "('n \<Rightarrow> 'a \<times> 'n) \<Rightarrow> ('f, 'm, 'n) world \<Rightarrow> 'a \<times> ('f, 'm, 'n) world" where
  "on_net f w = (case f (w_net w) of (a, n) \<Rightarrow> (a, w\<lparr>w_net := n\<rparr>))"

definition observe :: "('f, 'm, 'i, 'n) resolver_env \<Rightarrow> observation \<Rightarrow> ('f, 'm, 'n) world \<Rightarrow> ('f, 'm, 'n) world" where
  "observe env x w = w\<lparr>w_net := en_observe env x (w_net w)\<rparr>"

definition on_cache :: "('f, 'm, 'i, 'n) resolver_env \<Rightarrow> ('f, 'm, 'i) cache_op \<Rightarrow> ('f, 'm, 'n) world \<Rightarrow> ('f, 'm, 'n) world" where
  "on_cache env x w = w\<lparr>w_cache := cache_apply (en_signals env) x (w_cache w)\<rparr>"

definition world_lookup :: "('f, 'm, 'i, 'n) resolver_env \<Rightarrow> cache_key \<Rightarrow> ts \<Rightarrow> ('f, 'm, 'n) world
    \<Rightarrow> ('f, 'm) lookup_outcome \<times> ('f, 'm, 'n) world" where
  "world_lookup env k now w = (fst (cache_lookup (en_signals env) k now (w_cache w)), on_cache env (CacheLookupOp k now) w)"

definition score_inputs :: "('f, 'm, 'i, 'n) resolver_env \<Rightarrow> name \<Rightarrow> ts \<Rightarrow> ('f, 'm, 'n) world \<Rightarrow> 'i" where
  "score_inputs env n now w = en_score_inputs env n now (w_net w)"

section \<open>Deadlines\<close>

text \<open>\<^verbatim>\<open>Instant\<close> is a count of nanoseconds of a monotonic clock with a largest representable value.\<close>

type_synonym deadline = nat

definition deadline_after :: "('f, 'm, 'i, 'n) resolver_env \<Rightarrow> u64 \<Rightarrow> 'n \<Rightarrow> deadline \<times> 'n" where
  "deadline_after env ms s = (case en_instant env s of (i, s) \<Rightarrow>
     if i + unat ms * 1000000 \<le> en_instant_max env then (i + unat ms * 1000000, s) else en_instant env s)"

definition deadline_expired :: "('f, 'm, 'i, 'n) resolver_env \<Rightarrow> deadline \<Rightarrow> 'n \<Rightarrow> bool \<times> 'n" where
  "deadline_expired env dl s = (case en_instant env s of (i, s) \<Rightarrow> (i \<ge> dl, s))"

definition attempt_timeout_ms :: "('f, 'm, 'i, 'n) resolver_env \<Rightarrow> deadline \<Rightarrow> u64 \<Rightarrow> 'n \<Rightarrow> u64 option \<times> 'n" where
  "attempt_timeout_ms env dl configured s = (case en_instant env s of (i, s) \<Rightarrow>
     (let left = dl - i in
      if left = 0 then (None, s)
      else (Some (max (min (of_nat (min (left div 1000000) (2 ^ 64 - 1))) configured) 1), s)))"

text \<open>An attempt never runs longer than configured, and never with a zero timeout.\<close>

lemma attempt_timeout_bounds:
  assumes "attempt_timeout_ms env dl configured s = (Some ms, s')" and "0 < configured"
  shows "1 \<le> ms \<and> ms \<le> configured"
proof -
  have "1 \<le> configured" using assms(2) by (simp add: word_le_nat_alt word_less_nat_alt)
  with assms show ?thesis by (auto simp: attempt_timeout_ms_def Let_def split: prod.splits if_splits)
qed

text \<open>
  A budget so large that the deadline cannot be represented has expired as soon as it is set, on any clock
  that does not run backwards.
\<close>

lemma deadline_overflow_expires:
  assumes "\<And>s. fst (en_instant env s) \<le> fst (en_instant env (snd (en_instant env s)))"
    and "en_instant_max env < fst (en_instant env s) + unat ms * 1000000"
  shows "fst (deadline_expired env (fst (deadline_after env ms s)) (snd (deadline_after env ms s)))"
  using assms(2) assms(1) [of "snd (en_instant env s)"] by (simp add: deadline_after_def deadline_expired_def case_prod_beta)

end
