(* ===== verification/Local_Answers.thy ===== *)
theory Local_Answers
  imports Resolver_State
begin

text \<open>
  The answers \<^verbatim>\<open>src/src/resolver.rs\<close> gives without the network (\<^verbatim>\<open>local_answer\<close>: pinned hosts, fake-IP
  addresses and their reverse names) and the messages it builds for clients (\<^verbatim>\<open>build_response\<close>).
\<close>

section \<open>Reverse names\<close>

definition eq_ignore_ascii_case :: "bytes \<Rightarrow> bytes \<Rightarrow> bool" where
  "eq_ignore_ascii_case a b \<longleftrightarrow> map to_ascii_lowercase a = map to_ascii_lowercase b"

text \<open>
  A label with an octet outside ASCII is rejected either by \<^verbatim>\<open>from_utf8\<close> or by the number parser, so only the
  ASCII case needs a string.
\<close>

definition arpa_octet :: "bytes \<Rightarrow> u8 option" where
  "arpa_octet label =
    (if list_ex (\<lambda>b. b \<ge> 128) label then None
     else if label = [] \<or> length label > 3 \<or> (length label > 1 \<and> hd label = 48) then None
     else parse_u8 (map ucast label))"

fun arpa_octets :: "bytes list \<Rightarrow> u8 list option" where
  "arpa_octets [] = Some []"
| "arpa_octets (l # ls) = (case arpa_octet l of None \<Rightarrow> None | Some b \<Rightarrow> map_option ((#) b) (arpa_octets ls))"

definition parse_in_addr_arpa :: "name \<Rightarrow> u32 option" where
  "parse_in_addr_arpa n =
    (let labels = name_labels n in
     if length labels \<noteq> 6 then None
     else if \<not> eq_ignore_ascii_case (labels ! 4) (map ucast (str_lit ''in-addr''))
          \<or> \<not> eq_ignore_ascii_case (labels ! 5) (map ucast (str_lit ''arpa'')) then None
     else map_option (\<lambda>bs. from_be_bytes (rev bs)) (arpa_octets (take 4 labels)))"

fun nibble_loop :: "nat \<Rightarrow> bytes list \<Rightarrow> bytes \<Rightarrow> bytes option" where
  "nibble_loop i [] octets = Some octets"
| "nibble_loop i (label # ls) octets =
    (if length label \<noteq> 1 then None
     else case to_digit 16 (ucast (hd label)) of
       None \<Rightarrow> None
     | Some digit \<Rightarrow>
        (let nibble = 31 - i; k = nibble div 2 in
         nibble_loop (i + 1) ls (octets[k := octets ! k OR push_bit (4 * (1 - nibble mod 2)) (of_nat digit)])))"

definition parse_ip6_arpa :: "name \<Rightarrow> u128 option" where
  "parse_ip6_arpa n =
    (let labels = name_labels n in
     if length labels \<noteq> 34 then None
     else if \<not> eq_ignore_ascii_case (labels ! 32) (map ucast (str_lit ''ip6''))
          \<or> \<not> eq_ignore_ascii_case (labels ! 33) (map ucast (str_lit ''arpa'')) then None
     else map_option from_be_bytes (nibble_loop 0 (take 32 labels) (replicate 16 0)))"

section \<open>Local answers\<close>

definition reverse_address :: "name \<Rightarrow> ip_addr option" where
  "reverse_address n = (case parse_in_addr_arpa n of
      Some v4 \<Rightarrow> Some (IpV4 v4)
    | None \<Rightarrow> map_option IpV6 (parse_ip6_arpa n))"

definition local_reverse :: "fake_ip_settings \<Rightarrow> query_key \<Rightarrow> ts \<Rightarrow> ('f, 'm, 'n) world
    \<Rightarrow> resolution option \<times> ('f, 'm, 'n) world" where
  "local_reverse settings key now w = (case reverse_address (qk_name key) of
      None \<Rightarrow> (None, w)
    | Some ip \<Rightarrow> (case w_fake_ip w of
        None \<Rightarrow> (None, w)
      | Some pool \<Rightarrow> (case pool_lookup ip now pool of
          (None, pool) \<Rightarrow> (None, w\<lparr>w_fake_ip := Some pool\<rparr>)
        | (Some owner, pool) \<Rightarrow>
           (let ttl = fs_answer_ttl settings in
            (Some ((empty_answer key ttl now)\<lparr>res_answers :=
               [\<lparr>rec_name = qk_name key, rec_type = RrType_PTR, rec_class = RrClass_IN, rec_ttl = ttl, rec_rdata = Ptr owner\<rparr>]\<rparr>),
             bump St_fake_ip_ptr (w\<lparr>w_fake_ip := Some pool\<rparr>))))))"

fun synthetic_rdata :: "ip_addr \<Rightarrow> rdata" where
  "synthetic_rdata (IpV4 v) = A v"
| "synthetic_rdata (IpV6 v) = Aaaa v"

definition local_forward :: "fake_ip_settings \<Rightarrow> query_key \<Rightarrow> family \<Rightarrow> ts \<Rightarrow> ('f, 'm, 'n) world
    \<Rightarrow> resolution option \<times> ('f, 'm, 'n) world" where
  "local_forward settings key fam now w =
    (if \<not> settings_synthesizes settings fam then (Some (empty_answer key (fs_answer_ttl settings) now), w)
     else case w_fake_ip w of
       None \<Rightarrow> (None, w)
     | Some pool \<Rightarrow> (case pool_allocate (qk_name key) fam now pool of
         (Inr (Address ip), pool) \<Rightarrow>
           (let ttl = fs_answer_ttl settings in
            (Some ((empty_answer key ttl now)\<lparr>res_answers :=
               [\<lparr>rec_name = qk_name key, rec_type = qk_type key, rec_class = RrClass_IN, rec_ttl = ttl,
                 rec_rdata = synthetic_rdata ip\<rparr>]\<rparr>),
             bump St_fake_ip_answered (w\<lparr>w_fake_ip := Some pool\<rparr>)))
       | (Inr Filtered, pool) \<Rightarrow> (None, bump St_fake_ip_filtered (w\<lparr>w_fake_ip := Some pool\<rparr>))
       | (Inl _, pool) \<Rightarrow> (None, w\<lparr>w_fake_ip := Some pool\<rparr>)))"

definition local_answer :: "dns_policy \<Rightarrow> query_key \<Rightarrow> ts \<Rightarrow> ('f, 'm, 'n) world
    \<Rightarrow> resolution option \<times> ('f, 'm, 'n) world" where
  "local_answer dns key now w =
    (if qk_class key \<noteq> RrClass_IN then (None, w)
     else case hosts_answer (dp_hosts dns) (qk_name key) (qk_type key) of
       Some records \<Rightarrow>
         (Some ((empty_answer key 0 now)\<lparr>res_ttl := hosts_ttl (dp_hosts dns), res_answers := records\<rparr>), bump St_hosts_answered w)
     | None \<Rightarrow> (case dp_fake_ip dns of
         None \<Rightarrow> (None, w)
       | Some settings \<Rightarrow>
           if qk_type key = RrType_PTR then local_reverse settings key now w
           else if qk_type key = RrType_A then local_forward settings key V4 now w
           else if qk_type key = RrType_AAAA then local_forward settings key V6 now w
           else (None, w)))"

section \<open>Responses\<close>

definition build_response :: "bool \<Rightarrow> message \<Rightarrow> resolution \<Rightarrow> message" where
  "build_response anchored query res =
    (let want = (case msg_edns query of Some e \<Rightarrow> dnssec_ok e | None \<Rightarrow> False);
         m = message_new (msg_id query);
         restamp = map (\<lambda>r. r\<lparr>rec_ttl := res_ttl res\<rparr>)
     in m\<lparr>msg_flags := header_flags_default\<lparr>hf_qr := True, hf_rd := hf_rd (msg_flags query), hf_ra := True,
            hf_ad := res_validated res \<and> anchored \<and> (want \<or> hf_ad (msg_flags query)),
            hf_cd := hf_cd (msg_flags query), hf_rcode := res_rcode res\<rparr>,
          questions := questions query,
          answers := restamp (res_answers res) @ (if want then restamp (res_rrsigs res) else []),
          authorities := restamp (res_authorities res),
          msg_edns := (case msg_edns query of
             None \<Rightarrow> None
           | Some e \<Rightarrow> Some \<lparr>udp_payload_size = max (udp_payload_size e) 512, ext_rcode = 0, edns_version = 0,
               dnssec_ok = dnssec_ok e, edns_options = []\<rparr>)\<rparr>)"

end
