(* ===== verification/Resolver_Steps.thy ===== *)
theory Resolver_Steps
  imports Local_Answers
begin

text \<open>
  The steps \<^verbatim>\<open>src/src/resolver.rs\<close> composes: QNAME minimization, filling the cache from a resolution, queueing
  background refreshes, answering from the cache, and one query to a set of servers.
\<close>

section \<open>Names to query\<close>

definition affinity_subject :: "name \<Rightarrow> rr_type \<Rightarrow> bytes" where
  "affinity_subject n t = name_bytes n @ to_be_bytes 2 (rr_type_to_u16 t)"

definition name_tail :: "name \<Rightarrow> usize \<Rightarrow> name" where
  "name_tail n keep =
    (let labels = name_labels n;
         out = push_labels [] (drop (name_label_count n - keep) labels) @ [0]
     in case name_from_wire out 0 of Inr (r, _) \<Rightarrow> r | Inl _ \<Rightarrow> n)"

definition minimized_name :: "name \<Rightarrow> name \<Rightarrow> name" where
  "minimized_name n zone =
    (if name_label_count n \<le> name_label_count zone then n else name_tail n (name_label_count zone + 1))"

definition deepen_minimized :: "name \<Rightarrow> name \<Rightarrow> name" where
  "deepen_minimized n cur =
    (if name_label_count cur \<ge> name_label_count n then n else name_tail n (name_label_count cur + 1))"

fun soa_minimum :: "rdata \<Rightarrow> u32" where
  "soa_minimum (Soa _ _ _ _ _ _ minimum) = minimum"
| "soa_minimum _ = 0"

definition negative_ttl :: "dns_record \<Rightarrow> u32" where
  "negative_ttl soa = min (rec_ttl soa) (soa_minimum (rec_rdata soa))"

fun dedup_loop :: "endpoint list \<Rightarrow> endpoint list \<Rightarrow> endpoint list" where
  "dedup_loop seen [] = []"
| "dedup_loop seen (e # es) = (if e \<in> set seen then dedup_loop seen es else e # dedup_loop (e # seen) es)"

definition dedup_endpoints :: "endpoint list \<Rightarrow> endpoint list" where
  "dedup_endpoints es = dedup_loop [] es"

section \<open>Filling the cache\<close>

definition find_soa :: "dns_record list \<Rightarrow> dns_record option" where
  "find_soa rs = find (\<lambda>r. rec_type r = RrType_SOA) rs"

definition soa_ttl_of :: "dns_record option \<Rightarrow> u32" where
  "soa_ttl_of soa = (case soa of None \<Rightarrow> 0 | Some r \<Rightarrow> negative_ttl r)"

definition cache_group :: "('f, 'm, 'i, 'n) resolver_env \<Rightarrow> 'f resolver_config \<Rightarrow> query_key \<Rightarrow> resolution \<Rightarrow> ts \<Rightarrow> 'i
    \<Rightarrow> (name \<times> rr_type) \<times> dns_record list \<Rightarrow> ('f, 'm, 'n) world \<Rightarrow> ('f, 'm, 'n) world" where
  "cache_group env cfg key res now inputs grp w = (case grp of ((n, t), recs) \<Rightarrow>
     if t = RrType_RRSIG then w
     else case from_records recs (max_ttl_cap (rc_cache cfg)) of
       Inl _ \<Rightarrow> w
     | Inr s \<Rightarrow>
        (let s = s\<lparr>validated := res_validated res\<rparr>;
             s = foldl (\<lambda>s sig. if covers_type t (rec_rdata sig) then add_rrsig sig s else s) s (res_rrsigs res);
             ck = CacheKey n t (qk_class key) (answer_partition (qk_ecs key) (ecs_scope res))
         in on_cache env (CachePositiveOp ck s now inputs (res_validated res)) w))"

definition cache_negative :: "('f, 'm, 'i, 'n) resolver_env \<Rightarrow> query_key \<Rightarrow> resolution \<Rightarrow> ts \<Rightarrow> 'i
    \<Rightarrow> ('f, 'm, 'n) world \<Rightarrow> ('f, 'm, 'n) world" where
  "cache_negative env key res now inputs w =
    (let partition = answer_partition (qk_ecs key) (ecs_scope res);
         soa = find_soa (res_authorities res)
     in if is_nxdomain (res_rcode res) then
          (case partition of
             None \<Rightarrow> on_cache env (CacheNxdomainOp (res_name res) (res_rcode res) soa (soa_ttl_of soa) now) w
           | Some ecs \<Rightarrow>
               on_cache env (CacheNegativeOp (CacheKey (res_name res) (res_type res) (res_class res) (Some ecs))
                 (res_rcode res) soa (soa_ttl_of soa) now inputs) w)
        else if res_answers res = [] then
          on_cache env (CacheNegativeOp (CacheKey (res_name res) (res_type res) (res_class res) partition)
            (res_rcode res) soa (soa_ttl_of soa) now inputs) w
        else w)"

definition cache_resolution :: "('f, 'm, 'i, 'n) resolver_env \<Rightarrow> 'f resolver_config \<Rightarrow> query_key \<Rightarrow> resolution \<Rightarrow> ts
    \<Rightarrow> ('f, 'm, 'n) world \<Rightarrow> ('f, 'm, 'n) world" where
  "cache_resolution env cfg key res now w =
    (let inputs = score_inputs env (res_name res) now w
     in cache_negative env key res now inputs
          (fold (cache_group env cfg key res now inputs) (group_records (res_answers res)) w))"

definition link_alias :: "name \<Rightarrow> name \<Rightarrow> rr_type \<Rightarrow> rr_class \<Rightarrow> ts \<Rightarrow> ('f, 'm, 'n) world \<Rightarrow> ('f, 'm, 'n) world" where
  "link_alias n target t c now w =
    w\<lparr>w_aliases := alias_link (cache_key_plain n RrType_CNAME c) (cache_key_plain target t c) now (w_aliases w)\<rparr>"

section \<open>Background refreshes\<close>

definition acquire_refresh_slot :: "'f resolver_config \<Rightarrow> ('f, 'm, 'n) world \<Rightarrow> bool \<times> ('f, 'm, 'n) world" where
  "acquire_refresh_slot cfg w =
    (if w_refreshing w \<ge> of_nat (max (max_concurrent_refreshes cfg) 1) then (False, w)
     else (True, w\<lparr>w_refreshing := w_refreshing w + 1\<rparr>))"

definition queue_background_refresh :: "('f, 'm, 'i, 'n) resolver_env \<Rightarrow> 'f resolver_config \<Rightarrow> cache_key
    \<Rightarrow> ('f, 'm, 'n) world \<Rightarrow> bool \<times> ('f, 'm, 'n) world" where
  "queue_background_refresh env cfg key w =
    (if \<not> fst (mark_refreshing key (w_cache w)) then (False, w)
     else
       (let w = on_cache env (CacheMarkOp key) w in
        case acquire_refresh_slot cfg w of
          (False, w) \<Rightarrow> (False, on_cache env (CacheClearOp key) w)
        | (True, w) \<Rightarrow>
           (case on_net (en_now env) w of (now, w) \<Rightarrow>
             (case on_net (en_refresh_token env now) w of
                (False, w) \<Rightarrow>
                  (False, bump St_refresh_budget_denied
                     ((on_cache env (CacheClearOp key) w)\<lparr>w_refreshing := w_refreshing w - 1\<rparr>))
              | (True, w) \<Rightarrow> (True, (bump St_prefetches w)\<lparr>w_spawned := w_spawned w @ [key]\<rparr>)))))"

fun refresh_dependents :: "('f, 'm, 'i, 'n) resolver_env \<Rightarrow> 'f resolver_config \<Rightarrow> usize \<Rightarrow> usize \<Rightarrow> cache_key list
    \<Rightarrow> ('f, 'm, 'n) world \<Rightarrow> usize \<times> ('f, 'm, 'n) world" where
  "refresh_dependents env cfg max_dependents queued [] w = (queued, w)"
| "refresh_dependents env cfg max_dependents queued (k # ks) w =
    (if queued \<ge> max_dependents then (queued, w)
     else case queue_background_refresh env cfg k w of
       (ok, w) \<Rightarrow> refresh_dependents env cfg max_dependents (if ok then queued + 1 else queued) ks w)"

definition refresh_with_dependents :: "('f, 'm, 'i, 'n) resolver_env \<Rightarrow> 'f resolver_config \<Rightarrow> cache_key \<Rightarrow> usize
    \<Rightarrow> ('f, 'm, 'n) world \<Rightarrow> ('f, 'm, 'n) world" where
  "refresh_with_dependents env cfg key max_dependents w =
    (let w = snd (queue_background_refresh env cfg key w) in
     case refresh_dependents env cfg max_dependents 0 (dependents (w_aliases w) key) w of
       (queued, w) \<Rightarrow> if queued > 0 then count_stat St_propagated (of_nat queued) w else w)"

section \<open>Answering from the cache\<close>

datatype cache_policy = Reuse | FreshOnly | Bypass

record ('f, 'm) cache_walk =
  cw_name :: name
  cw_answers :: "dns_record list"
  cw_rrsigs :: "dns_record list"
  cw_authorities :: "dns_record list"
  cw_rcode :: rcode
  cw_validated :: bool
  cw_ttl :: u32
  cw_stale :: bool
  cw_refresh :: "cache_key list"
  cw_stale_entries :: "('f, 'm) cache_entry list"
  cw_deps :: "('f, 'm) dependency list"
  cw_depth :: usize

datatype ('f, 'm) cache_flow = Follow "('f, 'm) cache_walk" | Finish "('f, 'm) cache_walk" | Abandon

definition cache_walk_start :: "query_key \<Rightarrow> ('f, 'm) cache_walk" where
  "cache_walk_start key =
    \<lparr>cw_name = qk_name key, cw_answers = [], cw_rrsigs = [], cw_authorities = [], cw_rcode = Rcode_NOERROR,
     cw_validated = True, cw_ttl = - 1, cw_stale = False, cw_refresh = [], cw_stale_entries = [], cw_deps = [], cw_depth = 0\<rparr>"

text \<open>The match on the kind of an entry found; only the fresh arm keeps the signatures of an alias.\<close>

definition take_kind :: "bool \<Rightarrow> query_key \<Rightarrow> ts \<Rightarrow> entry_kind \<Rightarrow> ('f, 'm) cache_walk \<Rightarrow> ('f, 'm, 'n) world
    \<Rightarrow> ('f, 'm) cache_flow \<times> ('f, 'm, 'n) world" where
  "take_kind fresh key now knd cw w = (case knd of
      Positive s \<Rightarrow>
        if rs_type s = RrType_CNAME \<and> qk_type key \<noteq> RrType_CNAME then
          (case (cname_target s, rs_records s) of
             (Some target, rec # _) \<Rightarrow>
               (Follow (cw\<lparr>cw_answers := cw_answers cw @ [rec], cw_rrsigs := cw_rrsigs cw @ (if fresh then rrsigs s else []),
                  cw_name := target, cw_depth := cw_depth cw + 1\<rparr>),
                link_alias (cw_name cw) target (qk_type key) (qk_class key) now w)
           | _ \<Rightarrow> (Abandon, w))
        else (Finish (cw\<lparr>cw_answers := cw_answers cw @ rs_records s, cw_rrsigs := cw_rrsigs cw @ rrsigs s\<rparr>), w)
    | NegativeKind r soa _ \<Rightarrow>
        (Finish (cw\<lparr>cw_rcode := r, cw_authorities := cw_authorities cw @ (case soa of None \<Rightarrow> [] | Some x \<Rightarrow> [x])\<rparr>), w))"

definition alias_hit :: "('f, 'm, 'i, 'n) resolver_env \<Rightarrow> query_key \<Rightarrow> ts \<Rightarrow> name \<Rightarrow> u32 \<Rightarrow> ('f, 'm) cache_walk
    \<Rightarrow> ('f, 'm, 'n) world \<Rightarrow> ('f, 'm) cache_flow \<times> ('f, 'm, 'n) world" where
  "alias_hit env key now target ttl cw w =
    (case world_lookup env (cache_key_plain (cw_name cw) RrType_CNAME (qk_class key)) now w of
       (Fresh e, w) \<Rightarrow>
        (let found = (case ce_kind e of Positive s \<Rightarrow> (case rs_records s of rec # _ \<Rightarrow> Some (rec, rrsigs s) | [] \<Rightarrow> None) | _ \<Rightarrow> None)
         in (Follow (cw\<lparr>cw_validated := cw_validated cw \<and> ce_validated e, cw_deps := cw_deps cw @ [(e, cw_depth cw, True)],
               cw_answers := cw_answers cw @ (case found of Some (rec, _) \<Rightarrow> [rec] | None \<Rightarrow> []),
               cw_rrsigs := cw_rrsigs cw @ (case found of Some (_, sigs) \<Rightarrow> sigs | None \<Rightarrow> []),
               cw_ttl := min (cw_ttl cw) (max ttl 1), cw_name := target, cw_depth := cw_depth cw + 1\<rparr>),
             link_alias (cw_name cw) target (qk_type key) (qk_class key) now w))
     | (_, w) \<Rightarrow> (Abandon, w))"

definition cached_step :: "('f, 'm, 'i, 'n) resolver_env \<Rightarrow> 'f resolver_config \<Rightarrow> query_key \<Rightarrow> ts \<Rightarrow> cache_policy
    \<Rightarrow> ('f, 'm) cache_walk \<Rightarrow> ('f, 'm, 'n) world \<Rightarrow> ('f, 'm) cache_flow \<times> ('f, 'm, 'n) world" where
  "cached_step env cfg key now pol cw w =
    (case world_lookup env (CacheKey (cw_name cw) (qk_type key) (qk_class key) (qk_ecs key)) now w of (out, w) \<Rightarrow>
     (case out of
        Fresh e \<Rightarrow> take_kind True key now (ce_kind e)
          (cw\<lparr>cw_validated := cw_validated cw \<and> ce_validated e, cw_deps := cw_deps cw @ [(e, cw_depth cw, True)],
              cw_ttl := min (cw_ttl cw) (max (remaining_ttl e now) 1)\<rparr>) w
      | Stale e \<Rightarrow>
          if pol \<noteq> Reuse then (Abandon, w)
          else take_kind False key now (ce_kind e)
            (cw\<lparr>cw_validated := cw_validated cw \<and> ce_validated e, cw_deps := cw_deps cw @ [(e, cw_depth cw, False)],
                cw_stale_entries := cw_stale_entries cw @ [e], cw_stale := True,
                cw_ttl := min (cw_ttl cw) (max (stale_serve_ttl cfg) 1), cw_refresh := cw_refresh cw @ [ce_key e]\<rparr>) w
      | CnameHit target ttl _ _ \<Rightarrow> alias_hit env key now target ttl cw w
      | NxDomainHit _ soa \<Rightarrow>
          (Finish (cw\<lparr>cw_rcode := Rcode_NXDOMAIN, cw_authorities := cw_authorities cw @ (case soa of None \<Rightarrow> [] | Some x \<Rightarrow> [x])\<rparr>), w)
      | Miss \<Rightarrow> (Abandon, w)))"

lemma take_kind_deeper: "take_kind fresh key now knd cw w = (Follow cw', w') \<Longrightarrow> cw_depth cw' = cw_depth cw + 1"
  by (auto simp: take_kind_def split: entry_kind.splits if_splits prod.splits option.splits list.splits)

lemma cached_step_deeper: "cached_step env cfg key now pol cw w = (Follow cw', w') \<Longrightarrow> cw_depth cw' = cw_depth cw + 1"
  by (auto simp: cached_step_def alias_hit_def Let_def split: prod.splits lookup_outcome.splits if_splits dest!: take_kind_deeper)

function cache_loop :: "('f, 'm, 'i, 'n) resolver_env \<Rightarrow> 'f resolver_config \<Rightarrow> query_key \<Rightarrow> ts \<Rightarrow> cache_policy
    \<Rightarrow> ('f, 'm) cache_walk \<Rightarrow> ('f, 'm, 'n) world \<Rightarrow> ('f, 'm) cache_walk option \<times> ('f, 'm, 'n) world" where
  "cache_loop env cfg key now pol cw w =
    (if cw_depth cw > max_cname_depth (rc_engine cfg) then (None, w)
     else case cached_step env cfg key now pol cw w of
       (Follow cw', w') \<Rightarrow> cache_loop env cfg key now pol cw' w'
     | (Finish cw', w') \<Rightarrow> (Some cw', w')
     | (Abandon, w') \<Rightarrow> (None, w'))"
  by pat_completeness auto

termination
  by (relation "measure (\<lambda>(env, cfg, key, now, pol, cw, w). Suc (max_cname_depth (rc_engine cfg)) - cw_depth cw)")
    (auto dest!: cached_step_deeper [OF sym])

declare cache_loop.simps [simp del]

definition cached_resolution :: "query_key \<Rightarrow> ts \<Rightarrow> ('f, 'm) cache_walk \<Rightarrow> resolution" where
  "cached_resolution key now cw =
    \<lparr>res_name = qk_name key, res_type = qk_type key, res_class = qk_class key, res_rcode = cw_rcode cw,
     res_answers = cw_answers cw, res_authorities = cw_authorities cw, res_rrsigs = cw_rrsigs cw,
     res_validated = cw_validated cw, res_ttl = (if cw_ttl cw = - 1 then 0 else cw_ttl cw), from_cache = True,
     res_stale = cw_stale cw, ecs_scope = None, served_at = now\<rparr>"

definition resolve_from_cache :: "('f, 'm, 'i, 'n) resolver_env \<Rightarrow> 'f resolver_config \<Rightarrow> query_key \<Rightarrow> ts \<Rightarrow> cache_policy
    \<Rightarrow> ('f, 'm, 'n) world \<Rightarrow> resolution option \<times> ('f, 'm, 'n) world" where
  "resolve_from_cache env cfg key now pol w =
    (case cache_loop env cfg key now pol (cache_walk_start key) w of
       (None, w) \<Rightarrow> (None, w)
     | (Some cw, w) \<Rightarrow>
        if \<not> cw_stale cw then (Some (cached_resolution key now cw), w)
        else (case on_net (en_serve_stale env key (cw_deps cw) (cw_validated cw) now) w of
            (True, w) \<Rightarrow>
              (Some (cached_resolution key now cw),
               fold (\<lambda>k. refresh_with_dependents env cfg k (max_chain_refresh cfg)) (cw_refresh cw) w)
          | (False, w) \<Rightarrow>
              (None, bump St_stale_risk_refused
                 (if list_ex (\<lambda>e. en_failures env (stability e) > 0) (cw_stale_entries cw)
                  then bump St_stale_refused_after_failure w else w))))"

end
