(* ===== verification/Resolver_Walk.thy ===== *)
theory Resolver_Walk
  imports Resolver_Steps
begin

text \<open>
  The iterative walk of \<^verbatim>\<open>src/src/resolver.rs\<close>: \<^verbatim>\<open>query_servers\<close>, one exchange with the servers of a zone under
  the budget, and \<^verbatim>\<open>iterative_resolve\<close>, the loop from the root to the answer.  One arm of the loop's match is
  one definition; the loop itself is a partial function, whose value \<open>None\<close> is a walk that does not end.
  How the addresses of name servers are found is an argument, since it resolves names in turn.
\<close>

section \<open>Querying a set of servers\<close>

datatype attempt = Reply message u64 | Abort error | Retry "error option" | Leave

definition tcp_retry :: "('f, 'm, 'i, 'n) resolver_env \<Rightarrow> 'f resolver_config \<Rightarrow> endpoint \<Rightarrow> bytes \<Rightarrow> message \<Rightarrow> message \<Rightarrow> u64 \<Rightarrow> u64 \<Rightarrow> ts
    \<Rightarrow> ('f, 'm, 'n) world \<Rightarrow> message option \<times> ('f, 'm, 'n) world" where
  "tcp_retry env cfg ep query_bytes query_msg m attempt_ms rtt now w =
    (if \<not> (is_truncated m \<and> tcp_fallback (rc_engine cfg)) then (None, w)
     else
       (let tcp_ep = ep\<lparr>ep_proto := Tcp\<rparr> in
        case on_net (en_exchange env tcp_ep query_bytes attempt_ms) w of
          (Inl _, w) \<Rightarrow> (None, w)
        | (Inr bs, w) \<Rightarrow> (case message_parse bs of
            Inl _ \<Rightarrow> (None, w)
          | Inr m' \<Rightarrow> if response_matches_query query_msg m' then (Some m', observe env (RecordSuccess tcp_ep rtt now) w)
                      else (None, w))))"

definition judge_response :: "('f, 'm, 'i, 'n) resolver_env \<Rightarrow> name \<Rightarrow> bool \<Rightarrow> endpoint \<Rightarrow> message \<Rightarrow> u64 \<Rightarrow> ts
    \<Rightarrow> ('f, 'm, 'n) world \<Rightarrow> attempt \<times> ('f, 'm, 'n) world" where
  "judge_response env n skip_empty ep m rtt now w =
    (if skip_empty \<and> hf_rcode (msg_flags m) = Rcode_NOERROR \<and> answers m = [] \<and> authorities m = [] \<and> additionals m = [] then
       (Retry (Some (error_new Servfail ''upstream answered with an empty message'')),
        observe env (RecordServfail ep now) (bump St_servfails w))
     else if hf_rcode (msg_flags m) \<in> {Rcode_SERVFAIL, Rcode 5, Rcode 4, Rcode 1} then
       (Retry (Some (error_new Servfail ''upstream answered a failure code'')),
        observe env (ObserveFailure n) (observe env (RecordServfail ep now) (bump St_servfails w)))
     else (Reply m rtt, observe env (RecordSuccess ep rtt now) w))"

definition accept_reply :: "('f, 'm, 'i, 'n) resolver_env \<Rightarrow> 'f resolver_config \<Rightarrow> name \<Rightarrow> bool \<Rightarrow> endpoint \<Rightarrow> bytes \<Rightarrow> bytes \<Rightarrow> u64 \<Rightarrow> u64 \<Rightarrow> ts
    \<Rightarrow> ('f, 'm, 'n) world \<Rightarrow> attempt \<times> ('f, 'm, 'n) world" where
  "accept_reply env cfg n skip_empty ep query_bytes bs attempt_ms rtt now w = (case message_parse bs of
      Inl e \<Rightarrow> (Retry (Some e), w)
    | Inr m \<Rightarrow>
       (let query_msg = (case message_parse query_bytes of Inr q \<Rightarrow> q | Inl _ \<Rightarrow> message_new 0) in
        if \<not> response_matches_query query_msg m then (Retry None, w)
        else case tcp_retry env cfg ep query_bytes query_msg m attempt_ms rtt now w of
          (Some m', w) \<Rightarrow> (Reply m' rtt, w)
        | (None, w) \<Rightarrow> judge_response env n skip_empty ep m rtt now w))"

definition query_spec :: "'f resolver_config \<Rightarrow> query_key \<Rightarrow> edns_spec" where
  "query_spec cfg key = \<lparr>spec_udp_size = edns_udp_size (rc_engine cfg), spec_dnssec_ok = ec_dnssec (rc_engine cfg) \<or> want_dnssec key,
     spec_ecs = ecs_option key, spec_client_cookie = None\<rparr>"

definition attempt_once :: "('f, 'm, 'i, 'n) resolver_env \<Rightarrow> 'f resolver_config \<Rightarrow> query_key \<Rightarrow> name \<Rightarrow> rr_type \<Rightarrow> bool \<Rightarrow> deadline \<Rightarrow> endpoint \<Rightarrow> ts
    \<Rightarrow> 'f fetch_budget \<Rightarrow> ('f, 'm, 'n) world \<Rightarrow> attempt \<times> 'f fetch_budget \<times> ('f, 'm, 'n) world" where
  "attempt_once env cfg key n t skip_empty dl ep now b w = (case spend_subquery b of
      (Inl _, b) \<Rightarrow> (Abort (error_new NoUpstream ''resolution budget exhausted (sub-queries)''), b, bump St_fetch_budget_exhausted w)
    | (Inr _, b) \<Rightarrow>
       (let w = bump St_upstream_queries w;
            (r, w) = on_net (next_u32 (en_draw env)) w;
            (q, w) = on_net (build_query (en_draw env) (ucast (r AND 0xffff)) n t False (Some (query_spec cfg key)) (use_0x20 (rc_engine cfg))) w
        in case on_net (attempt_timeout_ms env dl (timeout_ms (rc_engine cfg))) w of
             (None, w) \<Rightarrow> (Leave, b, w)
           | (Some attempt_ms, w) \<Rightarrow>
              (let (start, w) = on_net (en_instant env) w in
               case on_net (en_exchange env ep (oq_bytes q) attempt_ms) w of
                 (Inl e, w) \<Rightarrow> (Retry (Some e), b, observe env (RecordTimeout ep now) (bump St_upstream_timeouts w))
               | (Inr bs, w) \<Rightarrow>
                  (let (stop, w) = on_net (en_instant env) w;
                       rtt = of_nat ((stop - start) div 1000000)
                   in case spend_bytes (of_nat (length (oq_bytes q)) + of_nat (length bs)) b of
                        (Inl _, b) \<Rightarrow> (Abort (error_new NoUpstream ''resolution budget exhausted (bytes)''), b, bump St_fetch_budget_exhausted w)
                      | (Inr _, b) \<Rightarrow>
                         (case accept_reply env cfg n skip_empty ep (oq_bytes q) bs attempt_ms rtt now w of
                            (a, w) \<Rightarrow> (a, b, w))))))"

text \<open>
  The attempts at one server: \<open>left\<close> counts \<^verbatim>\<open>max_attempts_per_server\<close> down.  The result is what the source
  returns from the whole search, or \<open>None\<close> when the next server is tried.
\<close>

fun server_loop :: "('f, 'm, 'i, 'n) resolver_env \<Rightarrow> 'f resolver_config \<Rightarrow> query_key \<Rightarrow> name \<Rightarrow> rr_type \<Rightarrow> bool \<Rightarrow> deadline \<Rightarrow> endpoint \<Rightarrow> ts
    \<Rightarrow> nat \<Rightarrow> u32 \<Rightarrow> error option \<Rightarrow> 'f fetch_budget \<Rightarrow> ('f, 'm, 'n) world
    \<Rightarrow> (message \<times> u64) result option \<times> u32 \<times> error option \<times> 'f fetch_budget \<times> ('f, 'm, 'n) world" where
  "server_loop env cfg key n t skip_empty dl ep now 0 tot lerr b w = (None, tot, lerr, b, w)"
| "server_loop env cfg key n t skip_empty dl ep now (Suc left) tot lerr b w =
    (if tot \<ge> max_total_attempts (rc_engine cfg) then (None, tot, lerr, b, w)
     else case attempt_once env cfg key n t skip_empty dl ep now b w of
       (Reply m rtt, b, w) \<Rightarrow> (Some (Ok (m, rtt)), tot + 1, lerr, b, w)
     | (Abort e, b, w) \<Rightarrow> (Some (Err e), tot + 1, lerr, b, w)
     | (Leave, b, w) \<Rightarrow> (None, tot + 1, lerr, b, w)
     | (Retry e, b, w) \<Rightarrow>
         server_loop env cfg key n t skip_empty dl ep now left (tot + 1) (case e of None \<Rightarrow> lerr | Some e \<Rightarrow> Some e) b w)"

fun servers_loop :: "('f, 'm, 'i, 'n) resolver_env \<Rightarrow> 'f resolver_config \<Rightarrow> query_key \<Rightarrow> name \<Rightarrow> rr_type \<Rightarrow> bool \<Rightarrow> deadline \<Rightarrow> ts
    \<Rightarrow> endpoint list \<Rightarrow> u32 \<Rightarrow> error option \<Rightarrow> 'f fetch_budget \<Rightarrow> ('f, 'm, 'n) world
    \<Rightarrow> (message \<times> u64) result \<times> 'f fetch_budget \<times> ('f, 'm, 'n) world" where
  "servers_loop env cfg key n t skip_empty dl now [] tot lerr b w =
    (Err (case lerr of Some e \<Rightarrow> e | None \<Rightarrow> error_new Timeout ''no upstream answered''), b, w)"
| "servers_loop env cfg key n t skip_empty dl now (ep # eps) tot lerr b w =
    (case on_net (deadline_expired env dl) w of
       (True, w) \<Rightarrow> (Err (case lerr of Some e \<Rightarrow> e | None \<Rightarrow> error_new Timeout ''no upstream answered''), b, w)
     | (False, w) \<Rightarrow>
        (case server_loop env cfg key n t skip_empty dl ep now (unat (max_attempts_per_server (rc_engine cfg))) tot lerr b w of
           (Some r, _, _, b, w) \<Rightarrow> (r, b, w)
         | (None, tot, lerr, b, w) \<Rightarrow> servers_loop env cfg key n t skip_empty dl now eps tot lerr b w))"

definition query_servers :: "('f, 'm, 'i, 'n) resolver_env \<Rightarrow> 'f resolver_config \<Rightarrow> endpoint list \<Rightarrow> name \<Rightarrow> rr_type \<Rightarrow> query_key \<Rightarrow> deadline \<Rightarrow> bool
    \<Rightarrow> 'f fetch_budget \<Rightarrow> ('f, 'm, 'n) world \<Rightarrow> (message \<times> u64) result \<times> 'f fetch_budget \<times> ('f, 'm, 'n) world" where
  "query_servers env cfg servers n t key dl skip_empty b w =
    (if servers = [] then (Err (error_new NoUpstream ''no servers to query''), b, w)
     else
       (let (now, w) = on_net (en_now env) w;
            (lottery, ranked) = en_rank env servers (affinity_subject n t) now (w_net w);
            w = (if lottery then bump St_affinity_lotteries w else w);
            max_servers = min (length servers) (max (max_servers_tried (rc_engine cfg)) 1)
        in servers_loop env cfg key n t skip_empty dl now (take max_servers ranked) 0 None b w))"

section \<open>The walk\<close>

record walk =
  it_name :: name
  it_answers :: "dns_record list"
  it_rrsigs :: "dns_record list"
  it_authorities :: "dns_record list"
  it_rcode :: rcode
  it_ttl :: u32
  it_zone :: name
  it_servers :: "endpoint list"
  it_depth :: usize
  it_referrals :: usize
  it_cached_rrsigs :: "dns_record list"
  it_minimized :: "name option"
  it_ecs_scope :: "u8 option"

datatype walk_flow = Continue walk | Break walk | Return error

definition root_endpoints :: "('f, 'm, 'i, 'n) resolver_env \<Rightarrow> 'f resolver_config \<Rightarrow> endpoint list" where
  "root_endpoints env cfg =
    (if root_servers (rc_engine cfg) = [] then en_root_endpoints env
     else map (\<lambda>(ip, port). \<lparr>ep_ip = ip, ep_port = port, ep_proto = Udp\<rparr>) (root_servers (rc_engine cfg)))"

definition walk_start :: "('f, 'm, 'i, 'n) resolver_env \<Rightarrow> 'f resolver_config \<Rightarrow> query_key \<Rightarrow> walk" where
  "walk_start env cfg key =
    \<lparr>it_name = qk_name key, it_answers = [], it_rrsigs = [], it_authorities = [], it_rcode = Rcode_NOERROR, it_ttl = - 1,
     it_zone = name_root, it_servers = root_endpoints env cfg, it_depth = 0, it_referrals = 0, it_cached_rrsigs = [],
     it_minimized = None, it_ecs_scope = None\<rparr>"

text \<open>While an alias is chased, a fresh cached answer for the current name ends the walk.\<close>

definition chase_from_cache :: "('f, 'm, 'i, 'n) resolver_env \<Rightarrow> query_key \<Rightarrow> ts \<Rightarrow> walk
    \<Rightarrow> ('f, 'm, 'n) world \<Rightarrow> walk option \<times> ('f, 'm, 'n) world" where
  "chase_from_cache env key now it w =
    (if it_depth it = 0 then (None, w)
     else case world_lookup env (CacheKey (it_name it) (qk_type key) (qk_class key) (answer_partition (qk_ecs key) (it_ecs_scope it))) now w of
       (Fresh e, w) \<Rightarrow> (case ce_kind e of
          Positive s \<Rightarrow> (Some (it\<lparr>it_ttl := min (it_ttl it) (rs_ttl s), it_cached_rrsigs := it_cached_rrsigs it @ rrsigs s,
                                it_answers := it_answers it @ rs_records s\<rparr>), w)
        | NegativeKind _ _ _ \<Rightarrow> (None, w))
     | (_, w) \<Rightarrow> (None, w))"

definition next_query_name :: "'f resolver_config \<Rightarrow> walk \<Rightarrow> name" where
  "next_query_name cfg it = (case it_minimized it of
      Some q \<Rightarrow> q
    | None \<Rightarrow> if qname_minimization (rc_engine cfg) then minimized_name (it_name it) (it_zone it) else it_name it)"

definition restart_unless_below :: "('f, 'm, 'i, 'n) resolver_env \<Rightarrow> 'f resolver_config \<Rightarrow> name \<Rightarrow> walk \<Rightarrow> walk" where
  "restart_unless_below env cfg n it =
    (if \<not> is_subdomain_of n (it_zone it) \<or> it_zone it = name_root
     then it\<lparr>it_zone := name_root, it_servers := root_endpoints env cfg\<rparr> else it)"

definition min_ttls :: "dns_record list \<Rightarrow> u32 \<Rightarrow> u32" where
  "min_ttls rs ttl = foldl (\<lambda>t r. min t (rec_ttl r)) ttl rs"

definition on_answer :: "dns_record list \<Rightarrow> dns_record list \<Rightarrow> walk \<Rightarrow> walk_flow" where
  "on_answer records sigs it =
    (let keep = filter (\<lambda>r. in_bailiwick (rec_name r) (it_zone it)) records in
     if keep = [] then Return (error_transport ''answer out of bailiwick'')
     else Break (it\<lparr>it_ttl := min_ttls keep (it_ttl it), it_answers := it_answers it @ keep, it_rrsigs := it_rrsigs it @ sigs\<rparr>))"

definition on_cname :: "('f, 'm, 'i, 'n) resolver_env \<Rightarrow> 'f resolver_config \<Rightarrow> query_key \<Rightarrow> ts \<Rightarrow> dns_record \<Rightarrow> dns_record list \<Rightarrow> walk
    \<Rightarrow> ('f, 'm, 'n) world \<Rightarrow> walk_flow \<times> ('f, 'm, 'n) world" where
  "on_cname env cfg key now rec sigs it w = (case cname_of (rec_rdata rec) of
      None \<Rightarrow> (Return (error_internal ''classify said CNAME but it is not''), w)
    | Some target \<Rightarrow>
       (let s = add_record rec (rr_set_new (rec_name rec) RrType_CNAME (qk_class key) (rec_ttl rec));
            ck = CacheKey (it_name it) RrType_CNAME (qk_class key) (answer_partition (qk_ecs key) (it_ecs_scope it));
            w = on_cache env (CachePositiveOp ck s now (score_inputs env (it_name it) now w) False) w;
            w = link_alias (it_name it) target (qk_type key) (qk_class key) now w;
            it = restart_unless_below env cfg target
              (it\<lparr>it_ttl := min (it_ttl it) (rec_ttl rec), it_answers := it_answers it @ [rec], it_rrsigs := it_rrsigs it @ sigs\<rparr>)
        in (Continue (it\<lparr>it_minimized := None, it_name := target, it_depth := it_depth it + 1\<rparr>), w)))"

definition on_dname :: "('f, 'm, 'i, 'n) resolver_env \<Rightarrow> 'f resolver_config \<Rightarrow> dns_record \<Rightarrow> walk \<Rightarrow> walk_flow" where
  "on_dname env cfg rec it = (case dname_of (rec_rdata rec) of
      None \<Rightarrow> Return (error_internal ''classify said DNAME but it is not'')
    | Some target \<Rightarrow> (case synthesize_dname_cname (it_name it) (rec_name rec) target of
        None \<Rightarrow> Return (error_wire ''bad DNAME synthesis'')
      | Some synthesized \<Rightarrow>
         (let it = restart_unless_below env cfg synthesized
                (it\<lparr>it_ttl := min (it_ttl it) (rec_ttl rec),
                    it_answers := it_answers it @ [make_cname_record (it_name it) synthesized (rec_ttl rec)], it_name := synthesized\<rparr>)
          in Continue (it\<lparr>it_minimized := None, it_depth := it_depth it + 1\<rparr>))))"

definition note_soa :: "dns_record option \<Rightarrow> rcode \<Rightarrow> walk \<Rightarrow> walk" where
  "note_soa soa code it = (let it = it\<lparr>it_rcode := code\<rparr> in case soa of
      None \<Rightarrow> it
    | Some s \<Rightarrow> it\<lparr>it_authorities := it_authorities it @ [s], it_ttl := min (it_ttl it) (negative_ttl s)\<rparr>)"

definition on_negative :: "('f, 'm, 'i, 'n) resolver_env \<Rightarrow> query_key \<Rightarrow> ts \<Rightarrow> name \<Rightarrow> rcode \<Rightarrow> dns_record option \<Rightarrow> walk
    \<Rightarrow> ('f, 'm, 'n) world \<Rightarrow> walk_flow \<times> ('f, 'm, 'n) world" where
  "on_negative env key now query_name code soa it w =
    (let partition = answer_partition (qk_ecs key) (it_ecs_scope it) in
     if is_nxdomain code then
       (Break (note_soa soa code it),
        (case partition of
           None \<Rightarrow> on_cache env (CacheNxdomainOp query_name code soa (soa_ttl_of soa) now) w
         | Some ecs \<Rightarrow>
             on_cache env (CacheNegativeOp (CacheKey query_name (qk_type key) (qk_class key) (Some ecs)) code soa (soa_ttl_of soa) now
               (score_inputs env query_name now w)) w))
     else
       (let w = on_cache env (CacheNegativeOp (CacheKey query_name (qk_type key) (qk_class key) partition) code soa (soa_ttl_of soa) now
                 (score_inputs env query_name now w)) w
        in if query_name \<noteq> it_name it then (Continue (it\<lparr>it_minimized := Some (deepen_minimized (it_name it) query_name)\<rparr>), w)
           else (Break (note_soa soa code it), w)))"

definition on_empty :: "name \<Rightarrow> walk \<Rightarrow> walk_flow" where
  "on_empty query_name it =
    (if query_name \<noteq> it_name it then Continue (it\<lparr>it_minimized := Some (deepen_minimized (it_name it) query_name)\<rparr>)
     else Return (error_transport ''empty response from upstream''))"

subsection \<open>Referrals\<close>

definition cache_glue :: "('f, 'm, 'i, 'n) resolver_env \<Rightarrow> 'f resolver_config \<Rightarrow> query_key \<Rightarrow> ts \<Rightarrow> 'i \<Rightarrow> name \<Rightarrow> dns_record
    \<Rightarrow> ('f, 'm, 'n) world \<Rightarrow> ('f, 'm, 'n) world" where
  "cache_glue env cfg key now inputs zone g w =
    (if \<not> in_bailiwick (rec_name g) zone then w
     else case from_records [g] (max_ttl_cap (rc_cache cfg)) of
       Inl _ \<Rightarrow> w
     | Inr s \<Rightarrow> on_cache env (CachePositiveOp (cache_key_plain (rec_name g) (rec_type g) (qk_class key)) s now inputs False) w)"

definition glue_endpoints :: "'f resolver_config \<Rightarrow> name \<Rightarrow> name list \<Rightarrow> dns_record list \<Rightarrow> endpoint list" where
  "glue_endpoints cfg zone names glue = List.map_filter (\<lambda>g.
     if rec_name g \<notin> set names \<and> \<not> in_bailiwick (rec_name g) zone then None
     else map_option (\<lambda>ip. \<lparr>ep_ip = ip, ep_port = auth_port (rc_engine cfg), ep_proto = Udp\<rparr>) (address_of (rec_rdata g))) glue"

type_synonym ('f, 'm, 'n) find_servers =
  "name list \<Rightarrow> 'f fetch_budget \<Rightarrow> ('f, 'm, 'n) world \<Rightarrow> (endpoint list \<times> 'f fetch_budget \<times> ('f, 'm, 'n) world) option"

definition enter_zone :: "'f resolver_config \<Rightarrow> ('f, 'm, 'n) find_servers \<Rightarrow> name \<Rightarrow> name list \<Rightarrow> dns_record list \<Rightarrow> walk
    \<Rightarrow> 'f fetch_budget \<Rightarrow> ('f, 'm, 'n) world \<Rightarrow> (walk_flow \<times> 'f fetch_budget \<times> ('f, 'm, 'n) world) option" where
  "enter_zone cfg resolve_ns zone names glue it b w =
    (let endpoints = glue_endpoints cfg zone names glue in
     Option.bind (if endpoints = [] then resolve_ns names b w else Some (endpoints, b, w)) (\<lambda>(endpoints, b, w).
       let endpoints = dedup_endpoints endpoints in
       Some (if endpoints = [] then Return (error_new NoUpstream ''no usable servers for zone'')
             else Continue (it\<lparr>it_zone := zone, it_minimized := None, it_servers := endpoints\<rparr>), b, w)))"

definition on_referral :: "('f, 'm, 'i, 'n) resolver_env \<Rightarrow> 'f resolver_config \<Rightarrow> ('f, 'm, 'n) find_servers \<Rightarrow> query_key \<Rightarrow> ts \<Rightarrow> name
    \<Rightarrow> dns_record list \<Rightarrow> dns_record list \<Rightarrow> walk \<Rightarrow> 'f fetch_budget \<Rightarrow> ('f, 'm, 'n) world
    \<Rightarrow> (walk_flow \<times> 'f fetch_budget \<times> ('f, 'm, 'n) world) option" where
  "on_referral env cfg resolve_ns key now zone ns glue it b w =
    (let it = it\<lparr>it_referrals := it_referrals it + 1\<rparr> in
     if \<not> is_strict_subdomain_of zone (it_zone it) then Some (Return (error_transport ''referral not below the current zone''), b, w)
     else
       (let names = List.map_filter (\<lambda>r. ns_of (rec_rdata r)) ns in
        case from_records ns (max_ttl_cap (rc_cache cfg)) of
          Inl e \<Rightarrow> Some (Return (error_internal (msg e)), b, w)
        | Inr s \<Rightarrow>
           (let inputs = score_inputs env zone now w;
                w = on_cache env (CachePositiveOp (cache_key_plain zone RrType_NS (qk_class key)) s now inputs False) w;
                w = fold (cache_glue env cfg key now inputs zone) glue w;
                covered = length (filter (\<lambda>n. list_ex (\<lambda>g. rec_name g = n) glue) names)
            in case admit_referral (en_too_thin env) (of_nat (length names)) (of_nat (length glue)) (of_nat covered) b of
                 (RejectReferral _, b) \<Rightarrow>
                   Some (Return (error_transport ''refused an unusable delegation''), b, bump St_referrals_refused w)
               | (AcceptReferral _ _ _, b) \<Rightarrow>
                  (case spend_delegation b of
                     (Inl _, b) \<Rightarrow> Some (Return (error_new NoUpstream ''resolution budget exhausted (delegation depth)''), b,
                                    bump St_fetch_budget_exhausted w)
                   | (Inr _, b) \<Rightarrow> enter_zone cfg resolve_ns zone names glue it b w))))"

subsection \<open>The loop\<close>

definition on_response :: "('f, 'm, 'i, 'n) resolver_env \<Rightarrow> 'f resolver_config \<Rightarrow> ('f, 'm, 'n) find_servers \<Rightarrow> query_key \<Rightarrow> ts \<Rightarrow> name \<Rightarrow> message
    \<Rightarrow> walk \<Rightarrow> 'f fetch_budget \<Rightarrow> ('f, 'm, 'n) world \<Rightarrow> (walk_flow \<times> 'f fetch_budget \<times> ('f, 'm, 'n) world) option" where
  "on_response env cfg resolve_ns key now query_name resp it b w =
    (case classify_response resp (it_name it) (qk_type key) (it_zone it) of
       Answer records sigs \<Rightarrow> Some (on_answer records sigs it, b, w)
     | CnameFound rec sigs \<Rightarrow> (case on_cname env cfg key now rec sigs it w of (f, w) \<Rightarrow> Some (f, b, w))
     | DnameFound rec \<Rightarrow> Some (on_dname env cfg rec it, b, w)
     | Engine.Negative code soa \<Rightarrow> (case on_negative env key now query_name code soa it w of (f, w) \<Rightarrow> Some (f, b, w))
     | Referral zone ns glue \<Rightarrow> on_referral env cfg resolve_ns key now zone ns glue it b w
     | EmptyResponse \<Rightarrow> Some (on_empty query_name it, b, w))"

definition walk_exchange :: "('f, 'm, 'i, 'n) resolver_env \<Rightarrow> 'f resolver_config \<Rightarrow> ('f, 'm, 'n) find_servers \<Rightarrow> query_key \<Rightarrow> deadline \<Rightarrow> ts
    \<Rightarrow> walk \<Rightarrow> 'f fetch_budget \<Rightarrow> ('f, 'm, 'n) world \<Rightarrow> (walk_flow \<times> 'f fetch_budget \<times> ('f, 'm, 'n) world) option" where
  "walk_exchange env cfg resolve_ns key dl now it b w =
    (let query_name = next_query_name cfg it; it = it\<lparr>it_minimized := None\<rparr> in
     case query_servers env cfg (it_servers it) query_name (qk_type key) key dl (query_name = it_name it) b w of
       (Inl e, b, w) \<Rightarrow> Some (Return e, b, w)
     | (Inr (resp, rtt), b, w) \<Rightarrow>
        (let w = observe env (ObserveUpstream (it_zone it) rtt) w;
             it = it\<lparr>it_ecs_scope := map_option scope_prefix (Option.bind (msg_edns resp) edns_ecs)\<rparr>
         in on_response env cfg resolve_ns key now query_name resp it b w))"

definition walk_step :: "('f, 'm, 'i, 'n) resolver_env \<Rightarrow> 'f resolver_config \<Rightarrow> ('f, 'm, 'n) find_servers \<Rightarrow> query_key \<Rightarrow> deadline \<Rightarrow> ts
    \<Rightarrow> walk \<Rightarrow> 'f fetch_budget \<Rightarrow> ('f, 'm, 'n) world \<Rightarrow> (walk_flow \<times> 'f fetch_budget \<times> ('f, 'm, 'n) world) option" where
  "walk_step env cfg resolve_ns key dl now it b w =
    (case on_net (deadline_expired env dl) w of (expired, w) \<Rightarrow>
     if expired then Some (Return (error_new Timeout ''query budget exhausted during resolution''), b, w)
     else if it_depth it > max_cname_depth (rc_engine cfg) then Some (Return (error_internal ''CNAME/DNAME loop during resolution''), b, w)
     else if it_referrals it > max_referrals (rc_engine cfg) then Some (Return (error_internal ''referral loop during resolution''), b, w)
     else case chase_from_cache env key now it w of
       (Some it, w) \<Rightarrow> Some (Break it, b, w)
     | (None, w) \<Rightarrow> walk_exchange env cfg resolve_ns key dl now it b w)"

partial_function (option) walk_loop :: "('f, 'm, 'i, 'n) resolver_env \<Rightarrow> 'f resolver_config \<Rightarrow> ('f, 'm, 'n) find_servers \<Rightarrow> query_key \<Rightarrow> deadline \<Rightarrow> ts
    \<Rightarrow> walk \<Rightarrow> 'f fetch_budget \<Rightarrow> ('f, 'm, 'n) world \<Rightarrow> ((error + walk) \<times> 'f fetch_budget \<times> ('f, 'm, 'n) world) option" where
  "walk_loop env cfg resolve_ns key dl now it b w =
    Option.bind (walk_step env cfg resolve_ns key dl now it b w) (\<lambda>(f, b, w). case f of
        Return e \<Rightarrow> Some (Err e, b, w)
      | Break it \<Rightarrow> Some (Ok it, b, w)
      | Continue it \<Rightarrow> walk_loop env cfg resolve_ns key dl now it b w)"

definition walk_resolution :: "query_key \<Rightarrow> ts \<Rightarrow> walk \<Rightarrow> resolution" where
  "walk_resolution key now it =
    \<lparr>res_name = qk_name key, res_type = qk_type key, res_class = qk_class key, res_rcode = it_rcode it,
     res_answers = it_answers it, res_authorities = it_authorities it, res_rrsigs = it_rrsigs it @ it_cached_rrsigs it,
     res_validated = False, res_ttl = (if it_ttl it = - 1 then 0 else it_ttl it), from_cache = False, res_stale = False,
     ecs_scope = it_ecs_scope it, served_at = now\<rparr>"

definition iterative_resolve :: "('f, 'm, 'i, 'n) resolver_env \<Rightarrow> 'f resolver_config \<Rightarrow> ('f, 'm, 'n) find_servers \<Rightarrow> query_key \<Rightarrow> deadline
    \<Rightarrow> 'f fetch_budget \<Rightarrow> ('f, 'm, 'n) world \<Rightarrow> (resolution result \<times> 'f fetch_budget \<times> ('f, 'm, 'n) world) option" where
  "iterative_resolve env cfg resolve_ns key dl b w =
    (case on_net (en_now env) w of (now, w) \<Rightarrow>
     map_option (\<lambda>(r, b, w). (rbind r (\<lambda>it. Ok (walk_resolution key now it)), b, w))
       (walk_loop env cfg resolve_ns key dl now (walk_start env cfg key) b w))"

end
