(* ===== verification/Resolver.thy ===== *)
theory Resolver
  imports Resolver_Walk
begin

text \<open>
  \<^verbatim>\<open>src/src/resolver.rs\<close> put together: the addresses of name servers, \<^verbatim>\<open>resolve_inner\<close> (cache, forwarders or the
  walk, validation, filling the cache), \<^verbatim>\<open>resolve_key\<close> (policy, local answers, coalescing, budgets),
  \<^verbatim>\<open>handle_query\<close>, the background refresh and the maintenance tick.  A result \<open>None\<close> is a call that does not
  return: a walk that does not end or a wait on a slot that nobody will complete.
\<close>

section \<open>Addresses of name servers\<close>

type_synonym ('f, 'm, 'n) resolve_one =
  "query_key \<Rightarrow> 'f fetch_budget \<Rightarrow> ('f, 'm, 'n) world \<Rightarrow> (resolution result \<times> 'f fetch_budget \<times> ('f, 'm, 'n) world) option"

definition pinned_addresses :: "hosts_table \<Rightarrow> name \<Rightarrow> ip_addr list" where
  "pinned_addresses hosts n = concat (map (\<lambda>t. case hosts_answer hosts n t of
      None \<Rightarrow> [] | Some records \<Rightarrow> List.map_filter (\<lambda>r. address_of (rec_rdata r)) records) [RrType_A, RrType_AAAA])"

definition host_key :: "name \<Rightarrow> rr_type \<Rightarrow> query_key" where
  "host_key n t = \<lparr>qk_name = n, qk_type = t, qk_class = RrClass_IN, qk_ecs = None, want_dnssec = False, qk_cd = False\<rparr>"

fun address_loop :: "('f, 'm, 'n) resolve_one \<Rightarrow> name \<Rightarrow> rr_type list \<Rightarrow> ip_addr list \<Rightarrow> 'f fetch_budget \<Rightarrow> ('f, 'm, 'n) world
    \<Rightarrow> (ip_addr list \<times> 'f fetch_budget \<times> ('f, 'm, 'n) world) option" where
  "address_loop resolve n [] out b w = Some (out, b, w)"
| "address_loop resolve n (t # ts) out b w =
    Option.bind (resolve (host_key n t) b w) (\<lambda>(r, b, w).
      let out = out @ (case r of Inl _ \<Rightarrow> [] | Inr res \<Rightarrow> answer_addresses res)
      in if out \<noteq> [] then Some (out, b, w) else address_loop resolve n ts out b w)"

definition resolve_host_addresses :: "'f resolver_config \<Rightarrow> ('f, 'm, 'n) resolve_one \<Rightarrow> name \<Rightarrow> 'f fetch_budget \<Rightarrow> ('f, 'm, 'n) world
    \<Rightarrow> (ip_addr list option \<times> 'f fetch_budget \<times> ('f, 'm, 'n) world) option" where
  "resolve_host_addresses cfg resolve n b w =
    (let some = (\<lambda>out. if out = [] then None else Some out) in
     if hosts_contains (dp_hosts (rc_dns cfg)) n then Some (some (pinned_addresses (dp_hosts (rc_dns cfg)) n), b, w)
     else map_option (\<lambda>(out, b, w). (some out, b, w)) (address_loop resolve n [RrType_A, RrType_AAAA] [] b w))"

fun ns_loop :: "('f, 'm, 'i, 'n) resolver_env \<Rightarrow> 'f resolver_config \<Rightarrow> ('f, 'm, 'n) resolve_one \<Rightarrow> deadline \<Rightarrow> name list \<Rightarrow> endpoint list
    \<Rightarrow> 'f fetch_budget \<Rightarrow> ('f, 'm, 'n) world \<Rightarrow> (endpoint list \<times> 'f fetch_budget \<times> ('f, 'm, 'n) world) option" where
  "ns_loop env cfg resolve dl [] eps b w = Some (eps, b, w)"
| "ns_loop env cfg resolve dl (n # ns) eps b w =
    (case on_net (deadline_expired env dl) w of
       (True, w) \<Rightarrow> Some (eps, b, w)
     | (False, w) \<Rightarrow>
        (case spend_ns_address_lookup 1 b of
           (Inl _, b) \<Rightarrow> Some (eps, b, bump St_fetch_budget_exhausted w)
         | (Inr _, b) \<Rightarrow>
             Option.bind (resolve_host_addresses cfg resolve n b w) (\<lambda>(ips, b, w).
               let eps = eps @ map (\<lambda>ip. \<lparr>ep_ip = ip, ep_port = auth_port (rc_engine cfg), ep_proto = Udp\<rparr>)
                     (case ips of None \<Rightarrow> [] | Some l \<Rightarrow> l)
               in if length eps \<ge> 16 then Some (eps, b, w) else ns_loop env cfg resolve dl ns eps b w)))"

definition resolve_ns_addresses :: "('f, 'm, 'i, 'n) resolver_env \<Rightarrow> 'f resolver_config \<Rightarrow> ('f, 'm, 'n) resolve_one \<Rightarrow> deadline \<Rightarrow> usize
    \<Rightarrow> ('f, 'm, 'n) find_servers" where
  "resolve_ns_addresses env cfg resolve dl ns_depth names b w =
    (if ns_depth \<ge> max_ns_depth (rc_engine cfg) then Some ([], b, w) else ns_loop env cfg resolve dl names [] b w)"

section \<open>Validation\<close>

text \<open>
  The validator calls the resolver back.  Its state is the world, or \<open>None\<close> once a nested call has not
  returned; the flag of its single slot is the field \<open>w_validating\<close>.
\<close>

type_synonym ('f, 'm, 'n) resolve_call = "query_key \<Rightarrow> ('f, 'm, 'n) world \<Rightarrow> (resolution result \<times> ('f, 'm, 'n) world) option"

definition signer_key :: "'f resolver_config \<Rightarrow> name \<Rightarrow> rr_type \<Rightarrow> query_key" where
  "signer_key cfg n t = \<lparr>qk_name = n, qk_type = t, qk_class = RrClass_IN, qk_ecs = None, want_dnssec = ec_dnssec (rc_engine cfg), qk_cd = False\<rparr>"

definition validator_resolve :: "'f resolver_config \<Rightarrow> ('f, 'm, 'n) resolve_call \<Rightarrow> ('f, 'm, 'n) world option Dnssec.resolver" where
  "validator_resolve cfg call n t s = (case s of
      None \<Rightarrow> (Err (error_internal ''no return''), None)
    | Some w \<Rightarrow> (case call (signer_key cfg n t) w of
        None \<Rightarrow> (Err (error_internal ''no return''), None)
      | Some (r, w) \<Rightarrow> (rbind r (\<lambda>res. Ok (res_answers res)), Some w)))"

definition run_validator :: "('f, 'm, 'i, 'n) resolver_env \<Rightarrow> (ts \<Rightarrow> bool \<Rightarrow> ('f, 'm, 'n) world option \<Rightarrow> verification \<times> bool \<times> ('f, 'm, 'n) world option)
    \<Rightarrow> ('f, 'm, 'n) world \<Rightarrow> (verification \<times> ('f, 'm, 'n) world) option" where
  "run_validator env validate w =
    (let (now, w) = (if w_validating w then (0, w) else on_net (en_now env) w) in
     case validate now (w_validating w) (Some (w\<lparr>w_validating := True\<rparr>)) of
       (v, flag, None) \<Rightarrow> None
     | (v, flag, Some w) \<Rightarrow> Some (v, w\<lparr>w_validating := flag\<rparr>))"

definition validate_answers :: "('f, 'm, 'i, 'n) resolver_env \<Rightarrow> 'f resolver_config \<Rightarrow> ('f, 'm, 'n) resolve_call \<Rightarrow> resolution
    \<Rightarrow> ('f, 'm, 'n) world \<Rightarrow> (verification \<times> ('f, 'm, 'n) world) option" where
  "validate_answers env cfg call res w =
    run_validator env (\<lambda>now. validate_resolution_detailed (en_sha256 env) (\<lambda>_. validator_resolve cfg call) now
      (res_answers res) (res_rrsigs res) (res_authorities res) (dnssec_anchored (rc_engine cfg))) w"

definition validate_reply :: "('f, 'm, 'i, 'n) resolver_env \<Rightarrow> 'f resolver_config \<Rightarrow> ('f, 'm, 'n) resolve_call \<Rightarrow> message
    \<Rightarrow> ('f, 'm, 'n) world \<Rightarrow> (verification \<times> ('f, 'm, 'n) world) option" where
  "validate_reply env cfg call resp w =
    run_validator env (\<lambda>now. validate_message_detailed (en_sha256 env) (\<lambda>_. validator_resolve cfg call) now
      resp (dnssec_anchored (rc_engine cfg))) w"

section \<open>Forwarding\<close>

definition on_world :: "(('f, 'm, 'n) world \<Rightarrow> 'a \<times> ('f, 'm, 'n) world) \<Rightarrow> 'a \<Rightarrow> ('f, 'm, 'n) world option \<Rightarrow> 'a \<times> ('f, 'm, 'n) world option" where
  "on_world f dflt s = (case s of None \<Rightarrow> (dflt, None) | Some w \<Rightarrow> (case f w of (a, w) \<Rightarrow> (a, Some w)))"

definition forward_env_of :: "('f, 'm, 'i, 'n) resolver_env \<Rightarrow> 'f resolver_config \<Rightarrow> ('f, 'm, 'n) resolve_call \<Rightarrow> ('f, 'm, 'n) world option forward_env" where
  "forward_env_of env cfg call =
    \<lparr>fe_send = (\<lambda>f bs ms. on_world (on_net (en_forward env f bs ms)) (Err (error_internal ''no return''))),
     fe_draw = on_world (on_net (en_draw env)) 0,
     fe_validate = (\<lambda>resp s. case Option.bind s (validate_reply env cfg call resp) of
        None \<Rightarrow> (slot_taken, None) | Some (v, w) \<Rightarrow> (v, Some w)),
     fe_count = (\<lambda>e. map_option (bump (case e of PolicyRouted \<Rightarrow> St_policy_routed | FallbackTriggered \<Rightarrow> St_fallback_triggered))),
     fe_edns_udp_size = edns_udp_size (rc_engine cfg), fe_dnssec = ec_dnssec (rc_engine cfg), fe_timeout_ms = timeout_ms (rc_engine cfg)\<rparr>"

definition forward_path :: "('f, 'm, 'i, 'n) resolver_env \<Rightarrow> 'f resolver_config \<Rightarrow> ('f, 'm, 'n) resolve_call \<Rightarrow> ('f, 'm, 'n) resolve_one" where
  "forward_path env cfg call key b w = (case forward_resolve (forward_env_of env cfg call) (rc_dns cfg) key (Some w) of
      (r, None) \<Rightarrow> None | (r, Some w) \<Rightarrow> Some (r, b, w))"

section \<open>One resolution\<close>

definition finish_resolution :: "('f, 'm, 'i, 'n) resolver_env \<Rightarrow> 'f resolver_config \<Rightarrow> ('f, 'm, 'n) resolve_call \<Rightarrow> query_key \<Rightarrow> ts \<Rightarrow> resolution
    \<Rightarrow> ('f, 'm, 'n) world \<Rightarrow> (resolution \<times> ('f, 'm, 'n) world) option" where
  "finish_resolution env cfg call key now res w =
    (let res = res\<lparr>served_at := now\<rparr> in
     map_option (\<lambda>(res, w). (res, cache_resolution env cfg key res now w))
       (if ec_dnssec (rc_engine cfg) \<and> \<not> qk_cd key \<and> res_answers res \<noteq> []
        then map_option (\<lambda>(v, w). (res\<lparr>res_validated := is_signature_verified (ver_state v)\<rparr>, w)) (validate_answers env cfg call res w)
        else Some (res, w)))"

text \<open>
  The recursion is through the addresses of name servers, one level deeper each time.  The test inside the
  inner function repeats the guard of \<open>resolve_ns_addresses\<close>, which never calls it at the deepest level.
\<close>

function resolve_inner :: "('f, 'm, 'i, 'n) resolver_env \<Rightarrow> 'f resolver_config \<Rightarrow> ('f, 'm, 'n) resolve_call \<Rightarrow> usize \<Rightarrow> deadline \<Rightarrow> cache_policy
    \<Rightarrow> query_key \<Rightarrow> 'f fetch_budget \<Rightarrow> ('f, 'm, 'n) world \<Rightarrow> (resolution result \<times> 'f fetch_budget \<times> ('f, 'm, 'n) world) option" where
  "resolve_inner env cfg call ns_depth dl pol key b w =
    (case on_net (en_now env) w of (now, w) \<Rightarrow>
     (case (if pol \<noteq> Bypass then resolve_from_cache env cfg key now pol w else (None, w)) of
        (Some res, w) \<Rightarrow> Some (Ok res, b, bump St_cache_hits w)
      | (None, w) \<Rightarrow>
         (let w = bump St_cache_misses w in
          Option.bind
            (if forward_route (rc_dns cfg) key \<noteq> None then forward_path env cfg call key b w
             else iterative_resolve env cfg
               (\<lambda>names b w. resolve_ns_addresses env cfg
                 (\<lambda>k b w. if ns_depth \<ge> max_ns_depth (rc_engine cfg) then None
                          else resolve_inner env cfg call (ns_depth + 1) dl FreshOnly k b w) dl ns_depth names b w) key dl b w)
            (\<lambda>(r, b, w). case r of
               Inl e \<Rightarrow> Some (Err e, b, w)
             | Inr res \<Rightarrow> map_option (\<lambda>(res, w). (Ok res, b, w)) (finish_resolution env cfg call key now res w)))))"
  by pat_completeness auto

termination
  by (relation "measure (\<lambda>(env, cfg, call, ns_depth, dl, pol, key, b, w). max_ns_depth (rc_engine cfg) - ns_depth)") auto

declare resolve_inner.simps [simp del]

section \<open>Client queries\<close>

definition resolve_owned :: "('f, 'm, 'i, 'n) resolver_env \<Rightarrow> 'f resolver_config \<Rightarrow> ('f, 'm, 'n) resolve_call \<Rightarrow> query_key \<Rightarrow> nat \<Rightarrow> nat
    \<Rightarrow> ('f, 'm, 'n) world \<Rightarrow> (resolution result \<times> ('f, 'm, 'n) world) option" where
  "resolve_owned env cfg call key i started w =
    (case on_net (deadline_after env (query_budget_ms (rc_engine cfg))) w of (dl, w) \<Rightarrow>
     map_option (\<lambda>(r, _, w).
         let w = w\<lparr>w_inflight := owner_publish key i r (w_inflight w)\<rparr>;
             (stop, w) = on_net (en_instant env) w
         in (r, count_stat St_resolve_time_us_sum (of_nat ((stop - started) div 1000)) (bump St_resolve_count w)))
       (resolve_inner env cfg call 0 dl Reuse key (budget_new (ec_fetch_limits (rc_engine cfg))) w))"

definition resolve_key_with :: "('f, 'm, 'i, 'n) resolver_env \<Rightarrow> 'f resolver_config \<Rightarrow> ('f, 'm, 'n) resolve_call \<Rightarrow> ('f, 'm, 'n) resolve_call" where
  "resolve_key_with env cfg call key w =
    (let (started, w) = on_net (en_instant env) w;
         (now, w) = on_net (en_now env) w;
         w = bump St_queries w
     in if is_blocked (rc_policy cfg) (qk_name key) then
          Some (Err (error_new Policy ''name blocked by policy''), bump St_policy_blocked w)
        else case local_answer (rc_dns cfg) key now w of
          (Some res, w) \<Rightarrow> Some (Ok res, w)
        | (None, w) \<Rightarrow>
           (let w = observe env (ObserveQuery (qk_name key) now) w in
            case inflight_claim key (w_inflight w) of
              (Waiter i, t) \<Rightarrow> map_option (\<lambda>r. (r, bump St_coalesced (w\<lparr>w_inflight := t\<rparr>))) (slot_read i t)
            | (Owner i, t) \<Rightarrow> resolve_owned env cfg call key i started (w\<lparr>w_inflight := t\<rparr>)))"

text \<open>
  The validator's own queries run while its slot is taken, so validation inside them returns at once and
  never calls back: the innermost resolver is not used.
\<close>

definition resolve_nested :: "('f, 'm, 'i, 'n) resolver_env \<Rightarrow> 'f resolver_config \<Rightarrow> ('f, 'm, 'n) resolve_call" where
  "resolve_nested env cfg = resolve_key_with env cfg (\<lambda>_ _. None)"

definition resolve_key :: "('f, 'm, 'i, 'n) resolver_env \<Rightarrow> 'f resolver_config \<Rightarrow> ('f, 'm, 'n) resolve_call" where
  "resolve_key env cfg = resolve_key_with env cfg (resolve_nested env cfg)"

definition resolve_name :: "('f, 'm, 'i, 'n) resolver_env \<Rightarrow> 'f resolver_config \<Rightarrow> name \<Rightarrow> rr_type
    \<Rightarrow> ('f, 'm, 'n) world \<Rightarrow> (resolution result \<times> ('f, 'm, 'n) world) option" where
  "resolve_name env cfg n t w = resolve_key env cfg (signer_key cfg n t) w"

definition error_rcode :: "error_kind \<Rightarrow> rcode" where
  "error_rcode k = (case k of
      NxDomain \<Rightarrow> Rcode_NXDOMAIN | NoData \<Rightarrow> Rcode_NOERROR | Policy \<Rightarrow> Rcode 5 | RateLimited \<Rightarrow> Rcode 5 | _ \<Rightarrow> Rcode_SERVFAIL)"

definition admit_client :: "('f, 'm, 'i, 'n) resolver_env \<Rightarrow> ip_addr option \<Rightarrow> ts \<Rightarrow> ('f, 'm, 'n) world \<Rightarrow> bool \<times> ('f, 'm, 'n) world" where
  "admit_client env client now w = (case client of
      None \<Rightarrow> (True, w)
    | Some ip \<Rightarrow> (case client_allowed (en_levels env) ip now (w_limiter w) of (ok, l) \<Rightarrow> (ok, w\<lparr>w_limiter := l\<rparr>)))"

definition handle_query :: "('f, 'm, 'i, 'n) resolver_env \<Rightarrow> 'f resolver_config \<Rightarrow> message \<Rightarrow> ip_addr option
    \<Rightarrow> ('f, 'm, 'n) world \<Rightarrow> (message \<times> ('f, 'm, 'n) world) option" where
  "handle_query env cfg query client w =
    (let (now, w) = on_net (en_now env) w in
     case validate_query (rc_policy cfg) query of
       Inl _ \<Rightarrow> Some (error_response query (Rcode 1), bump St_policy_blocked w)
     | Inr _ \<Rightarrow> (case admit_client env client now w of
         (False, w) \<Rightarrow> Some (error_response query (Rcode 5), bump St_rate_limited w)
       | (True, w) \<Rightarrow> (case query_key_from_message query of
           None \<Rightarrow> Some (error_response query (Rcode 1), w)
         | Some key \<Rightarrow> map_option (\<lambda>(r, w). case r of
               Inr res \<Rightarrow> (build_response (dnssec_anchored (rc_engine cfg)) query res, w)
             | Inl e \<Rightarrow> (error_response query (error_rcode (kind e)), bump St_errors w))
             (resolve_key env cfg key w))))"

section \<open>Background work\<close>

definition refresh_key :: "('f, 'm, 'i, 'n) resolver_env \<Rightarrow> 'f resolver_config \<Rightarrow> cache_key \<Rightarrow> ('f, 'm, 'n) world
    \<Rightarrow> (unit result \<times> ('f, 'm, 'n) world) option" where
  "refresh_key env cfg k w =
    (let qk = \<lparr>qk_name = ck_name k, qk_type = ck_type k, qk_class = ck_class k, qk_ecs = ck_ecs k,
               want_dnssec = ec_dnssec (rc_engine cfg), qk_cd = False\<rparr>
     in case on_net (deadline_after env (query_budget_ms (rc_engine cfg))) w of (dl, w) \<Rightarrow>
        map_option (\<lambda>(r, _, w). case r of
            Inl e \<Rightarrow> (Err e, w)
          | Inr res \<Rightarrow> (case on_net (en_now env) w of (now, w) \<Rightarrow> (Ok (), cache_resolution env cfg qk res now w)))
          (resolve_inner env cfg (resolve_nested env cfg) 0 dl Bypass qk (budget_new (ec_fetch_limits (rc_engine cfg))) w))"

text \<open>The body of a refresh thread, for a key taken from the spawned ones: the slot is released when it ends.\<close>

definition run_refresh :: "('f, 'm, 'i, 'n) resolver_env \<Rightarrow> 'f resolver_config \<Rightarrow> cache_key \<Rightarrow> ('f, 'm, 'n) world
    \<Rightarrow> ('f, 'm, 'n) world option" where
  "run_refresh env cfg k w =
    map_option (\<lambda>(r, w).
        let w = (case r of
              Inr _ \<Rightarrow> w
            | Inl _ \<Rightarrow> (case on_net (en_now env) w of (now, w) \<Rightarrow> on_cache env (CacheFailureOp k now) w))
        in w\<lparr>w_refreshing := w_refreshing w - 1, w_spawned := remove1 k (w_spawned w)\<rparr>)
      (refresh_key env cfg k w)"

text \<open>
  One round of the maintenance thread; the refresh candidates the value scheduler selects are an argument.
\<close>

definition maintain_tables :: "('f, 'm, 'i, 'n) resolver_env \<Rightarrow> 'f resolver_config \<Rightarrow> ts \<Rightarrow> ('f, 'm, 'n) world \<Rightarrow> ('f, 'm, 'n) world" where
  "maintain_tables env cfg now w =
    (let w = on_cache env (CacheSweepOp now) w;
         w = w\<lparr>w_aliases := alias_prune now 0 (w_aliases w)\<rparr>;
         w = gauge_stat St_alias_edges (of_nat (ag_edges (w_aliases w))) w
     in case (dp_fake_ip (rc_dns cfg), w_fake_ip w) of
          (Some _, Some pool) \<Rightarrow>
           (let pool = snd (pool_cleanup now pool) in
            gauge_stat St_fake_ip_evicted (pool_evicted pool)
              (gauge_stat St_fake_ip_entries (of_nat (pool_len pool)) (w\<lparr>w_fake_ip := Some pool\<rparr>)))
        | _ \<Rightarrow> w)"

definition note_schedule :: "'f resolver_config \<Rightarrow> cache_key list \<Rightarrow> ('f, 'm, 'n) world \<Rightarrow> ('f, 'm, 'n) world" where
  "note_schedule cfg candidates w =
    (let w = (if decorrelate_refresh (rc_engine cfg) then w else bump St_refresh_undecorrelated w)
     in if candidates \<noteq> [] then count_stat St_refresh_scheduled (of_nat (length candidates)) w else w)"

definition maintenance_tick :: "('f, 'm, 'i, 'n) resolver_env \<Rightarrow> 'f resolver_config \<Rightarrow> cache_key list \<Rightarrow> ('f, 'm, 'n) world \<Rightarrow> ('f, 'm, 'n) world" where
  "maintenance_tick env cfg candidates w =
    (case on_net (en_now env) w of (now, w) \<Rightarrow>
      fold (\<lambda>k. refresh_with_dependents env cfg k (max_chain_refresh cfg)) candidates
        (note_schedule cfg candidates (maintain_tables env cfg now w)))"

end
