(* ===== verification/Callbacks.thy ===== *)
theory Callbacks
  imports Forward
begin

text \<open>
  The validator and the forwarder call back into the resolver.  What they promise of its state: a property that
  every callback keeps is kept by the whole run.
\<close>

section \<open>The validator\<close>

locale validator_state =
  fixes resolve :: "'s resolver" and Q :: "'s \<Rightarrow> bool"
  assumes resolve_keeps: "resolve n t s = (r, s') \<Longrightarrow> Q s \<Longrightarrow> Q s'"
begin

lemma key_is_anchored_keeps: "key_is_anchored h resolve signer key s = (r, s') \<Longrightarrow> Q s \<Longrightarrow> Q s'"
  by (auto simp: key_is_anchored_def split: prod.splits sum.splits dest: resolve_keeps)

lemma anchored_key_keeps: "anchored_key h resolve records sigs signer now keys s = (r, s') \<Longrightarrow> Q s \<Longrightarrow> Q s'"
proof (induction keys arbitrary: s)
  case (Cons key keys)
  obtain a s1 where "key_is_anchored h resolve signer key s = (a, s1)" by fastforce
  with Cons show ?case by (auto split: if_splits bool.splits dest: key_is_anchored_keeps)
qed simp

lemma validate_group_keeps:
  assumes "validate_group h resolve records sigs now s = (r, s')" and "Q s"
  shows "Q s'"
proof (cases "case sigs of [] \<Rightarrow> None | f # _ \<Rightarrow> rrsig_signer f")
  case None
  with assms show ?thesis by (auto simp: validate_group_def split: list.splits)
next
  case (Some signer)
  obtain a s1 where a: "resolve signer RrType_DNSKEY s = (a, s1)" by fastforce
  have "Q s1" using resolve_keeps [OF a assms(2)] .
  with assms(1) a Some show ?thesis
    by (auto simp: validate_group_def Let_def split: list.splits sum.splits if_splits prod.splits bool.splits
        dest: anchored_key_keeps)
qed

lemma verify_groups_keeps: "verify_groups h resolve sigs now groups tally s = (r, s') \<Longrightarrow> Q s \<Longrightarrow> Q s'"
proof (induction groups arbitrary: tally s)
  case (Cons g groups)
  obtain owner t members where g: "g = ((owner, t), members)" by (metis surj_pair)
  obtain v s1 where v: "validate_group h resolve members (covering sigs owner t) now s = (v, s1)" by fastforce
  have "Q s1" using validate_group_keeps [OF v Cons.prems(2)] .
  with Cons g v show ?case by (cases tally) (auto simp: Let_def split: if_splits)
qed simp

lemma verify_section_keeps: "verify_section h resolve records sigs now s = (r, s') \<Longrightarrow> Q s \<Longrightarrow> Q s'"
  by (auto simp: verify_section_def Let_def split: if_splits prod.splits dest: verify_groups_keeps)

lemma verify_chain_keeps:
  assumes "verify_chain h resolve now ans sigs auth anchored s = (r, s')" and "Q s"
  shows "Q s'"
proof -
  obtain v s1 where v: "verify_section h resolve ans sigs (chain_secs now) s = (v, s1)" by fastforce
  have "Q s1" using verify_section_keeps [OF v assms(2)] .
  with assms(1) v show ?thesis
    by (auto simp: verify_chain_def Let_def split: if_splits prod.splits dest: verify_section_keeps)
qed

lemma guarded_keeps:
  assumes "\<And>flag s r s'. run flag s = (r, s') \<Longrightarrow> Q s \<Longrightarrow> Q s'"
  shows "guarded validating run s = (v, flag, s') \<Longrightarrow> Q s \<Longrightarrow> Q s'"
  by (auto simp: guarded_def split: if_splits prod.splits dest: assms)

lemma resolution_keeps:
  "validate_resolution_detailed h (\<lambda>_. resolve) now ans sigs auth anchored validating s = (v, flag, s') \<Longrightarrow> Q s \<Longrightarrow> Q s'"
  by (auto simp: validate_resolution_detailed_def split: if_splits dest: guarded_keeps [rotated] verify_chain_keeps)

lemma message_keeps:
  "validate_message_detailed h (\<lambda>_. resolve) now resp anchored validating s = (v, flag, s') \<Longrightarrow> Q s \<Longrightarrow> Q s'"
  by (auto simp: validate_message_detailed_def Let_def split: if_splits prod.splits dest: guarded_keeps [rotated] verify_chain_keeps)

end

section \<open>The forwarder\<close>

locale forward_state =
  fixes fenv :: "'s forward_env" and Q :: "'s \<Rightarrow> bool"
  assumes send_keeps: "fe_send fenv f bs ms s = (r, s') \<Longrightarrow> Q s \<Longrightarrow> Q s'"
    and draw_keeps: "fe_draw fenv s = (x, s') \<Longrightarrow> Q s \<Longrightarrow> Q s'"
    and validate_keeps: "fe_dnssec fenv \<Longrightarrow> fe_validate fenv resp s = (v, s') \<Longrightarrow> Q s \<Longrightarrow> Q s'"
    and count_keeps: "Q s \<Longrightarrow> Q (fe_count fenv e s)"
begin

lemma exchange_keeps: "exchange_loop (fe_send fenv) grp query bs ms lerr s = (r, s') \<Longrightarrow> Q s \<Longrightarrow> Q s'"
proof (induction grp arbitrary: lerr s)
  case (Cons f fs)
  obtain a s1 where a: "fe_send fenv f bs ms s = (a, s1)" by fastforce
  have "Q s1" using send_keeps [OF a Cons.prems(2)] .
  with Cons a show ?case by (auto split: sum.splits)
qed simp

lemma forward_once_keeps:
  assumes "forward_once fenv key grp s = (r, s')" and "Q s"
  shows "Q s'"
proof -
  obtain q s1 where q: "build_forward_query key (fe_edns_udp_size fenv) (fe_dnssec fenv) (fe_draw fenv) s = (q, s1)" by fastforce
  have q1: "Q s1" using q assms(2) by (auto simp: build_forward_query_def next_u32_def Let_def split: prod.splits dest: draw_keeps)
  show ?thesis
  proof (cases "to_bytes q")
    case (Inl e)
    with assms(1) q q1 show ?thesis by (simp add: forward_once_def)
  next
    case (Inr bs)
    obtain x s2 where x: "exchange_with (fe_send fenv) grp q bs (fe_timeout_ms fenv) s1 = (x, s2)" by fastforce
    have "Q s2" using exchange_keeps x q1 by (simp add: exchange_with_def)
    with assms(1) q Inr x show ?thesis
      by (auto simp: forward_once_def split: sum.splits if_splits prod.splits dest: validate_keeps)
  qed
qed

lemma forward_resolve_keeps:
  assumes "forward_resolve fenv dns key s = (r, s')" and "Q s"
  shows "Q s'"
proof (cases "forward_route dns key")
  case None
  with assms show ?thesis by (simp add: forward_resolve_def)
next
  case (Some grp)
  obtain x s1 where x: "forward_once fenv key grp s = (x, s1)" by fastforce
  have "Q s1" using forward_once_keeps [OF x assms(2)] .
  with assms(1) Some x show ?thesis
    by (auto simp: forward_resolve_def Let_def split: sum.splits if_splits prod.splits intro!: count_keeps
        dest!: forward_once_keeps)
qed

end

end
