(* ===== verification/Resolver_Inv.thy ===== *)
theory Resolver_Inv
  imports Resolver Fakeip_Inv Callbacks
begin

text \<open>
  What the resolver keeps, proved once for any invariant of budget and state that its elementary updates keep
  (locale \<open>run_invariant\<close>): every composite operation down to \<open>resolve_inner\<close> keeps it too.  The instances are in
  \<open>Resolver_Correct\<close>.
\<close>

section \<open>Elementary updates\<close>

definition finds_kept :: "('f fetch_budget \<Rightarrow> ('f, 'm, 'n) world \<Rightarrow> bool) \<Rightarrow> ('f, 'm, 'n) find_servers \<Rightarrow> bool" where
  "finds_kept P f \<longleftrightarrow> (\<forall>names b w eps b' w'. f names b w = Some (eps, b', w') \<longrightarrow> P b w \<longrightarrow> P b' w')"

definition one_kept :: "('f fetch_budget \<Rightarrow> ('f, 'm, 'n) world \<Rightarrow> bool) \<Rightarrow> ('f, 'm, 'n) resolve_one \<Rightarrow> bool" where
  "one_kept P g \<longleftrightarrow> (\<forall>k b w r b' w'. g k b w = Some (r, b', w') \<longrightarrow> P b w \<longrightarrow> P b' w')"

text \<open>Induction over the iterations of a walk that ends.\<close>

lemma walk_loop_induct [consumes 1, case_names Return Break Continue]:
  assumes "walk_loop env cfg f key dl now it b w = Some (r, b', w')"
    and "\<And>it b w e b' w'. walk_step env cfg f key dl now it b w = Some (Return e, b', w') \<Longrightarrow> P it b w (Err e) b' w'"
    and "\<And>it b w it' b' w'. walk_step env cfg f key dl now it b w = Some (Break it', b', w') \<Longrightarrow> P it b w (Ok it') b' w'"
    and "\<And>it b w it1 b1 w1 r b' w'. walk_step env cfg f key dl now it b w = Some (Continue it1, b1, w1) \<Longrightarrow>
      P it1 b1 w1 r b' w' \<Longrightarrow> P it b w r b' w'"
  shows "P it b w r b' w'"
proof -
  let ?Q = "\<lambda>env' cfg' f' key' dl' now' it b w y. env' = env \<and> cfg' = cfg \<and> f' = f \<and> key' = key \<and> dl' = dl \<and> now' = now \<longrightarrow>
    P it b w (fst y) (fst (snd y)) (snd (snd y))"
  have "?Q env cfg f key dl now it b w (r, b', w')"
  proof (rule walk_loop.raw_induct [where P = ?Q])
    show "walk_loop env cfg f key dl now it b w = Some (r, b', w')" by (rule assms(1))
  next
    fix loop env' cfg' f' key' dl' now' it b w y
    assume IH: "\<And>env' cfg' f' key' dl' now' it b w y. loop env' cfg' f' key' dl' now' it b w = Some y \<Longrightarrow> ?Q env' cfg' f' key' dl' now' it b w y"
      and eq: "Option.bind (walk_step env' cfg' f' key' dl' now' it b w) (\<lambda>(f, b, w). case f of
          Return e \<Rightarrow> Some (Err e, b, w) | Break it \<Rightarrow> Some (Ok it, b, w)
        | Continue it \<Rightarrow> loop env' cfg' f' key' dl' now' it b w) = Some y"
    show "?Q env' cfg' f' key' dl' now' it b w y"
    proof
      assume same: "env' = env \<and> cfg' = cfg \<and> f' = f \<and> key' = key \<and> dl' = dl \<and> now' = now"
      with eq obtain fl b1 w1 where s: "walk_step env cfg f key dl now it b w = Some (fl, b1, w1)" by (auto simp: bind_eq_Some_conv)
      show "P it b w (fst y) (fst (snd y)) (snd (snd y))"
      proof (cases fl)
        case (Continue it1)
        with s eq same have "loop env cfg f key dl now it1 b1 w1 = Some y" by simp
        from IH [OF this] have "P it1 b1 w1 (fst y) (fst (snd y)) (snd (snd y))" by simp
        with assms(4) s Continue show ?thesis by blast
      qed (use s eq same assms(2,3) in auto)
    qed
  qed
  then show ?thesis by simp
qed

locale run_invariant =
  fixes env :: "('f, 'm, 'i, 'n) resolver_env" and cfg :: "'f resolver_config" and call :: "('f, 'm, 'n) resolve_call"
    and inv :: "'f fetch_budget \<Rightarrow> ('f, 'm, 'n) world \<Rightarrow> bool"
  assumes net: "inv b w \<Longrightarrow> inv b (w\<lparr>w_net := n\<rparr>)"
    and stat: "st \<noteq> St_upstream_queries \<Longrightarrow> inv b w \<Longrightarrow> inv b (w\<lparr>w_stats := (w_stats w)(st := v)\<rparr>)"
    and cache: "\<not> is_restore x \<Longrightarrow> inv b w \<Longrightarrow> inv b (on_cache env x w)"
    and linked: "inv b w \<Longrightarrow> inv b (w\<lparr>w_aliases := alias_apply y (w_aliases w)\<rparr>)"
    and slots: "inv b w \<Longrightarrow> inv b (w\<lparr>w_refreshing := r\<rparr>)" "inv b w \<Longrightarrow> inv b (w\<lparr>w_spawned := ks\<rparr>)"
    and charge: "inv b w \<Longrightarrow> spend_subquery b = (Inr u, b') \<Longrightarrow> inv b' (bump St_upstream_queries w)"
    and delegation: "inv b w \<Longrightarrow> spend_delegation b = (rd, b') \<Longrightarrow> inv b' w"
    and lookups: "inv b w \<Longrightarrow> spend_ns_address_lookup k b = (rl, b') \<Longrightarrow> inv b' w"
    and octets: "inv b w \<Longrightarrow> spend_bytes c b = (rb, b') \<Longrightarrow> inv b' w"
    and referral: "inv b w \<Longrightarrow> admit_referral thin p q s b = (ra, b') \<Longrightarrow> inv b' w"
    and answers_validated: "ec_dnssec (rc_engine cfg) \<Longrightarrow> inv b w \<Longrightarrow> validate_answers env cfg call res w = Some (v1, w1) \<Longrightarrow> inv b w1"
    and reply_validated: "ec_dnssec (rc_engine cfg) \<Longrightarrow> inv b w \<Longrightarrow> validate_reply env cfg call resp w = Some (v2, w2) \<Longrightarrow> inv b w2"
begin

lemma count_kept: "st \<noteq> St_upstream_queries \<Longrightarrow> inv b w \<Longrightarrow> inv b (count_stat st n w)"
  by (simp add: count_stat_def stat)

lemma on_net_kept: "on_net f w = (r, w') \<Longrightarrow> inv b w \<Longrightarrow> inv b w'"
  by (auto simp: on_net_def net split: prod.splits)

lemma observe_kept: "inv b w \<Longrightarrow> inv b (observe env x w)"
  by (simp add: observe_def net)

lemma world_lookup_kept: "world_lookup env k now w = (r, w') \<Longrightarrow> inv b w \<Longrightarrow> inv b w'"
  by (auto simp: world_lookup_def cache)

lemma link_kept: "inv b w \<Longrightarrow> inv b (link_alias n target t c now w)"
  using linked [of b w "OpLink (cache_key_plain n RrType_CNAME c) (cache_key_plain target t c) now"] by (simp add: link_alias_def)

lemma fold_kept: "(\<And>x w. inv b w \<Longrightarrow> inv b (f x w)) \<Longrightarrow> inv b w \<Longrightarrow> inv b (fold f xs w)"
  by (induction xs arbitrary: w) auto

lemmas elementary = count_kept observe_kept cache link_kept slots
lemmas threaded = on_net_kept world_lookup_kept

section \<open>The cache and the refreshes\<close>

lemma acquire_kept: "acquire_refresh_slot cfg w = (r, w') \<Longrightarrow> inv b w \<Longrightarrow> inv b w'"
  by (auto simp: acquire_refresh_slot_def slots split: if_splits)

lemma queue_kept: "queue_background_refresh env cfg k w = (r, w') \<Longrightarrow> inv b w \<Longrightarrow> inv b w'"
  by (auto simp: queue_background_refresh_def Let_def split: if_splits prod.splits bool.splits
      intro!: elementary dest!: on_net_kept acquire_kept)

lemma dependents_kept: "refresh_dependents env cfg n q ks w = (r, w') \<Longrightarrow> inv b w \<Longrightarrow> inv b w'"
proof (induction ks arbitrary: q w)
  case (Cons k ks)
  obtain ok w1 where "queue_background_refresh env cfg k w = (ok, w1)" by fastforce
  with Cons show ?case by (auto split: if_splits dest: queue_kept)
qed simp

lemma refresh_kept: "inv b w \<Longrightarrow> inv b (refresh_with_dependents env cfg k n w)"
proof -
  assume i: "inv b w"
  obtain r1 w1 where q: "queue_background_refresh env cfg k w = (r1, w1)" by fastforce
  obtain r2 w2 where d: "refresh_dependents env cfg n 0 (dependents (w_aliases w1) k) w1 = (r2, w2)" by fastforce
  have "inv b w2" using dependents_kept [OF d queue_kept [OF q i]] .
  then show ?thesis by (simp add: refresh_with_dependents_def Let_def q d count_kept)
qed

lemma take_kind_kept: "take_kind fresh key now knd cw w = (r, w') \<Longrightarrow> inv b w \<Longrightarrow> inv b w'"
  by (auto simp: take_kind_def link_kept split: entry_kind.splits if_splits option.splits list.splits)

lemma alias_hit_kept: "alias_hit env key now target ttl cw w = (r, w') \<Longrightarrow> inv b w \<Longrightarrow> inv b w'"
  by (auto simp: alias_hit_def Let_def split: prod.splits lookup_outcome.splits intro!: link_kept dest!: world_lookup_kept)

lemma cached_step_kept: "cached_step env cfg key now pol cw w = (r, w') \<Longrightarrow> inv b w \<Longrightarrow> inv b w'"
  by (auto simp: cached_step_def split: prod.splits lookup_outcome.splits if_splits
      dest!: world_lookup_kept dest: take_kind_kept alias_hit_kept)

lemma cache_loop_kept: "cache_loop env cfg key now pol cw w = (r, w') \<Longrightarrow> inv b w \<Longrightarrow> inv b w'"
proof (induction "Suc (max_cname_depth (rc_engine cfg)) - cw_depth cw" arbitrary: cw w rule: less_induct)
  case less
  obtain f w1 where f: "cached_step env cfg key now pol cw w = (f, w1)" by fastforce
  have i: "inv b w1" using cached_step_kept [OF f less.prems(2)] .
  show ?case
  proof (cases "cw_depth cw > max_cname_depth (rc_engine cfg)")
    case True
    with less.prems show ?thesis by (simp add: cache_loop.simps)
  next
    case False
    note loop = cache_loop.simps [of env cfg key now pol cw w]
    show ?thesis
    proof (cases f)
      case (Follow x)
      with f have "cw_depth x = cw_depth cw + 1" by (auto dest: cached_step_deeper)
      with False have "Suc (max_cname_depth (rc_engine cfg)) - cw_depth x < Suc (max_cname_depth (rc_engine cfg)) - cw_depth cw"
        by simp
      from less.hyps [OF this _ i] less.prems(1) False f Follow show ?thesis by (simp add: loop)
    qed (use less.prems(1) False f i in \<open>auto simp: loop\<close>)
  qed
qed

lemma resolve_from_cache_kept: "resolve_from_cache env cfg key now pol w = (r, w') \<Longrightarrow> inv b w \<Longrightarrow> inv b w'"
  by (auto simp: resolve_from_cache_def split: prod.splits option.splits if_splits bool.splits
      intro!: fold_kept refresh_kept count_kept dest!: cache_loop_kept on_net_kept)

lemma cache_group_kept: "inv b w \<Longrightarrow> inv b (cache_group env cfg key res now inputs grp w)"
  by (auto simp: cache_group_def Let_def cache split: prod.splits sum.splits)

lemma cache_negative_kept: "inv b w \<Longrightarrow> inv b (cache_negative env key res now inputs w)"
  by (auto simp: cache_negative_def Let_def cache split: option.splits)

lemma cache_resolution_kept: "inv b w \<Longrightarrow> inv b (cache_resolution env cfg key res now w)"
  by (auto simp: cache_resolution_def Let_def intro!: cache_negative_kept fold_kept cache_group_kept)

section \<open>Exchanges\<close>

lemma tcp_retry_kept: "tcp_retry env cfg ep q qm m ms rtt now w = (r, w') \<Longrightarrow> inv b w \<Longrightarrow> inv b w'"
  by (auto simp: tcp_retry_def Let_def split: if_splits prod.splits sum.splits intro!: observe_kept dest!: on_net_kept)

lemma judge_kept: "judge_response env n se ep m rtt now w = (r, w') \<Longrightarrow> inv b w \<Longrightarrow> inv b w'"
  by (auto simp: judge_response_def split: if_splits intro!: observe_kept count_kept)

lemma accept_kept: "accept_reply env cfg n se ep q bs ms rtt now w = (r, w') \<Longrightarrow> inv b w \<Longrightarrow> inv b w'"
  by (auto simp: accept_reply_def Let_def split: if_splits prod.splits sum.splits option.splits dest!: tcp_retry_kept dest: judge_kept)

lemma subquery_refused: "spend_subquery b = (Inl e, b') \<Longrightarrow> b' = b"
  by (auto simp: spend_subquery_def split: if_splits)

lemma attempt_kept:
  assumes "attempt_once env cfg key n t se dl ep now b w = (r, b', w')" and "inv b w"
  shows "inv b' w'"
proof -
  obtain c b1 where c: "spend_subquery b = (c, b1)" by fastforce
  show ?thesis
  proof (cases c)
    case (Inl e)
    with assms c subquery_refused [of b e b1] show ?thesis by (auto simp: attempt_once_def intro!: count_kept)
  next
    case (Inr u)
    with assms(2) c charge have i0: "inv b1 (bump St_upstream_queries w)" by blast
    obtain x w1 where x: "on_net (next_u32 (en_draw env)) (bump St_upstream_queries w) = (x, w1)" by fastforce
    have i1: "inv b1 w1" using on_net_kept [OF x i0] .
    obtain q w2 where q: "on_net (build_query (en_draw env) (ucast (x AND 0xffff)) n t False (Some (query_spec cfg key))
        (use_0x20 (rc_engine cfg))) w1 = (q, w2)" by fastforce
    have i2: "inv b1 w2" using on_net_kept [OF q i1] .
    obtain ms w3 where ms: "on_net (attempt_timeout_ms env dl (timeout_ms (rc_engine cfg))) w2 = (ms, w3)" by fastforce
    have i3: "inv b1 w3" using on_net_kept [OF ms i2] .
    note unfolded = assms(1) [unfolded attempt_once_def Let_def c Inr x q ms prod.case sum.case]
    show ?thesis
    proof (cases ms)
      case None
      with unfolded i3 show ?thesis by simp
    next
      case (Some ms')
      obtain u1 w4 where u1: "on_net (en_instant env) w3 = (u1, w4)" by fastforce
      have i4: "inv b1 w4" using on_net_kept [OF u1 i3] .
      obtain e w5 where e: "on_net (en_exchange env ep (oq_bytes q) ms') w4 = (e, w5)" by fastforce
      have i5: "inv b1 w5" using on_net_kept [OF e i4] .
      note unfolded = unfolded [unfolded Some option.case u1 prod.case e]
      show ?thesis
      proof (cases e)
        case (Inl x)
        with unfolded i5 show ?thesis by (auto intro!: observe_kept count_kept)
      next
        case (Inr bs)
        obtain u2 w6 where u2: "on_net (en_instant env) w5 = (u2, w6)" by fastforce
        have i6: "inv b1 w6" using on_net_kept [OF u2 i5] .
        obtain y b2 where y: "spend_bytes (of_nat (length (oq_bytes q)) + of_nat (length bs)) b1 = (y, b2)" by fastforce
        have i7: "inv b2 w6" using octets [OF i6 y] .
        from unfolded [unfolded Inr sum.case u2 prod.case y] i7 show ?thesis
          by (cases y) (auto split: prod.splits intro!: count_kept dest: accept_kept)
      qed
    qed
  qed
qed

lemma server_loop_kept:
  "server_loop env cfg key n t se dl ep now left tot lerr b w = (r, tot', lerr', b', w') \<Longrightarrow> inv b w \<Longrightarrow> inv b' w'"
proof (induction left arbitrary: tot lerr b w)
  case (Suc left)
  obtain a b1 w1 where a: "attempt_once env cfg key n t se dl ep now b w = (a, b1, w1)" by (metis prod_cases3)
  with Suc show ?case by (auto split: if_splits attempt.splits dest: attempt_kept)
qed simp

lemma servers_loop_kept:
  "servers_loop env cfg key n t se dl now eps tot lerr b w = (r, b', w') \<Longrightarrow> inv b w \<Longrightarrow> inv b' w'"
proof (induction eps arbitrary: tot lerr b w)
  case (Cons ep eps)
  obtain x w1 where x: "on_net (deadline_expired env dl) w = (x, w1)" by fastforce
  have i: "inv b w1" using on_net_kept [OF x Cons.prems(2)] .
  obtain r1 tot1 lerr1 b2 w2 where l: "server_loop env cfg key n t se dl ep now (unat (max_attempts_per_server (rc_engine cfg))) tot lerr b w1
      = (r1, tot1, lerr1, b2, w2)" by (metis prod_cases5)
  have i2: "inv b2 w2" using server_loop_kept [OF l i] .
  with i x l Cons show ?case by (auto split: bool.splits option.splits)
qed simp

lemma query_servers_kept: "query_servers env cfg servers n t key dl se b w = (r, b', w') \<Longrightarrow> inv b w \<Longrightarrow> inv b' w'"
  by (auto simp: query_servers_def Let_def split: if_splits prod.splits dest!: on_net_kept servers_loop_kept intro!: count_kept)

section \<open>The walk\<close>

lemma chase_kept: "chase_from_cache env key now it w = (r, w') \<Longrightarrow> inv b w \<Longrightarrow> inv b w'"
  by (auto simp: chase_from_cache_def split: if_splits prod.splits lookup_outcome.splits entry_kind.splits dest: world_lookup_kept)

lemma on_cname_kept: "on_cname env cfg key now rec sigs it w = (r, w') \<Longrightarrow> inv b w \<Longrightarrow> inv b w'"
  by (auto simp: on_cname_def Let_def split: option.splits intro!: link_kept cache)

lemma on_negative_kept: "on_negative env key now n code soa it w = (r, w') \<Longrightarrow> inv b w \<Longrightarrow> inv b w'"
  by (auto simp: on_negative_def Let_def cache split: option.splits if_splits)

lemma glue_kept: "inv b w \<Longrightarrow> inv b (cache_glue env cfg key now inputs zone g w)"
  by (auto simp: cache_glue_def cache split: sum.splits)

lemma enter_zone_kept:
  "finds_kept inv f \<Longrightarrow> enter_zone cfg f zone names glue it b w = Some (r, b', w') \<Longrightarrow> inv b w \<Longrightarrow> inv b' w'"
  by (auto simp: enter_zone_def finds_kept_def Let_def split: if_splits bind_splits)

lemma on_referral_kept:
  assumes "finds_kept inv f" and "on_referral env cfg f key now zone ns glue it b w = Some (r, b', w')" and "inv b w"
  shows "inv b' w'"
proof (cases "from_records ns (max_ttl_cap (rc_cache cfg))")
  case (Inl e)
  with assms show ?thesis by (auto simp: on_referral_def Let_def split: if_splits)
next
  case (Inr s)
  let ?inputs = "score_inputs env zone now w"
  let ?w = "fold (cache_glue env cfg key now ?inputs zone) glue
    (on_cache env (CachePositiveOp (cache_key_plain zone RrType_NS (qk_class key)) s now ?inputs False) w)"
  have i: "inv b ?w" using assms(3) by (intro fold_kept glue_kept cache) simp_all
  let ?names = "List.map_filter (\<lambda>r. ns_of (rec_rdata r)) ns"
  obtain a b1 where a: "admit_referral (en_too_thin env) (of_nat (length ?names)) (of_nat (length glue))
      (of_nat (length (filter (\<lambda>n. list_ex (\<lambda>g. rec_name g = n) glue) ?names))) b = (a, b1)" by fastforce
  have i1: "inv b1 ?w" using referral [OF i a] .
  obtain d b2 where d: "spend_delegation b1 = (d, b2)" by fastforce
  have i2: "inv b2 ?w" using delegation [OF i1 d] .
  have below: "\<not> is_strict_subdomain_of zone (it_zone it) \<Longrightarrow> ?thesis"
    using assms(2,3) by (simp add: on_referral_def)
  have "is_strict_subdomain_of zone (it_zone it) \<Longrightarrow> ?thesis"
    using assms(2) i1 i2 enter_zone_kept [OF assms(1) _ i2]
    by (cases a; cases d) (auto simp: on_referral_def Let_def Inr a d intro!: count_kept)
  with below show ?thesis by blast
qed

lemma on_response_kept:
  "finds_kept inv f \<Longrightarrow> on_response env cfg f key now n resp it b w = Some (r, b', w') \<Longrightarrow> inv b w \<Longrightarrow> inv b' w'"
  by (auto simp: on_response_def split: response_kind.splits prod.splits dest: on_cname_kept on_negative_kept on_referral_kept)

lemma walk_exchange_kept:
  assumes "finds_kept inv f" and "walk_exchange env cfg f key dl now it b w = Some (r, b', w')" and "inv b w"
  shows "inv b' w'"
proof -
  let ?n = "next_query_name cfg it" let ?it = "it\<lparr>it_minimized := None\<rparr>"
  obtain q b1 w1 where q: "query_servers env cfg (it_servers ?it) ?n (qk_type key) key dl (?n = it_name ?it) b w = (q, b1, w1)"
    by (metis prod_cases3)
  have i: "inv b1 w1" using query_servers_kept [OF q assms(3)] .
  with assms(2) q show ?thesis
    by (auto simp: walk_exchange_def Let_def split: sum.splits prod.splits
        dest: on_response_kept [OF assms(1) _ observe_kept [OF i]])
qed

lemma walk_step_kept:
  "finds_kept inv f \<Longrightarrow> walk_step env cfg f key dl now it b w = Some (r, b', w') \<Longrightarrow> inv b w \<Longrightarrow> inv b' w'"
  by (auto simp: walk_step_def split: prod.splits if_splits option.splits dest!: on_net_kept chase_kept dest: walk_exchange_kept)

lemma walk_loop_kept:
  assumes "finds_kept inv f" and "walk_loop env cfg f key dl now it b w = Some (r, b', w')"
  shows "inv b w \<Longrightarrow> inv b' w'"
  using assms(2) by (induction rule: walk_loop_induct) (auto dest: walk_step_kept [OF assms(1)])

lemma iterative_kept:
  assumes "finds_kept inv f" and "iterative_resolve env cfg f key dl b w = Some (r, b', w')" and "inv b w"
  shows "inv b' w'"
  using assms(2,3) walk_loop_kept [OF assms(1)]
  by (auto simp: iterative_resolve_def split: prod.splits dest!: on_net_kept)

section \<open>Name servers\<close>

lemma address_loop_kept:
  assumes "one_kept inv g"
  shows "address_loop g n ts out b w = Some (r, b', w') \<Longrightarrow> inv b w \<Longrightarrow> inv b' w'"
proof (induction ts arbitrary: out b w)
  case (Cons t ts)
  then show ?case by (auto simp: Let_def bind_eq_Some_conv split: if_splits prod.splits dest: assms [unfolded one_kept_def, rule_format])
qed simp

lemma host_addresses_kept:
  assumes "one_kept inv g"
    and "resolve_host_addresses cfg g n b w = Some (r, b', w')" and "inv b w"
  shows "inv b' w'"
  using assms(2,3) address_loop_kept [OF assms(1)]
  by (auto simp: resolve_host_addresses_def Let_def simp del: address_loop.simps split: if_splits)

lemma ns_loop_kept:
  assumes g: "one_kept inv g"
  shows "ns_loop env cfg g dl ns eps b w = Some (r, b', w') \<Longrightarrow> inv b w \<Longrightarrow> inv b' w'"
proof (induction ns arbitrary: eps b w)
  case (Cons n ns)
  obtain x w1 where x: "on_net (deadline_expired env dl) w = (x, w1)" by fastforce
  have i1: "inv b w1" using on_net_kept [OF x Cons.prems(2)] .
  obtain y b1 where y: "spend_ns_address_lookup 1 b = (y, b1)" by fastforce
  have i2: "inv b1 w1" using lookups [OF i1 y] .
  show ?case
  proof (cases "x \<or> isl y")
    case True
    with Cons.prems x y i1 i2 show ?thesis by (cases x; cases y) (auto intro!: count_kept)
  next
    case False
    with Cons.prems(1) x y obtain ips b2 w2 where h: "resolve_host_addresses cfg g n b1 w1 = Some (ips, b2, w2)"
      by (cases y) (auto simp: bind_eq_Some_conv)
    have "inv b2 w2" using host_addresses_kept [OF g h i2] .
    with Cons False x y h show ?thesis by (cases y) (auto simp: Let_def split: if_splits)
  qed
qed simp

lemma ns_addresses_kept:
  assumes "one_kept inv g"
  shows "finds_kept inv (resolve_ns_addresses env cfg g dl d)"
  using ns_loop_kept [OF assms] by (auto simp: finds_kept_def resolve_ns_addresses_def split: if_splits)

end

text \<open>The forwarding path is an instance of \<open>forward_state\<close>.\<close>

sublocale run_invariant \<subseteq> fwd: forward_state "forward_env_of env cfg call" "\<lambda>s. \<forall>w. s = Some w \<longrightarrow> inv b w" for b
proof unfold_locales
  fix f bs ms r resp v e x and s s' :: "('f, 'm, 'n) world option"
  show "\<forall>w. s' = Some w \<longrightarrow> inv b w"
    if "fe_send (forward_env_of env cfg call) f bs ms s = (r, s')" "\<forall>w. s = Some w \<longrightarrow> inv b w"
    using that by (cases s) (auto simp: forward_env_of_def on_world_def split: prod.splits dest: on_net_kept)
  show "\<forall>w. s' = Some w \<longrightarrow> inv b w"
    if "fe_draw (forward_env_of env cfg call) s = (x, s')" "\<forall>w. s = Some w \<longrightarrow> inv b w"
    using that by (cases s) (auto simp: forward_env_of_def on_world_def split: prod.splits dest: on_net_kept)
  show "\<forall>w. s' = Some w \<longrightarrow> inv b w"
    if "fe_dnssec (forward_env_of env cfg call)" "fe_validate (forward_env_of env cfg call) resp s = (v, s')" "\<forall>w. s = Some w \<longrightarrow> inv b w"
    using that by (cases s) (auto simp: forward_env_of_def split: option.splits dest: reply_validated)
  show "\<forall>w. fe_count (forward_env_of env cfg call) e s = Some w \<longrightarrow> inv b w" if "\<forall>w. s = Some w \<longrightarrow> inv b w"
    using that by (cases e) (auto simp: forward_env_of_def intro!: count_kept)
qed

context run_invariant
begin

section \<open>Resolutions\<close>

lemma forward_path_kept: "forward_path env cfg call key b w = Some (r, b', w') \<Longrightarrow> inv b w \<Longrightarrow> inv b' w'"
  using fwd.forward_resolve_keeps [of "rc_dns cfg" key "Some w" r "Some w'" b]
  by (auto simp: forward_path_def split: prod.splits option.splits)

lemma finish_kept:
  assumes "finish_resolution env cfg call key now res w = Some (r, w')" and "inv b w"
  shows "inv b w'"
  using assms by (auto simp: finish_resolution_def Let_def cache_resolution_kept split: if_splits dest: answers_validated)

lemma resolve_inner_kept: "resolve_inner env cfg call d dl pol key b w = Some (r, b', w') \<Longrightarrow> inv b w \<Longrightarrow> inv b' w'"
proof (induction "max_ns_depth (rc_engine cfg) - d" arbitrary: d pol key b w r b' w' rule: less_induct)
  case less
  let ?g = "\<lambda>k b w. if d \<ge> max_ns_depth (rc_engine cfg) then None else resolve_inner env cfg call (d + 1) dl FreshOnly k b w"
  let ?find = "\<lambda>names b w. resolve_ns_addresses env cfg ?g dl d names b w"
  have g: "one_kept inv ?g" unfolding one_kept_def
  proof (intro allI impI)
    fix k b w r b' w'
    assume a: "?g k b w = Some (r, b', w')" "inv b w"
    then have "max_ns_depth (rc_engine cfg) - (d + 1) < max_ns_depth (rc_engine cfg) - d" by (auto split: if_splits)
    with less.hyps [OF this] a show "inv b' w'" by (auto split: if_splits)
  qed
  have finds: "finds_kept inv ?find" using ns_addresses_kept [OF g] .
  obtain now w1 where n: "on_net (en_now env) w = (now, w1)" by fastforce
  have i1: "inv b w1" using on_net_kept [OF n less.prems(2)] .
  obtain c w2 where c: "(if pol \<noteq> Bypass then resolve_from_cache env cfg key now pol w1 else (None, w1)) = (c, w2)" by fastforce
  have i2: "inv b w2" using c i1 by (auto split: if_splits dest: resolve_from_cache_kept)
  note eq = less.prems(1) [unfolded resolve_inner.simps [of env cfg call d dl pol key b w] n prod.case c]
  show ?case
  proof (cases c)
    case (Some res)
    with eq i2 show ?thesis by (auto intro!: count_kept)
  next
    case None
    have i3: "inv b (bump St_cache_misses w2)" using i2 by (auto intro!: count_kept)
    let ?path = "if forward_route (rc_dns cfg) key \<noteq> None then forward_path env cfg call key b (bump St_cache_misses w2)
      else iterative_resolve env cfg ?find key dl b (bump St_cache_misses w2)"
    from eq None obtain r3 b3 w3 where p: "?path = Some (r3, b3, w3)"
      and rest: "(case r3 of Inl e \<Rightarrow> Some (Err e, b3, w3)
        | Inr res \<Rightarrow> map_option (\<lambda>(res, w). (Ok res, b3, w)) (finish_resolution env cfg call key now res w3)) = Some (r, b', w')"
      by (auto simp: Let_def bind_eq_Some_conv)
    have "inv b3 w3" using p i3 iterative_kept [OF finds] by (auto split: if_splits dest: forward_path_kept)
    with rest show ?thesis by (auto split: sum.splits dest: finish_kept)
  qed
qed

end

end
