(* ===== verification/Resolver_Total.thy ===== *)
theory Resolver_Total
  imports Resolver_Correct Message_Roundtrip
begin

text \<open>
  The resolver returns.  Replies are parsed messages, so every name the walk follows is well formed; each
  round of the walk follows an alias, descends a referral or asks one label more, and the three are bounded.
  With validation off nothing waits on another call, and every client query is answered.
\<close>

section \<open>Names with fewer labels\<close>

lemma name_tail_labels:
  assumes "wf_name n" and "keep \<le> name_label_count n"
  shows "name_tail n keep = Name (encode_labels (drop (name_label_count n - keep) (name_labels n)))"
proof -
  let ?ls = "drop (name_label_count n - keep) (name_labels n)"
  obtain ls where n: "wf_labels ls" "name_labels n = ls" using assms(1) by (meson wf_nameE)
  have split: "labels_size ls = labels_size (take k ls) + labels_size (drop k ls)" for k
    by (metis append_take_drop_id labels_size_append)
  have v: "list_all valid_label ?ls" "list_all lower_label ?ls"
    using n by (auto simp: wf_labels_def list_all_iff dest: in_set_dropD)
  have size: "labels_size ?ls + 1 \<le> 255" "length ?ls < 127"
    using n split [of "name_label_count n - keep"] by (auto simp: wf_labels_def)
  then have "rust_slice (encode_labels ?ls)" by (simp add: rust_slice_def length_encode_labels)
  from name_from_wire_labels(1) [OF v this size] show ?thesis
    by (simp add: name_tail_def Let_def push_labels_encode)
qed

lemma name_tail_count:
  assumes "wf_name n" and "keep \<le> name_label_count n"
  shows "name_label_count (name_tail n keep) = keep" and "suffix (name_labels (name_tail n keep)) (name_labels n)"
    and "wf_name (name_tail n keep)"
proof -
  let ?ls = "drop (name_label_count n - keep) (name_labels n)"
  obtain ls where n: "wf_labels ls" "name_labels n = ls" using assms(1) by (meson wf_nameE)
  have "labels_size ls = labels_size (take k ls) + labels_size (drop k ls)" for k
    by (metis append_take_drop_id labels_size_append)
  from this [of "name_label_count n - keep"] n have wf: "wf_labels ?ls"
    by (auto simp: wf_labels_def list_all_iff dest: in_set_dropD)
  then have ls: "name_labels (name_tail n keep) = ?ls" by (simp add: name_tail_labels [OF assms] wf_labels_def)
  then have "length (name_labels (name_tail n keep)) = length (name_labels n) - (name_label_count n - keep)" by simp
  with assms(2) show "name_label_count (name_tail n keep) = keep" by (simp add: name_label_count_def name_labels_def)
  show "suffix (name_labels (name_tail n keep)) (name_labels n)" by (simp add: ls suffix_drop)
  show "wf_name (name_tail n keep)" using wf_name_encode [OF wf] by (simp add: name_tail_labels [OF assms])
qed

text \<open>
  What a query reveals: a minimized name is the zone's depth plus one label of the target, and a deeper one
  has one label more.
\<close>

lemma minimized_name_labels:
  assumes "wf_name n"
  shows "suffix (name_labels (minimized_name n zone)) (name_labels n)"
    and "name_label_count (minimized_name n zone) =
      (if name_label_count n \<le> name_label_count zone then name_label_count n else name_label_count zone + 1)"
  using name_tail_count [OF assms] by (auto simp: minimized_name_def)

lemma deepen_minimized_labels:
  assumes "wf_name n"
  shows "suffix (name_labels (deepen_minimized n c)) (name_labels n)"
    and "name_label_count (deepen_minimized n c) = min (name_label_count n) (name_label_count c + 1)"
  using name_tail_count [OF assms] by (auto simp: deepen_minimized_def)

section \<open>Replies are parsed messages\<close>

text \<open>A received datagram or stream frame is a Rust slice.\<close>

definition env_ok :: "('f, 'm, 'i, 'n) resolver_env \<Rightarrow> bool" where
  "env_ok env \<longleftrightarrow> (\<forall>ep q ms s bs s'. en_exchange env ep q ms s = (Ok bs, s') \<longrightarrow> rust_slice bs)"

lemma exchange_slice: "env_ok env \<Longrightarrow> on_net (en_exchange env ep q ms) w = (Inr bs, w') \<Longrightarrow> rust_slice bs"
  by (auto simp: env_ok_def on_net_def split: prod.splits) blast

lemma tcp_retry_ok: "env_ok env \<Longrightarrow> tcp_retry env cfg ep q qm m ms rtt now w = (Some m', w') \<Longrightarrow> message_ok m'"
  by (auto simp: tcp_retry_def Let_def split: if_splits prod.splits sum.splits dest: exchange_slice message_parse_ok)

lemma accept_reply_ok:
  assumes "env_ok env" and "accept_reply env cfg n se ep q bs ms rtt now w = (Reply m' r, w')" and "rust_slice bs"
  shows "message_ok m'"
  using assms by (auto simp: accept_reply_def judge_response_def Let_def
      split: if_splits prod.splits sum.splits option.splits dest: tcp_retry_ok message_parse_ok)

lemma attempt_once_ok:
  assumes "env_ok env" and "attempt_once env cfg key n t se dl ep now b w = (Reply m r, b', w')"
  shows "message_ok m"
  using assms(2) by (auto simp: attempt_once_def Let_def
      split: if_splits prod.splits sum.splits option.splits dest: accept_reply_ok [OF assms(1)] dest!: exchange_slice [OF assms(1)])

lemma server_loop_ok:
  assumes "env_ok env"
  shows "server_loop env cfg key n t se dl ep now left tot lerr b w = (Some (Inr (m, r)), tot', lerr', b', w') \<Longrightarrow> message_ok m"
proof (induction left arbitrary: tot lerr b w)
  case (Suc left)
  obtain a b1 w1 where a: "attempt_once env cfg key n t se dl ep now b w = (a, b1, w1)" by (metis prod_cases3)
  with Suc attempt_once_ok [OF assms] show ?case by (cases a) (auto split: if_splits)
qed simp

lemma servers_loop_ok:
  assumes "env_ok env"
  shows "servers_loop env cfg key n t se dl now eps tot lerr b w = (Inr (m, r), b', w') \<Longrightarrow> message_ok m"
proof (induction eps arbitrary: tot lerr b w)
  case (Cons ep eps)
  obtain x w1 where x: "on_net (deadline_expired env dl) w = (x, w1)" by fastforce
  obtain r1 tot1 lerr1 b2 w2 where l: "server_loop env cfg key n t se dl ep now (unat (max_attempts_per_server (rc_engine cfg))) tot lerr b w1
      = (r1, tot1, lerr1, b2, w2)" by (metis prod_cases5)
  with x Cons server_loop_ok [OF assms] show ?case by (auto split: bool.splits option.splits)
qed simp

lemma query_servers_ok:
  "env_ok env \<Longrightarrow> query_servers env cfg servers n t key dl se b w = (Inr (m, r), b', w') \<Longrightarrow> message_ok m"
  by (auto simp: query_servers_def Let_def split: if_splits prod.splits dest: servers_loop_ok)

section \<open>The walk ends\<close>

definition finds_total :: "('f, 'm, 'n) find_servers \<Rightarrow> bool" where
  "finds_total f \<longleftrightarrow> (\<forall>names b w. list_all wf_name names \<longrightarrow> f names b w \<noteq> None)"

text \<open>How many more labels the next query can gain.\<close>

definition label_gap :: "'f resolver_config \<Rightarrow> walk \<Rightarrow> nat" where
  "label_gap cfg it = (if next_query_name cfg it = it_name it then 0
    else Suc (name_label_count (it_name it) - name_label_count (next_query_name cfg it)))"

definition walk_measure :: "'f resolver_config \<Rightarrow> walk \<Rightarrow> nat \<times> nat \<times> nat" where
  "walk_measure cfg it = (Suc (max_cname_depth (rc_engine cfg)) - it_depth it, Suc (max_referrals (rc_engine cfg)) - it_referrals it, label_gap cfg it)"

definition walk_order :: "'f resolver_config \<Rightarrow> (walk \<times> walk) set" where
  "walk_order cfg = inv_image (less_than <*lex*> less_than <*lex*> less_than) (walk_measure cfg)"

lemma walk_order_wf: "wf (walk_order cfg)"
  by (auto simp: walk_order_def)

lemma deepen_gap:
  assumes "wf_name (it_name it)" and "next_query_name cfg it \<noteq> it_name it"
    and "it_minimized it' = Some (deepen_minimized (it_name it) (next_query_name cfg it))" and "it_name it' = it_name it"
  shows "label_gap cfg it' < label_gap cfg it"
proof -
  let ?q = "next_query_name cfg it"
  have next': "next_query_name cfg it' = deepen_minimized (it_name it) ?q" using assms(3) by (simp add: next_query_name_def)
  show ?thesis
  proof (cases "name_label_count ?q < name_label_count (it_name it)")
    case True
    with next' assms deepen_minimized_labels(2) [OF assms(1), of ?q] show ?thesis by (auto simp: label_gap_def)
  next
    case False
    with next' assms show ?thesis by (simp add: label_gap_def deepen_minimized_def)
  qed
qed

lemma deepen_order:
  assumes "wf_name (it_name it)" and "next_query_name cfg it \<noteq> it_name it"
  shows "(it\<lparr>it_minimized := Some (deepen_minimized (it_name it) (next_query_name cfg it)), it_ecs_scope := x\<rparr>, it) \<in> walk_order cfg"
  using deepen_gap [OF assms, of "it\<lparr>it_minimized := Some (deepen_minimized (it_name it) (next_query_name cfg it)), it_ecs_scope := x\<rparr>"]
  by (simp add: walk_order_def walk_measure_def)

lemma restart_fields [simp]:
  "it_depth (restart_unless_below env cfg n it) = it_depth it" "it_referrals (restart_unless_below env cfg n it) = it_referrals it"
  "it_name (restart_unless_below env cfg n it) = it_name it"
  by (simp_all add: restart_unless_below_def)

lemma on_cname_continue:
  assumes "on_cname env cfg key now rec sigs it w = (Continue it', w')" and "record_ok rec"
  shows "wf_name (it_name it')" and "it_depth it' = it_depth it + 1"
  using assms by (auto simp: on_cname_def Let_def record_ok_def split: option.splits elim!: cname_of.elims)

lemma synthesize_wf:
  assumes "synthesize_dname_cname n owner target = Some s" and "wf_name n" and "wf_name target"
  shows "wf_name s"
proof -
  let ?keep = "length (name_labels n) - name_label_count owner"
  let ?ls = "take ?keep (name_labels n) @ name_labels target"
  have out: "push_labels (push_labels [] (take ?keep (name_labels n))) (name_labels target) @ [0] = encode_labels ?ls"
    unfolding push_labels_encode encode_labels_append by (simp add: push_labels_body)
  have "labels_size (take ?keep (name_labels n)) \<le> labels_size (name_labels n)"
    by (metis append_take_drop_id labels_size_append le_add1)
  moreover have "labels_size (name_labels n) \<le> 255" "labels_size (name_labels target) \<le> 255"
    using assms(2,3) by (auto simp: wf_name_def wf_labels_def)
  ultimately have "rust_slice (encode_labels ?ls)" by (simp add: rust_slice_def length_encode_labels)
  moreover obtain e where "name_from_wire (encode_labels ?ls) 0 = Ok (s, e)"
    using assms(1) unfolding synthesize_dname_cname_def Let_def out by (auto split: if_splits sum.splits)
  ultimately show ?thesis by (rule name_from_wire_wf)
qed

lemma on_dname_continue:
  assumes "on_dname env cfg rec it = Continue it'" and "record_ok rec" and "wf_name (it_name it)"
  shows "wf_name (it_name it')" and "it_depth it' = it_depth it + 1"
  using assms synthesize_wf [of "it_name it" "rec_name rec"]
  by (auto simp: on_dname_def Let_def record_ok_def split: option.splits elim!: dname_of.elims)

lemma deeper_order: "it_depth it' = it_depth it + 1 \<Longrightarrow> it_depth it \<le> max_cname_depth (rc_engine cfg) \<Longrightarrow> (it', it) \<in> walk_order cfg"
  by (auto simp: walk_order_def walk_measure_def)

lemma referral_order:
  "it_depth it' = it_depth it \<Longrightarrow> it_referrals it' = it_referrals it + 1 \<Longrightarrow> it_referrals it \<le> max_referrals (rc_engine cfg)
    \<Longrightarrow> (it', it) \<in> walk_order cfg"
  by (auto simp: walk_order_def walk_measure_def)

text \<open>Every record a response is classified by is one of the message.\<close>

lemma classified_records:
  assumes "message_ok m"
  shows "classify_response m n t zone = CnameFound c sigs \<Longrightarrow> record_ok c"
    and "classify_response m n t zone = DnameFound d \<Longrightarrow> record_ok d"
    and "classify_response m n t zone = Referral z ns glue \<Longrightarrow> list_all record_ok ns"
proof -
  have ok: "list_all record_ok (answers m)" "list_all record_ok (authorities m)" using assms by (simp_all add: message_ok_def)
  have head: "head_option xs = Some x \<Longrightarrow> x \<in> set xs" for xs :: "dns_record list" and x
    by (cases xs) simp_all
  show "record_ok c" if "classify_response m n t zone = CnameFound c sigs"
    using that head [of "alias_records n t (answers m)" c] ok by (auto simp: classify_Cname alias_records_def list_all_iff)
  show "record_ok d" if "classify_response m n t zone = DnameFound d"
    using that head [of "dname_records n (answers m)" d] ok
    by (auto simp: classify_unfold dname_records_def list_all_iff split: if_splits option.splits)
  show "list_all record_ok ns" if "classify_response m n t zone = Referral z ns glue"
    using referral_descends(4) [OF that] ok(2) by (auto simp: list_all_iff)
qed

lemma ns_names_wf: "list_all record_ok ns \<Longrightarrow> list_all wf_name (List.map_filter (\<lambda>r. ns_of (rec_rdata r)) ns)"
  by (auto simp: list_all_iff map_filter_def record_ok_def elim!: ns_of.elims)

lemma enter_zone_total:
  assumes "finds_total f" and "list_all wf_name names"
  shows "enter_zone cfg f zone names glue it b w \<noteq> None"
    and "enter_zone cfg f zone names glue it b w = Some (Continue it', b', w') \<Longrightarrow>
      it_name it' = it_name it \<and> it_depth it' = it_depth it \<and> it_referrals it' = it_referrals it"
proof -
  have "f names b w \<noteq> None" using assms unfolding finds_total_def by blast
  then show "enter_zone cfg f zone names glue it b w \<noteq> None" by (auto simp: enter_zone_def Let_def split: if_splits bind_splits)
  show "it_name it' = it_name it \<and> it_depth it' = it_depth it \<and> it_referrals it' = it_referrals it"
    if "enter_zone cfg f zone names glue it b w = Some (Continue it', b', w')"
    using that by (auto simp: enter_zone_def Let_def split: if_splits bind_splits)
qed

lemma on_referral_total:
  assumes "finds_total f" and "list_all record_ok ns"
  shows "on_referral env cfg f key now zone ns glue it b w \<noteq> None"
    and "on_referral env cfg f key now zone ns glue it b w = Some (Continue it', b', w') \<Longrightarrow>
      it_name it' = it_name it \<and> it_depth it' = it_depth it \<and> it_referrals it' = it_referrals it + 1"
  using enter_zone_total [OF assms(1) ns_names_wf [OF assms(2)]]
  by (auto simp: on_referral_def Let_def split: if_splits sum.splits prod.splits referral_admission.splits)

lemma on_response_total:
  fixes x :: "u8 option"
  assumes "finds_total f" and "message_ok m" and "wf_name (it_name it)"
    and "it_depth it \<le> max_cname_depth (rc_engine cfg)" and "it_referrals it \<le> max_referrals (rc_engine cfg)"
  defines "it1 \<equiv> it\<lparr>it_minimized := None, it_ecs_scope := x\<rparr>"
  shows "on_response env cfg f key now (next_query_name cfg it) m it1 b w \<noteq> None"
    and "on_response env cfg f key now (next_query_name cfg it) m it1 b w = Some (Continue it', b', w')
      \<Longrightarrow> wf_name (it_name it') \<and> (it', it) \<in> walk_order cfg"
proof -
  note records = classified_records [OF assms(2)]
  show "on_response env cfg f key now (next_query_name cfg it) m it1 b w \<noteq> None"
    using on_referral_total(1) [OF assms(1) records(3)]
    by (auto simp: on_response_def split: response_kind.splits prod.splits)
  assume eq: "on_response env cfg f key now (next_query_name cfg it) m it1 b w = Some (Continue it', b', w')"
  have deepen: "it' = it\<lparr>it_minimized := Some (deepen_minimized (it_name it) (next_query_name cfg it)), it_ecs_scope := x\<rparr>
      \<Longrightarrow> next_query_name cfg it \<noteq> it_name it \<Longrightarrow> wf_name (it_name it') \<and> (it', it) \<in> walk_order cfg"
    using deepen_order [OF assms(3)] assms(3) by simp
  show "wf_name (it_name it') \<and> (it', it) \<in> walk_order cfg"
  proof (cases "classify_response m (it_name it1) (qk_type key) (it_zone it1)")
    case (Answer rs sigs)
    with eq show ?thesis by (auto simp: on_response_def on_answer_def Let_def split: if_splits)
  next
    case (CnameFound rec sigs)
    with eq obtain w2 where "on_cname env cfg key now rec sigs it1 w = (Continue it', w2)"
      by (auto simp: on_response_def split: prod.splits)
    from on_cname_continue [OF this records(1) [OF CnameFound]] show ?thesis
      using assms(4) by (simp add: it1_def deeper_order)
  next
    case (DnameFound rec)
    with eq have "on_dname env cfg rec it1 = Continue it'" by (simp add: on_response_def)
    from on_dname_continue [OF this records(2) [OF DnameFound]] show ?thesis
      using assms(3,4) by (simp add: it1_def deeper_order)
  next
    case (Negative code soa)
    with eq show ?thesis
      by (intro deepen) (auto simp: on_response_def on_negative_def it1_def Let_def split: if_splits)
  next
    case (Referral zone ns glue)
    with eq have "on_referral env cfg f key now zone ns glue it1 b w = Some (Continue it', b', w')" by (simp add: on_response_def)
    from on_referral_total(2) [OF assms(1) records(3) [OF Referral] this] show ?thesis
      using assms(3,5) by (auto simp: it1_def intro!: referral_order)
  next
    case EmptyResponse
    with eq show ?thesis by (intro deepen) (auto simp: on_response_def on_empty_def it1_def split: if_splits)
  qed
qed

lemma walk_exchange_total:
  assumes "env_ok env" and "finds_total f" and "wf_name (it_name it)"
    and "it_depth it \<le> max_cname_depth (rc_engine cfg)" and "it_referrals it \<le> max_referrals (rc_engine cfg)"
  shows "walk_exchange env cfg f key dl now it b w \<noteq> None"
    and "walk_exchange env cfg f key dl now it b w = Some (Continue it', b', w') \<Longrightarrow> wf_name (it_name it') \<and> (it', it) \<in> walk_order cfg"
proof -
  let ?n = "next_query_name cfg it"
  obtain q b1 w1 where q: "query_servers env cfg (it_servers it) ?n (qk_type key) key dl (?n = it_name it) b w = (q, b1, w1)"
    by (metis prod_cases3)
  show "walk_exchange env cfg f key dl now it b w \<noteq> None"
  proof (cases q)
    case (Inr mr)
    obtain m r where mr: "mr = (m, r)" by fastforce
    with Inr q have ok: "message_ok m" using query_servers_ok [OF assms(1)] by blast
    show ?thesis using on_response_total(1) [OF assms(2) ok assms(3-5)] q Inr mr by (simp add: walk_exchange_def Let_def)
  qed (use q in \<open>simp add: walk_exchange_def Let_def\<close>)
  show "wf_name (it_name it') \<and> (it', it) \<in> walk_order cfg"
    if eq: "walk_exchange env cfg f key dl now it b w = Some (Continue it', b', w')"
  proof (cases q)
    case (Inr mr)
    obtain m r where mr: "mr = (m, r)" by fastforce
    with Inr q have ok: "message_ok m" using query_servers_ok [OF assms(1)] by blast
    show ?thesis by (rule on_response_total(2) [OF assms(2) ok assms(3-5)])
        (use eq q Inr mr in \<open>simp add: walk_exchange_def Let_def\<close>)
  qed (use q eq in \<open>simp add: walk_exchange_def Let_def\<close>)
qed

lemma walk_step_total:
  assumes "env_ok env" and "finds_total f" and "wf_name (it_name it)"
  shows "walk_step env cfg f key dl now it b w \<noteq> None"
    and "walk_step env cfg f key dl now it b w = Some (Continue it', b', w') \<Longrightarrow> wf_name (it_name it') \<and> (it', it) \<in> walk_order cfg"
proof -
  note total = walk_exchange_total [OF assms]
  show "walk_step env cfg f key dl now it b w \<noteq> None"
    using total(1) by (auto simp: walk_step_def not_less split: prod.splits if_splits option.splits)
  show "wf_name (it_name it') \<and> (it', it) \<in> walk_order cfg" if "walk_step env cfg f key dl now it b w = Some (Continue it', b', w')"
    using that by (auto simp: walk_step_def not_less split: prod.splits if_splits option.splits dest: total(2) [rotated -1])
qed

lemma walk_loop_total:
  assumes "env_ok env" and "finds_total f"
  shows "wf_name (it_name it) \<Longrightarrow> walk_loop env cfg f key dl now it b w \<noteq> None"
proof (induction it arbitrary: b w rule: wf_induct_rule [OF walk_order_wf [of cfg]])
  case (1 it)
  obtain fl b1 w1 where s: "walk_step env cfg f key dl now it b w = Some (fl, b1, w1)"
    using walk_step_total(1) [OF assms 1(2)] by (metis not_None_eq prod_cases3)
  show ?case
  proof (cases fl)
    case (Continue it')
    with walk_step_total(2) [OF assms 1(2)] s have "wf_name (it_name it')" "(it', it) \<in> walk_order cfg" by auto
    with 1(1) have "walk_loop env cfg f key dl now it' b1 w1 \<noteq> None" by blast
    with s Continue show ?thesis by (simp add: walk_loop.simps [of env cfg f key dl now it])
  qed (use s in \<open>simp_all add: walk_loop.simps [of env cfg f key dl now it]\<close>)
qed

lemma iterative_total:
  assumes "env_ok env" and "finds_total f" and "wf_name (qk_name key)"
  shows "iterative_resolve env cfg f key dl b w \<noteq> None"
proof -
  have "wf_name (it_name (walk_start env cfg key))" using assms(3) by (simp add: walk_start_def)
  note total = walk_loop_total [OF assms(1,2) this, of cfg key dl]
  show ?thesis
  proof (cases "on_net (en_now env) w")
    case (Pair now w1)
    with total [of now b w1] show ?thesis by (simp add: iterative_resolve_def)
  qed
qed

section \<open>Resolutions end\<close>

definition one_total :: "('f, 'm, 'n) resolve_one \<Rightarrow> bool" where
  "one_total g \<longleftrightarrow> (\<forall>k b w. wf_name (qk_name k) \<longrightarrow> g k b w \<noteq> None)"

lemma address_loop_total:
  assumes "one_total g" and "wf_name n"
  shows "address_loop g n ts out b w \<noteq> None"
proof (induction ts arbitrary: out b w)
  case (Cons t ts)
  have "g (host_key n t) b w \<noteq> None" using assms by (auto simp: one_total_def host_key_def)
  then obtain r b1 w1 where "g (host_key n t) b w = Some (r, b1, w1)" by (metis not_None_eq prod_cases3)
  with Cons show ?case by (simp add: Let_def)
qed simp

lemma host_addresses_total: "one_total g \<Longrightarrow> wf_name n \<Longrightarrow> resolve_host_addresses cfg g n b w \<noteq> None"
  by (auto simp: resolve_host_addresses_def Let_def simp del: address_loop.simps dest!: address_loop_total)

lemma ns_loop_total:
  assumes "one_total g"
  shows "list_all wf_name ns \<Longrightarrow> ns_loop env cfg g dl ns eps b w \<noteq> None"
proof (induction ns arbitrary: eps b w)
  case (Cons n ns)
  obtain x w1 where x: "on_net (deadline_expired env dl) w = (x, w1)" by fastforce
  obtain y b1 where y: "spend_ns_address_lookup 1 b = (y, b1)" by fastforce
  have "resolve_host_addresses cfg g n b1 w1 \<noteq> None" using host_addresses_total [OF assms] Cons.prems by simp
  then obtain ips b2 w2 where "resolve_host_addresses cfg g n b1 w1 = Some (ips, b2, w2)" by (metis not_None_eq prod_cases3)
  with Cons x y show ?case by (cases x; cases y) (simp_all add: Let_def)
qed simp

interpretation silent_forward: forward_state "forward_env_of env cfg call" "\<lambda>s. ec_dnssec (rc_engine cfg) \<or> s \<noteq> None" for env cfg call
  by unfold_locales (auto simp: forward_env_of_def on_world_def split: option.splits prod.splits)

lemma forward_path_total: "\<not> ec_dnssec (rc_engine cfg) \<Longrightarrow> forward_path env cfg call key b w \<noteq> None"
  using silent_forward.forward_resolve_keeps [of env cfg call "rc_dns cfg" key "Some w"]
  by (auto simp: forward_path_def split: prod.splits option.splits)

lemma resolve_inner_total:
  assumes "env_ok env" and "\<not> ec_dnssec (rc_engine cfg)"
  shows "wf_name (qk_name key) \<Longrightarrow> resolve_inner env cfg call d dl pol key b w \<noteq> None"
proof (induction "max_ns_depth (rc_engine cfg) - d" arbitrary: d pol key b w rule: less_induct)
  case less
  let ?g = "\<lambda>k b w. if d \<ge> max_ns_depth (rc_engine cfg) then None else resolve_inner env cfg call (d + 1) dl FreshOnly k b w"
  let ?find = "\<lambda>names b w. resolve_ns_addresses env cfg ?g dl d names b w"
  have finds: "finds_total ?find"
  proof (cases "d \<ge> max_ns_depth (rc_engine cfg)")
    case False
    then have "one_total ?g" using less.hyps [of "d + 1"] by (simp add: one_total_def)
    from ns_loop_total [OF this] False show ?thesis by (auto simp: finds_total_def resolve_ns_addresses_def)
  qed (simp add: finds_total_def resolve_ns_addresses_def)
  obtain now w1 where n: "on_net (en_now env) w = (now, w1)" by fastforce
  obtain c w2 where c: "(if pol \<noteq> Bypass then resolve_from_cache env cfg key now pol w1 else (None, w1)) = (c, w2)" by fastforce
  let ?path = "if forward_route (rc_dns cfg) key \<noteq> None then forward_path env cfg call key b (bump St_cache_misses w2)
    else iterative_resolve env cfg ?find key dl b (bump St_cache_misses w2)"
  have "?path \<noteq> None" using iterative_total [OF assms(1) finds less.prems] forward_path_total [OF assms(2)] by auto
  then obtain r b3 w3 where p: "?path = Some (r, b3, w3)" by (metis not_None_eq prod_cases3)
  have f: "finish_resolution env cfg call key now res w3 \<noteq> None" for res
    using assms(2) by (simp add: finish_resolution_def Let_def)
  show ?case unfolding resolve_inner.simps [of env cfg call d dl pol key b w] n prod.case c
    unfolding Let_def p using f by (cases c; cases r) auto
qed

section \<open>An idle resolver answers\<close>

text \<open>Between calls of a single thread no slot is in flight.\<close>

definition quiet :: "'f resolver_config \<Rightarrow> inflight \<Rightarrow> 'f fetch_budget \<Rightarrow> ('f, 'm, 'n) world \<Rightarrow> bool" where
  "quiet cfg t b w \<longleftrightarrow> \<not> ec_dnssec (rc_engine cfg) \<and> w_inflight w = t"

interpretation quiet_run: run_invariant env cfg call "quiet cfg t" for env cfg call t
  by unfold_locales (auto simp: quiet_def on_cache_def count_stat_def)

definition idle :: "('f, 'm, 'n) world \<Rightarrow> bool" where
  "idle w \<longleftrightarrow> if_slots (w_inflight w) = []"

lemma inflight_frame [simp]:
  "w_inflight (count_stat st n w) = w_inflight w" "w_inflight (observe env x w) = w_inflight w"
  "w_inflight (on_cache env y w) = w_inflight w" "w_inflight (gauge_stat st n w) = w_inflight w"
  by (simp_all add: count_stat_def observe_def on_cache_def gauge_stat_def)

lemma inflight_on_net: "on_net f w = (r, w') \<Longrightarrow> w_inflight w' = w_inflight w"
  by (auto simp: on_net_def split: prod.splits)

lemma inflight_local: "local_answer dns key now w = (r, w') \<Longrightarrow> w_inflight w' = w_inflight w"
  by (auto simp: local_answer_def local_reverse_def local_forward_def Let_def
      split: if_splits option.splits prod.splits sum.splits allocation.splits)

lemma idle_claim:
  assumes "if_slots t = []" and "inflight_claim key t = (c, t')"
  obtains i where "c = Owner i" and "if_slots (owner_publish key i r t') = []"
  using assms by (auto simp: inflight_claim_def claim_fresh_def Let_def owner_publish_def owner_release_def btree_remove_def)

lemma resolve_owned_inflight:
  assumes "resolve_owned env cfg call key i started w = Some (r, w')" and "\<not> ec_dnssec (rc_engine cfg)"
  shows "w_inflight w' = owner_publish key i r (w_inflight w)"
proof -
  obtain dl w1 where dl: "on_net (deadline_after env (query_budget_ms (rc_engine cfg))) w = (dl, w1)" by fastforce
  obtain r' b2 w2 where r': "resolve_inner env cfg call 0 dl Reuse key (budget_new (ec_fetch_limits (rc_engine cfg))) w1 = Some (r', b2, w2)"
    using assms(1) by (auto simp: resolve_owned_def dl)
  then have r: "resolve_inner env cfg call 0 dl Reuse key (budget_new (ec_fetch_limits (rc_engine cfg))) w1 = Some (r, b2, w2)"
    using assms(1) by (auto simp: resolve_owned_def dl Let_def split: prod.splits)
  have "w_inflight w2 = w_inflight w"
    using quiet_run.resolve_inner_kept [OF r, of "w_inflight w1"] assms(2) inflight_on_net [OF dl] by (simp add: quiet_def)
  moreover obtain stop w3 where s: "on_net (en_instant env) (w2\<lparr>w_inflight := owner_publish key i r (w_inflight w2)\<rparr>) = (stop, w3)"
    by fastforce
  ultimately show ?thesis using inflight_on_net [OF s] assms(1) by (auto simp: resolve_owned_def dl r s)
qed

lemma resolve_owned_total:
  assumes "env_ok env" and "\<not> ec_dnssec (rc_engine cfg)" and "wf_name (qk_name key)"
  shows "resolve_owned env cfg call key i started w \<noteq> None"
proof -
  obtain dl w1 where dl: "on_net (deadline_after env (query_budget_ms (rc_engine cfg))) w = (dl, w1)" by fastforce
  from resolve_inner_total [OF assms, of call 0 dl Reuse _ w1] show ?thesis by (simp add: resolve_owned_def dl)
qed

text \<open>An idle resolver owns every claim, and is idle again when the resolution has been published.\<close>

lemma resolve_key_idle:
  assumes "\<not> ec_dnssec (rc_engine cfg)" and "idle w"
  shows "resolve_key_with env cfg call key w = Some (r, w') \<Longrightarrow> idle w'"
    and "env_ok env \<Longrightarrow> wf_name (qk_name key) \<Longrightarrow> resolve_key_with env cfg call key w \<noteq> None"
proof -
  obtain started w1 where s: "on_net (en_instant env) w = (started, w1)" by fastforce
  obtain now w2 where n: "on_net (en_now env) w1 = (now, w2)" by fastforce
  obtain l w3 where l: "local_answer (rc_dns cfg) key now (bump St_queries w2) = (l, w3)" by fastforce
  let ?w = "observe env (ObserveQuery (qk_name key) now) w3"
  have same: "w_inflight w3 = w_inflight w" "w_inflight w2 = w_inflight w"
    using inflight_on_net [OF s] inflight_on_net [OF n] inflight_local [OF l] by simp_all
  obtain c t where c: "inflight_claim key (w_inflight ?w) = (c, t)" by fastforce
  have empty: "if_slots (w_inflight ?w) = []" using assms(2) same by (simp add: idle_def)
  obtain i where i: "c = Owner i" using idle_claim [OF empty c] by metis
  have released: "if_slots (owner_publish key i r t) = []" for r using idle_claim [OF empty c] i by (metis claim.inject(1))
  note unfolded = resolve_key_with_def Let_def s n prod.case l c i claim.case
  show "idle w'" if "resolve_key_with env cfg call key w = Some (r, w')"
    using that released same assms(2) unfolding unfolded
    by (auto simp: idle_def split: option.splits if_splits dest!: resolve_owned_inflight [OF _ assms(1)])
  show "resolve_key_with env cfg call key w \<noteq> None" if "env_ok env" "wf_name (qk_name key)"
    using resolve_owned_total [OF that(1) assms(1) that(2)] unfolding unfolded by (auto split: option.splits)
qed

lemma admit_inflight: "admit_client env client now w = (a, w') \<Longrightarrow> w_inflight w' = w_inflight w"
  by (auto simp: admit_client_def split: option.splits prod.splits)

lemma handle_query_total:
  assumes "env_ok env" and "\<not> ec_dnssec (rc_engine cfg)" and "message_ok query" and "idle w"
  shows "handle_query env cfg query client w \<noteq> None"
proof -
  obtain now w1 where n: "on_net (en_now env) w = (now, w1)" by fastforce
  obtain a w2 where a: "admit_client env client now w1 = (a, w2)" by fastforce
  have idle: "idle w2" using assms(4) inflight_on_net [OF n] admit_inflight [OF a] by (simp add: idle_def)
  have wf: "query_key_from_message query = Some key \<Longrightarrow> wf_name (qk_name key)" for key
    using assms(3) by (auto simp: query_key_from_message_def message_question_def message_ok_def
        split: option.splits list.splits if_splits)
  have "query_key_from_message query = Some key \<Longrightarrow> resolve_key env cfg key w2 \<noteq> None" for key
    unfolding resolve_key_def by (rule resolve_key_idle(2) [OF assms(2) idle assms(1) wf])
  then have "map_option f (resolve_key env cfg key w2) \<noteq> None"
    if "query_key_from_message query = Some key" for key and f :: "_ \<Rightarrow> message \<times> ('a, 'b, 'd) world"
    using that by (metis option.map_disc_iff)
  then show ?thesis unfolding handle_query_def Let_def n prod.case a
    by (cases "query_key_from_message query"; cases a) (simp_all split: sum.split del: not_None_eq)
qed

lemma handle_query_idle:
  assumes "handle_query env cfg query client w = Some (m, w')" and "\<not> ec_dnssec (rc_engine cfg)" and "idle w"
  shows "idle w'"
  using assms
proof (cases rule: handle_query_cases)
  case (answered now w1 w2 key res)
  have "idle w2" using assms(3) inflight_on_net [OF answered(1)] admit_inflight [OF answered(2)] by (simp add: idle_def)
  from resolve_key_idle(1) [OF assms(2) this] answered(5) show ?thesis by (simp add: resolve_key_def)
next
  case (failed now w1 w2 key e w3)
  have "idle w2" using assms(3) inflight_on_net [OF failed(1)] admit_inflight [OF failed(2)] by (simp add: idle_def)
  from resolve_key_idle(1) [OF assms(2) this] failed(4,6) show ?thesis by (simp add: resolve_key_def idle_def)
qed (use assms(3) in \<open>auto simp: idle_def dest!: inflight_on_net admit_inflight\<close>)

lemma run_refresh_inflight:
  assumes "run_refresh env cfg k w = Some w'" and "\<not> ec_dnssec (rc_engine cfg)"
  shows "w_inflight w' = w_inflight w"
proof -
  obtain dl w1 where dl: "on_net (deadline_after env (query_budget_ms (rc_engine cfg))) w = (dl, w1)" by fastforce
  let ?qk = "\<lparr>qk_name = ck_name k, qk_type = ck_type k, qk_class = ck_class k, qk_ecs = ck_ecs k,
    want_dnssec = ec_dnssec (rc_engine cfg), qk_cd = False\<rparr>"
  obtain r b2 w2 where r: "resolve_inner env cfg (resolve_nested env cfg) 0 dl Bypass ?qk (budget_new (ec_fetch_limits (rc_engine cfg))) w1 = Some (r, b2, w2)"
    using assms(1) by (auto simp: run_refresh_def refresh_key_def Let_def dl)
  have i2: "w_inflight w2 = w_inflight w"
    using quiet_run.resolve_inner_kept [OF r, of "w_inflight w1"] assms(2) inflight_on_net [OF dl] by (simp add: quiet_def)
  obtain now w3 where n: "on_net (en_now env) w2 = (now, w3)" by fastforce
  have i3: "w_inflight w3 = w_inflight w" using inflight_on_net [OF n] i2 by simp
  have "w_inflight (cache_resolution env cfg ?qk res now w3) = w_inflight w" for res
    using quiet_run.cache_resolution_kept [of cfg "w_inflight w" undefined w3 env ?qk res now] i3 assms(2) by (simp add: quiet_def)
  with assms(1) i3 show ?thesis by (cases r) (auto simp: run_refresh_def refresh_key_def Let_def dl r n)
qed

lemma maintain_inflight: "w_inflight (maintain_tables env cfg now w) = w_inflight w"
  by (simp add: maintain_tables_def Let_def split: option.splits)

lemma tick_inflight:
  assumes "\<not> ec_dnssec (rc_engine cfg)"
  shows "w_inflight (maintenance_tick env cfg ks w) = w_inflight w"
proof -
  obtain now w1 where n: "on_net (en_now env) w = (now, w1)" by fastforce
  have "quiet cfg (w_inflight w) undefined (note_schedule cfg ks (maintain_tables env cfg now w1))"
    using assms inflight_on_net [OF n] by (simp add: quiet_def maintain_inflight note_schedule_def Let_def)
  then have "quiet cfg (w_inflight w) undefined (maintenance_tick env cfg ks w)"
    unfolding maintenance_tick_def n prod.case by (intro quiet_run.fold_kept quiet_run.refresh_kept)
  then show ?thesis by (simp add: quiet_def)
qed

interpretation idle_machine: inductive_invariant "resolver_initial env cfg" "resolver_step env cfg"
  "\<lambda>w. ec_dnssec (rc_engine cfg) \<or> idle w" for env cfg
proof unfold_locales
  fix w w' :: "('a, 'b, 'd) world" and opn
  show "resolver_initial env cfg w \<Longrightarrow> ec_dnssec (rc_engine cfg) \<or> idle w"
    by (auto simp: resolver_initial_def idle_def world_new_def inflight_new_def)
  assume i: "ec_dnssec (rc_engine cfg) \<or> idle w" and st: "resolver_step env cfg w opn w'"
  show "ec_dnssec (rc_engine cfg) \<or> idle w'"
  proof (cases "ec_dnssec (rc_engine cfg)")
    case False
    with i have "idle w" by simp
    with False st show ?thesis
    proof (cases opn)
      case (ResolveOp n t)
      with st \<open>idle w\<close> False show ?thesis
        by (auto simp: resolve_name_def resolve_key_def dest: resolve_key_idle(1))
    qed (auto simp: idle_def tick_inflight dest: handle_query_idle run_refresh_inflight)
  qed simp
qed

text \<open>What every response to a client has in common.\<close>

definition answers_query :: "message \<Rightarrow> message \<Rightarrow> bool" where
  "answers_query query m \<longleftrightarrow> msg_id m = msg_id query \<and> hf_qr (msg_flags m) \<and> questions m = questions query
    \<and> hf_rd (msg_flags m) = hf_rd (msg_flags query)"

lemma handle_query_answers:
  assumes "handle_query env cfg query client w = Some (m, w')"
  shows "answers_query query m"
  using assms by (cases rule: handle_query_cases)
    (simp_all add: answers_query_def error_response_def build_response_def message_new_def Let_def)

end
