(* ===== verification/Resolver_Faults.thy ===== *)
theory Resolver_Faults
  imports Resolver_Total
begin

text \<open>
  Two behaviours of \<^verbatim>\<open>src/src/resolver.rs\<close> that the code does not intend: a DNSKEY resolution that waits for
  itself, and a cached NXDOMAIN that is served as authenticated.
\<close>

section \<open>Waiting for oneself\<close>

text \<open>Once a nested call has not returned, the validator's state stays \<open>None\<close>.\<close>

interpretation stuck: validator_state "validator_resolve cfg call" "\<lambda>s. s = None" for cfg call
  by unfold_locales (auto simp: validator_resolve_def)

lemma group_records_snoc:
  "group_records (rs @ [r]) = btree_insert (rec_name r, rec_type r)
     ((case btree_get (group_records rs) (rec_name r, rec_type r) of None \<Rightarrow> [] | Some g \<Rightarrow> g) @ [r]) (group_records rs)"
  by (simp add: group_records_def Let_def)

lemma group_records_single:
  "rs \<noteq> [] \<Longrightarrow> list_all (\<lambda>r. rec_name r = n \<and> rec_type r = t) rs \<Longrightarrow> group_records rs = [((n, t), rs)]"
proof (induction rs rule: rev_induct)
  case (snoc r rs)
  show ?case
  proof (cases "rs = []")
    case True
    with snoc.prems have "rec_name r = n" "rec_type r = t" "group_records rs = []" by (simp_all add: group_records_def)
    with True show ?thesis unfolding group_records_snoc by simp
  next
    case False
    with snoc have "rec_name r = n" "rec_type r = t" "group_records rs = [((n, t), rs)]" by simp_all
    then show ?thesis unfolding group_records_snoc by simp
  qed
qed simp

lemma chain_stuck:
  assumes "call (signer_key cfg n RrType_DNSKEY) w = None" and "ans \<noteq> []"
    and "list_all (\<lambda>r. rec_name r = n \<and> rec_type r = RrType_DNSKEY) ans"
    and "covering sigs n RrType_DNSKEY = s # ss" and "rrsig_signer s = Some n"
  shows "snd (verify_chain h (validator_resolve cfg call) now ans sigs auth anchored (Some w)) = None"
proof -
  let ?r = "validator_resolve cfg call"
  have "validate_group h ?r ans (s # ss) (chain_secs now) (Some w) = (Indeterminate, None)"
    using assms(1,5) by (simp add: validate_group_def validator_resolve_def)
  then have "snd (verify_section h ?r ans sigs (chain_secs now) (Some w)) = None"
    by (simp add: verify_section_def group_records_single [OF assms(2,3)] assms(4))
  then obtain v where "verify_section h ?r ans sigs (chain_secs now) (Some w) = (v, None)" by (metis prod.collapse)
  then show ?thesis
    by (auto simp: verify_chain_def Let_def split: prod.splits dest: stuck.verify_section_keeps)
qed

text \<open>A nested query for the key that its owner has not yet published waits on the owner's slot.\<close>

lemma nested_waits:
  assumes "inflight_claim (signer_key cfg n RrType_DNSKEY) t = (Owner i, w_inflight w)"
    and "\<not> is_blocked (rc_policy cfg) n"
  shows "resolve_nested env cfg (signer_key cfg n RrType_DNSKEY) w = None"
proof -
  let ?k = "signer_key cfg n RrType_DNSKEY"
  obtain started w1 where s: "on_net (en_instant env) w = (started, w1)" by fastforce
  obtain now w2 where n: "on_net (en_now env) w1 = (now, w2)" by fastforce
  have l: "local_answer (rc_dns cfg) ?k now (bump St_queries w2) = (None, bump St_queries w2)"
    by (simp add: local_answer_def signer_key_def hosts_answer_def rr_type_consts split: option.split)
  have "w_inflight w2 = w_inflight w" using inflight_on_net [OF s] inflight_on_net [OF n] by simp
  with second_claim_waits [OF assms(1)] assms(2) show ?thesis
    unfolding resolve_nested_def resolve_key_with_def Let_def s n prod.case l by (simp add: signer_key_def)
qed

lemma dnskey_answer_blocks:
  assumes "ec_dnssec (rc_engine cfg)" and "\<not> is_blocked (rc_policy cfg) n"
    and "inflight_claim (signer_key cfg n RrType_DNSKEY) t = (Owner i, w_inflight w)" and "\<not> w_validating w"
    and "res_answers res \<noteq> []" and "list_all (\<lambda>r. rec_name r = n \<and> rec_type r = RrType_DNSKEY) (res_answers res)"
    and "covering (res_rrsigs res) n RrType_DNSKEY = s # ss" and "rrsig_signer s = Some n"
  shows "finish_resolution env cfg (resolve_nested env cfg) (signer_key cfg n RrType_DNSKEY) now res w = None"
proof -
  obtain now' w1 where n: "on_net (en_now env) w = (now', w1)" by fastforce
  let ?w = "w1\<lparr>w_validating := True\<rparr>"
  have "w_inflight ?w = w_inflight w" "w_validating w1 = w_validating w"
    using inflight_on_net [OF n] n by (auto simp: on_net_def split: prod.splits)
  with assms(3,4) have c: "inflight_claim (signer_key cfg n RrType_DNSKEY) t = (Owner i, w_inflight ?w)" "\<not> w_validating w1" by simp_all
  note stuck = chain_stuck [where call = "resolve_nested env cfg", OF nested_waits [OF c(1) assms(2), of env] assms(5-8)]
  obtain v where v: "verify_chain (en_sha256 env) (validator_resolve cfg (resolve_nested env cfg)) now' (res_answers res) (res_rrsigs res)
      (res_authorities res) (dnssec_anchored (rc_engine cfg)) (Some ?w) = (v, None)" using stuck by (metis prod.collapse)
  have "validate_answers env cfg (resolve_nested env cfg) res w = None"
    using assms(4,5) c(2) by (simp add: validate_answers_def run_validator_def Let_def n validate_resolution_detailed_def guarded_def v)
  then have "validate_answers env cfg (resolve_nested env cfg) (res\<lparr>served_at := now\<rparr>) w = None"
    by (simp add: validate_answers_def)
  with assms(1,5) show ?thesis by (simp add: finish_resolution_def Let_def signer_key_def)
qed

section \<open>Cached denials\<close>

text \<open>
  A denial served from the name store counts as validated: the walk over the cache starts out validated and
  this arm, alone, does not ask what was stored.
\<close>

lemma cached_denial_validated:
  assumes "fst (cache_lookup (en_signals env) (query_cache_key key) now (w_cache w)) = NxDomainHit expires soa"
  obtains res where "resolve_from_cache env cfg key now pol w = (Some res, on_cache env (CacheLookupOp (query_cache_key key) now) w)"
    and "res_validated res" and "res_rcode res = Rcode_NXDOMAIN" and "res_answers res = []"
proof -
  let ?cw = "(cache_walk_start key)\<lparr>cw_rcode := Rcode_NXDOMAIN, cw_authorities := (case soa of None \<Rightarrow> [] | Some x \<Rightarrow> [x])\<rparr>
    :: ('a, 'b) cache_walk"
  let ?w = "on_cache env (CacheLookupOp (query_cache_key key) now) w"
  have "cached_step env cfg key now pol (cache_walk_start key) w = (Finish ?cw, ?w)"
    using assms by (simp add: cached_step_def world_lookup_def cache_walk_start_def query_cache_key_def)
  then have "cache_loop env cfg key now pol (cache_walk_start key) w = (Some ?cw, ?w)"
    unfolding cache_loop.simps [of env cfg key now pol "cache_walk_start key"] by (simp add: cache_walk_start_def)
  then have "resolve_from_cache env cfg key now pol w = (Some (cached_resolution key now ?cw), ?w)"
    by (simp add: resolve_from_cache_def cache_walk_start_def)
  then show thesis by (rule that) (simp_all add: cached_resolution_def cache_walk_start_def)
qed

lemma local_answer_none:
  assumes "hosts_answer (dp_hosts dns) (qk_name key) (qk_type key) = None" and "dp_fake_ip dns = None"
  shows "local_answer dns key now w = (None, w)"
  using assms by (simp add: local_answer_def)

lemma resolve_key_denial:
  assumes "en_now env = (\<lambda>s. (now, s))" and "idle w" and "\<not> is_blocked (rc_policy cfg) (qk_name key)"
    and "hosts_answer (dp_hosts (rc_dns cfg)) (qk_name key) (qk_type key) = None" and "dp_fake_ip (rc_dns cfg) = None"
    and hit: "fst (cache_lookup (en_signals env) (query_cache_key key) now (w_cache w)) = NxDomainHit expires soa"
  obtains res w' where "resolve_key env cfg key w = Some (Ok res, w')" and "res_validated res" and "res_rcode res = Rcode_NXDOMAIN"
proof -
  have clock: "on_net (en_now env) u = (now, u)" for u by (simp add: assms(1) on_net_def)
  obtain started w1 where s: "on_net (en_instant env) w = (started, w1)" by fastforce
  let ?w = "observe env (ObserveQuery (qk_name key) now) (bump St_queries w1)"
  obtain c t where c: "inflight_claim key (w_inflight ?w) = (c, t)" by fastforce
  have "if_slots (w_inflight ?w) = []" using assms(2) inflight_on_net [OF s] by (simp add: idle_def)
  then obtain i where i: "c = Owner i" using idle_claim [OF _ c] by metis
  obtain dl w2 where dl: "on_net (deadline_after env (query_budget_ms (rc_engine cfg))) (?w\<lparr>w_inflight := t\<rparr>) = (dl, w2)" by fastforce
  have "w_cache w2 = w_cache w"
    using s dl by (auto simp: on_net_def observe_def count_stat_def split: prod.splits)
  with hit have "fst (cache_lookup (en_signals env) (query_cache_key key) now (w_cache w2)) = NxDomainHit expires soa" by simp
  then obtain res w3 where r: "resolve_from_cache env cfg key now Reuse w2 = (Some res, w3)"
    and res: "res_validated res" "res_rcode res = Rcode_NXDOMAIN" by (rule cached_denial_validated)
  have "resolve_inner env cfg (resolve_nested env cfg) 0 dl Reuse key b w2 = Some (Ok res, b, bump St_cache_hits w3)" for b
    by (simp add: resolve_inner.simps [of env cfg _ 0 dl Reuse key] clock r)
  then obtain w' where "resolve_owned env cfg (resolve_nested env cfg) key i started (?w\<lparr>w_inflight := t\<rparr>) = Some (Ok res, w')"
    by (simp add: resolve_owned_def dl case_prod_beta Let_def)
  then have "resolve_key env cfg key w = Some (Ok res, w')"
    unfolding resolve_key_def resolve_key_with_def Let_def s prod.case clock local_answer_none [OF assms(4,5)]
    using assms(3) c i by simp
  with res that show thesis by blast
qed

end
