(* ===== verification/Name_Store.thy ===== *)
theory Name_Store
  imports Resolver_Faults
begin

text \<open>
  The name store of \<^verbatim>\<open>src/src/cache/mod.rs\<close> beside the tiers: a lookup reads it only after the tiers have
  nothing, so a denial inserted into a cache that misses is what the next lookup returns, whatever the
  standing of the data it came from.
\<close>

definition with_nx :: "(name, negative_entry) btree \<Rightarrow> ('f, 'm) semantic_cache \<Rightarrow> ('f, 'm) semantic_cache" where
  "with_nx m c = c\<lparr>nx := m\<rparr>"

lemma with_nx_simps [simp]:
  "get_tier t (with_nx m c) = get_tier t c" "set_tier t tm (with_nx m c) = with_nx m (set_tier t tm c)"
  "cc_config (with_nx m c) = cc_config c" "nx (with_nx m c) = m"
  "count_hit (with_nx m c) = with_nx m (count_hit c)" "count_stale (with_nx m c) = with_nx m (count_stale c)"
  "count_miss (with_nx m c) = with_nx m (count_miss c)" "count_eviction (with_nx m c) = with_nx m (count_eviction c)"
  by (cases t; simp add: with_nx_def count_hit_def count_stale_def count_miss_def count_eviction_def)+

lemma tier_for_nx [simp]: "tier_for sg (with_nx m c) = tier_for sg c"
  by (auto simp: tier_for_def fun_eq_iff Let_def split: option.split)

lemma place_nx [simp]: "place sg e (with_nx m c) = with_nx m (place sg e c)"
  by (auto simp: place_def spill_def Let_def split: option.splits prod.splits)

lemma park_nx [simp]: "park sg e (with_nx m c) = with_nx m (park sg e c)"
  by (simp add: park_def with_nx_def)

lemma exact_nx: "lookup_exact_in sg k now ts (with_nx m c) = map_prod id (with_nx m) (lookup_exact_in sg k now ts c)"
  by (induction ts arbitrary: c) (auto simp: Let_def split: option.split prod.split)

lemma cname_nx: "lookup_cname_in sg k now ts (with_nx m c) = map_prod id (with_nx m) (lookup_cname_in sg k now ts c)"
  by (induction ts arbitrary: c) (auto simp: Let_def split: option.split prod.split)

lemma walk_scopes_nx:
  assumes "\<And>k c. f k (g c) = map_prod id g (f k c)"
  shows "walk_scopes f key e n (g c) = map_prod id g (walk_scopes f key e n c)"
  using assms
  by (induction f key e n c rule: walk_scopes.induct) (simp_all split: option.split prod.split)

lemma walk_partitions_nx:
  assumes "\<And>k c. f k (g c) = map_prod id g (f k c)"
  shows "walk_partitions key f (g c) = map_prod id g (walk_partitions key f c)"
  using assms walk_scopes_nx [of f g, OF assms]
  by (simp add: walk_partitions_def split: option.split prod.split)

lemma exact_not_miss: "lookup_exact_in sg k now ts c \<noteq> (Some Miss, c')"
  by (induction ts arbitrary: c) (auto simp: Let_def split: option.split prod.split)

lemma cname_not_miss: "lookup_cname_in sg k now ts c \<noteq> (Some Miss, c')"
  by (induction ts arbitrary: c) (auto simp: Let_def split: option.split prod.split)

lemma walk_scopes_avoids:
  assumes "\<And>k c c'. f k c \<noteq> (Some x, c')"
  shows "walk_scopes f key e n c \<noteq> (Some x, c')"
  using assms by (induction f key e n c rule: walk_scopes.induct) (auto split: option.split prod.split)

lemma walk_partitions_avoids:
  assumes "\<And>k c c'. f k c \<noteq> (Some x, c')"
  shows "walk_partitions key f c \<noteq> (Some x, c')"
  using assms walk_scopes_avoids [of f x, OF assms] by (auto simp: walk_partitions_def split: option.split prod.split)

lemma lookup_denied:
  assumes miss: "fst (cache_lookup sg key now c) = Miss" and "btree_get m (ck_name key) = Some neg" and "now < ne_expires neg"
  shows "fst (cache_lookup sg key now (with_nx m c)) = NxDomainHit (ne_expires neg) (ne_soa neg)"
proof -
  let ?exact = "\<lambda>k. lookup_exact sg k now" and ?cname = "\<lambda>k. lookup_cname sg k now"
  note nat = walk_partitions_nx [of ?exact "with_nx m", unfolded lookup_exact_def, OF exact_nx, folded lookup_exact_def]
    walk_partitions_nx [of ?cname "with_nx m", unfolded lookup_cname_def, OF cname_nx, folded lookup_cname_def]
  have hit: "walk_partitions key ?exact d \<noteq> (Some Miss, d')" "walk_partitions key ?cname d \<noteq> (Some Miss, d')" for key d d'
    unfolding lookup_exact_def lookup_cname_def by (rule walk_partitions_avoids, rule exact_not_miss cname_not_miss)+
  obtain r1 c1 where w1: "walk_partitions key ?exact c = (r1, c1)" by fastforce
  obtain r2 c2 where w2: "walk_partitions (with_type key RrType_CNAME) ?cname c1 = (r2, c2)" by fastforce
  have "r1 \<noteq> Some Miss" "r2 \<noteq> Some Miss" using hit w1 w2 by blast+
  with miss assms(2,3) show ?thesis by (auto simp: cache_lookup_def w1 w2 nat split: option.splits if_splits)
qed

lemma insert_nxdomain_denies:
  fixes c :: "('f, 'm) semantic_cache"
  assumes "now < saturating_add then0 (uint (min ttl (negative_ttl_cap (cc_config c))) * 1000000000)"
  shows "\<exists>m neg. insert_nxdomain n code soa ttl then0 c = with_nx m c \<and> btree_get m n = Some neg \<and> now < ne_expires neg"
  using assms by (auto simp: insert_nxdomain_def with_nx_def Let_def split: option.splits)

end
