(* ===== verification/Resolver_Claims.thy ===== *)
theory Resolver_Claims
  imports Name_Store Samples Pool_Samples
begin

text \<open>
  The properties of the resolver as a whole, and a small resolver to evaluate them on: no network, a stopped
  clock, natural numbers for the floating-point signals.
\<close>

section \<open>A sample resolver\<close>

definition sample_levels :: "nat level_ops" where
  "sample_levels = \<lparr>lv_zero = 0, lv_one = 1, lv_max = max, lv_ge = (\<ge>), lv_sub = (-), lv_refill = (\<lambda>_ _ _ cap. cap)\<rparr>"

definition sample_env :: "(nat, unit, unit, unit) resolver_env" where
  "sample_env = \<lparr>en_signals = sample_signals, en_levels = sample_levels, en_too_thin = (\<lambda>_ _ _. False), en_sha256 = (\<lambda>_. replicate 32 0),
     en_now = (\<lambda>s. (1, s)), en_instant = (\<lambda>s. (0, s)), en_instant_max = 10 ^ 18, en_draw = (\<lambda>s. (0, s)),
     en_exchange = (\<lambda>_ _ _ s. (Err (error_new Timeout ''no network''), s)),
     en_forward = (\<lambda>_ _ _ s. (Err (error_new Timeout ''no network''), s)), en_rank = (\<lambda>servers _ _ _. (False, servers)),
     en_root_endpoints = [], en_score_inputs = (\<lambda>_ _ _. ()), en_observe = (\<lambda>_ s. s), en_serve_stale = (\<lambda>_ _ _ _ s. (False, s)),
     en_failures = (\<lambda>_. 0), en_refresh_token = (\<lambda>_ s. (False, s))\<rparr>"

definition sample_dns :: dns_policy where
  "sample_dns = \<lparr>dp_hosts = hosts_default, dp_fake_ip = None, dp_policy = [], dp_fallback = \<lparr>ff_domain = [], ff_ipcidr = []\<rparr>,
     dp_upstreams = \<lparr>ug_default = [], ug_fallback = [], ug_extra = []\<rparr>\<rparr>"

definition sample_resolver :: "bool \<Rightarrow> block_rule list \<Rightarrow> nat resolver_config" where
  "sample_resolver dnssec rules = \<lparr>rc_cache = sample_config, rc_policy = policy_config_default\<lparr>pc_block := rules\<rparr>, rc_dns = sample_dns,
     rc_engine = (engine_config_default 0)\<lparr>ec_dnssec := dnssec, dnssec_anchored := dnssec\<rparr>,
     rc_rate_limit = \<lparr>client_capacity = 1, client_refill_per_sec = 1, max_client_buckets = 4\<rparr>,
     max_inflight = 8, max_concurrent_refreshes = 1, max_chain_refresh = 1, stale_serve_ttl = 30\<rparr>"

definition sample_query :: message where
  "sample_query = (message_query 7 wit_name RrType_A True)\<lparr>msg_edns := Some ((edns_new 1232)\<lparr>dnssec_ok := True\<rparr>)\<rparr>"

definition sample_query_key :: query_key where
  "sample_query_key = \<lparr>qk_name = wit_name, qk_type = RrType_A, qk_class = RrClass_IN, qk_ecs = None, want_dnssec = True, qk_cd = False\<rparr>"

lemma sample_query_ok: "message_ok sample_query"
  by (simp add: message_ok_def sample_query_def message_query_def message_new_def header_flags_default_def flags_ok_def
     Opcode_QUERY_def Rcode_NOERROR_def wit_name_wf MAX_QUESTIONS_def MAX_SECTION_RECORDS_def edns_ok_def edns_new_def options_wire_def)

lemma sample_query_key: "query_key_from_message sample_query = Some sample_query_key"
  by (simp add: query_key_from_message_def message_question_def sample_query_def message_query_def message_new_def
     sample_query_key_def edns_new_def edns_ecs_def header_flags_default_def)

lemma sample_env_ok: "env_ok sample_env"
  by (simp add: env_ok_def sample_env_def)

lemma sample_initial: "resolver_initial sample_env (sample_resolver d rules) (world_new sample_env (sample_resolver d rules) ())"
  by (auto simp: resolver_initial_def sample_resolver_def sample_dns_def)

lemma sample_reachable:
  "reachable (resolver_initial sample_env (sample_resolver d rules)) (resolver_step sample_env (sample_resolver d rules))
     (world_new sample_env (sample_resolver d rules) ())"
  by (rule reachable.reach_init) (rule sample_initial)

lemma sample_valid: "validate_query (rc_policy (sample_resolver d rules)) sample_query = Ok ()"
proof -
  have "name_label_count wit_name = 2" by code_simp
  then show ?thesis
    by (simp add: validate_query_def sample_resolver_def policy_config_default_def sample_query_def message_query_def message_new_def
        message_question_def header_flags_default_def Opcode_QUERY_def rr_type_consts RrType_AXFR_def RrType_IXFR_def)
qed

section \<open>The tables\<close>

text \<open>
  C2. Composition: in every state that client queries, background refreshes and maintenance lead to, the cache's
  tiers and indices agree and no key is in two tiers, the alias graph is consistent, the fake-IP pool maps names
  and addresses one to one, and the in-flight and rate-limit tables are within their bounds.
\<close>

theorem resolver_tables_consistent:
  assumes "reachable (resolver_initial env cfg) (resolver_step env cfg) w"
  shows "cache_inv (en_signals env) (w_cache w) \<and> exclusive (w_cache w) \<and> alias_inv (w_aliases w)
    \<and> pred_option pool_inv (w_fake_ip w)
    \<and> length (if_slots (w_inflight w)) \<le> if_max (w_inflight w) \<and> length (rl_buckets (w_limiter w)) \<le> max_buckets (w_limiter w)"
proof -
  have t: "tables_ok env w" using resolver_machine.reachable_inv [OF assms] .
  have "cache_inv (en_signals env) (w_cache w) \<and> exclusive (w_cache w)"
    using t by (intro live_machine.reachable_inv) (simp add: tables_ok_def)
  moreover have "alias_inv (w_aliases w)" using t by (intro alias_machine.reachable_inv) (simp add: tables_ok_def)
  moreover have "pred_option pool_inv (w_fake_ip w)"
    using t by (auto simp: tables_ok_def pred_option_def intro: pool_machine.reachable_inv)
  ultimately show ?thesis using t by (simp add: tables_ok_def inflight_inv_def limiter_inv_def)
qed

theorem resolver_tables_consistent_witness:
  "exclusive (w_cache (world_new sample_env (sample_resolver False []) ())) \<and> alias_inv (w_aliases (world_new sample_env (sample_resolver False []) ()))"
  using resolver_tables_consistent [OF sample_reachable] by blast

section \<open>Every query is answered\<close>

text \<open>
  C3. With validation off, a client query that parses is answered, in every state the resolver reaches and
  whatever the network sends: the walk ends, nothing waits, and the response carries the query's ID and question.
\<close>

theorem resolver_answers:
  assumes "env_ok env" and "\<not> ec_dnssec (rc_engine cfg)" and "reachable (resolver_initial env cfg) (resolver_step env cfg) w"
    and "message_ok query"
  shows "\<exists>m w'. handle_query env cfg query client w = Some (m, w') \<and> answers_query query m"
proof -
  have "idle w" using idle_machine.reachable_inv [OF assms(3)] assms(2) by simp
  then have "handle_query env cfg query client w \<noteq> None" using handle_query_total [OF assms(1,2,4)] by blast
  then obtain m w' where "handle_query env cfg query client w = Some (m, w')" by fast
  with handle_query_answers show ?thesis by blast
qed

theorem resolver_answers_witness:
  "\<exists>m w'. handle_query sample_env (sample_resolver False []) sample_query None (world_new sample_env (sample_resolver False []) ()) = Some (m, w')
    \<and> answers_query sample_query m"
  by (rule resolver_answers [OF sample_env_ok _ sample_reachable sample_query_ok]) (simp add: sample_resolver_def)

text \<open>
  C5. Resolution terminates: with validation off, the recursion through name-server addresses and the walk from
  the root, a loop the model lets run forever, return for every well-formed name, budget, deadline and state.
\<close>

theorem resolution_returns:
  assumes "env_ok env" and "\<not> ec_dnssec (rc_engine cfg)" and "wf_name (qk_name key)"
  shows "\<exists>r b' w'. resolve_inner env cfg call depth dl pol key b w = Some (r, b', w')"
  using resolve_inner_total [OF assms] by (metis not_None_eq prod_cases3)

theorem resolution_returns_witness:
  "\<exists>r b' w'. resolve_inner sample_env (sample_resolver False []) (\<lambda>_ _. None) 0 5 Reuse sample_query_key
     (budget_new (fetch_limits_default 0)) (world_new sample_env (sample_resolver False []) ()) = Some (r, b', w')"
  by (rule resolution_returns [OF sample_env_ok]) (simp_all add: sample_resolver_def sample_query_key_def wit_name_wf)

section \<open>Bounded work\<close>

abbreviation sent :: "('f, 'm, 'n) world \<Rightarrow> u64" where
  "sent w \<equiv> w_stats w St_upstream_queries"

lemma sent_frame [simp]:
  "st \<noteq> St_upstream_queries \<Longrightarrow> sent (count_stat st n w) = sent w" "sent (observe env x w) = sent w"
  by (simp_all add: count_stat_def observe_def)

lemma sent_on_net: "on_net f w = (r, w') \<Longrightarrow> sent w' = sent w"
  by (auto simp: on_net_def split: prod.splits)

lemma sent_local: "local_answer dns key now w = (r, w') \<Longrightarrow> sent w' = sent w"
  by (auto simp: local_answer_def local_reverse_def local_forward_def Let_def
      split: if_splits option.splits prod.splits sum.splits allocation.splits)

lemma resolve_owned_sent:
  assumes "resolve_owned env cfg call key i started w = Some (r, w')" and "\<not> ec_dnssec (rc_engine cfg)"
  shows "\<exists>n \<le> unat (max_subqueries (ec_fetch_limits (rc_engine cfg))). sent w' = sent w + of_nat n"
proof -
  obtain dl w1 where dl: "on_net (deadline_after env (query_budget_ms (rc_engine cfg))) w = (dl, w1)" by fastforce
  obtain r' b2 w2 where r: "resolve_inner env cfg call 0 dl Reuse key (budget_new (ec_fetch_limits (rc_engine cfg))) w1 = Some (r', b2, w2)"
    using assms(1) by (auto simp: resolve_owned_def dl)
  obtain stop w3 where s: "on_net (en_instant env) (w2\<lparr>w_inflight := owner_publish key i r' (w_inflight w2)\<rparr>) = (stop, w3)" by fastforce
  have "sent w' = sent w2" using assms(1) sent_on_net [OF s] by (auto simp: resolve_owned_def dl r s)
  with resolve_inner_queries [OF r assms(2)] sent_on_net [OF dl] show ?thesis by simp
qed

lemma resolve_key_sent:
  assumes "resolve_key env cfg key w = Some (r, w')" and "\<not> ec_dnssec (rc_engine cfg)"
  shows "\<exists>n \<le> unat (max_subqueries (ec_fetch_limits (rc_engine cfg))). sent w' = sent w + of_nat n"
proof -
  obtain started w1 where s: "on_net (en_instant env) w = (started, w1)" by fastforce
  obtain now w2 where n: "on_net (en_now env) w1 = (now, w2)" by fastforce
  obtain l w3 where l: "local_answer (rc_dns cfg) key now (bump St_queries w2) = (l, w3)" by fastforce
  let ?w = "observe env (ObserveQuery (qk_name key) now) w3"
  obtain c t where c: "inflight_claim key (w_inflight ?w) = (c, t)" by fastforce
  have same: "sent w3 = sent w" "sent w2 = sent w" using sent_on_net [OF s] sent_on_net [OF n] sent_local [OF l] by simp_all
  have none: "sent w' = sent w \<Longrightarrow> ?thesis" by (intro exI [of _ 0]) simp
  note eq = assms(1) [unfolded resolve_key_def resolve_key_with_def Let_def s n l c prod.case]
  show ?thesis
  proof (cases "is_blocked (rc_policy cfg) (qk_name key) \<or> l \<noteq> None \<or> (\<exists>i. c = Waiter i)")
    case True
    with eq same show ?thesis by (intro none) (auto split: if_splits option.splits claim.splits)
  next
    case False
    then obtain i where "c = Owner i" by (cases c) auto
    with False eq have "resolve_owned env cfg (resolve_nested env cfg) key i started (?w\<lparr>w_inflight := t\<rparr>) = Some (r, w')" by auto
    from resolve_owned_sent [OF this assms(2)] same show ?thesis by simp
  qed
qed

text \<open>
  C6. Bounded amplification: with validation off, one client query makes the resolver send at most the
  configured number of upstream queries, as its statistics count them, whatever delegations and
  aliases the network answers with.  The TCP repetition of a truncated answer is part of the query it
  repeats.
\<close>

theorem client_query_bounded:
  assumes "handle_query env cfg query client w = Some (m, w')" and "\<not> ec_dnssec (rc_engine cfg)"
  shows "\<exists>n \<le> unat (max_subqueries (ec_fetch_limits (rc_engine cfg))).
    w_stats w' St_upstream_queries = w_stats w St_upstream_queries + of_nat n"
proof -
  have admit: "admit_client env client now u = (a, v) \<Longrightarrow> sent v = sent u" for now u a v
    by (auto simp: admit_client_def split: option.splits prod.splits)
  have none: "sent w' = sent w \<Longrightarrow> ?thesis" by (intro exI [of _ 0]) simp
  from assms(1) show ?thesis
  proof (cases rule: handle_query_cases)
    case (answered now w1 w2 key res)
    with resolve_key_sent [OF answered(5) assms(2)] sent_on_net [OF answered(1)] admit [OF answered(2)] show ?thesis by simp
  next
    case (failed now w1 w2 key e w3)
    with resolve_key_sent [OF failed(4) assms(2)] sent_on_net [OF failed(1)] admit [OF failed(2)] show ?thesis by simp
  qed (use none in \<open>auto dest!: sent_on_net admit\<close>)
qed

theorem client_query_bounded_witness:
  "\<exists>m w' n. handle_query sample_env (sample_resolver False []) sample_query None (world_new sample_env (sample_resolver False []) ()) = Some (m, w')
    \<and> n \<le> unat (max_subqueries (fetch_limits_default (0 :: nat))) \<and> w_stats w' St_upstream_queries = of_nat n"
proof -
  let ?w = "world_new sample_env (sample_resolver False []) ()"
  have "\<not> ec_dnssec (rc_engine (sample_resolver False []))" "idle ?w"
    by (simp_all add: sample_resolver_def idle_def world_new_def inflight_new_def)
  then obtain m w' where h: "handle_query sample_env (sample_resolver False []) sample_query None ?w = Some (m, w')"
    using handle_query_total [OF sample_env_ok _ sample_query_ok, of "sample_resolver False []" ?w None] by fast
  from client_query_bounded [OF h] show ?thesis
    using h by (auto simp: sample_resolver_def engine_config_default_def world_new_def)
qed

section \<open>Refusals\<close>

lemma tables_unmoved:
  "on_net f w = (r, w') \<Longrightarrow> w_cache w' = w_cache w \<and> w_aliases w' = w_aliases w \<and> w_fake_ip w' = w_fake_ip w \<and> w_inflight w' = w_inflight w"
  by (auto simp: on_net_def split: prod.splits)

lemma admit_unmoved:
  "admit_client env client now w = (ok, w') \<Longrightarrow> w_cache w' = w_cache w \<and> w_aliases w' = w_aliases w \<and> w_fake_ip w' = w_fake_ip w
    \<and> w_inflight w' = w_inflight w"
  by (auto simp: admit_client_def split: option.splits prod.splits)

text \<open>
  C35. Blocked names are refused: whoever asks, a query that passes the policy's checks and names a blocked name is
  answered REFUSED without records, also when the client's rate is exhausted, and the cache, the aliases, the
  fake-IP pool and the in-flight table are as before.  (A query that fails the checks gets FORMERR.)
\<close>

theorem blocked_query_refused:
  assumes "validate_query (rc_policy cfg) query = Ok ()" and "query_key_from_message query = Some key"
    and "is_blocked (rc_policy cfg) (qk_name key)" and "handle_query env cfg query client w = Some (m, w')"
  shows "m = error_response query (Rcode 5) \<and> answers m = [] \<and> authorities m = [] \<and> additionals m = []
    \<and> w_cache w' = w_cache w \<and> w_aliases w' = w_aliases w \<and> w_fake_ip w' = w_fake_ip w \<and> w_inflight w' = w_inflight w"
proof -
  obtain now w1 where n: "on_net (en_now env) w = (now, w1)" by fastforce
  obtain ok w2 where a: "admit_client env client now w1 = (ok, w2)" by fastforce
  obtain started w3 where s: "on_net (en_instant env) w2 = (started, w3)" by fastforce
  obtain now' w4 where n': "on_net (en_now env) w3 = (now', w4)" by fastforce
  have r: "resolve_key env cfg key w2 = Some (Err (error_new Policy ''name blocked by policy''), bump St_policy_blocked (bump St_queries w4))"
    using assms(3) by (simp add: resolve_key_def resolve_key_with_def s n' Let_def)
  have "m = error_response query (Rcode 5)"
    "w' = bump St_errors (bump St_policy_blocked (bump St_queries w4)) \<or> w' = bump St_rate_limited w2"
    using assms(1,2,4) by (auto simp: handle_query_def n a r Let_def error_rcode_def error_new_def split: if_splits bool.splits)
  with tables_unmoved [OF n] admit_unmoved [OF a] tables_unmoved [OF s] tables_unmoved [OF n'] show ?thesis
    by (auto simp: count_stat_def error_response_def message_new_def Let_def)
qed

theorem blocked_query_refused_witness:
  "\<exists>w'. handle_query sample_env (sample_resolver False [rule_exact wit_name]) sample_query (Some (IpV4 1))
      (world_new sample_env (sample_resolver False [rule_exact wit_name]) ()) = Some (error_response sample_query (Rcode 5), w')"
proof -
  let ?cfg = "sample_resolver False [rule_exact wit_name]" let ?w = "world_new sample_env ?cfg ()"
  have b: "is_blocked (rc_policy ?cfg) (qk_name sample_query_key)"
    by (simp add: is_blocked_def sample_resolver_def rule_exact_def sample_query_key_def)
  have "\<not> ec_dnssec (rc_engine ?cfg)" "idle ?w" by (simp_all add: sample_resolver_def idle_def world_new_def inflight_new_def)
  then obtain m w' where h: "handle_query sample_env ?cfg sample_query (Some (IpV4 1)) ?w = Some (m, w')"
    using handle_query_total [OF sample_env_ok _ sample_query_ok, of ?cfg ?w "Some (IpV4 1)"] by fast
  with blocked_query_refused [OF sample_valid sample_query_key b h] show ?thesis by blast
qed

section \<open>Two faults\<close>

text \<open>
  C17. A DNSKEY resolution waits for itself: with validation on, the query that owns the slot of a name's DNSKEY
  set and has received that set signed by the name never finishes.  Its validator asks for the same DNSKEY
  set, finds the owner's unpublished slot and waits for it.
\<close>

theorem dnskey_resolution_blocks:
  assumes "ec_dnssec (rc_engine cfg)" and "\<not> is_blocked (rc_policy cfg) n"
    and "inflight_claim (signer_key cfg n RrType_DNSKEY) t = (Owner i, w_inflight w)" and "\<not> w_validating w"
    and "res_answers res \<noteq> []" and "list_all (\<lambda>r. rec_name r = n \<and> rec_type r = RrType_DNSKEY) (res_answers res)"
    and "covering (res_rrsigs res) n RrType_DNSKEY = s # ss" and "rrsig_signer s = Some n"
  shows "finish_resolution env cfg (resolve_nested env cfg) (signer_key cfg n RrType_DNSKEY) now res w = None"
  using assms by (rule dnskey_answer_blocks)

definition sample_dnskey :: resolution where
  "sample_dnskey = (empty_answer (signer_key (sample_resolver True []) wit_name RrType_DNSKEY) 60 1)
    \<lparr>res_answers := [\<lparr>rec_name = wit_name, rec_type = RrType_DNSKEY, rec_class = RrClass_IN, rec_ttl = 60, rec_rdata = Dnskey 256 3 (DnssecAlgorithm 8) [1]\<rparr>],
     res_rrsigs := [\<lparr>rec_name = wit_name, rec_type = RrType_RRSIG, rec_class = RrClass_IN, rec_ttl = 60,
       rec_rdata = Rrsig RrType_DNSKEY (DnssecAlgorithm 8) 2 60 9 0 1 wit_name [1]\<rparr>]\<rparr>"

definition sample_owner :: "(nat, unit, unit) world" where
  "sample_owner = (let w = world_new sample_env (sample_resolver True []) () in
     w\<lparr>w_inflight := snd (inflight_claim (signer_key (sample_resolver True []) wit_name RrType_DNSKEY) (w_inflight w))\<rparr>)"

theorem dnskey_resolution_blocks_witness:
  "finish_resolution sample_env (sample_resolver True []) (resolve_nested sample_env (sample_resolver True []))
     (signer_key (sample_resolver True []) wit_name RrType_DNSKEY) 1 sample_dnskey sample_owner = None"
proof -
  let ?cfg = "sample_resolver True []" let ?k = "signer_key ?cfg wit_name RrType_DNSKEY"
  have c: "inflight_claim ?k (inflight_new 8) = (Owner 0, w_inflight sample_owner)"
    by (simp add: sample_owner_def world_new_def sample_resolver_def inflight_claim_def claim_fresh_def inflight_new_def Let_def)
  obtain s where s: "covering (res_rrsigs sample_dnskey) wit_name RrType_DNSKEY = [s]" "rrsig_signer s = Some wit_name"
    by (simp add: sample_dnskey_def covering_def rrsigs_for_def rrsig_signer_def)
  have cfg: "ec_dnssec (rc_engine ?cfg)" "\<not> is_blocked (rc_policy ?cfg) wit_name"
    by (simp_all add: sample_resolver_def is_blocked_def)
  have w: "\<not> w_validating sample_owner" by (simp add: sample_owner_def Let_def world_new_def)
  have r: "res_answers sample_dnskey \<noteq> []"
    "list_all (\<lambda>r. rec_name r = wit_name \<and> rec_type r = RrType_DNSKEY) (res_answers sample_dnskey)"
    by (simp_all add: sample_dnskey_def)
  show ?thesis by (rule dnskey_resolution_blocks [OF cfg c w r s])
qed






end
