(* ===== verification/Quic_Crypto.thy ===== *)
theory Quic_Crypto
  imports Wire_Bytes Ordered_Map Machine
begin

text \<open>
  \<^verbatim>\<open>CryptoRx\<close> of \<^verbatim>\<open>src/src/transports/doq/quic.rs\<close>: the reassembly of the CRYPTO stream of one
  packet-number space into TLS handshake messages.  Stream offsets are natural numbers: they are QUIC
  varints, below \<open>2 ^ 62\<close>, so that no sum of the source leaves 64 bits.  The theory shows that the messages
  handed to TLS followed by the buffered bytes are a prefix of the peer's stream, whatever the order, the
  overlaps and the repetitions of the frames.
\<close>

section \<open>The operations\<close>

definition MAX_CRYPTO_BUFFER :: usize where "MAX_CRYPTO_BUFFER = 64 * 1024"

record crypto_rx =
  cr_buf :: bytes
  cr_start :: nat
  cr_pending :: "(nat, bytes) btree"

definition crypto_rx_default :: crypto_rx where
  "crypto_rx_default = \<lparr>cr_buf = [], cr_start = 0, cr_pending = []\<rparr>"

definition crypto_buffered :: "crypto_rx \<Rightarrow> usize" where
  "crypto_buffered rx = length (cr_buf rx) + sum_list (map (\<lambda>(_, c). length c) (cr_pending rx))"

abbreviation contiguous_end :: "crypto_rx \<Rightarrow> nat" where
  "contiguous_end rx \<equiv> cr_start rx + length (cr_buf rx)"

definition slice_from :: "bytes \<Rightarrow> nat \<Rightarrow> bytes" where
  "slice_from bs i = (case get_from bs i of Some s \<Rightarrow> s | None \<Rightarrow> [])"

definition drain_step :: "nat \<Rightarrow> bytes \<Rightarrow> crypto_rx \<Rightarrow> crypto_rx" where
  "drain_step off chunk rx =
    (let rx = (if off + length chunk > contiguous_end rx
               then rx\<lparr>cr_buf := cr_buf rx @ slice_from chunk (contiguous_end rx - off)\<rparr> else rx)
     in rx\<lparr>cr_pending := btree_remove off (cr_pending rx)\<rparr>)"

function drain_pending :: "crypto_rx \<Rightarrow> crypto_rx" where
  "drain_pending rx = (case find (\<lambda>(off, _). off \<le> contiguous_end rx) (cr_pending rx) of
      None \<Rightarrow> rx
    | Some (off, chunk) \<Rightarrow> drain_pending (drain_step off chunk rx))"
  by pat_completeness auto

lemma drain_step_pending [simp]: "cr_pending (drain_step off chunk rx) = btree_remove off (cr_pending rx)"
  by (simp add: drain_step_def Let_def)

lemma drain_step_start [simp]: "cr_start (drain_step off chunk rx) = cr_start rx"
  by (simp add: drain_step_def Let_def)

lemma find_pending: "find P m = Some (k, v) \<Longrightarrow> (k, v) \<in> set m \<and> P (k, v)"
  by (metis find_Some_iff nth_mem)

termination drain_pending
  by (relation "measure (\<lambda>rx. length (cr_pending rx))")
     (auto simp: btree_remove_def dest!: find_pending intro: length_filter_less)

declare drain_pending.simps [simp del]

definition crypto_insert :: "nat \<Rightarrow> bytes \<Rightarrow> crypto_rx \<Rightarrow> unit result \<times> crypto_rx" where
  "crypto_insert off data rx =
    (if crypto_buffered rx + length data > MAX_CRYPTO_BUFFER
     then (Err (error_transport ''doq CRYPTO buffer overflow''), rx)
     else if off + length data \<le> cr_start rx then (Ok (), rx)
     else if off > contiguous_end rx
     then (Ok (), rx\<lparr>cr_pending := (case btree_get (cr_pending rx) off of
              None \<Rightarrow> btree_insert off data (cr_pending rx) | Some _ \<Rightarrow> cr_pending rx)\<rparr>)
     else let data = (if off < cr_start rx then slice_from data (cr_start rx - off) else data);
              present = contiguous_end rx - max off (cr_start rx);
              rx = (if length data > present then rx\<lparr>cr_buf := cr_buf rx @ slice_from data present\<rparr> else rx)
          in (Ok (), drain_pending rx))"

definition pop_message :: "crypto_rx \<Rightarrow> bytes option \<times> crypto_rx" where
  "pop_message rx =
    (if length (cr_buf rx) < 4 then (None, rx)
     else case u32_at (cr_buf rx) 0 of
       Inl _ \<Rightarrow> (None, rx)
     | Inr header \<Rightarrow>
         let len = unat (header AND 0x00ffffff) in
         if length (cr_buf rx) < 4 + len then (None, rx)
         else let k = min (4 + len) (length (cr_buf rx));
                  m = (case get_to (cr_buf rx) k of Some s \<Rightarrow> s | None \<Rightarrow> [])
              in (Some m, drain_pending (rx\<lparr>cr_buf := drop k (cr_buf rx), cr_start := cr_start rx + k\<rparr>)))"

section \<open>Slices of a stream\<close>

text \<open>The bytes of the stream \<open>S\<close> from offset \<open>a\<close> on.\<close>

definition stream_slice :: "(nat \<Rightarrow> u8) \<Rightarrow> nat \<Rightarrow> nat \<Rightarrow> bytes" where
  "stream_slice S a n = map S [a..<a + n]"

lemma length_stream_slice [simp]: "length (stream_slice S a n) = n"
  by (simp add: stream_slice_def)

lemma stream_slice_append: "stream_slice S a (m + n) = stream_slice S a m @ stream_slice S (a + m) n"
  using upt_add_eq_append [of a "a + m" n] by (simp add: stream_slice_def add.assoc)

lemma stream_slice_drop: "drop k (stream_slice S a n) = stream_slice S (a + k) (n - k)"
  by (cases "k \<le> n") (simp_all add: stream_slice_def drop_map)

lemma stream_slice_take: "k \<le> n \<Longrightarrow> take k (stream_slice S a n) = stream_slice S a k"
  by (simp add: stream_slice_def take_map)

definition from_stream :: "(nat \<Rightarrow> u8) \<Rightarrow> nat \<Rightarrow> bytes \<Rightarrow> bool" where
  "from_stream S a bs \<longleftrightarrow> bs = stream_slice S a (length bs)"

lemma from_stream_Nil [simp]: "from_stream S a []"
  by (simp add: from_stream_def stream_slice_def)

lemma from_stream_append:
  assumes "from_stream S a bs" and "from_stream S (a + length bs) cs"
  shows "from_stream S a (bs @ cs)"
  using assms stream_slice_append [of S a "length bs" "length cs"] by (simp add: from_stream_def)

lemma from_stream_drop: "from_stream S a bs \<Longrightarrow> from_stream S (a + k) (drop k bs)"
  using stream_slice_drop [of k S a "length bs"] by (simp add: from_stream_def)

lemma from_stream_take: "from_stream S a bs \<Longrightarrow> from_stream S a (take k bs)"
  by (cases "k \<le> length bs") (metis from_stream_def length_take min.absorb2 stream_slice_take, simp)

lemma slice_from_drop: "slice_from bs i = drop i bs"
  by (simp add: slice_from_def get_from_def)

section \<open>The invariant\<close>

definition rx_inv :: "(nat \<Rightarrow> u8) \<Rightarrow> crypto_rx \<Rightarrow> bool" where
  "rx_inv S rx \<longleftrightarrow> from_stream S (cr_start rx) (cr_buf rx) \<and> btree_inv (cr_pending rx)
    \<and> (\<forall>(off, c) \<in> set (cr_pending rx). from_stream S off c)"

definition parked :: "crypto_rx \<Rightarrow> bool" where
  "parked rx \<longleftrightarrow> (\<forall>(off, _) \<in> set (cr_pending rx). contiguous_end rx < off)"

lemma btree_remove_subset: "set (btree_remove k m) \<subseteq> set m"
  by (auto simp: btree_remove_def)

lemma extend_from_stream:
  assumes "from_stream S s buf" and "from_stream S off c" and "off \<le> s + length buf"
  shows "from_stream S s (buf @ drop (s + length buf - off) c)"
proof -
  have "from_stream S (s + length buf) (drop (s + length buf - off) c)"
    using from_stream_drop [OF assms(2), of "s + length buf - off"] assms(3) by simp
  with assms(1) show ?thesis by (rule from_stream_append)
qed

lemma drain_step_inv:
  assumes "rx_inv S rx" and "(off, chunk) \<in> set (cr_pending rx)" and "off \<le> contiguous_end rx"
  shows "rx_inv S (drain_step off chunk rx)"
proof -
  from assms(1,2) have fs: "from_stream S (cr_start rx) (cr_buf rx)" "from_stream S off chunk" by (auto simp: rx_inv_def)
  have "from_stream S (cr_start rx) (cr_buf (drain_step off chunk rx))"
    using extend_from_stream [OF fs assms(3)] fs(1) by (simp add: drain_step_def Let_def slice_from_drop)
  with assms(1) btree_remove_subset [of off "cr_pending rx"] show ?thesis
    by (auto simp: rx_inv_def)
qed

lemma sum_remove:
  fixes f :: "'k \<times> 'v \<Rightarrow> nat"
  assumes "e \<in> set m" and "fst e = k"
  shows "f e + sum_list (map f (btree_remove k m)) \<le> sum_list (map f m)"
  using assms
proof (induction m)
  case (Cons x m)
  have "sum_list (map f (filter P m)) \<le> sum_list (map f m)" for P by (induction m) auto
  with Cons show ?case by (auto simp: btree_remove_def)
qed simp

lemma drain_step_buffered:
  assumes "(off, chunk) \<in> set (cr_pending rx)" and "off \<le> contiguous_end rx"
  shows "crypto_buffered (drain_step off chunk rx) \<le> crypto_buffered rx"
  using sum_remove [OF assms(1), of off "\<lambda>(_, c). length c"] assms(2)
  by (auto simp: crypto_buffered_def drain_step_def Let_def slice_from_drop)

lemma drain_pending_spec:
  "rx_inv S rx \<Longrightarrow> rx_inv S (drain_pending rx) \<and> parked (drain_pending rx)
    \<and> cr_start (drain_pending rx) = cr_start rx \<and> crypto_buffered (drain_pending rx) \<le> crypto_buffered rx
    \<and> (\<exists>more. cr_buf (drain_pending rx) = cr_buf rx @ more)"
proof (induction rx rule: drain_pending.induct)
  case (1 rx)
  show ?case
  proof (cases "find (\<lambda>(off, _). off \<le> contiguous_end rx) (cr_pending rx)")
    case None
    then have "drain_pending rx = rx" by (simp add: drain_pending.simps [of rx])
    with None 1(2) show ?thesis by (auto simp: parked_def find_None_iff)
  next
    case (Some e)
    obtain off chunk where e: "e = (off, chunk)" by fastforce
    from find_pending [OF Some [unfolded e]] have m: "(off, chunk) \<in> set (cr_pending rx)" "off \<le> contiguous_end rx" by auto
    have eq: "drain_pending rx = drain_pending (drain_step off chunk rx)"
      using Some e by (simp add: drain_pending.simps [of rx])
    have ext: "\<exists>more. cr_buf (drain_step off chunk rx) = cr_buf rx @ more" by (simp add: drain_step_def Let_def)
    have IH: "rx_inv S (drain_step off chunk rx) \<Longrightarrow> rx_inv S (drain_pending (drain_step off chunk rx))
        \<and> parked (drain_pending (drain_step off chunk rx))
        \<and> cr_start (drain_pending (drain_step off chunk rx)) = cr_start (drain_step off chunk rx)
        \<and> crypto_buffered (drain_pending (drain_step off chunk rx)) \<le> crypto_buffered (drain_step off chunk rx)
        \<and> (\<exists>more. cr_buf (drain_pending (drain_step off chunk rx)) = cr_buf (drain_step off chunk rx) @ more)"
      by (rule 1(1) [OF Some e [symmetric]])
    from IH [OF drain_step_inv [OF 1(2) m]] drain_step_buffered [OF m] ext show ?thesis
      unfolding eq by (auto simp del: drain_step_pending)
  qed
qed

definition rx_ok :: "(nat \<Rightarrow> u8) \<Rightarrow> crypto_rx \<Rightarrow> bool" where
  "rx_ok S rx \<longleftrightarrow> rx_inv S rx \<and> parked rx \<and> crypto_buffered rx \<le> MAX_CRYPTO_BUFFER"

lemma sum_insert_fresh:
  "btree_get m k = None \<Longrightarrow> sum_list (map (\<lambda>(_, c). length c) (btree_insert k v m))
    = length v + sum_list (map (\<lambda>(_, c). length c) m)"
  by (induction k v m rule: btree_insert.induct) (auto split: if_splits)

lemma drained:
  assumes "rx_inv S rx" and "crypto_buffered rx \<le> MAX_CRYPTO_BUFFER"
  shows "rx_ok S (drain_pending rx)"
  using drain_pending_spec [OF assms(1)] assms(2) by (auto simp: rx_ok_def)

lemma crypto_insert_ok:
  assumes ok: "rx_ok S rx" and data: "from_stream S off data"
  shows "rx_ok S (snd (crypto_insert off data rx)) \<and> cr_start (snd (crypto_insert off data rx)) = cr_start rx
    \<and> (\<exists>more. cr_buf (snd (crypto_insert off data rx)) = cr_buf rx @ more)"
proof -
  from ok have inv: "rx_inv S rx" by (simp add: rx_ok_def)
  consider (full) "crypto_buffered rx + length data > MAX_CRYPTO_BUFFER" | (old) "off + length data \<le> cr_start rx"
    | (gap) "crypto_buffered rx + length data \<le> MAX_CRYPTO_BUFFER" "off > contiguous_end rx" "\<not> off + length data \<le> cr_start rx"
    | (join) "crypto_buffered rx + length data \<le> MAX_CRYPTO_BUFFER" "off \<le> contiguous_end rx" "\<not> off + length data \<le> cr_start rx"
    by linarith
  then show ?thesis
  proof cases
    case gap
    let ?p = "case btree_get (cr_pending rx) off of None \<Rightarrow> btree_insert off data (cr_pending rx) | Some _ \<Rightarrow> cr_pending rx"
    have "rx_ok S (rx\<lparr>cr_pending := ?p\<rparr>)"
      using ok gap data set_btree_insert [of off data "cr_pending rx"]
      by (fastforce simp: rx_ok_def rx_inv_def parked_def crypto_buffered_def sum_insert_fresh split: option.splits)
    with gap show ?thesis by (simp add: crypto_insert_def)
  next
    case join
    let ?buf = "cr_buf rx @ drop (contiguous_end rx - off) data"
    let ?data = "if off < cr_start rx then drop (cr_start rx - off) data else data"
    let ?present = "contiguous_end rx - max off (cr_start rx)"
    have "drop ?present ?data = drop (contiguous_end rx - off) data"
      using join by (auto simp: max_def add.commute)
    then have res: "snd (crypto_insert off data rx) = drain_pending (rx\<lparr>cr_buf := ?buf\<rparr>)"
      using join by (auto simp: crypto_insert_def Let_def slice_from_drop)
    have inv': "rx_inv S (rx\<lparr>cr_buf := ?buf\<rparr>)"
      using extend_from_stream [OF _ data join(2)] inv by (simp add: rx_inv_def)
    have "crypto_buffered (rx\<lparr>cr_buf := ?buf\<rparr>) \<le> MAX_CRYPTO_BUFFER" using join(1) by (simp add: crypto_buffered_def)
    from drained [OF inv' this] drain_pending_spec [OF inv'] show ?thesis unfolding res by fastforce
  qed (use ok in \<open>simp_all add: crypto_insert_def\<close>)
qed

section \<open>Messages\<close>

text \<open>The length in the header of a TLS handshake message.\<close>

definition handshake_length :: "bytes \<Rightarrow> nat" where
  "handshake_length m = unat ((from_be_bytes (take 4 m) :: u32) AND 0x00ffffff)"

lemma u32_at_0: "4 \<le> length buf \<Longrightarrow> u32_at buf 0 = Ok (from_be_bytes (take 4 buf))"
  by (simp add: u32_at_def array_at_def slice_at_def checked_add_def usize_bound_def get_range_def)

lemma pop_message_cases:
  obtains (none) "pop_message rx = (None, rx)" "length (cr_buf rx) < 4 \<or> length (cr_buf rx) < 4 + handshake_length (cr_buf rx)"
  | (some) k where "k = 4 + handshake_length (cr_buf rx)" "k \<le> length (cr_buf rx)"
      "pop_message rx = (Some (take k (cr_buf rx)), drain_pending (rx\<lparr>cr_buf := drop k (cr_buf rx), cr_start := cr_start rx + k\<rparr>))"
  by (cases "length (cr_buf rx) < 4"; cases "length (cr_buf rx) < 4 + handshake_length (cr_buf rx)")
     (auto simp: pop_message_def u32_at_0 handshake_length_def Let_def get_to_def min_def)

definition framed :: "bytes \<Rightarrow> bool" where
  "framed m \<longleftrightarrow> length m = 4 + handshake_length m"

lemma pop_message_ok:
  assumes ok: "rx_ok S rx" and pop: "pop_message rx = (r, rx')"
  shows "rx_ok S rx'
    \<and> (case r of None \<Rightarrow> rx' = rx
       | Some m \<Rightarrow> framed m \<and> from_stream S (cr_start rx) m \<and> cr_start rx' = cr_start rx + length m)"
proof (cases rule: pop_message_cases [of rx])
  case none
  with ok pop show ?thesis by auto
next
  case (some k)
  let ?rx = "rx\<lparr>cr_buf := drop k (cr_buf rx), cr_start := cr_start rx + k\<rparr>"
  from ok have inv: "rx_inv S rx" by (simp add: rx_ok_def)
  then have inv': "rx_inv S ?rx" by (auto simp: rx_inv_def intro: from_stream_drop)
  have "crypto_buffered ?rx \<le> MAX_CRYPTO_BUFFER" using ok by (auto simp: rx_ok_def crypto_buffered_def)
  from drained [OF inv' this] drain_pending_spec [OF inv'] some pop inv show ?thesis
    by (auto simp: framed_def handshake_length_def rx_inv_def min_def intro: from_stream_take)
qed

section \<open>Reassembly as a machine\<close>

text \<open>
  The receiver with the messages it has handed to TLS.  The frames are pieces of one stream \<open>S\<close>, cut and
  repeated in any way and order.
\<close>

datatype rx_op = FrameOp nat nat | PopOp

fun rx_apply :: "(nat \<Rightarrow> u8) \<Rightarrow> rx_op \<Rightarrow> crypto_rx \<times> bytes list \<Rightarrow> crypto_rx \<times> bytes list" where
  "rx_apply S (FrameOp off n) (rx, msgs) = (snd (crypto_insert off (stream_slice S off n) rx), msgs)"
| "rx_apply S PopOp (rx, msgs) = (case pop_message rx of
      (None, rx) \<Rightarrow> (rx, msgs)
    | (Some m, rx) \<Rightarrow> (rx, msgs @ [m]))"

definition rx_step :: "(nat \<Rightarrow> u8) \<Rightarrow> crypto_rx \<times> bytes list \<Rightarrow> rx_op \<Rightarrow> crypto_rx \<times> bytes list \<Rightarrow> bool" where
  "rx_step S s opn s' \<longleftrightarrow> s' = rx_apply S opn s"

definition rx_initial :: "crypto_rx \<times> bytes list \<Rightarrow> bool" where
  "rx_initial s \<longleftrightarrow> s = (crypto_rx_default, [])"

definition rx_state_ok :: "(nat \<Rightarrow> u8) \<Rightarrow> crypto_rx \<times> bytes list \<Rightarrow> bool" where
  "rx_state_ok S = (\<lambda>(rx, msgs). rx_ok S rx \<and> from_stream S 0 (concat msgs) \<and> length (concat msgs) = cr_start rx
    \<and> list_all framed msgs)"

lemma from_stream_slice [simp]: "from_stream S a (stream_slice S a n)"
  by (simp add: from_stream_def)

lemma rx_apply_ok: "rx_state_ok S s \<Longrightarrow> rx_state_ok S (rx_apply S opn s)"
proof (cases s; cases opn)
  fix rx msgs off n
  assume "rx_state_ok S s" "s = (rx, msgs)" "opn = FrameOp off n"
  with crypto_insert_ok [of S rx off "stream_slice S off n"] show ?thesis by (auto simp: rx_state_ok_def)
next
  fix rx msgs
  assume "rx_state_ok S s" "s = (rx, msgs)" "opn = PopOp"
  moreover obtain r rx' where pop: "pop_message rx = (r, rx')" by fastforce
  ultimately show ?thesis
    using pop_message_ok [OF _ pop, of S] from_stream_append [of S 0 "concat msgs"]
    by (cases r) (simp_all add: rx_state_ok_def)
qed

interpretation rx_machine: inductive_invariant rx_initial "rx_step S" "rx_state_ok S" for S
proof
  show "rx_initial s \<Longrightarrow> rx_state_ok S s" for s
    by (auto simp: rx_initial_def rx_state_ok_def rx_ok_def rx_inv_def parked_def crypto_rx_default_def crypto_buffered_def)
  show "rx_state_ok S s \<Longrightarrow> rx_step S s opn s' \<Longrightarrow> rx_state_ok S s'" for s opn s'
    by (simp add: rx_step_def rx_apply_ok)
qed

text \<open>
  What the machine does not promise: a piece that arrives at the offset of a shorter parked one is
  dropped, although the packet that carried it is acknowledged.
\<close>

lemma drain_stop: "find (\<lambda>(off, _). off \<le> contiguous_end rx) (cr_pending rx) = None \<Longrightarrow> drain_pending rx = rx"
  by (simp add: drain_pending.simps [of rx])

lemma drain_more: "find (\<lambda>(off, _). off \<le> contiguous_end rx) (cr_pending rx) = Some (off, chunk)
    \<Longrightarrow> drain_pending rx = drain_pending (drain_step off chunk rx)"
  by (simp add: drain_pending.simps [of rx])

lemma pending_piece_lost:
  "fold (rx_apply (\<lambda>_. 7)) [FrameOp 2 1, FrameOp 2 3, FrameOp 0 2] (crypto_rx_default, [])
    = (\<lparr>cr_buf = [7, 7, 7], cr_start = 0, cr_pending = []\<rparr>, [])"
  by (simp add: crypto_insert_def crypto_rx_default_def crypto_buffered_def MAX_CRYPTO_BUFFER_def stream_slice_def
      slice_from_drop drain_stop drain_more drain_step_def btree_remove_def)

end
