(* ===== verification/Quic_Ack.thy ===== *)
theory Quic_Ack
  imports Prelude
begin

text \<open>
  Acknowledgements of \<^verbatim>\<open>src/src/transports/doq/quic.rs\<close>: \<^verbatim>\<open>build_ack_frame\<close>, which encodes a set of packet
  numbers as descending ranges, and the decoding of such ranges in \<^verbatim>\<open>on_ack\<close>.  Packet numbers are natural
  numbers: they are QUIC varints, below \<open>2 ^ 62\<close>, and subtraction on them is \<^verbatim>\<open>saturating_sub\<close>.  The theory
  shows that the decoder recovers exactly the numbers that were encoded.
\<close>

section \<open>Building\<close>

record ack_frame =
  largest_acked :: nat
  ack_delay :: nat
  ack_ranges :: "(nat \<times> nat) list"

text \<open>\<open>extend_run\<close> is the inner loop: the length of the run, and what is left of the descending numbers.\<close>

fun extend_run :: "nat \<Rightarrow> nat \<Rightarrow> nat list \<Rightarrow> nat \<times> nat list" where
  "extend_run largest len [] = (len, [])"
| "extend_run largest len (next # rest) =
    (if len \<le> largest \<and> largest - len = next then extend_run largest (len + 1) rest else (len, next # rest))"

lemma extend_run_rest: "length (snd (extend_run largest len ns)) \<le> length ns"
  by (induction largest len ns rule: extend_run.induct) auto

function ack_runs :: "nat list \<Rightarrow> (nat \<times> nat) list" where
  "ack_runs [] = []"
| "ack_runs (largest # ns) = (case extend_run largest 1 ns of (len, rest) \<Rightarrow> (largest - (len - 1), len) # ack_runs rest)"
  by pat_completeness auto

termination ack_runs
proof (relation "measure length")
  fix largest len :: nat and ns rest
  assume "(len, rest) = extend_run largest 1 ns"
  with extend_run_rest [of largest 1 ns] show "(rest, largest # ns) \<in> measure length"
    by (metis in_measure le_imp_less_Suc length_Cons snd_conv)
qed simp

fun ack_gaps :: "nat \<Rightarrow> (nat \<times> nat) list \<Rightarrow> (nat \<times> nat) list" where
  "ack_gaps prev_low [] = []"
| "ack_gaps prev_low ((low, len) # runs) =
    (let run_largest = low + (len - 1); gap = prev_low - (run_largest + 2) in (gap, len - 1) # ack_gaps low runs)"

definition build_ack_frame :: "nat list \<Rightarrow> ack_frame" where
  "build_ack_frame pns = (case ack_runs (rev (sort pns)) of
      [] \<Rightarrow> \<lparr>largest_acked = 0, ack_delay = 0, ack_ranges = [(0, 0)]\<rparr>
    | (top_low, top_len) # runs \<Rightarrow>
        \<lparr>largest_acked = top_low + (top_len - 1), ack_delay = 0,
         ack_ranges = (0, top_len - 1) # ack_gaps top_low runs\<rparr>)"

section \<open>Decoding\<close>

fun acked_after :: "nat \<Rightarrow> (nat \<times> nat) list \<Rightarrow> nat set" where
  "acked_after prev_low [] = {}"
| "acked_after prev_low ((gap, range_len) # ranges) =
    (let largest = prev_low - (gap + 2); low = largest - range_len in {low..largest} \<union> acked_after low ranges)"

fun acked_numbers :: "nat \<Rightarrow> (nat \<times> nat) list \<Rightarrow> nat set" where
  "acked_numbers largest [] = {}"
| "acked_numbers largest ((_, range_len) # ranges) =
    (let low = largest - range_len in {low..largest} \<union> acked_after low ranges)"

section \<open>The round trip\<close>

text \<open>Runs are separated: a number that ends a run is at least two above the next one.\<close>

fun runs_below :: "nat \<Rightarrow> (nat \<times> nat) list \<Rightarrow> bool" where
  "runs_below b [] \<longleftrightarrow> True"
| "runs_below b ((low, len) # runs) \<longleftrightarrow> 0 < len \<and> low + len < b \<and> runs_below low runs"

definition run_set :: "(nat \<times> nat) list \<Rightarrow> nat set" where
  "run_set runs = (\<Union>(low, len) \<in> set runs. {low..<low + len})"

lemma run_set_simps [simp]: "run_set [] = {}" "run_set ((low, len) # runs) = {low..<low + len} \<union> run_set runs"
  by (auto simp: run_set_def)

lemma acked_after_gaps: "runs_below b runs \<Longrightarrow> acked_after b (ack_gaps b runs) = run_set runs"
proof (induction b runs rule: runs_below.induct)
  case (2 b low len runs)
  then have "{low..low + (len - 1)} = {low..<low + len}" by auto
  moreover have "b - (b - (low + (len - 1) + 2) + 2) = low + (len - 1)" using 2(2) by (simp only: runs_below.simps) arith
  ultimately show ?case using 2 by (simp add: Let_def del: diff_diff_left)
qed simp

lemma extend_run_spec:
  assumes "extend_run largest len ns = (len', rest)" and "sorted_wrt (>) ns" and "\<forall>x \<in> set ns. x < largest + 1 - len"
    and "0 < len" and "len \<le> largest + 1"
  shows "len \<le> len' \<and> len' \<le> largest + 1 \<and> set ns = {largest + 1 - len'..<largest + 1 - len} \<union> set rest
    \<and> sorted_wrt (>) rest \<and> (\<forall>x \<in> set rest. x + 1 < largest + 1 - len')"
  using assms
proof (induction largest len ns rule: extend_run.induct)
  case (2 largest len m rest0)
  show ?case
  proof (cases "len \<le> largest \<and> largest - len = m")
    case True
    with 2(2) have eq: "extend_run largest (len + 1) rest0 = (len', rest)" by simp
    have below: "\<forall>x \<in> set rest0. x < largest + 1 - (len + 1)" using 2(3) True by auto
    from 2(1) [OF True eq _ below] 2(3) True show ?thesis by auto
  next
    case False
    have "m < largest + 1 - len" using 2(4) by simp
    with False have "m + 1 < largest + 1 - len" by linarith
    moreover from this have "x + 1 < largest + 1 - len" if "x \<in> set rest0" for x using 2(3) that by fastforce
    ultimately show ?thesis using False 2(2-) by auto
  qed
qed auto

lemma ack_runs_spec:
  assumes "sorted_wrt (>) ns" and "\<forall>x \<in> set ns. x + 1 < b"
  shows "runs_below b (ack_runs ns) \<and> run_set (ack_runs ns) = set ns"
  using assms
proof (induction ns arbitrary: b rule: ack_runs.induct)
  case (2 largest ns)
  obtain len rest where e: "extend_run largest 1 ns = (len, rest)" by fastforce
  from extend_run_spec [OF e] 2(2)
  have sp: "1 \<le> len" "len \<le> largest + 1" "set ns = {largest + 1 - len..<largest} \<union> set rest" "sorted_wrt (>) rest"
      "\<forall>x \<in> set rest. x + 1 < largest + 1 - len" by auto
  have low: "largest - (len - 1) = largest + 1 - len" "largest + 1 - len + len = largest + 1" using sp by auto
  from 2(1) [OF e [symmetric] sp(4,5)] low(1)
  have IH: "runs_below (largest + 1 - len) (ack_runs rest)" "run_set (ack_runs rest) = set rest" by auto
  have "{largest + 1 - len..<largest + 1} = insert largest {largest + 1 - len..<largest}" using sp by auto
  with e IH sp low 2(3) show ?case by (auto simp del: atLeastLessThan_iff)
qed simp

lemma ack_decodes:
  assumes "distinct pns" and "pns \<noteq> []"
  shows "acked_numbers (largest_acked (build_ack_frame pns)) (ack_ranges (build_ack_frame pns)) = set pns"
proof -
  let ?d = "rev (sort pns)"
  have "sorted_wrt (<) (sort pns)" using assms(1) by (simp add: strict_sorted_iff)
  then have s: "sorted_wrt (>) ?d" by (simp add: sorted_wrt_rev)
  let ?b = "Max (set pns) + 2"
  have "\<forall>x \<in> set ?d. x + 1 < ?b" by (simp add: less_Suc_eq_le)
  from ack_runs_spec [OF s this] have r: "runs_below ?b (ack_runs ?d)" "run_set (ack_runs ?d) = set pns" by auto
  from r(2) assms(2) obtain low len runs where e: "ack_runs ?d = (low, len) # runs" by (cases "ack_runs ?d") auto
  with r(1) have l: "0 < len" "runs_below low runs" by auto
  have "{low..low + (len - 1)} = {low..<low + len}" using l by auto
  with e r(2) acked_after_gaps [OF l(2)] show ?thesis by (simp add: build_ack_frame_def Let_def)
qed

text \<open>The frame built from no numbers acknowledges packet 0.\<close>

lemma empty_ack: "acked_numbers (largest_acked (build_ack_frame [])) (ack_ranges (build_ack_frame [])) = {0}"
  by (simp add: build_ack_frame_def Let_def)

end
