(* ===== verification/Quic.thy ===== *)
theory Quic
  imports Quic_Crypto Quic_Ack
begin

text \<open>
  The connection of \<^verbatim>\<open>src/src/transports/doq/quic.rs\<close>: packet-number spaces, the header parser, sending and
  acknowledging, the query and response streams with their flow control, and loss recovery.  Outside the
  crate, and so parameters (\<open>quic_env\<close>), are the codec of frames and headers, packet protection,
  the socket, the varint decoder, the numbering of streams and the clock.  Of the packet keys the
  connection keeps whether they exist.  Frames are those the modelled code builds.  Offsets, limits and
  packet numbers are natural numbers with the saturation and the wrap-around of the source written out;
  a \<^verbatim>\<open>Duration\<close> is its number of nanoseconds.
\<close>

section \<open>Data\<close>

definition MAX_CHUNK :: usize where "MAX_CHUNK = 1100"
definition MAX_RESPONSE_BUFFER :: usize where "MAX_RESPONSE_BUFFER = 2 ^ 20"
definition PTO_FLOOR_MS :: nat where "PTO_FLOOR_MS = 50"
definition MAX_PTO_COUNT :: nat where "MAX_PTO_COUNT = 10"
definition PN_LEN :: usize where "PN_LEN = 4"
definition TAG_LEN :: usize where "TAG_LEN = 16"
definition MIN_INITIAL_DATAGRAM :: usize where "MIN_INITIAL_DATAGRAM = 1200"

definition millis :: "nat \<Rightarrow> nat" where "millis n = n * 10 ^ 6"
definition INITIAL_PTO :: nat where "INITIAL_PTO = millis 500"
definition MAX_ACK_DELAY :: nat where "MAX_ACK_DELAY = millis 25"
definition duration_max :: nat where "duration_max = 2 ^ 64 * 10 ^ 9 - 1"

definition sat64 :: "nat \<Rightarrow> nat" where "sat64 n = min n (2 ^ 64 - 1)"

datatype pn_space = SpInitial | SpHandshake | SpApplication

record 'a per_space =
  ps_initial :: 'a
  ps_handshake :: 'a
  ps_application :: 'a

fun space_at :: "pn_space \<Rightarrow> 'a per_space \<Rightarrow> 'a" where
  "space_at SpInitial p = ps_initial p"
| "space_at SpHandshake p = ps_handshake p"
| "space_at SpApplication p = ps_application p"

fun space_set :: "pn_space \<Rightarrow> 'a \<Rightarrow> 'a per_space \<Rightarrow> 'a per_space" where
  "space_set SpInitial x p = p\<lparr>ps_initial := x\<rparr>"
| "space_set SpHandshake x p = p\<lparr>ps_handshake := x\<rparr>"
| "space_set SpApplication x p = p\<lparr>ps_application := x\<rparr>"

lemma space_at_set [simp]: "space_at s (space_set s' x p) = (if s = s' then x else space_at s p)"
  by (cases s; cases s') simp_all

datatype frame =
    FrAck ack_frame
  | FrCrypto nat bytes
  | FrStream nat nat bytes bool
  | FrResetStream nat nat nat
  | FrMaxData nat
  | FrMaxStreamData nat nat
  | FrMaxStreams bool nat
  | FrConnectionClose nat

record sent_packet =
  sp_space :: pn_space
  sp_pn :: nat
  sp_sent :: nat
  sp_frames :: "frame list"

record query_send =
  qs_data :: bytes
  qs_offset :: nat
  qs_conn_used :: nat
  qs_fin_sent :: bool

record query_recv =
  qr_buf :: bytes
  qr_fin :: bool

record 'n quic_conn =
  qc_local_cid :: bytes
  qc_server_cid :: bytes
  qc_retry_token :: bytes
  qc_hs_write :: bool
  qc_app_write :: bool
  qc_next_pn :: "nat per_space"
  qc_pending_acks :: "nat list per_space"
  qc_confirmed :: bool
  qc_stream_id :: nat
  qc_query_tx :: "query_send option"
  qc_query_rx :: query_recv
  qc_peer_max_data :: nat
  qc_peer_max_stream_data :: nat
  qc_our_max_data :: nat
  qc_our_max_stream_data :: nat
  qc_our_max_stream_data_uni :: nat
  qc_our_max_streams_uni :: nat
  qc_rx_consumed :: nat
  qc_uni_opened :: nat
  qc_uni_consumed :: "(nat, nat) btree"
  qc_sent :: "sent_packet list"
  qc_srtt :: "nat option"
  qc_rttvar :: nat
  qc_pto_count :: nat
  qc_close_sent :: bool
  qc_closed :: "error option"
  qc_net :: 'n

record 'n quic_env =
  qe_encode :: "frame \<Rightarrow> bytes"
  qe_long_header :: "pn_space \<Rightarrow> bytes \<Rightarrow> bytes \<Rightarrow> nat \<Rightarrow> bytes \<Rightarrow> nat \<Rightarrow> bytes option"
  qe_short_header :: "bytes \<Rightarrow> nat \<Rightarrow> bytes option"
  qe_seal :: "pn_space \<Rightarrow> nat \<Rightarrow> bytes \<Rightarrow> bytes \<Rightarrow> bytes option"
  qe_protect :: "pn_space \<Rightarrow> bytes \<Rightarrow> usize \<Rightarrow> bytes option"
  qe_send :: "bytes \<Rightarrow> 'n \<Rightarrow> unit result \<times> 'n"
  qe_instant :: "'n \<Rightarrow> nat \<times> 'n"
  qe_stream_type :: "nat \<Rightarrow> nat"
  qe_stream_index :: "nat \<Rightarrow> nat"
  qe_server_uni :: nat
  qe_client_bidi :: nat

section \<open>Headers\<close>

datatype long_type = LtInitial | LtZeroRtt | LtHandshake | LtRetry

record packet_header =
  ph_long :: bool
  ph_type :: "long_type option"
  ph_dcid :: bytes
  ph_scid :: bytes
  ph_token :: bytes
  ph_pn_offset :: usize
  ph_end :: usize

fun long_type_of :: "u8 \<Rightarrow> long_type" where
  "long_type_of b = (let k = unat (drop_bit 4 b AND 3) in
    if k = 0 then LtInitial else if k = 1 then LtZeroRtt else if k = 2 then LtHandshake else LtRetry)"

text \<open>A connection ID at an offset: its length octet was read, at most 20 octets follow.\<close>

definition read_cid :: "string \<Rightarrow> bytes \<Rightarrow> usize \<Rightarrow> usize \<Rightarrow> (bytes \<times> usize) result" where
  "read_cid what dg len pos =
    (if len > 20 \<or> pos + len > length dg then Err (error_wire what)
     else rbind (slice_at dg pos len) (\<lambda>cid. Ok (cid, pos + len)))"

type_synonym varint_decoder = "bytes \<Rightarrow> (nat \<times> usize) option"

definition read_varint :: "varint_decoder \<Rightarrow> string \<Rightarrow> bytes \<Rightarrow> usize \<Rightarrow> (nat \<times> usize) result" where
  "read_varint decode what dg pos =
    rbind (rest_at dg pos) (\<lambda>rest. case decode rest of
        None \<Rightarrow> Err (error_wire what)
      | Some (v, used) \<Rightarrow> Ok (v, pos + used))"

definition read_token :: "varint_decoder \<Rightarrow> bytes \<Rightarrow> usize \<Rightarrow> (bytes \<times> usize) result" where
  "read_token decode dg pos =
    rbind (read_varint decode ''doq token length malformed'' dg pos) (\<lambda>(tlen, pos).
    if tlen \<ge> usize_bound then Err (error_wire ''doq token too long'')
    else case checked_add pos tlen of
        None \<Rightarrow> Err (error_wire ''doq token truncated'')
      | Some e \<Rightarrow> if e \<le> length dg then rbind (slice_at dg pos tlen) (\<lambda>t. Ok (t, e))
                  else Err (error_wire ''doq token truncated''))"

definition read_payload :: "varint_decoder \<Rightarrow> bytes \<Rightarrow> usize \<Rightarrow> (usize \<times> usize) result" where
  "read_payload decode dg pos =
    rbind (read_varint decode ''doq payload length malformed'' dg pos) (\<lambda>(plen, pos).
    if plen < PN_LEN then Err (error_wire ''doq payload shorter than packet number'')
    else if plen \<ge> usize_bound then Err (error_wire ''doq payload length overflow'')
    else case checked_add pos plen of
        None \<Rightarrow> Err (error_wire ''doq payload length overflow'')
      | Some e \<Rightarrow> if e > length dg then Err (error_wire ''doq packet payload truncated'') else Ok (pos, e))"

definition parse_long :: "varint_decoder \<Rightarrow> u32 \<Rightarrow> u8 \<Rightarrow> bytes \<Rightarrow> packet_header result" where
  "parse_long decode version_1 first dg =
    (if length dg < 7 then Err (error_wire ''doq long header truncated'')
     else rbind (u32_at dg 1) (\<lambda>version.
       if version \<noteq> version_1 then Err (error_wire ''doq unsupported QUIC version'')
       else rbind (byte_at dg 5) (\<lambda>dlen.
         rbind (read_cid ''doq DCID malformed'' dg (unat dlen) 6) (\<lambda>(dcid, pos).
         if pos \<ge> length dg then Err (error_wire ''doq long header truncated'')
         else rbind (byte_at dg pos) (\<lambda>slen.
           rbind (read_cid ''doq SCID malformed'' dg (unat slen) (pos + 1)) (\<lambda>(scid, pos).
           rbind (if long_type_of first = LtInitial then read_token decode dg pos else Ok ([], pos)) (\<lambda>(token, pos).
           rbind (read_payload decode dg pos) (\<lambda>(pn_offset, e).
           Ok \<lparr>ph_long = True, ph_type = Some (long_type_of first), ph_dcid = dcid, ph_scid = scid,
                ph_token = token, ph_pn_offset = pn_offset, ph_end = e\<rparr>))))))))"

definition parse_header :: "varint_decoder \<Rightarrow> u32 \<Rightarrow> bytes \<Rightarrow> bytes \<Rightarrow> packet_header result" where
  "parse_header decode version_1 local_cid dg = (case dg of
      [] \<Rightarrow> Err (error_wire ''doq empty datagram'')
    | first # _ \<Rightarrow>
        if first AND 0x80 \<noteq> 0 then parse_long decode version_1 first dg
        else let start = 1 + length local_cid in
          if length dg < start + 1 then Err (error_wire ''doq short header truncated'')
          else rbind (slice_at dg 1 (length local_cid)) (\<lambda>dcid.
            Ok \<lparr>ph_long = False, ph_type = None, ph_dcid = dcid, ph_scid = [], ph_token = [],
                 ph_pn_offset = start, ph_end = length dg\<rparr>))"

section \<open>Sending\<close>

definition read_instant :: "'n quic_env \<Rightarrow> 'n quic_conn \<Rightarrow> nat \<times> 'n quic_conn" where
  "read_instant env c = (case qe_instant env (qc_net c) of (t, n) \<Rightarrow> (t, c\<lparr>qc_net := n\<rparr>))"

fun write_key :: "pn_space \<Rightarrow> 'n quic_conn \<Rightarrow> unit result" where
  "write_key SpInitial c = Ok ()"
| "write_key SpHandshake c = (if qc_hs_write c then Ok () else Err (error_transport ''doq handshake write key missing''))"
| "write_key SpApplication c = (if qc_app_write c then Ok () else Err (error_transport ''doq application write key missing''))"

definition packet_head :: "'n quic_env \<Rightarrow> pn_space \<Rightarrow> nat \<Rightarrow> nat \<Rightarrow> 'n quic_conn \<Rightarrow> bytes result" where
  "packet_head env s pn payload_len c =
    ok_or (error_transport ''doq header: {e}'') (case s of
        SpInitial \<Rightarrow> qe_long_header env s (qc_server_cid c) (qc_local_cid c) pn (qc_retry_token c) payload_len
      | SpHandshake \<Rightarrow> qe_long_header env s (qc_server_cid c) (qc_local_cid c) pn [] payload_len
      | SpApplication \<Rightarrow> qe_short_header env (qc_server_cid c) pn)"

text \<open>The loop that pads the plaintext until the datagram is large enough, and seals it.\<close>

function seal_loop :: "'n quic_env \<Rightarrow> pn_space \<Rightarrow> nat \<Rightarrow> bool \<Rightarrow> 'n quic_conn \<Rightarrow> bytes \<Rightarrow> (bytes \<times> bytes) result" where
  "seal_loop env s pn pad c plain =
    (let payload_len = PN_LEN + length plain + TAG_LEN in
     case packet_head env s pn payload_len c of
       Inl e \<Rightarrow> Err e
     | Inr header \<Rightarrow>
         let datagram_len = length header + payload_len - PN_LEN in
         if pad \<and> datagram_len < MIN_INITIAL_DATAGRAM
         then seal_loop env s pn pad c (plain @ replicate (MIN_INITIAL_DATAGRAM - datagram_len) 0)
         else rbind (ok_or (error_transport ''doq seal: {e}'') (qe_seal env s pn header plain)) (\<lambda>sealed. Ok (header, sealed)))"
  by pat_completeness auto

termination seal_loop
  by (relation "measure (\<lambda>(env, s, pn, pad, c, plain). MIN_INITIAL_DATAGRAM - length plain)") (auto simp: TAG_LEN_def)

declare seal_loop.simps [simp del]

definition seal_packet :: "'n quic_env \<Rightarrow> pn_space \<Rightarrow> nat \<Rightarrow> frame list \<Rightarrow> bool \<Rightarrow> 'n quic_conn \<Rightarrow> bytes result" where
  "seal_packet env s pn frames pad c =
    rbind (seal_loop env s pn pad c (concat (map (qe_encode env) frames))) (\<lambda>(header, sealed).
    ok_or (error_transport ''doq header protection: {e}'') (qe_protect env s (header @ sealed) (length header - PN_LEN)))"

definition transmit :: "'n quic_env \<Rightarrow> pn_space \<Rightarrow> nat \<Rightarrow> frame list \<Rightarrow> bool \<Rightarrow> 'n quic_conn \<Rightarrow> unit result \<times> 'n quic_conn" where
  "transmit env s pn frames pad c = (case seal_packet env s pn frames pad c of
      Inl e \<Rightarrow> (Err e, c)
    | Inr wire \<Rightarrow> (case qe_send env wire (qc_net c) of (r, n) \<Rightarrow> (r, c\<lparr>qc_net := n\<rparr>)))"

definition send_packet :: "'n quic_env \<Rightarrow> pn_space \<Rightarrow> frame list \<Rightarrow> bool \<Rightarrow> 'n quic_conn \<Rightarrow> unit result \<times> 'n quic_conn" where
  "send_packet env s frames pad c = (case write_key s c of
      Inl e \<Rightarrow> (Err e, c)
    | Inr _ \<Rightarrow>
        let pn = space_at s (qc_next_pn c) in
        case transmit env s pn frames pad c of
          (Inl e, c) \<Rightarrow> (Err e, c)
        | (Inr _, c) \<Rightarrow>
            let c = c\<lparr>qc_next_pn := space_set s ((pn + 1) mod 2 ^ 64) (qc_next_pn c)\<rparr> in
            if frames = [] then (Ok (), c)
            else case read_instant env c of (t, c) \<Rightarrow>
              (Ok (), c\<lparr>qc_sent := qc_sent c @ [\<lparr>sp_space = s, sp_pn = pn, sp_sent = t, sp_frames = frames\<rparr>]\<rparr>))"

definition send_crypto :: "'n quic_env \<Rightarrow> pn_space \<Rightarrow> bytes \<Rightarrow> nat \<Rightarrow> bool \<Rightarrow> 'n quic_conn \<Rightarrow> unit result \<times> 'n quic_conn" where
  "send_crypto env s data off pad c = send_packet env s [FrCrypto off data] pad c"

definition flush_space :: "'n quic_env \<Rightarrow> pn_space \<Rightarrow> 'n quic_conn \<Rightarrow> 'n quic_conn" where
  "flush_space env s c =
    (let pns = space_at s (qc_pending_acks c) in
     if pns = [] then c
     else let c' = c\<lparr>qc_pending_acks := space_set s [] (qc_pending_acks c)\<rparr> in
       if s = SpInitial \<and> qc_confirmed c then c'
       else snd (send_packet env s [FrAck (build_ack_frame pns)] (s = SpInitial \<and> \<not> qc_confirmed c) c'))"

definition flush_acks :: "'n quic_env \<Rightarrow> 'n quic_conn \<Rightarrow> 'n quic_conn" where
  "flush_acks env c = fold (flush_space env) [SpInitial, SpHandshake, SpApplication] c"

definition is_open :: "'n quic_conn \<Rightarrow> bool" where
  "is_open c \<longleftrightarrow> qc_closed c = None \<and> \<not> qc_close_sent c"

definition quic_close :: "'n quic_env \<Rightarrow> 'n quic_conn \<Rightarrow> 'n quic_conn" where
  "quic_close env c =
    (if qc_close_sent c \<or> qc_closed c \<noteq> None then c
     else (snd (send_packet env SpApplication [FrConnectionClose 0] False c))\<lparr>qc_close_sent := True\<rparr>)"

text \<open>A sequence of sends that stops at the first error (\<^verbatim>\<open>?\<close> in a loop).\<close>

fun send_all :: "'n quic_env \<Rightarrow> (pn_space \<times> frame list) list \<Rightarrow> 'n quic_conn \<Rightarrow> unit result \<times> 'n quic_conn" where
  "send_all env [] c = (Ok (), c)"
| "send_all env ((s, fs) # ps) c = (case send_packet env s fs False c of
      (Inl e, c) \<Rightarrow> (Err e, c)
    | (Inr _, c) \<Rightarrow> send_all env ps c)"

section \<open>Acknowledgements\<close>

definition rtt_update :: "nat \<Rightarrow> nat \<Rightarrow> 'n quic_conn \<Rightarrow> 'n quic_conn" where
  "rtt_update delay sample c =
    (let delay_ns = millis (sat64 (delay * 8) div 1000);
         sample = sample - min delay_ns sample;
         c = (case qc_srtt c of
             None \<Rightarrow> c\<lparr>qc_srtt := Some sample, qc_rttvar := sample div 2\<rparr>
           | Some srtt \<Rightarrow>
               let delta = (if srtt > sample then srtt - sample else sample - srtt) in
               c\<lparr>qc_rttvar := qc_rttvar c * 3 div 4 + delta div 4, qc_srtt := Some (srtt * 7 div 8 + sample div 8)\<rparr>)
     in c\<lparr>qc_pto_count := 0\<rparr>)"

definition on_ack :: "'n quic_env \<Rightarrow> pn_space \<Rightarrow> nat \<Rightarrow> nat \<Rightarrow> (nat \<times> nat) list \<Rightarrow> 'n quic_conn \<Rightarrow> 'n quic_conn" where
  "on_ack env s largest delay ranges c =
    (let acked = acked_numbers largest ranges; hit = (\<lambda>p. sp_space p = s \<and> sp_pn p \<in> acked) in
     case read_instant env c of (now, c) \<Rightarrow>
     let first = find hit (qc_sent c); c = c\<lparr>qc_sent := filter (\<lambda>p. \<not> hit p) (qc_sent c)\<rparr> in
     case first of None \<Rightarrow> c | Some p \<Rightarrow> rtt_update delay (now - sp_sent p) c)"

section \<open>The response stream\<close>

definition maybe_replenish_windows :: "'n quic_env \<Rightarrow> 'n quic_conn \<Rightarrow> unit result \<times> 'n quic_conn" where
  "maybe_replenish_windows env c =
    (let conn_window = (\<lambda>c.
        if qc_rx_consumed c * 2 > qc_our_max_data c then
          let new_limit = sat64 (qc_our_max_data c * 2) in
          case send_packet env SpApplication [FrMaxData new_limit] False c of
            (Inl e, c) \<Rightarrow> (Err e, c)
          | (Inr _, c) \<Rightarrow> (Ok (), c\<lparr>qc_our_max_data := new_limit\<rparr>)
        else (Ok (), c))
     in if length (qr_buf (qc_query_rx c)) * 2 > qc_our_max_stream_data c then
          let new_limit = sat64 (qc_our_max_stream_data c * 2) in
          case send_packet env SpApplication [FrMaxStreamData (qc_stream_id c) new_limit] False c of
            (Inl e, c) \<Rightarrow> (Err e, c)
          | (Inr _, c) \<Rightarrow> conn_window (c\<lparr>qc_our_max_stream_data := new_limit\<rparr>)
        else conn_window c)"

definition maybe_replenish_uni :: "'n quic_env \<Rightarrow> nat \<Rightarrow> 'n quic_conn \<Rightarrow> unit result \<times> 'n quic_conn" where
  "maybe_replenish_uni env sid c =
    (let consumed = (case btree_get (qc_uni_consumed c) sid of None \<Rightarrow> 0 | Some n \<Rightarrow> n);
         streams = (\<lambda>c.
        if qc_uni_opened c * 2 > qc_our_max_streams_uni c then
          let new_limit = sat64 (qc_our_max_streams_uni c * 2) in
          case send_packet env SpApplication [FrMaxStreams True new_limit] False c of
            (Inl e, c) \<Rightarrow> (Err e, c)
          | (Inr _, c) \<Rightarrow> (Ok (), c\<lparr>qc_our_max_streams_uni := new_limit\<rparr>)
        else (Ok (), c))
     in if consumed * 2 > qc_our_max_stream_data_uni c then
          let new_limit = sat64 (qc_our_max_stream_data_uni c * 2) in
          case send_packet env SpApplication [FrMaxStreamData sid new_limit] False c of
            (Inl e, c) \<Rightarrow> (Err e, c)
          | (Inr _, c) \<Rightarrow> streams (c\<lparr>qc_our_max_stream_data_uni := new_limit\<rparr>)
        else streams c)"

definition reassembly_end :: "nat \<Rightarrow> usize \<Rightarrow> usize \<Rightarrow> usize option" where
  "reassembly_end off len cap =
    (if off \<ge> usize_bound then None
     else case checked_add off len of None \<Rightarrow> None | Some e \<Rightarrow> if e \<le> cap then Some e else None)"

text \<open>What a frame makes of the response buffer; \<open>None\<close> when it would exceed the limit.\<close>

definition place_response :: "nat \<Rightarrow> bytes \<Rightarrow> bytes \<Rightarrow> bytes option" where
  "place_response off data buf =
    (if off > length buf then
       case reassembly_end off (length data) MAX_RESPONSE_BUFFER of
         None \<Rightarrow> None
       | Some e \<Rightarrow> Some (take (e - length data) (buf @ replicate (e - length buf) 0) @ data)
     else Some (buf @ (case get_from data (length buf - off) of Some fresh \<Rightarrow> fresh | None \<Rightarrow> [])))"

definition too_large :: error where
  "too_large = error_transport ''doq response exceeds buffer limit''"

definition on_query_data :: "'n quic_env \<Rightarrow> nat \<Rightarrow> bytes \<Rightarrow> bool \<Rightarrow> 'n quic_conn \<Rightarrow> unit result \<times> 'n quic_conn" where
  "on_query_data env off data fin c = (case place_response off data (qr_buf (qc_query_rx c)) of
      None \<Rightarrow> (Err too_large, c\<lparr>qc_closed := Some too_large\<rparr>)
    | Some buf \<Rightarrow>
        let c = c\<lparr>qc_query_rx := \<lparr>qr_buf = buf, qr_fin = (qr_fin (qc_query_rx c) \<or> fin)\<rparr>\<rparr> in
        if length buf > MAX_RESPONSE_BUFFER then (Err too_large, c\<lparr>qc_closed := Some too_large\<rparr>)
        else maybe_replenish_windows env (c\<lparr>qc_rx_consumed := max (qc_rx_consumed c) (length buf)\<rparr>))"

definition on_uni :: "'n quic_env \<Rightarrow> nat \<Rightarrow> nat \<Rightarrow> bytes \<Rightarrow> 'n quic_conn \<Rightarrow> unit result \<times> 'n quic_conn" where
  "on_uni env sid off data c =
    (let c = c\<lparr>qc_uni_opened := max (qc_uni_opened c) (qe_stream_index env sid + 1)\<rparr>;
         consumed = (case btree_get (qc_uni_consumed c) sid of None \<Rightarrow> 0 | Some n \<Rightarrow> n)
     in maybe_replenish_uni env sid
          (c\<lparr>qc_uni_consumed := btree_insert sid (max consumed (off + length data)) (qc_uni_consumed c)\<rparr>))"

definition on_stream :: "'n quic_env \<Rightarrow> nat \<Rightarrow> nat \<Rightarrow> bytes \<Rightarrow> bool \<Rightarrow> 'n quic_conn \<Rightarrow> unit result \<times> 'n quic_conn" where
  "on_stream env sid off data fin c =
    (let t = qe_stream_type env sid in
     if t = qe_server_uni env then on_uni env sid off data c
     else if t \<noteq> qe_client_bidi env \<or> sid \<noteq> qc_stream_id c
     then send_packet env SpApplication [FrResetStream sid 5 0] False c
     else on_query_data env off data fin c)"

section \<open>The query stream\<close>

function query_chunks :: "bytes \<Rightarrow> nat \<Rightarrow> nat \<Rightarrow> nat \<Rightarrow> nat \<Rightarrow> (nat \<times> bytes \<times> bool) list
    \<Rightarrow> ((nat \<times> bytes \<times> bool) list \<times> nat) result" where
  "query_chunks data off remaining allow sent acc =
    (if sent < allow then
       case get_from data (off + sent) of
         None \<Rightarrow> Err (error_internal ''doq query chunk starts past the end'')
       | Some rest \<Rightarrow>
           let n = min (length rest) MAX_CHUNK in
           if n = 0 then Err (error_internal ''doq query send made no progress'')
           else let fin = (sent + n \<ge> remaining); acc = acc @ [(off + sent, capped rest MAX_CHUNK, fin)] in
             if fin then Ok (acc, sent + n) else query_chunks data off remaining allow (sent + n) acc
     else Ok (acc, sent))"
  by pat_completeness auto

termination query_chunks
  by (relation "measure (\<lambda>(data, off, remaining, allow, sent, acc). allow - sent)") (auto simp: min_def MAX_CHUNK_def)

declare query_chunks.simps [simp del]

definition send_allowance :: "query_send \<Rightarrow> 'n quic_conn \<Rightarrow> nat" where
  "send_allowance q c =
    min (min (qc_peer_max_data c - qs_conn_used q) (qc_peer_max_stream_data c - qs_offset q))
      (length (qs_data q) - qs_offset q)"

definition flush_query_send :: "'n quic_env \<Rightarrow> 'n quic_conn \<Rightarrow> unit result \<times> 'n quic_conn" where
  "flush_query_send env c = (case qc_query_tx c of
      None \<Rightarrow> (Ok (), c)
    | Some q \<Rightarrow>
        if qs_fin_sent q \<or> send_allowance q c = 0 then (Ok (), c)
        else case query_chunks (qs_data q) (qs_offset q) (length (qs_data q) - qs_offset q) (send_allowance q c) 0 [] of
          Inl e \<Rightarrow> (Err e, c)
        | Inr (chunks, sent) \<Rightarrow>
            let q = q\<lparr>qs_offset := qs_offset q + sent, qs_conn_used := qs_conn_used q + sent,
                      qs_fin_sent := (chunks \<noteq> [] \<and> snd (snd (last chunks)) \<or> qs_fin_sent q)\<rparr>
            in send_all env (map (\<lambda>(off, data, fin). (SpApplication, [FrStream (qc_stream_id c) off data fin])) chunks)
                 (c\<lparr>qc_query_tx := Some q\<rparr>))"

section \<open>Loss recovery\<close>

definition pto_timeout :: "'n quic_conn \<Rightarrow> nat" where
  "pto_timeout c =
    (let base = (case qc_srtt c of
          Some srtt \<Rightarrow> srtt + max (qc_rttvar c) (millis 1) + MAX_ACK_DELAY
        | None \<Rightarrow> INITIAL_PTO)
     in min (max base (millis PTO_FLOOR_MS) * min (2 ^ qc_pto_count c) (2 ^ 32 - 1)) duration_max)"

definition run_pto :: "'n quic_env \<Rightarrow> 'n quic_conn \<Rightarrow> unit result \<times> 'n quic_conn" where
  "run_pto env c =
    (if qc_sent c = [] then (Ok (), c)
     else if qc_pto_count c \<ge> MAX_PTO_COUNT then
       let e = error_new Timeout ''doq too many PTOs'' in (Err e, c\<lparr>qc_closed := Some e\<rparr>)
     else let timeout = pto_timeout c; last_sent = Max (set (map sp_sent (qc_sent c))) in
       case read_instant env c of (now, c) \<Rightarrow>
       if now < last_sent + timeout then (Ok (), c)
       else send_all env (map (\<lambda>p. (sp_space p, sp_frames p)) (qc_sent c))
              (c\<lparr>qc_pto_count := qc_pto_count c + 1, qc_sent := []\<rparr>))"

end
