(* ===== verification/Quic_Correct.thy ===== *)
theory Quic_Correct
  imports Quic
begin

text \<open>
  What the connection guarantees: accepted headers lie within the datagram, the chunks of a query are the
  query, the response buffer is bounded and, as long as no frame skips ahead, a prefix of the server's
  stream, and a probe timeout sends every unacknowledged frame again.
\<close>

section \<open>Headers\<close>

lemma read_cid_Ok: "read_cid what dg len pos = Ok (cid, p) \<Longrightarrow> p = pos + len \<and> p \<le> length dg \<and> length cid = len \<and> len \<le> 20"
  by (auto simp: read_cid_def slice_at_def ok_or_def rbind_def get_range_def checked_add_def split: if_splits sum.splits option.splits)

lemma read_varint_Ok: "read_varint decode what dg pos = Ok (v, p) \<Longrightarrow> pos \<le> p"
  by (auto simp: read_varint_def rest_at_def rbind_def split: sum.splits option.splits)

lemma read_token_Ok: "read_token decode dg pos = Ok (t, p) \<Longrightarrow> pos \<le> p \<and> p \<le> length dg"
  by (auto simp: read_token_def rbind_def checked_add_def dest!: read_varint_Ok split: sum.splits if_splits)

lemma read_payload_Ok: "read_payload decode dg pos = Ok (p, e) \<Longrightarrow> pos \<le> p \<and> p + PN_LEN \<le> e \<and> e \<le> length dg"
  by (auto simp: read_payload_def rbind_def checked_add_def dest!: read_varint_Ok split: sum.splits if_splits)

lemma rbind_Ok: "rbind r f = Ok y \<longleftrightarrow> (\<exists>x. r = Ok x \<and> f x = Ok y)"
  by (cases r) (simp_all add: rbind_def)

lemma parse_long_Ok:
  assumes "parse_long decode v first dg = Ok h"
  shows "6 < ph_pn_offset h \<and> ph_pn_offset h + PN_LEN \<le> ph_end h \<and> ph_end h \<le> length dg
    \<and> length (ph_dcid h) \<le> 20 \<and> length (ph_scid h) \<le> 20 \<and> ph_long h"
proof -
  from assms obtain dlen dcid p slen scid p2 token p3 pn e where
    "read_cid ''doq DCID malformed'' dg (unat (dlen :: u8)) 6 = Ok (dcid, p)"
    "read_cid ''doq SCID malformed'' dg (unat (slen :: u8)) (p + 1) = Ok (scid, p2)"
    "(if long_type_of first = LtInitial then read_token decode dg p2 else Ok ([], p2)) = Ok (token, p3)"
    "read_payload decode dg p3 = Ok (pn, e)"
    "h = \<lparr>ph_long = True, ph_type = Some (long_type_of first), ph_dcid = dcid, ph_scid = scid, ph_token = token, ph_pn_offset = pn, ph_end = e\<rparr>"
    by (auto simp: parse_long_def rbind_Ok simp del: long_type_of.simps split: if_splits)
  then show ?thesis
    using read_token_Ok [of decode dg p2 token p3]
    by (auto dest!: read_cid_Ok read_payload_Ok simp del: long_type_of.simps split: if_splits)
qed

lemma header_in_datagram:
  assumes "parse_header decode v cid dg = Ok h"
  shows "0 < ph_pn_offset h \<and> ph_pn_offset h < ph_end h \<and> ph_end h \<le> length dg
    \<and> (if ph_long h then length (ph_dcid h) \<le> 20 \<and> length (ph_scid h) \<le> 20 else length (ph_dcid h) = length cid)"
proof (cases dg)
  case (Cons b bs)
  show ?thesis
  proof (cases "b AND 0x80 = 0")
    case True
    with assms Cons show ?thesis
      by (auto simp: parse_header_def Let_def rbind_Ok slice_at_def ok_or_def get_range_def checked_add_def
          split: if_splits option.splits)
  next
    case False
    with assms Cons have "parse_long decode v b dg = Ok h" by (simp add: parse_header_def)
    from parse_long_Ok [OF this] show ?thesis by (auto simp: PN_LEN_def)
  qed
qed (use assms in \<open>simp add: parse_header_def\<close>)

section \<open>Padding\<close>

text \<open>A padded datagram has at least the size that RFC 9000 section 14.1 demands of Initial packets.\<close>

lemma seal_loop_padded:
  assumes "\<And>h p x. qe_seal env s pn h p = Some x \<Longrightarrow> length x = length p + TAG_LEN"
  shows "seal_loop env s pn True c plain = Ok (header, sealed) \<Longrightarrow> MIN_INITIAL_DATAGRAM \<le> length header + length sealed"
proof (induction "MIN_INITIAL_DATAGRAM - length plain" arbitrary: plain rule: less_induct)
  case less
  let ?len = "PN_LEN + length plain + TAG_LEN"
  note run = less.prems [unfolded seal_loop.simps [of env s pn True c plain] Let_def]
  obtain h where h: "packet_head env s pn ?len c = Ok h"
    using run by (cases "packet_head env s pn ?len c") simp_all
  let ?pad = "MIN_INITIAL_DATAGRAM - (length h + ?len - PN_LEN)"
  show ?case
  proof (cases "length h + ?len - PN_LEN < MIN_INITIAL_DATAGRAM")
    case True
    with run h have "seal_loop env s pn True c (plain @ replicate ?pad 0) = Ok (header, sealed)" by simp
    from less.hyps [OF _ this] True show ?thesis by (simp add: TAG_LEN_def)
  next
    case False
    with run h have "qe_seal env s pn h plain = Some sealed" "header = h"
      by (auto simp: rbind_Ok ok_or_def split: option.splits)
    with False assms show ?thesis by simp
  qed
qed

section \<open>Chunks\<close>

text \<open>The chunks are adjacent pieces of the data from an offset on; only one that ends it is final.\<close>

fun chunked :: "bytes \<Rightarrow> nat \<Rightarrow> (nat \<times> bytes \<times> bool) list \<Rightarrow> bool" where
  "chunked data p [] \<longleftrightarrow> True"
| "chunked data p ((off, piece, fin) # cs) \<longleftrightarrow>
    off = p \<and> piece = take (length piece) (drop p data) \<and> 0 < length piece \<and> length piece \<le> MAX_CHUNK
    \<and> p + length piece \<le> length data \<and> (fin \<longleftrightarrow> p + length piece = length data) \<and> chunked data (p + length piece) cs"

definition chunks_size :: "(nat \<times> bytes \<times> bool) list \<Rightarrow> nat" where
  "chunks_size cs = sum_list (map (\<lambda>(_, piece, _). length piece) cs)"

lemma chunks_size_simps [simp]: "chunks_size [] = 0" "chunks_size ((off, piece, fin) # cs) = length piece + chunks_size cs"
  by (simp_all add: chunks_size_def)

lemma chunks_size_append [simp]: "chunks_size (cs @ ds) = chunks_size cs + chunks_size ds"
  by (simp add: chunks_size_def)

lemma chunked_append: "chunked data p (cs @ ds) \<longleftrightarrow> chunked data p cs \<and> chunked data (p + chunks_size cs) ds"
  by (induction data p cs rule: chunked.induct) (auto simp: add.assoc)

lemma chunked_concat: "chunked data p cs \<Longrightarrow> concat (map (\<lambda>(_, piece, _). piece) cs) = take (chunks_size cs) (drop p data)"
proof (induction data p cs rule: chunked.induct)
  case (2 data p off piece fin cs)
  then show ?case by (auto simp: take_add add.commute)
qed simp

lemma query_chunks_spec:
  assumes "chunked data off acc" and "chunks_size acc = sent" and "off + sent \<le> length data"
    and "allow \<le> length data - off" and "remaining = length data - off" and "acc = [] \<longrightarrow> 0 < allow"
    and "\<forall>(_, _, fin) \<in> set acc. \<not> fin"
  shows "\<exists>cs n. query_chunks data off remaining allow sent acc = Ok (cs, n) \<and> chunked data off cs \<and> cs \<noteq> []
    \<and> chunks_size cs = n \<and> allow \<le> n \<and> n \<le> max sent (allow + MAX_CHUNK - 1)
    \<and> (snd (snd (last cs)) \<longleftrightarrow> off + n = length data)"
  using assms
proof (induction data off remaining allow sent acc rule: query_chunks.induct)
  case (1 data off remaining allow sent acc)
  show ?case
  proof (cases "sent < allow")
    case False
    with 1(7) have "acc \<noteq> []" using 1(3) by auto
    then obtain a o' p f where acc: "acc = a @ [(o', p, f)]" by (metis append_butlast_last_id prod_cases3)
    with 1(2,3,8) have "\<not> f" "f \<longleftrightarrow> off + sent = length data" by (auto simp: chunked_append)
    moreover have "query_chunks data off remaining allow sent acc = Ok (acc, sent)"
      using False by (subst query_chunks.simps) simp
    ultimately show ?thesis using False 1(2,3) acc by (intro exI [of _ acc] exI [of _ sent]) auto
  next
    case True
    let ?rest = "drop (off + sent) data" let ?n = "min (length ?rest) MAX_CHUNK"
    let ?fin = "sent + ?n \<ge> remaining" let ?acc = "acc @ [(off + sent, capped ?rest MAX_CHUNK, ?fin)]"
    have g: "get_from data (off + sent) = Some ?rest" using 1(4) by (simp add: get_from_def)
    have n: "0 < ?n" using True 1(5) by (auto simp: MAX_CHUNK_def)
    have piece: "length (capped ?rest MAX_CHUNK) = ?n" by (simp add: capped_take)
    have ch: "chunked data off ?acc"
      using 1(2,3,4,6) n True 1(5) by (auto simp: chunked_append capped_take min_def split: if_splits)
    have size: "chunks_size ?acc = sent + ?n" using 1(3) piece by simp
    have eq: "query_chunks data off remaining allow sent acc
        = (if ?fin then Ok (?acc, sent + ?n) else query_chunks data off remaining allow (sent + ?n) ?acc)"
      using True g n by (subst query_chunks.simps) (auto simp: Let_def min_def)
    show ?thesis
    proof (cases ?fin)
      case True
      moreover have "sent + ?n \<le> allow + MAX_CHUNK - 1" using \<open>sent < allow\<close> by auto
      ultimately show ?thesis using eq ch size 1(4,5,6) by auto
    next
      case False
      have bd: "off + (sent + ?n) \<le> length data" using 1(4) by auto
      have le: "sent + ?n \<le> allow + MAX_CHUNK - 1" using \<open>sent < allow\<close> by auto
      have nf: "\<forall>(_, _, fin) \<in> set ?acc. \<not> fin" using 1(8) False by auto
      have "n > 0 \<Longrightarrow> \<not> ?fin" for n :: nat using False by simp
      from 1(1) [OF True g refl _ refl refl False ch size bd 1(5) 1(6) _ nf] n
      obtain cs m where "query_chunks data off remaining allow (sent + ?n) ?acc = Ok (cs, m) \<and> chunked data off cs \<and> cs \<noteq> []
        \<and> chunks_size cs = m \<and> allow \<le> m \<and> m \<le> max (sent + ?n) (allow + MAX_CHUNK - 1)
        \<and> (snd (snd (last cs)) \<longleftrightarrow> off + m = length data)" by auto
      with eq False le show ?thesis by auto
    qed
  qed
qed

lemma query_chunks_total:
  assumes "0 < allow" and "allow \<le> length data - off"
  shows "\<exists>cs n. query_chunks data off (length data - off) allow 0 [] = Ok (cs, n) \<and> chunked data off cs
    \<and> concat (map (\<lambda>(_, piece, _). piece) cs) = take n (drop off data) \<and> allow \<le> n \<and> n < allow + MAX_CHUNK
    \<and> off + n \<le> length data \<and> (snd (snd (last cs)) \<longleftrightarrow> off + n = length data)"
proof -
  from assms have "off \<le> length data" by linarith
  with assms query_chunks_spec [of data off "[]" 0 allow "length data - off"]
  obtain cs n where q: "query_chunks data off (length data - off) allow 0 [] = Ok (cs, n)" "chunked data off cs"
      "chunks_size cs = n" "allow \<le> n" "n \<le> allow + MAX_CHUNK - 1" "snd (snd (last cs)) \<longleftrightarrow> off + n = length data"
    by (auto simp: less_imp_le)
  have "p + chunks_size cs \<le> length data" if "chunked data p cs" "p \<le> length data" for p cs
    using that by (induction data p cs rule: chunked.induct) (auto simp: add.assoc)
  with q(2,3) assms have "off + n \<le> length data" by auto
  with q chunked_concat [OF q(2)] assms show ?thesis by (auto simp: MAX_CHUNK_def)
qed

text \<open>A chunk is not cut at what the peer still allows: one octet of allowance sends a whole chunk.\<close>

lemma allowance_exceeded:
  "\<exists>cs n. query_chunks (replicate 200 0) 0 200 1 0 [] = Ok (cs, n) \<and> n = 200"
  by (simp add: query_chunks.simps get_from_def MAX_CHUNK_def Let_def)

section \<open>The response\<close>

lemma transmit_same: "transmit env s pn fs pad c = (r, c') \<Longrightarrow> \<exists>n. c' = c\<lparr>qc_net := n\<rparr>"
  by (auto simp: transmit_def split: sum.splits prod.splits intro: exI [of _ "qc_net c"])

lemma send_packet_rx [simp]:
  "qc_query_rx (snd (send_packet env s fs pad c)) = qc_query_rx c"
  by (auto simp: send_packet_def read_instant_def Let_def dest!: transmit_same split: sum.splits prod.splits if_splits)

lemma send_packet_rx_eq: "send_packet env s fs pad c = (r, c') \<Longrightarrow> qc_query_rx c' = qc_query_rx c"
  using send_packet_rx [of env s fs pad c] by simp

lemma replenish_rx [simp]: "qc_query_rx (snd (maybe_replenish_windows env c)) = qc_query_rx c"
  by (auto simp: maybe_replenish_windows_def Let_def dest!: send_packet_rx_eq split: prod.splits sum.splits)

lemma reassembly_end_Some: "reassembly_end off len cap = Some e \<longleftrightarrow> off < usize_bound \<and> e = off + len \<and> e < usize_bound \<and> e \<le> cap"
  by (auto simp: reassembly_end_def checked_add_def)

lemma place_response_length:
  assumes "place_response off data buf = Some buf'"
  shows "length buf' = max (length buf) (off + length data)"
  using assms by (auto simp: place_response_def reassembly_end_Some get_from_def split: if_splits option.splits)

lemma on_query_data_bounded:
  assumes "length (qr_buf (qc_query_rx c)) \<le> MAX_RESPONSE_BUFFER" and "on_query_data env off data fin c = (Ok (), c')"
  shows "length (qr_buf (qc_query_rx c')) \<le> MAX_RESPONSE_BUFFER
    \<and> length (qr_buf (qc_query_rx c')) = max (length (qr_buf (qc_query_rx c))) (off + length data)
    \<and> (qr_fin (qc_query_rx c') \<longleftrightarrow> qr_fin (qc_query_rx c) \<or> fin)"
proof -
  from assms(2) obtain buf where b: "place_response off data (qr_buf (qc_query_rx c)) = Some buf" "length buf \<le> MAX_RESPONSE_BUFFER"
    by (auto simp: on_query_data_def Let_def split: option.splits if_splits)
  let ?c = "c\<lparr>qc_query_rx := \<lparr>qr_buf = buf, qr_fin = (qr_fin (qc_query_rx c) \<or> fin)\<rparr>, qc_rx_consumed := max (qc_rx_consumed c) (length buf)\<rparr>"
  from b assms(2) have "maybe_replenish_windows env ?c = (Ok (), c')" by (simp add: on_query_data_def Let_def)
  with replenish_rx [of env ?c] have "qc_query_rx c' = qc_query_rx ?c" by simp
  with b place_response_length [OF b(1)] show ?thesis by simp
qed

lemma place_in_order:
  assumes "from_stream S 0 buf" and "from_stream S off data" and "off \<le> length buf"
  shows "\<exists>buf'. place_response off data buf = Some buf' \<and> from_stream S 0 buf'"
  using extend_from_stream [OF assms(1,2)] assms(3)
  by (auto simp: place_response_def get_from_def split: if_splits)

text \<open>
  A frame that skips ahead breaks this: the gap is filled with zeros, and the bytes that belong there are
  dropped when they arrive.
\<close>

lemma gap_corrupts:
  "Option.bind (place_response 2 [7, 7] []) (place_response 0 [7, 7]) = Some [0, 0, 7, 7]"
proof -
  have "replicate 4 (0 :: u8) = [0, 0, 0, 0]" by (simp add: numeral_eq_Suc)
  then show ?thesis
    by (simp add: place_response_def reassembly_end_def checked_add_def usize_bound_def MAX_RESPONSE_BUFFER_def get_from_def)
qed

section \<open>Loss recovery\<close>

lemma send_packet_sent:
  assumes "send_packet env s fs pad c = (Ok (), c')" and "fs \<noteq> []"
  shows "\<exists>t. qc_sent c' = qc_sent c @ [\<lparr>sp_space = s, sp_pn = space_at s (qc_next_pn c), sp_sent = t, sp_frames = fs\<rparr>]"
  using assms by (auto simp: send_packet_def read_instant_def Let_def dest!: transmit_same split: sum.splits prod.splits)

lemma send_all_sent:
  assumes "send_all env ps c = (Ok (), c')" and "\<forall>(_, fs) \<in> set ps. fs \<noteq> []"
  shows "map (\<lambda>p. (sp_space p, sp_frames p)) (qc_sent c') = map (\<lambda>p. (sp_space p, sp_frames p)) (qc_sent c) @ ps"
  using assms
proof (induction env ps c rule: send_all.induct)
  case (2 env s fs ps c)
  obtain r c1 where e: "send_packet env s fs False c = (r, c1)" by fastforce
  with 2(2) obtain u where r: "r = Ok u" and rest: "send_all env ps c1 = (Ok (), c')" by (cases r) auto
  have "send_packet env s fs False c = (Ok (), c1)" using e r by simp
  from send_packet_sent [OF this] 2(3) obtain t where
    "qc_sent c1 = qc_sent c @ [\<lparr>sp_space = s, sp_pn = space_at s (qc_next_pn c), sp_sent = t, sp_frames = fs\<rparr>]" by auto
  with 2(1) [OF e [symmetric] r rest] 2(3) show ?case by simp
qed simp

lemma run_pto_retransmits:
  assumes "run_pto env c = (Ok (), c')" and "\<forall>p \<in> set (qc_sent c). sp_frames p \<noteq> []"
  shows "map (\<lambda>p. (sp_space p, sp_frames p)) (qc_sent c') = map (\<lambda>p. (sp_space p, sp_frames p)) (qc_sent c)
    \<and> qc_pto_count c < MAX_PTO_COUNT \<or> qc_sent c = [] \<and> c' = c"
proof (cases "qc_sent c = []")
  case False
  obtain now c1 where t: "read_instant env c = (now, c1)" by fastforce
  then have c1: "qc_sent c1 = qc_sent c" by (auto simp: read_instant_def split: prod.splits)
  from assms(1) False have cnt: "qc_pto_count c < MAX_PTO_COUNT" by (auto simp: run_pto_def Let_def split: if_splits)
  show ?thesis
  proof (cases "now < Max (set (map sp_sent (qc_sent c))) + pto_timeout c")
    case True
    with assms(1) False t cnt c1 show ?thesis by (auto simp: run_pto_def Let_def)
  next
    case late: False
    let ?c = "c1\<lparr>qc_pto_count := qc_pto_count c1 + 1, qc_sent := []\<rparr>"
    have "send_all env (map (\<lambda>p. (sp_space p, sp_frames p)) (qc_sent c1)) ?c = (Ok (), c')"
      using assms(1) False t cnt late by (simp add: run_pto_def Let_def)
    from send_all_sent [OF this] assms(2) cnt c1 show ?thesis by auto
  qed
qed (use assms(1) in \<open>simp add: run_pto_def\<close>)

lemma pto_timeout_bounds: "millis PTO_FLOOR_MS \<le> pto_timeout c \<and> pto_timeout c \<le> duration_max"
proof -
  have "b \<le> max a b * min (2 ^ k) (2 ^ 32 - 1)" for a b k :: nat
proof -
    have "1 \<le> min (2 ^ k) (2 ^ 32 - 1 :: nat)" by simp
    from mult_le_mono [OF max.cobounded2 [of b a] this] show ?thesis by simp
  qed
  then show ?thesis by (auto simp: pto_timeout_def Let_def duration_max_def PTO_FLOOR_MS_def millis_def)
qed

end
