(* ===== verification/Quic_Claims.thy ===== *)
theory Quic_Claims
  imports Quic_Correct
begin

text \<open>
  The properties of the DNS-over-QUIC client: CRYPTO reassembly, acknowledgements and the query stream,
  with a small connection to evaluate them on: a socket that accepts everything and a stopped clock.
\<close>

section \<open>The query stream\<close>

lemma send_packet_tx: "send_packet env s fs pad c = (r, c') \<Longrightarrow> qc_query_tx c' = qc_query_tx c"
  by (auto simp: send_packet_def read_instant_def Let_def dest!: transmit_same split: sum.splits prod.splits if_splits)

lemma send_all_tx: "send_all env ps c = (r, c') \<Longrightarrow> qc_query_tx c' = qc_query_tx c"
  by (induction env ps c rule: send_all.induct) (auto dest: send_packet_tx split: prod.splits sum.splits)

definition sample_quic :: "unit quic_env" where
  "sample_quic = \<lparr>qe_encode = (\<lambda>_. [0]), qe_long_header = (\<lambda>_ _ _ _ _ _. Some (replicate 20 0)),
     qe_short_header = (\<lambda>_ _. Some (replicate 13 0)), qe_seal = (\<lambda>_ _ _ p. Some (p @ replicate 16 0)),
     qe_protect = (\<lambda>_ w _. Some w), qe_send = (\<lambda>_ n. (Ok (), n)), qe_instant = (\<lambda>n. (0, n)), qe_stream_type = (\<lambda>i. i mod 4),
     qe_stream_index = (\<lambda>i. i div 4), qe_server_uni = 3, qe_client_bidi = 0\<rparr>"

definition sample_tx :: query_send where
  "sample_tx = \<lparr>qs_data = [1, 2, 3], qs_offset = 0, qs_conn_used = 0, qs_fin_sent = False\<rparr>"

definition sample_conn :: "unit quic_conn" where
  "sample_conn = \<lparr>qc_local_cid = [], qc_server_cid = [], qc_retry_token = [], qc_hs_write = True, qc_app_write = True,
     qc_next_pn = \<lparr>ps_initial = 1, ps_handshake = 1, ps_application = 0\<rparr>,
     qc_pending_acks = \<lparr>ps_initial = [], ps_handshake = [], ps_application = []\<rparr>, qc_confirmed = True,
     qc_stream_id = 0, qc_query_tx = Some sample_tx, qc_query_rx = \<lparr>qr_buf = [], qr_fin = False\<rparr>,
     qc_peer_max_data = 100, qc_peer_max_stream_data = 100, qc_our_max_data = 2 ^ 20, qc_our_max_stream_data = 2 ^ 20,
     qc_our_max_stream_data_uni = 2 ^ 20, qc_our_max_streams_uni = 8, qc_rx_consumed = 0, qc_uni_opened = 0,
     qc_uni_consumed = [], qc_sent = [], qc_srtt = None, qc_rttvar = 0, qc_pto_count = 0, qc_close_sent = False,
     qc_closed = None, qc_net = ()\<rparr>"

text \<open>
  C21. The query stream: a flush with a positive send allowance, the least of the peer's two windows and the
  rest of the query, computes its chunks without error.  They are adjacent non-empty pieces of at most
  \<open>MAX_CHUNK\<close> octets of the query, starting where the last flush ended; FIN is on the piece that ends the
  query and on no other; in all they have at least the allowance and less than a chunk more, and the
  stream's offset moves by as much.  When every send succeeds, the unacknowledged packets have grown by
  exactly these STREAM frames.
\<close>

theorem query_stream_exact:
  assumes "qc_query_tx c = Some q" and "\<not> qs_fin_sent q" and "0 < send_allowance q c"
    and "flush_query_send env c = (r, c')"
  shows "\<exists>cs n. chunked (qs_data q) (qs_offset q) cs
    \<and> concat (map (\<lambda>(_, piece, _). piece) cs) = take n (drop (qs_offset q) (qs_data q))
    \<and> send_allowance q c \<le> n \<and> n < send_allowance q c + MAX_CHUNK
    \<and> qc_query_tx c' = Some (q\<lparr>qs_offset := qs_offset q + n, qs_conn_used := qs_conn_used q + n,
        qs_fin_sent := (qs_offset q + n = length (qs_data q))\<rparr>)
    \<and> (r = Ok () \<longrightarrow> map (\<lambda>p. (sp_space p, sp_frames p)) (qc_sent c') = map (\<lambda>p. (sp_space p, sp_frames p)) (qc_sent c)
        @ map (\<lambda>(off, data, fin). (SpApplication, [FrStream (qc_stream_id c) off data fin])) cs)"
proof -
  let ?f = "\<lambda>(off, data, fin). (SpApplication, [FrStream (qc_stream_id c) off data fin])"
  have "send_allowance q c \<le> length (qs_data q) - qs_offset q" by (simp add: send_allowance_def)
  from query_chunks_total [OF assms(3) this] obtain cs n where
    q: "query_chunks (qs_data q) (qs_offset q) (length (qs_data q) - qs_offset q) (send_allowance q c) 0 [] = Ok (cs, n)"
    and p: "chunked (qs_data q) (qs_offset q) cs" "concat (map (\<lambda>(_, piece, _). piece) cs) = take n (drop (qs_offset q) (qs_data q))"
      "send_allowance q c \<le> n" "n < send_allowance q c + MAX_CHUNK" "qs_offset q + n \<le> length (qs_data q)"
      "snd (snd (last cs)) \<longleftrightarrow> qs_offset q + n = length (qs_data q)" by auto
  have "cs \<noteq> []" using p(2,3,5) assms(3) by auto
  let ?q = "q\<lparr>qs_offset := qs_offset q + n, qs_conn_used := qs_conn_used q + n, qs_fin_sent := (qs_offset q + n = length (qs_data q))\<rparr>"
  from assms q p(6) \<open>cs \<noteq> []\<close> have s: "send_all env (map ?f cs) (c\<lparr>qc_query_tx := Some ?q\<rparr>) = (r, c')"
    by (simp add: flush_query_send_def)
  have "\<forall>(_, fs) \<in> set (map ?f cs). fs \<noteq> []" by auto
  with send_all_tx [OF s] send_all_sent [of env "map ?f cs" "c\<lparr>qc_query_tx := Some ?q\<rparr>" c'] s p show ?thesis
    by (intro exI [of _ cs] exI [of _ n]) auto
qed

lemma sample_flush:
  "flush_query_send sample_quic sample_conn
    = (Ok (), snd (flush_query_send sample_quic sample_conn))
    \<and> map sp_frames (qc_sent (snd (flush_query_send sample_quic sample_conn))) = [[FrStream 0 0 [1, 2, 3] True]]"
  by (simp add: flush_query_send_def sample_conn_def sample_tx_def sample_quic_def send_allowance_def query_chunks.simps
      get_from_def MAX_CHUNK_def capped_take send_packet_def transmit_def seal_packet_def seal_loop.simps packet_head_def read_instant_def Let_def)

theorem query_stream_exact_witness:
  "\<exists>cs n. chunked [1, 2, 3] 0 cs \<and> concat (map (\<lambda>(_, piece, _). piece) cs) = take n [1, 2, 3] \<and> 3 \<le> n
    \<and> map sp_frames (qc_sent (snd (flush_query_send sample_quic sample_conn)))
      = map (\<lambda>(off, data, fin). [FrStream 0 off data fin]) cs"
proof -
  let ?c = "snd (flush_query_send sample_quic sample_conn)"
  have f: "flush_query_send sample_quic sample_conn = (Ok (), ?c)" using sample_flush by blast
  have h: "qc_query_tx sample_conn = Some sample_tx" "\<not> qs_fin_sent sample_tx" "send_allowance sample_tx sample_conn = 3"
    "qs_data sample_tx = [1, 2, 3]" "qs_offset sample_tx = 0" "qc_sent sample_conn = []" "qc_stream_id sample_conn = 0"
    by (simp_all add: sample_conn_def sample_tx_def send_allowance_def)
  from query_stream_exact [OF h(1,2) _ f] h(3-) obtain cs n where
    "chunked [1, 2, 3] 0 cs" "concat (map (\<lambda>(_, piece, _). piece) cs) = take n [1, 2, 3]" "3 \<le> n"
    and m: "map (\<lambda>p. (sp_space p, sp_frames p)) (qc_sent ?c) = map (\<lambda>(off, data, fin). (SpApplication, [FrStream 0 off data fin])) cs"
    by auto
  moreover from m have "map sp_frames (qc_sent ?c) = map (\<lambda>(off, data, fin). [FrStream 0 off data fin]) cs"
    by (metis (no_types, lifting) m map_map comp_def snd_conv case_prod_beta map_eq_conv)
  ultimately show ?thesis by blast
qed

section \<open>Acknowledgements\<close>

text \<open>
  C22. Acknowledgements: the ACK frame built from received packet numbers, read by the decoder of ACK
  frames, acknowledges exactly these numbers.
\<close>

theorem ack_frame_roundtrip:
  assumes "distinct pns" and "pns \<noteq> []"
  shows "acked_numbers (largest_acked (build_ack_frame pns)) (ack_ranges (build_ack_frame pns)) = set pns"
  using assms by (rule ack_decodes)

theorem ack_frame_roundtrip_witness:
  "ack_ranges (build_ack_frame [0, 1, 5, 6]) = [(0, 1), (2, 1)]
    \<and> acked_numbers (largest_acked (build_ack_frame [0, 1, 5, 6])) (ack_ranges (build_ack_frame [0, 1, 5, 6])) = {0, 1, 5, 6}"
  using ack_frame_roundtrip [of "[0, 1, 5, 6]"] by (simp add: build_ack_frame_def Let_def)

section \<open>CRYPTO reassembly\<close>

text \<open>
  C20. Handshake reassembly: whatever pieces of the peer's CRYPTO stream arrive, in whatever order, cut
  and repeated in whatever way, the messages handed to TLS followed by the buffered octets are a prefix of
  the stream, each message is one complete handshake message, and the memory used is bounded.
\<close>

theorem crypto_reassembly_exact:
  assumes "reachable rx_initial (rx_step S) (rx, msgs)"
  shows "concat msgs @ cr_buf rx = stream_slice S 0 (cr_start rx + length (cr_buf rx))
    \<and> length (concat msgs) = cr_start rx \<and> list_all framed msgs \<and> crypto_buffered rx \<le> MAX_CRYPTO_BUFFER"
proof -
  from rx_machine.reachable_inv [OF assms]
  have ok: "from_stream S (cr_start rx) (cr_buf rx)" "from_stream S 0 (concat msgs)" "length (concat msgs) = cr_start rx"
    "list_all framed msgs" "crypto_buffered rx \<le> MAX_CRYPTO_BUFFER"
    by (simp_all add: rx_state_ok_def rx_ok_def rx_inv_def)
  from from_stream_append [OF ok(2), of "cr_buf rx"] ok show ?thesis by (simp add: from_stream_def)
qed

lemma sample_rx_reachable:
  "reachable rx_initial (rx_step S) (fold (rx_apply S) ops (crypto_rx_default, []))"
proof (induction ops rule: rev_induct)
  case (snoc opn ops)
  then show ?case by (auto intro: reach_step simp: rx_step_def)
qed (simp add: reach_init rx_initial_def)

theorem crypto_reassembly_exact_witness:
  "\<exists>rx msgs. fold (rx_apply (\<lambda>_. 7)) [FrameOp 2 1, FrameOp 2 3, FrameOp 0 2] (crypto_rx_default, []) = (rx, msgs)
    \<and> concat msgs @ cr_buf rx = stream_slice (\<lambda>_. 7) 0 3"
  using crypto_reassembly_exact [OF sample_rx_reachable [of "\<lambda>_. 7" "[FrameOp 2 1, FrameOp 2 3, FrameOp 0 2]",
      unfolded pending_piece_lost]] pending_piece_lost by (simp add: numeral_3_eq_3)

end
