(* ===== verification/Persist.thy ===== *)
theory Persist
  imports Cache_Machine Engine
begin

text \<open>
  \<^verbatim>\<open>src/src/cache/persist.rs\<close>: snapshots of the semantic cache.  Parameters (\<open>persist_env\<close>) are the
  third-party codec of the frame (\<^verbatim>\<open>rustbinary\<close>), the file system, and the floating-point refresh model,
  which is seen here as its statistics and its configuration.  An \<^verbatim>\<open>i64\<close> of seconds is an integer; the
  clamp of the source keeps it in range.  The theory shows what of an entry survives a save and a
  restore: its key and data, its validation flag, its score, and its times to the second.
\<close>

section \<open>Data\<close>

definition MAGIC :: u32 where "MAGIC = 0x5258435e"
definition VERSION :: u32 where "VERSION = 2"
definition DEFAULT_FRAME_LIMIT :: u64 where "DEFAULT_FRAME_LIMIT = 32 * 1024 * 1024"

record 'f hazard_config =
  hz_prior_shape :: 'f
  hz_confidence :: 'f
  hz_forgetting_secs :: 'f
  hz_min_interval_secs :: 'f
  hz_max_interval_secs :: 'f
  hz_target_freshness :: 'f

record ('f, 't) hazard_state =
  hs_prior_ttl_secs :: 'f
  hs_alpha_ev :: 'f
  hs_beta_ev :: 'f
  hs_evidence_secs :: 'f
  hs_lifetime_exposure_secs :: 'f
  hs_observations :: u64
  hs_changes :: u64
  hs_failures :: u64
  hs_consecutive_failures :: u64
  hs_ttl_ewma :: 'f
  hs_ttl_volatility :: 'f
  hs_last_observation :: 't
  hs_last_change :: 't

record 'f stability_dto =
  sd_state :: "('f, int) hazard_state"
  sd_hazard :: "'f hazard_config"

datatype kind_dto = PositiveDto "bytes list" "bytes list" | NegativeKindDto u8 "bytes option" u32

record 'f entry_dto =
  ed_name :: bytes
  ed_type :: u16
  ed_class :: u16
  ed_ecs :: "(u16 \<times> u8 \<times> bytes) option"
  ed_tier :: u8
  ed_kind :: kind_dto
  ed_inserted :: int
  ed_expires :: int
  ed_served :: u64
  ed_last_served :: int
  ed_stability :: "'f stability_dto"
  ed_validated :: bool
  ed_score :: 'f
  ed_cost_ms :: "'f option"

record negative_dto =
  nd_name :: bytes
  nd_expires :: int
  nd_rcode :: u8
  nd_soa :: "bytes option"
  nd_inserted :: int
  nd_served :: u64

record 'f snapshot =
  sn_magic :: u32
  sn_version :: u32
  sn_saved_at :: int
  sn_entries :: "'f entry_dto list"
  sn_negatives :: "negative_dto list"

record ('f, 'm, 'n) persist_env =
  pe_state :: "'m \<Rightarrow> ('f, ts) hazard_state"
  pe_config :: "'m \<Rightarrow> 'f hazard_config"
  pe_from_state :: "'f hazard_config \<Rightarrow> ('f, ts) hazard_state \<Rightarrow> 'm"
  pe_cost_ref :: 'f
  pe_serialize :: "'f snapshot \<Rightarrow> bytes option"
  pe_deserialize :: "u64 \<Rightarrow> bytes \<Rightarrow> 'f snapshot option"
  pe_exists :: "'n \<Rightarrow> bool"
  pe_read :: "'n \<Rightarrow> bytes option"
  pe_write_tmp :: "bytes \<Rightarrow> 'n \<Rightarrow> bool \<times> 'n"
  pe_rename :: "'n \<Rightarrow> bool \<times> 'n"

section \<open>Conversions\<close>

definition trunc_div :: "int \<Rightarrow> int \<Rightarrow> int" where
  "trunc_div a b = (if 0 \<le> a then a div b else - (- a div b))"

definition ts_to_unix :: "ts \<Rightarrow> int" where
  "ts_to_unix t = max (- (2 ^ 63)) (min (2 ^ 63 - 1) (trunc_div t 1000000000))"

definition unix_to_ts :: "int \<Rightarrow> ts" where
  "unix_to_ts u = u * 1000000000"

definition record_wire :: "dns_record \<Rightarrow> bytes option" where
  "record_wire r = (case record_to_wire r (None, []) of Inl _ \<Rightarrow> None | Inr w \<Rightarrow> Some (snd w))"

definition parse_record :: "bytes \<Rightarrow> dns_record option" where
  "parse_record wire = (case record_parse wire 0 of Inl _ \<Rightarrow> None | Inr (r, _) \<Rightarrow> Some r)"

text \<open>\<^verbatim>\<open>collect::<Option<Vec<_>>>()\<close>.\<close>

fun collect_option :: "'a option list \<Rightarrow> 'a list option" where
  "collect_option [] = Some []"
| "collect_option (x # xs) = (case x of None \<Rightarrow> None | Some y \<Rightarrow> map_option (Cons y) (collect_option xs))"

definition ecs_to_dto :: "ecs_key \<Rightarrow> u16 \<times> u8 \<times> bytes" where
  "ecs_to_dto e = (ek_family e, ek_prefix e, ek_addr e)"

definition retime :: "('a \<Rightarrow> 'b) \<Rightarrow> ('f, 'a) hazard_state \<Rightarrow> ('f, 'b) hazard_state" where
  "retime g s = \<lparr>hs_prior_ttl_secs = hs_prior_ttl_secs s, hs_alpha_ev = hs_alpha_ev s, hs_beta_ev = hs_beta_ev s,
     hs_evidence_secs = hs_evidence_secs s, hs_lifetime_exposure_secs = hs_lifetime_exposure_secs s,
     hs_observations = hs_observations s, hs_changes = hs_changes s, hs_failures = hs_failures s,
     hs_consecutive_failures = hs_consecutive_failures s, hs_ttl_ewma = hs_ttl_ewma s, hs_ttl_volatility = hs_ttl_volatility s,
     hs_last_observation = g (hs_last_observation s), hs_last_change = g (hs_last_change s)\<rparr>"

definition stability_to_dto :: "('f, 'm, 'n) persist_env \<Rightarrow> 'm \<Rightarrow> 'f stability_dto" where
  "stability_to_dto pe s = \<lparr>sd_state = retime ts_to_unix (pe_state pe s), sd_hazard = pe_config pe s\<rparr>"

definition dto_to_stability :: "('f, 'm, 'n) persist_env \<Rightarrow> 'f stability_dto \<Rightarrow> 'm" where
  "dto_to_stability pe d = pe_from_state pe (sd_hazard d) (retime unix_to_ts (sd_state d))"

fun tier_code :: "tier \<Rightarrow> u8" where
  "tier_code Hot = 0" | "tier_code Warm = 1" | "tier_code Cold = 2"

definition tier_of_code :: "u8 \<Rightarrow> tier" where
  "tier_of_code n = (if n = 0 then Hot else if n = 1 then Warm else Cold)"

fun kind_to_dto :: "entry_kind \<Rightarrow> kind_dto option" where
  "kind_to_dto (Positive s) =
    (case collect_option (map record_wire (rs_records s)) of
       None \<Rightarrow> None
     | Some records \<Rightarrow> map_option (PositiveDto records) (collect_option (map record_wire (rrsigs s))))"
| "kind_to_dto (NegativeKind rc soa ttl) = (case soa of
       None \<Rightarrow> Some (NegativeKindDto (rcode_to_u8 rc) None ttl)
     | Some r \<Rightarrow> map_option (\<lambda>w. NegativeKindDto (rcode_to_u8 rc) (Some w) ttl) (record_wire r))"

definition entry_to_dto :: "('f, 'm, 'n) persist_env \<Rightarrow> ('f, 'm) cache_entry \<Rightarrow> tier \<Rightarrow> 'f entry_dto option" where
  "entry_to_dto pe e t = map_option (\<lambda>kind.
     \<lparr>ed_name = name_bytes (ck_name (ce_key e)), ed_type = rr_type_to_u16 (ck_type (ce_key e)),
      ed_class = rr_class_to_u16 (ck_class (ce_key e)), ed_ecs = map_option ecs_to_dto (ck_ecs (ce_key e)),
      ed_tier = tier_code t, ed_kind = kind, ed_inserted = ts_to_unix (ce_inserted e),
      ed_expires = ts_to_unix (ce_expires e), ed_served = ce_served e, ed_last_served = ts_to_unix (last_served e),
      ed_stability = stability_to_dto pe (stability e), ed_validated = ce_validated e, ed_score = ce_score e,
      ed_cost_ms = Some (cost_ms e)\<rparr>) (kind_to_dto (ce_kind e))"

fun kind_dto_ttl :: "kind_dto \<Rightarrow> u32" where
  "kind_dto_ttl (PositiveDto records _) = (case List.map_filter parse_record records of
      [] \<Rightarrow> 0
    | r # rs \<Rightarrow> fold (\<lambda>r m. min m (rec_ttl r)) rs (rec_ttl r))"
| "kind_dto_ttl (NegativeKindDto _ _ ttl) = ttl"

fun dto_to_kind :: "cache_key \<Rightarrow> bool \<Rightarrow> kind_dto \<Rightarrow> entry_kind option" where
  "dto_to_kind key v (PositiveDto records sigs) =
    (if records = [] then None
     else case collect_option (map parse_record records) of
         None \<Rightarrow> None
       | Some data \<Rightarrow> map_option (\<lambda>sigs'. Positive
           \<lparr>rs_name = ck_name key, rs_type = ck_type key, rs_class = ck_class key, rs_records = data, rrsigs = sigs',
            rs_ttl = kind_dto_ttl (PositiveDto records sigs), validated = v\<rparr>) (collect_option (map parse_record sigs)))"
| "dto_to_kind key v (NegativeKindDto rc soa ttl) = Some (NegativeKind (Rcode rc) (Option.bind soa parse_record) ttl)"

definition stale_end :: "ts \<Rightarrow> u32 \<Rightarrow> ts" where
  "stale_end expires window = saturating_add expires (uint window * 1000000000)"

definition dto_to_entry :: "('f, 'm, 'n) persist_env \<Rightarrow> 'f entry_dto \<Rightarrow> ts \<Rightarrow> u32 \<Rightarrow> ('f, 'm) cache_entry option" where
  "dto_to_entry pe d now window = (case name_from_wire (ed_name d) 0 of
      Inl _ \<Rightarrow> None
    | Inr (n, _) \<Rightarrow>
        let expires = unix_to_ts (ed_expires d) in
        if now \<ge> stale_end expires window then None
        else let key = CacheKey n (RrType (ed_type d)) (RrClass (ed_class d)) (map_option (\<lambda>(f, p, a). EcsKey f p a) (ed_ecs d)) in
          map_option (\<lambda>kind.
            \<lparr>ce_key = key, ce_kind = kind, ce_inserted = unix_to_ts (ed_inserted d), ce_expires = expires,
             ce_served = ed_served d, last_served = unix_to_ts (ed_last_served d),
             stability = dto_to_stability pe (ed_stability d), ce_validated = ed_validated d, ce_score = ed_score d,
             ce_tier = (if now \<ge> expires then Cold else tier_of_code (ed_tier d)), refreshing = False,
             cost_ms = (case ed_cost_ms d of Some c \<Rightarrow> c | None \<Rightarrow> pe_cost_ref pe)\<rparr>)
            (dto_to_kind key (ed_validated d) (ed_kind d)))"

section \<open>Snapshots\<close>

definition tier_maps :: "('f, 'm) semantic_cache \<Rightarrow> (tier \<times> ('f, 'm) tier_map) list" where
  "tier_maps c = [(Hot, hot c), (Warm, warm c), (Cold, cold c)]"

definition negative_to_dto :: "name \<times> negative_entry \<Rightarrow> negative_dto option" where
  "negative_to_dto = (\<lambda>(n, neg).
     let dto = (\<lambda>soa. \<lparr>nd_name = name_bytes n, nd_expires = ts_to_unix (ne_expires neg), nd_rcode = rcode_to_u8 (ne_rcode neg),
         nd_soa = soa, nd_inserted = ts_to_unix (ne_inserted neg), nd_served = ne_served neg\<rparr>)
     in case ne_soa neg of None \<Rightarrow> Some (dto None) | Some r \<Rightarrow> map_option (\<lambda>w. dto (Some w)) (record_wire r))"

definition snapshot_new :: "('f, 'm, 'n) persist_env \<Rightarrow> ('f, 'm) semantic_cache \<Rightarrow> int \<Rightarrow> 'f snapshot" where
  "snapshot_new pe c now_unix =
    \<lparr>sn_magic = MAGIC, sn_version = VERSION, sn_saved_at = now_unix,
     sn_entries = concat (map (\<lambda>(t, m). List.map_filter (\<lambda>(_, e). entry_to_dto pe e t) (tm_map m)) (tier_maps c)),
     sn_negatives = List.map_filter negative_to_dto (nx c)\<rparr>"

definition restore_dto :: "('f, 'm, 'i) signals \<Rightarrow> ('f, 'm, 'n) persist_env \<Rightarrow> ts \<Rightarrow> u32 \<Rightarrow> 'f entry_dto
    \<Rightarrow> ('f, 'm) semantic_cache \<times> nat \<Rightarrow> ('f, 'm) semantic_cache \<times> nat" where
  "restore_dto sg pe now window d = (\<lambda>(c, n). case dto_to_entry pe d now window of
      None \<Rightarrow> (c, n)
    | Some e \<Rightarrow> (restore_entry sg e now c, n + 1))"

definition restore_negative :: "ts \<Rightarrow> u32 \<Rightarrow> negative_dto
    \<Rightarrow> ('f, 'm) semantic_cache \<times> nat \<Rightarrow> ('f, 'm) semantic_cache \<times> nat" where
  "restore_negative now window d = (\<lambda>(c, n). case name_from_wire (nd_name d) 0 of
      Inl _ \<Rightarrow> (c, n)
    | Inr (name, _) \<Rightarrow>
        let expires = unix_to_ts (nd_expires d) in
        if now \<ge> stale_end expires window then (c, n)
        else (c\<lparr>nx := btree_insert name
               \<lparr>ne_expires = expires, ne_rcode = Rcode (nd_rcode d), ne_soa = Option.bind (nd_soa d) parse_record,
                ne_inserted = unix_to_ts (nd_inserted d), ne_served = nd_served d\<rparr> (nx c)\<rparr>, n + 1))"

definition restore_into :: "('f, 'm, 'i) signals \<Rightarrow> ('f, 'm, 'n) persist_env \<Rightarrow> 'f snapshot \<Rightarrow> ts \<Rightarrow> u32
    \<Rightarrow> ('f, 'm) semantic_cache \<Rightarrow> nat \<times> ('f, 'm) semantic_cache" where
  "restore_into sg pe s now window c =
    (if sn_magic s \<noteq> MAGIC \<or> sn_version s \<noteq> VERSION then (0, c)
     else let (c, n) = fold (restore_negative now window) (sn_negatives s) (fold (restore_dto sg pe now window) (sn_entries s) (c, 0))
       in (n, c\<lparr>stats := (stats c)\<lparr>inserts := inserts (stats c) + of_nat n\<rparr>\<rparr>))"

definition persist_encode :: "('f, 'm, 'n) persist_env \<Rightarrow> ('f, 'm) semantic_cache \<Rightarrow> int \<Rightarrow> bytes result" where
  "persist_encode pe c now_unix = ok_or (error_internal ''cache encode: {e}'') (pe_serialize pe (snapshot_new pe c now_unix))"

definition save_to :: "('f, 'm, 'n) persist_env \<Rightarrow> ('f, 'm) semantic_cache \<Rightarrow> int \<Rightarrow> 'n \<Rightarrow> unit result \<times> 'n" where
  "save_to pe c now_unix fs = (case persist_encode pe c now_unix of
      Inl e \<Rightarrow> (Err e, fs)
    | Inr bs \<Rightarrow> (case pe_write_tmp pe bs fs of
          (False, fs) \<Rightarrow> (Err (error_io ''cache persist write {}: {e}''), fs)
        | (True, fs) \<Rightarrow> (case pe_rename pe fs of
              (False, fs) \<Rightarrow> (Err (error_io ''cache persist rename {}: {e}''), fs)
            | (True, fs) \<Rightarrow> (Ok (), fs))))"

definition load_from_limit :: "('f, 'm, 'i) signals \<Rightarrow> ('f, 'm, 'n) persist_env \<Rightarrow> ts \<Rightarrow> u64 \<Rightarrow> 'n
    \<Rightarrow> ('f, 'm) semantic_cache \<Rightarrow> nat result \<times> ('f, 'm) semantic_cache" where
  "load_from_limit sg pe now limit fs c =
    (if \<not> pe_exists pe fs then (Ok 0, c)
     else case pe_read pe fs of
         None \<Rightarrow> (Err (error_io ''cache persist read {}: {e}''), c)
       | Some bs \<Rightarrow> (case pe_deserialize pe limit bs of
             None \<Rightarrow> (Err (error_internal ''cache decode: {e}''), c)
           | Some s \<Rightarrow> (case restore_into sg pe s now (stale_window_secs (cc_config c)) c of (n, c) \<Rightarrow> (Ok n, c))))"

definition load_from :: "('f, 'm, 'i) signals \<Rightarrow> ('f, 'm, 'n) persist_env \<Rightarrow> ts \<Rightarrow> 'n
    \<Rightarrow> ('f, 'm) semantic_cache \<Rightarrow> nat result \<times> ('f, 'm) semantic_cache" where
  "load_from sg pe now fs c = load_from_limit sg pe now DEFAULT_FRAME_LIMIT fs c"

section \<open>What survives\<close>

text \<open>An instant as a snapshot keeps it: to the second, towards the epoch.\<close>

definition whole_secs :: "ts \<Rightarrow> ts" where
  "whole_secs t = unix_to_ts (ts_to_unix t)"

definition min_ttl :: "dns_record list \<Rightarrow> u32" where
  "min_ttl rs = (case rs of [] \<Rightarrow> 0 | r # rs \<Rightarrow> fold (\<lambda>r m. min m (rec_ttl r)) rs (rec_ttl r))"

fun restored_kind :: "cache_key \<Rightarrow> bool \<Rightarrow> entry_kind \<Rightarrow> entry_kind" where
  "restored_kind key v (Positive s) = Positive
    \<lparr>rs_name = ck_name key, rs_type = ck_type key, rs_class = ck_class key, rs_records = map record_norm (rs_records s),
     rrsigs = map record_norm (rrsigs s), rs_ttl = min_ttl (rs_records s), validated = v\<rparr>"
| "restored_kind key v (NegativeKind rc soa ttl) = NegativeKind rc (map_option record_norm soa) ttl"

definition restored :: "('f, 'm, 'n) persist_env \<Rightarrow> ('f, 'm) cache_entry \<Rightarrow> tier \<Rightarrow> ts \<Rightarrow> ('f, 'm) cache_entry" where
  "restored pe e t now = e\<lparr>ce_kind := restored_kind (ce_key e) (ce_validated e) (ce_kind e),
     ce_inserted := whole_secs (ce_inserted e), ce_expires := whole_secs (ce_expires e), last_served := whole_secs (last_served e),
     stability := pe_from_state pe (pe_config pe (stability e)) (retime whole_secs (pe_state pe (stability e))),
     ce_tier := (if now \<ge> whole_secs (ce_expires e) then Cold else t), refreshing := False\<rparr>"

definition persistable :: "('f, 'm) cache_entry \<Rightarrow> bool" where
  "persistable e \<longleftrightarrow> wf_name (ck_name (ce_key e)) \<and> (case ce_kind e of
      Positive s \<Rightarrow> rs_records s \<noteq> [] \<and> list_all record_ok (rs_records s) \<and> list_all record_ok (rrsigs s)
    | NegativeKind _ soa _ \<Rightarrow> (case soa of None \<Rightarrow> True | Some r \<Rightarrow> record_ok r))"

lemma record_wire_short: "record_ok r \<Longrightarrow> record_wire r = Some w \<Longrightarrow> rust_slice w"
proof -
  assume ok: "record_ok r" and wr: "record_wire r = Some w"
  then obtain w' where w': "record_to_wire r (None, []) = Ok w'" "w = snd w'"
    by (auto simp: record_wire_def split: sum.splits)
  from record_written [OF w'(1)] obtain bs where "length bs \<le> 65535"
    and "snd w' = snd (record_head r (None, [])) @ to_be_bytes 2 (of_nat (length bs) :: u16) @ bs" by blast
  moreover have "length (snd (record_head r (None, []))) \<le> 263"
    using wf_name_length [of "rec_name r"] ok by (simp add: record_ok_def record_head_def put_name_def name_write_wire_def)
  ultimately show ?thesis by (simp add: w'(2) rust_slice_def)
qed

lemma parse_record_wire:
  assumes "record_ok r" and "record_wire r = Some w"
  shows "parse_record w = Some (record_norm r)"
proof -
  from assms(2) obtain w' where w': "record_to_wire r (None, []) = Ok w'" "w = snd w'"
    by (auto simp: record_wire_def split: sum.splits)
  have "out_inv (None, [])" by (simp add: out_inv_def)
  from record_parse_written [OF this assms(1) w'(1) record_wire_short [OF assms]] w'(2)
  show ?thesis by (simp add: parse_record_def)
qed

lemma parse_record_wires:
  assumes "collect_option (map record_wire rs) = Some ws" and "list_all record_ok rs"
  shows "map parse_record ws = map (\<lambda>r. Some (record_norm r)) rs"
  using assms
proof (induction rs arbitrary: ws)
  case (Cons r rs)
  then show ?case by (auto split: option.splits dest: parse_record_wire)
qed simp

lemma collect_option_Some [simp]: "collect_option (map (\<lambda>x. Some (f x)) xs) = Some (map f xs)"
  by (induction xs) simp_all

lemma map_filter_all: "map g xs = map (\<lambda>y. Some (f y)) ys \<Longrightarrow> List.map_filter g xs = map f ys"
  by (induction xs arbitrary: ys) (auto simp: List.map_filter_def)

lemma rec_ttl_norm [simp]: "rec_ttl (record_norm r) = rec_ttl r"
  by (simp add: record_norm_def)

lemma min_ttl_norm: "(case map record_norm rs of [] \<Rightarrow> 0 | r # rs \<Rightarrow> fold (\<lambda>r m. min m (rec_ttl r)) rs (rec_ttl r)) = min_ttl rs"
proof -
  have "fold (\<lambda>r m. min m (rec_ttl r)) (map record_norm rs) x = fold (\<lambda>r m. min m (rec_ttl r)) rs x" for rs x
    by (induction rs arbitrary: x) simp_all
  then show ?thesis by (cases rs) (simp_all add: min_ttl_def)
qed

lemma min_ttl_least: "rs \<noteq> [] \<Longrightarrow> min_ttl rs = Min (rec_ttl ` set rs)"
proof (cases rs)
  case (Cons r rs')
  have "fold (\<lambda>r m. min m (rec_ttl r)) rs' x = Min (insert x (rec_ttl ` set rs'))" for x
  proof (induction rs' arbitrary: x)
    case (Cons a as)
    show ?case by (cases "as = []") (simp_all add: Cons.IH insert_commute min.assoc min.commute min.left_commute)
  qed simp
  with Cons show ?thesis by (simp add: min_ttl_def)
qed simp

lemma kind_roundtrip:
  assumes "kind_to_dto k = Some d"
    and "case k of Positive s \<Rightarrow> rs_records s \<noteq> [] \<and> list_all record_ok (rs_records s) \<and> list_all record_ok (rrsigs s)
      | NegativeKind _ soa _ \<Rightarrow> (case soa of None \<Rightarrow> True | Some r \<Rightarrow> record_ok r)"
  shows "dto_to_kind key v d = Some (restored_kind key v k)"
proof (cases k)
  case (Positive s)
  with assms(1) obtain ws vs where w: "collect_option (map record_wire (rs_records s)) = Some ws"
      "collect_option (map record_wire (rrsigs s)) = Some vs" "d = PositiveDto ws vs"
    by (auto split: option.splits)
  from assms(2) Positive have ok: "rs_records s \<noteq> []" "list_all record_ok (rs_records s)" "list_all record_ok (rrsigs s)" by auto
  note p = parse_record_wires [OF w(1) ok(2)] and q = parse_record_wires [OF w(2) ok(3)]
  from p ok(1) have "ws \<noteq> []" by auto
  with Positive p q w(3) map_filter_all [OF p] min_ttl_norm [of "rs_records s"] show ?thesis by simp
next
  case (NegativeKind rc soa ttl)
  with assms show ?thesis by (cases soa) (auto dest: parse_record_wire)
qed

lemma name_from_own_wire: "wf_name n \<Longrightarrow> name_from_wire (name_bytes n) 0 = Ok (n, length (name_bytes n))"
proof -
  assume n: "wf_name n"
  then have "rust_slice (name_bytes n)" using wf_name_length [OF n] by (simp add: rust_slice_def)
  moreover have "occurs (name_bytes n) 0 (name_bytes n)" by (simp add: occurs_def)
  ultimately show ?thesis using name_from_wire_occurs n by fastforce
qed

lemma tier_code_inverse [simp]: "tier_of_code (tier_code t) = t"
  by (cases t) (simp_all add: tier_of_code_def)

lemma retime_retime: "retime unix_to_ts (retime ts_to_unix s) = retime whole_secs s"
  by (simp add: retime_def whole_secs_def)

lemma entry_roundtrip:
  assumes "persistable e" and "entry_to_dto pe e t = Some d" and "now < stale_end (whole_secs (ce_expires e)) window"
  shows "dto_to_entry pe d now window = Some (restored pe e t now)"
proof -
  from assms(2) obtain kd where kd: "kind_to_dto (ce_kind e) = Some kd" by (auto simp: entry_to_dto_def)
  from assms(1) have n: "wf_name (ck_name (ce_key e))" by (simp add: persistable_def)
  have k: "dto_to_kind (ce_key e) v kd = Some (restored_kind (ce_key e) v (ce_kind e))" for v
    using kind_roundtrip [OF kd] assms(1) by (simp add: persistable_def)
  have key: "CacheKey (ck_name (ce_key e)) (ck_type (ce_key e)) (ck_class (ce_key e))
      (map_option (\<lambda>(f, p, a). EcsKey f p a) (map_option ecs_to_dto (ck_ecs (ce_key e)))) = ce_key e"
    by (cases "ce_key e") (simp add: ecs_to_dto_def option.map_comp comp_def option.map_ident)
  from assms(2,3) kd show ?thesis
    by (auto simp: entry_to_dto_def dto_to_entry_def name_from_own_wire [OF n] key k restored_def stability_to_dto_def
        dto_to_stability_def retime_retime whole_secs_def [symmetric] Let_def)
qed

lemma dead_entries_dropped:
  "dto_to_entry pe d now window = Some e \<Longrightarrow> now < stale_end (ce_expires e) window \<and> \<not> refreshing e
    \<and> (ce_expires e \<le> now \<longrightarrow> ce_tier e = Cold)"
  by (auto simp: dto_to_entry_def Let_def split: sum.splits if_splits)

lemma foreign_snapshot_ignored:
  "sn_magic s \<noteq> MAGIC \<or> sn_version s \<noteq> VERSION \<Longrightarrow> restore_into sg pe s now window c = (0, c)"
  by (simp add: restore_into_def)

lemma whole_secs_le: "0 \<le> t \<Longrightarrow> t < 2 ^ 63 \<Longrightarrow> whole_secs t \<le> t \<and> t < whole_secs t + 1000000000"
  by (auto simp: whole_secs_def unix_to_ts_def ts_to_unix_def trunc_div_def min_def max_def)

end
