(* ===== verification/Persist_Filed.thy ===== *)
theory Persist_Filed
  imports Persist
begin

text \<open>
  What \<^verbatim>\<open>src/src/cache/persist.rs\<close> relies on when it reads its own snapshots back: a cache filled with RRsets,
  denials and restored entries as parsed messages give them (well-formed names, records that fit, no empty
  RRset) holds nothing else, whatever else happens to it.
\<close>

definition all_persistable :: "('f, 'm) semantic_cache \<Rightarrow> bool" where
  "all_persistable c \<longleftrightarrow> list_all (\<lambda>(_, m). list_all (\<lambda>(_, e). persistable e) (tm_map m)) (tier_maps c)
     \<and> list_all (\<lambda>(n, neg). wf_name n \<and> pred_option record_ok (ne_soa neg)) (nx c)"

fun op_persistable :: "('f, 'm, 'i) cache_op \<Rightarrow> bool" where
  "op_persistable (CachePositiveOp k s _ _ _) \<longleftrightarrow>
     wf_name (ck_name k) \<and> rs_records s \<noteq> [] \<and> list_all record_ok (rs_records s) \<and> list_all record_ok (rrsigs s)"
| "op_persistable (CacheNegativeOp k _ soa _ _ _) \<longleftrightarrow> wf_name (ck_name k) \<and> pred_option record_ok soa"
| "op_persistable (CacheNxdomainOp n _ soa _ _) \<longleftrightarrow> wf_name n \<and> pred_option record_ok soa"
| "op_persistable (CacheRestoreOp e _) \<longleftrightarrow> persistable e"
| "op_persistable _ \<longleftrightarrow> True"

definition filed_step :: "('f, 'm, 'i) signals \<Rightarrow> ('f, 'm) semantic_cache \<Rightarrow> ('f, 'm, 'i) cache_op \<Rightarrow> ('f, 'm) semantic_cache \<Rightarrow> bool" where
  "filed_step sg c opn c' \<longleftrightarrow> op_persistable opn \<and> cache_step sg c opn c'"

section \<open>Tiers\<close>

definition tier_ok :: "('f, 'm) tier_map \<Rightarrow> bool" where
  "tier_ok t \<longleftrightarrow> (\<forall>k e. (k, e) \<in> set (tm_map t) \<longrightarrow> persistable e)"

lemma persistable_updates [simp]:
  "persistable (e\<lparr>last_served := t\<rparr>) = persistable e" "persistable (e\<lparr>ce_served := n\<rparr>) = persistable e"
  "persistable (e\<lparr>ce_score := x\<rparr>) = persistable e" "persistable (e\<lparr>ce_tier := u\<rparr>) = persistable e"
  "persistable (e\<lparr>refreshing := b\<rparr>) = persistable e" "persistable (e\<lparr>stability := y\<rparr>) = persistable e"
  "persistable (e\<lparr>ce_inserted := t\<rparr>) = persistable e" "persistable (e\<lparr>ce_expires := t\<rparr>) = persistable e"
  "persistable (e\<lparr>ce_validated := b\<rparr>) = persistable e" "persistable (e\<lparr>cost_ms := z\<rparr>) = persistable e"
  by (simp_all add: persistable_def)

lemma persistable_got: "\<forall>k e. (k, e) \<in> set m \<longrightarrow> persistable e \<Longrightarrow> btree_get m k = Some e \<Longrightarrow> persistable e"
  by (blast dest: map_of_SomeD)

lemma pop_loop_ok:
  "pop_loop r m = (v, r', m') \<Longrightarrow> \<forall>k e. (k, e) \<in> set m \<longrightarrow> persistable e
    \<Longrightarrow> (\<forall>k e. (k, e) \<in> set m' \<longrightarrow> persistable e) \<and> (\<forall>e. v = Some e \<longrightarrow> persistable e)"
  by (induction r m rule: pop_loop.induct) (auto simp: btree_remove_def split: option.splits dest: map_of_SomeD)

lemma tier_insert_ok:
  assumes "tier_ok t" and "persistable e" and "tier_insert sg e t = (v, t')"
  shows "tier_ok t' \<and> (\<forall>e. v = Some e \<longrightarrow> persistable e)"
proof -
  obtain w r m where p: "pop_loop (tm_rank t) (tm_map t) = (w, r, m)" by (cases "pop_loop (tm_rank t) (tm_map t)")
  have w: "tier_ok (t\<lparr>tm_map := m, tm_rank := r\<rparr>)" "\<forall>e. w = Some e \<longrightarrow> persistable e"
    using pop_loop_ok [OF p assms(1) [unfolded tier_ok_def]] unfolding tier_ok_def tier_map.simps tier_map.update_convs tier_map.select_convs by simp_all
  have put: "tier_ok (u\<lparr>tm_rank := x, tm_map := btree_insert k e (btree_remove k (tm_map u))\<rparr>)" if "tier_ok u" for u x k
    using that assms(2) set_btree_insert [of k e "btree_remove k (tm_map u)"] by (auto simp: tier_ok_def btree_remove_def)
  show ?thesis
  proof (cases "tm_capacity t > 0 \<and> btree_get (tm_map t) (ce_key e) = None \<and> tier_len t \<ge> tm_capacity t")
    case True
    with assms(3) put [OF w(1)] w(2) show ?thesis by (auto simp: tier_insert_def pop_lowest_def p Let_def)
  next
    case False
    with assms(3) have "v = None" "\<exists>x. t' = t\<lparr>tm_rank := x, tm_map := btree_insert (ce_key e) e (btree_remove (ce_key e) (tm_map t))\<rparr>"
      unfolding tier_insert_def Let_def if_not_P [OF False] by auto
    with put [OF assms(1)] show ?thesis by auto
  qed
qed

lemma tier_remove_ok: "tier_ok t \<Longrightarrow> tier_remove sg k t = (v, t') \<Longrightarrow> tier_ok t' \<and> (\<forall>e. v = Some e \<longrightarrow> persistable e)"
  by (auto simp: tier_remove_def tier_ok_def btree_remove_def split: option.splits intro: persistable_got)

lemma tier_retain_ok: "tier_ok t \<Longrightarrow> tier_ok (tier_retain sg keep t)"
proof -
  have "tier_ok t \<Longrightarrow> tier_ok (foldl (\<lambda>t k. snd (tier_remove sg k t)) t ks)" for ks
    by (induction ks arbitrary: t) (simp_all add: tier_remove_ok [OF _ prod.collapse [symmetric]])
  then show "tier_ok t \<Longrightarrow> tier_ok (tier_retain sg keep t)" by (simp add: tier_retain_def)
qed

lemma tier_alter_ok: "tier_ok t \<Longrightarrow> (\<And>e. persistable (f e) = persistable e) \<Longrightarrow> tier_ok (tier_alter key f t)"
proof -
  assume f: "\<And>e. persistable (f e) = persistable e" and t: "tier_ok t"
  have "(\<forall>k e. (k, e) \<in> set m \<longrightarrow> persistable e) \<Longrightarrow> (\<forall>k e. (k, e) \<in> set (btree_alter key f m) \<longrightarrow> persistable e)" for m
  proof (induction m)
    case (Cons x m)
    obtain k' e where "x = (k', e)" by fastforce
    with Cons f show ?case by (auto split: if_splits)
  qed simp
  from this [of "tm_map t"] t show ?thesis unfolding tier_ok_def tier_alter_def by simp
qed

section \<open>The cache\<close>

definition cache_ok :: "('f, 'm) semantic_cache \<Rightarrow> bool" where
  "cache_ok c \<longleftrightarrow> tier_ok (hot c) \<and> tier_ok (warm c) \<and> tier_ok (cold c) \<and> (\<forall>(n, neg) \<in> set (nx c). wf_name n \<and> pred_option record_ok (ne_soa neg))"

lemma cache_ok_iff: "cache_ok c \<longleftrightarrow> all_persistable c"
  by (auto simp: cache_ok_def all_persistable_def tier_ok_def tier_maps_def list_all_iff)

lemma cache_ok_counts [simp]:
  "cache_ok (count_hit c) = cache_ok c" "cache_ok (count_miss c) = cache_ok c" "cache_ok (count_stale c) = cache_ok c"
  "cache_ok (count_insert c) = cache_ok c" "cache_ok (count_eviction c) = cache_ok c"
  by (simp_all add: cache_ok_def count_hit_def count_miss_def count_stale_def count_insert_def count_eviction_def)

lemma get_tier_ok: "cache_ok c \<Longrightarrow> tier_ok (get_tier t c)"
  by (cases t) (simp_all add: cache_ok_def)

lemma set_tier_ok: "cache_ok c \<Longrightarrow> tier_ok tm \<Longrightarrow> cache_ok (set_tier t tm c)"
  by (cases t) (simp_all add: cache_ok_def)

lemma spill_ok: "cache_ok c \<Longrightarrow> persistable e \<Longrightarrow> cache_ok (spill sg e t c)"
  by (auto simp: spill_def Let_def split: option.split
      intro!: set_tier_ok tier_insert_ok [OF _ _ prod.collapse [symmetric], THEN conjunct1] get_tier_ok)

lemma place_ok: "cache_ok c \<Longrightarrow> persistable e \<Longrightarrow> cache_ok (place sg e c)"
proof -
  assume c: "cache_ok c" and e: "persistable e"
  have "tier_ok t' \<and> (\<forall>e. v = Some e \<longrightarrow> persistable e)" if "tier_insert sg (e\<lparr>ce_tier := t\<rparr>) (get_tier t c) = (v, t')" for t v t'
    using tier_insert_ok [OF get_tier_ok [OF c] _ that] e by simp
  with c show ?thesis by (auto simp: place_def split: option.split prod.split intro!: spill_ok set_tier_ok)
qed

lemma park_ok: "cache_ok c \<Longrightarrow> persistable e \<Longrightarrow> cache_ok (park sg e c)"
  using tier_insert_ok [OF _ _ prod.collapse [symmetric], of "cold c" "e\<lparr>ce_tier := Cold\<rparr>" sg]
  by (simp add: park_def cache_ok_def)

lemma take_entry_ok: "cache_ok c \<Longrightarrow> take_entry_any sg k c = (v, c') \<Longrightarrow> cache_ok c' \<and> (\<forall>e. v = Some e \<longrightarrow> persistable e)"
  by (auto simp: take_entry_any_def cache_ok_def split: option.splits prod.splits dest: tier_remove_ok)

lemma tier_hit_ok:
  assumes "cache_ok c" and "tier_remove sg k (get_tier t c) = (v, tm)"
  shows "tier_ok tm \<and> (\<forall>e. v = Some e \<longrightarrow> persistable e)"
  using tier_remove_ok [OF get_tier_ok [OF assms(1)] assms(2)] .

lemma exact_ok: "cache_ok c \<Longrightarrow> cache_ok (snd (lookup_exact_in sg k now ts c))"
proof (induction ts arbitrary: c)
  case (Cons t ts)
  obtain v tm where r: "tier_remove sg k (get_tier t c) = (v, tm)" by fastforce
  note ok = tier_hit_ok [OF Cons.prems r] set_tier_ok [OF Cons.prems, of tm t]
  show ?case
  proof (cases v)
    case None
    with r Cons show ?thesis by simp
  next
    case (Some e)
    with ok have "cache_ok (set_tier t tm c)" "persistable e" by auto
    with Some r Cons.IH show ?thesis by (simp add: Let_def place_ok park_ok)
  qed
qed simp

lemma cname_ok: "cache_ok c \<Longrightarrow> cache_ok (snd (lookup_cname_in sg k now ts c))"
proof (induction ts arbitrary: c)
  case (Cons t ts)
  obtain v tm where r: "tier_remove sg k (get_tier t c) = (v, tm)" by fastforce
  note ok = tier_hit_ok [OF Cons.prems r] set_tier_ok [OF Cons.prems, of tm t]
  show ?case
  proof (cases v)
    case None
    with r Cons show ?thesis by simp
  next
    case (Some e)
    with ok have "cache_ok (set_tier t tm c)" "persistable e" by auto
    with Some r Cons.IH show ?thesis
      by (cases "case ce_kind e of Positive s \<Rightarrow> cname_target s | _ \<Rightarrow> None") (simp_all add: Let_def place_ok park_ok)
  qed
qed simp

lemma lookups_keep:
  "cache_ok c \<Longrightarrow> lookup_exact sg k now c = (r, c') \<Longrightarrow> cache_ok c'"
  "cache_ok c \<Longrightarrow> lookup_cname sg k now c = (r, c') \<Longrightarrow> cache_ok c'"
  using exact_ok [of c sg k now "[Hot, Warm, Cold]"] cname_ok [of c sg k now "[Hot, Warm, Cold]"]
  by (simp_all add: lookup_exact_def lookup_cname_def del: lookup_exact_in.simps lookup_cname_in.simps)

interpretation exact_files: partition_lookup "\<lambda>k. lookup_exact sg k now" cache_ok "\<lambda>_ _. True" "\<lambda>_ _ _. True" for sg now
  by unfold_locales (auto intro: lookups_keep(1))

interpretation cname_files: partition_lookup "\<lambda>k. lookup_cname sg k now" cache_ok "\<lambda>_ _. True" "\<lambda>_ _ _. True" for sg now
  by unfold_locales (auto intro: lookups_keep(2))

lemma lookup_ok:
  assumes "cache_ok c"
  shows "cache_ok (snd (cache_lookup sg key now c))"
proof -
  obtain r1 c1 where w1: "walk_partitions key (\<lambda>k. lookup_exact sg k now) c = (r1, c1)" by fastforce
  obtain r2 c2 where w2: "walk_partitions (with_type key RrType_CNAME) (\<lambda>k. lookup_cname sg k now) c1 = (r2, c2)" by fastforce
  have x1: "cache_ok c1" using exact_files.walk [OF assms w1] by blast
  have x2: "cache_ok c2" using cname_files.walk [OF x1 w2] by blast
  show ?thesis using x1 x2 by (auto simp: cache_lookup_def w1 w2 split: option.splits)
qed

section \<open>The operations\<close>

lemma alter_ok: "cache_ok c \<Longrightarrow> (\<And>e. persistable (f e) = persistable e) \<Longrightarrow> cache_ok (alter_any k f c)"
  by (auto simp: alter_any_def cache_ok_def tier_alter_ok)

lemma evict_subset: "set (fst (evict_for_capacity m cutoff stride stamp)) \<subseteq> set m"
  using stride_pass_sub [of "max stride 2" 0 "btree_retain (\<lambda>_ v. cutoff \<le> stamp v) m"]
  by (auto simp: evict_for_capacity_def btree_retain_def btree_remove_def Let_def split: option.splits)

lemma nx_put_ok:
  assumes "cache_ok c" and "set m \<subseteq> set (nx c)" and "wf_name n" and "pred_option record_ok (ne_soa neg)"
  shows "cache_ok (c\<lparr>nx := btree_insert n neg m\<rparr>)"
  using assms set_btree_insert [of n neg m] by (auto simp: cache_ok_def)

lemma nx_alter_ok:
  assumes "\<forall>(n, neg) \<in> set m. wf_name n \<and> pred_option record_ok (ne_soa neg)"
    and "\<And>neg. pred_option record_ok (ne_soa neg) \<Longrightarrow> pred_option record_ok (ne_soa (f neg))"
  shows "\<forall>(n, neg) \<in> set (btree_alter k f m). wf_name n \<and> pred_option record_ok (ne_soa neg)"
  using assms(1)
proof (induction m)
  case (Cons x m)
  obtain k' e where "x = (k', e)" by fastforce
  with Cons assms(2) show ?case by (auto split: if_splits)
qed simp

lemma insert_nx_ok:
  assumes "cache_ok c" and "wf_name n" and "pred_option record_ok soa"
  shows "cache_ok (insert_nxdomain n rc soa ttl now c)"
proof (cases "btree_get (nx c) n")
  case None
  show ?thesis
    unfolding insert_nxdomain_def Let_def None option.case by (rule nx_put_ok [OF assms(1)]) (simp_all add: assms evict_subset)
next
  case (Some neg)
  have "\<forall>(n, neg) \<in> set (nx c). wf_name n \<and> pred_option record_ok (ne_soa neg)" using assms(1) by (simp add: cache_ok_def)
  then have "\<forall>(n, neg) \<in> set (btree_alter n (\<lambda>e. e\<lparr>ne_expires := x e, ne_inserted := now,
      ne_soa := (case soa of Some r \<Rightarrow> Some r | None \<Rightarrow> ne_soa e)\<rparr>) (nx c)). wf_name n \<and> pred_option record_ok (ne_soa neg)" for x
    by (rule nx_alter_ok) (use assms(3) in \<open>auto split: option.split\<close>)
  with assms(1) show ?thesis unfolding insert_nxdomain_def Let_def Some option.case cache_ok_def by simp
qed

lemma insert_pos_ok:
  assumes "cache_ok c" and "op_persistable (CachePositiveOp key s now inputs valid)"
  shows "cache_ok (insert_positive sg key s now inputs valid c)"
proof -
  obtain v c1 where t: "take_entry_any sg key c = (v, c1)" by fastforce
  from take_entry_ok [OF assms(1) t] assms(2) show ?thesis
    by (cases v) (auto simp: insert_positive_def t Let_def persistable_def intro!: place_ok)
qed

lemma insert_neg_ok:
  assumes "cache_ok c" and "op_persistable (CacheNegativeOp key rc soa ttl now inputs)"
  shows "cache_ok (insert_negative sg key rc soa ttl now inputs c)"
proof -
  obtain v c1 where t: "take_entry_any sg key c = (v, c1)" by fastforce
  from take_entry_ok [OF assms(1) t] assms(2) show ?thesis
    by (cases v) (auto simp: insert_negative_def t Let_def persistable_def intro!: place_ok split: option.splits)
qed

lemma rescore_ok: "cache_ok c \<Longrightarrow> cache_ok (rescore sg key inputs now c)"
proof -
  assume c: "cache_ok c"
  obtain v c1 where t: "take_entry_any sg key c = (v, c1)" by fastforce
  from take_entry_ok [OF c t] show ?thesis by (cases v) (auto simp: rescore_def t intro!: place_ok)
qed

lemma sweep_ok: "cache_ok c \<Longrightarrow> cache_ok (sweep sg now c)"
proof -
  assume c: "cache_ok c"
  have "\<forall>(n, neg) \<in> set (btree_retain P (nx c)). wf_name n \<and> pred_option record_ok (ne_soa neg)" for P
    using c by (auto simp: btree_retain_def cache_ok_def)
  with c show ?thesis by (simp add: sweep_def Let_def cache_ok_def tier_retain_ok)
qed

lemma apply_ok: "cache_ok c \<Longrightarrow> op_persistable opn \<Longrightarrow> cache_ok (cache_apply sg opn c)"
  by (cases opn)
     (simp_all add: lookup_ok insert_pos_ok insert_neg_ok insert_nx_ok rescore_ok sweep_ok alter_ok record_refresh_failure_def
       clear_refreshing_def mark_refreshing_def restore_entry_def place_ok park_ok split: option.split)

interpretation filed_machine: inductive_invariant cache_initial "filed_step sg" all_persistable for sg
proof
  show "cache_initial c \<Longrightarrow> all_persistable c" for c :: "('f, 'm) semantic_cache"
    by (auto simp: cache_initial_def all_persistable_def cache_new_def tier_new_def tier_maps_def)
  show "all_persistable c \<Longrightarrow> filed_step sg c opn c' \<Longrightarrow> all_persistable c'" for c opn c'
    using apply_ok by (auto simp: filed_step_def cache_step_def simp flip: cache_ok_iff)
qed

end
