(* ===== verification/Persist_Claims.thy ===== *)
theory Persist_Claims
  imports Persist_Filed Samples
begin

text \<open>The property of snapshots, and a cache with one entry to evaluate it on.\<close>

definition encodable :: "('f, 'm) cache_entry \<Rightarrow> bool" where
  "encodable e \<longleftrightarrow> kind_to_dto (ce_kind e) \<noteq> None"

definition survives :: "ts \<Rightarrow> u32 \<Rightarrow> ('f, 'm) cache_entry \<Rightarrow> bool" where
  "survives now window e \<longleftrightarrow> encodable e \<and> now < stale_end (whole_secs (ce_expires e)) window"

lemma entry_dto_expired:
  "entry_to_dto pe e t = Some d \<Longrightarrow> \<not> now < stale_end (whole_secs (ce_expires e)) window \<Longrightarrow> dto_to_entry pe d now window = None"
  by (auto simp: entry_to_dto_def dto_to_entry_def whole_secs_def Let_def split: sum.splits)

lemma tier_roundtrip:
  assumes "\<forall>(k, e) \<in> set m. persistable e"
  shows "List.map_filter (\<lambda>d. dto_to_entry pe d now window) (List.map_filter (\<lambda>(_, e). entry_to_dto pe e t) m)
    = map (\<lambda>(_, e). restored pe e t now) (filter (\<lambda>(_, e). survives now window e) m)"
  using assms
proof (induction m)
  case (Cons x m)
  obtain k e where x: "x = (k, e)" by fastforce
  have p: "persistable e" using Cons.prems x by simp
  show ?case
  proof (cases "entry_to_dto pe e t")
    case None
    then have "\<not> encodable e" by (simp add: entry_to_dto_def encodable_def)
    with None Cons x show ?thesis by (simp add: List.map_filter_def survives_def)
  next
    case (Some d)
    then have "encodable e" by (auto simp: entry_to_dto_def encodable_def)
    with Some Cons x entry_roundtrip [OF p Some] entry_dto_expired [OF Some] show ?thesis
      by (auto simp: List.map_filter_def survives_def)
  qed
qed (simp add: List.map_filter_def)

lemma map_filter_concat: "List.map_filter f (concat xss) = concat (map (List.map_filter f) xss)"
  by (induction xss) (simp_all add: List.map_filter_def)

text \<open>The entries a snapshot of the cache keeps, tier by tier, as a restore gives them back.\<close>

definition kept_entries :: "('f, 'm, 'n) persist_env \<Rightarrow> ('f, 'm) semantic_cache \<Rightarrow> ts \<Rightarrow> u32 \<Rightarrow> ('f, 'm) cache_entry list" where
  "kept_entries pe c now window =
    concat (map (\<lambda>(t, m). map (\<lambda>(_, e). restored pe e t now) (filter (\<lambda>(_, e). survives now window e) (tm_map m))) (tier_maps c))"

lemma entries_roundtrip:
  assumes "all_persistable c"
  shows "List.map_filter (\<lambda>d. dto_to_entry pe d now window) (sn_entries (snapshot_new pe c now_unix)) = kept_entries pe c now window"
proof -
  have "List.map_filter (\<lambda>d. dto_to_entry pe d now window) (List.map_filter (\<lambda>(_, e). entry_to_dto pe e t) (tm_map m))
      = map (\<lambda>(_, e). restored pe e t now) (filter (\<lambda>(_, e). survives now window e) (tm_map m))"
    if "(t, m) \<in> set (tier_maps c)" for t m
    using assms that by (intro tier_roundtrip) (auto simp: all_persistable_def list_all_iff)
  then show ?thesis
    by (auto simp: snapshot_new_def kept_entries_def map_filter_concat comp_def intro!: arg_cong [where f = concat])
qed

text \<open>The denials it keeps.\<close>

definition negative_survives :: "ts \<Rightarrow> u32 \<Rightarrow> negative_entry \<Rightarrow> bool" where
  "negative_survives now window neg \<longleftrightarrow>
     (case ne_soa neg of None \<Rightarrow> True | Some r \<Rightarrow> record_wire r \<noteq> None) \<and> now < stale_end (whole_secs (ne_expires neg)) window"

definition restored_negative :: "negative_entry \<Rightarrow> negative_entry" where
  "restored_negative neg = neg\<lparr>ne_expires := whole_secs (ne_expires neg), ne_soa := map_option record_norm (ne_soa neg),
     ne_inserted := whole_secs (ne_inserted neg)\<rparr>"

definition kept_negatives :: "('f, 'm) semantic_cache \<Rightarrow> ts \<Rightarrow> u32 \<Rightarrow> (name \<times> negative_entry) list" where
  "kept_negatives c now window =
    map (\<lambda>(n, neg). (n, restored_negative neg)) (filter (\<lambda>(_, neg). negative_survives now window neg) (nx c))"

lemma restore_dtos:
  "fold (restore_dto sg pe now window) ds (c, n)
    = (let es = List.map_filter (\<lambda>d. dto_to_entry pe d now window) ds in (fold (\<lambda>e. restore_entry sg e now) es c, n + length es))"
  by (induction ds arbitrary: c n) (auto simp: List.map_filter_def restore_dto_def Let_def split: option.split)

lemma restore_negative_saved:
  assumes "wf_name n" and "pred_option record_ok (ne_soa neg)" and "negative_to_dto (n, neg) = Some d"
  shows "restore_negative now window d (c, k) =
    (if negative_survives now window neg then (c\<lparr>nx := btree_insert n (restored_negative neg) (nx c)\<rparr>, k + 1) else (c, k))"
proof (cases "ne_soa neg")
  case None
  with assms(3) show ?thesis
    by (cases neg) (auto simp: negative_to_dto_def restore_negative_def name_from_own_wire [OF assms(1)] negative_survives_def
        restored_negative_def whole_secs_def Let_def)
next
  case (Some r)
  with assms obtain wire where w: "record_wire r = Some wire" and r: "record_ok r" by (auto simp: negative_to_dto_def Let_def)
  with assms(3) Some parse_record_wire [OF r w] show ?thesis
    by (cases neg) (auto simp: negative_to_dto_def restore_negative_def name_from_own_wire [OF assms(1)] negative_survives_def
        restored_negative_def whole_secs_def Let_def)
qed

lemma negatives_roundtrip:
  assumes "list_all (\<lambda>(n, neg). wf_name n \<and> pred_option record_ok (ne_soa neg)) m"
  shows "fold (restore_negative now window) (List.map_filter negative_to_dto m) (c, k) =
    (let ns = map (\<lambda>(n, neg). (n, restored_negative neg)) (filter (\<lambda>(_, neg). negative_survives now window neg) m)
     in (c\<lparr>nx := fold (\<lambda>(n, neg). btree_insert n neg) ns (nx c)\<rparr>, k + length ns))"
  using assms
proof (induction m arbitrary: c k)
  case (Cons x m)
  obtain n neg where x: "x = (n, neg)" by fastforce
  have ok: "wf_name n" "pred_option record_ok (ne_soa neg)" using Cons.prems x by simp_all
  show ?case
  proof (cases "negative_to_dto x")
    case None
    then have "\<not> negative_survives now window neg"
      by (auto simp: x negative_to_dto_def negative_survives_def Let_def split: option.splits)
    with None Cons x show ?thesis by (simp add: List.map_filter_def Let_def)
  next
    case (Some d)
    note step = restore_negative_saved [OF ok Some [unfolded x]]
    from Some Cons x show ?thesis
      by (cases "negative_survives now window neg") (simp_all add: List.map_filter_def step Let_def)
  qed
qed (simp add: List.map_filter_def)

lemma restore_snapshot:
  assumes "all_persistable c"
  shows "restore_into sg pe (snapshot_new pe c now_unix) now window c0 =
    (let es = kept_entries pe c now window; ns = kept_negatives c now window;
         c1 = fold (\<lambda>e. restore_entry sg e now) es c0; n = length es + length ns
     in (n, c1\<lparr>nx := fold (\<lambda>(n, neg). btree_insert n neg) ns (nx c1), stats := (stats c1)\<lparr>inserts := inserts (stats c1) + of_nat n\<rparr>\<rparr>))"
proof -
  have "sn_magic (snapshot_new pe c now_unix) = MAGIC" "sn_version (snapshot_new pe c now_unix) = VERSION"
    "sn_negatives (snapshot_new pe c now_unix) = List.map_filter negative_to_dto (nx c)" by (simp_all add: snapshot_new_def)
  moreover have "list_all (\<lambda>(n, neg). wf_name n \<and> pred_option record_ok (ne_soa neg)) (nx c)" using assms by (simp add: all_persistable_def)
  ultimately show ?thesis
    by (simp add: restore_into_def restore_dtos entries_roundtrip [OF assms] negatives_roundtrip kept_negatives_def Let_def)
qed

text \<open>
  C23. Snapshots: let a cache be filled, by whatever operations, with RRsets and denials as parsed messages give
  them (well-formed names, records that fit, no empty RRset).  Restoring its snapshot into any cache inserts the
  entries of its tiers, in order, then puts its denials in the name store, and counts both.  Each entry comes back
  with its key, validation flag (copied to its RRset), score, counters and cost; its data up to the normal form
  of parsed records; its times to the second; the least TTL of its records; its refreshing mark cleared;
  expired ones are assigned to the cold tier.  Left out are exactly the entries and denials with a record that
  cannot be written and those past the stale window.
\<close>

theorem snapshot_roundtrip:
  assumes "reachable cache_initial (filed_step sg) c"
  shows "restore_into sg' pe (snapshot_new pe c now_unix) now window c0 =
    (let es = kept_entries pe c now window; ns = kept_negatives c now window;
         c1 = fold (\<lambda>e. restore_entry sg' e now) es c0; n = length es + length ns
     in (n, c1\<lparr>nx := fold (\<lambda>(n, neg). btree_insert n neg) ns (nx c1), stats := (stats c1)\<lparr>inserts := inserts (stats c1) + of_nat n\<rparr>\<rparr>))"
  using restore_snapshot [OF filed_machine.reachable_inv [OF assms]] .

definition sample_persist :: "(nat, unit, unit) persist_env" where
  "sample_persist = \<lparr>pe_state = (\<lambda>_. \<lparr>hs_prior_ttl_secs = 0, hs_alpha_ev = 0, hs_beta_ev = 0, hs_evidence_secs = 0,
       hs_lifetime_exposure_secs = 0, hs_observations = 0, hs_changes = 0, hs_failures = 0, hs_consecutive_failures = 0,
       hs_ttl_ewma = 0, hs_ttl_volatility = 0, hs_last_observation = 0, hs_last_change = 0\<rparr>),
     pe_config = (\<lambda>_. \<lparr>hz_prior_shape = 0, hz_confidence = 0, hz_forgetting_secs = 0, hz_min_interval_secs = 0,
       hz_max_interval_secs = 0, hz_target_freshness = 0\<rparr>),
     pe_from_state = (\<lambda>_ _. ()), pe_cost_ref = 500, pe_serialize = (\<lambda>_. None), pe_deserialize = (\<lambda>_ _. None),
     pe_exists = (\<lambda>_. False), pe_read = (\<lambda>_. None), pe_write_tmp = (\<lambda>_ fs. (True, fs)), pe_rename = (\<lambda>fs. (True, fs))\<rparr>"

definition sample_mx :: rr_set where
  "sample_mx = \<lparr>rs_name = wit_name, rs_type = RrType_MX, rs_class = RrClass_IN, rs_records = [wit_record], rrsigs = [],
     rs_ttl = 60, validated = False\<rparr>"

definition sample_entry :: "(nat, unit) cache_entry" where
  "sample_entry = \<lparr>ce_key = CacheKey wit_name RrType_MX RrClass_IN None, ce_kind = Positive sample_mx,
     ce_inserted = 5, ce_expires = 60000000005, ce_served = 0, last_served = 5, stability = (), ce_validated = True,
     ce_score = 60, ce_tier = Warm, refreshing = False, cost_ms = 0\<rparr>"

text \<open>A cache with an answer and a denial, both filed five nanoseconds after the epoch.\<close>

definition sample_saved :: "(nat, unit) semantic_cache" where
  "sample_saved = insert_nxdomain name_root Rcode_NXDOMAIN None 60 5
     (insert_positive sample_signals (CacheKey wit_name RrType_MX RrClass_IN None) sample_mx 5 () True (cache_new sample_config))"

lemma sample_saved_reachable: "reachable cache_initial (filed_step sample_signals) sample_saved"
proof -
  let ?pos = "CachePositiveOp (CacheKey wit_name RrType_MX RrClass_IN None) sample_mx 5 () True :: (nat, unit, unit) cache_op"
  have "reachable cache_initial (filed_step sample_signals) (cache_new sample_config)"
    by (rule reachable.reach_init) (auto simp: cache_initial_def)
  then have "reachable cache_initial (filed_step sample_signals) (cache_apply sample_signals ?pos (cache_new sample_config))"
    by (rule reachable.reach_step [where opn = ?pos]) (simp add: filed_step_def cache_step_def sample_mx_def wit_name_wf wit_record_ok)
  then show ?thesis
    by (rule reachable.reach_step [where opn = "CacheNxdomainOp name_root Rcode_NXDOMAIN None 60 5"])
       (simp add: filed_step_def cache_step_def sample_saved_def wf_name_root)
qed

lemma sample_saved_parts:
  "tm_map (hot sample_saved) = []" "tm_map (warm sample_saved) = [(CacheKey wit_name RrType_MX RrClass_IN None, sample_entry)]"
  "tm_map (cold sample_saved) = []"
  "nx sample_saved = [(name_root, \<lparr>ne_expires = 60000000005, ne_rcode = Rcode_NXDOMAIN, ne_soa = None, ne_inserted = 5, ne_served = 0\<rparr>)]"
  by (simp_all add: sample_saved_def insert_nxdomain_def insert_positive_def take_entry_any_def tier_remove_def cache_new_def tier_new_def
      sample_config_def sample_signals_def sample_mx_def sample_entry_def place_def tier_for_def tier_insert_def score_entry_def ttl_secs_def
      count_insert_def saturating_add_def i128_saturate_def i128_min_def i128_max_def btree_remove_def tier_len_def Let_def)

lemma sample_survives: "survives 10 0 sample_entry"
  by (simp add: survives_def encodable_def sample_entry_def sample_mx_def record_wire_def wit_record_written whole_secs_def ts_to_unix_def
      unix_to_ts_def trunc_div_def stale_end_def saturating_add_def i128_saturate_def i128_min_def i128_max_def)

lemma sample_kept:
  "kept_entries sample_persist sample_saved 10 0 = [restored sample_persist sample_entry Warm 10]"
  "kept_negatives sample_saved 10 0 =
    [(name_root, \<lparr>ne_expires = 60000000000, ne_rcode = Rcode_NXDOMAIN, ne_soa = None, ne_inserted = 0, ne_served = 0\<rparr>)]"
  by (simp_all add: kept_entries_def kept_negatives_def tier_maps_def sample_saved_parts sample_survives negative_survives_def
      restored_negative_def whole_secs_def ts_to_unix_def unix_to_ts_def trunc_div_def stale_end_def saturating_add_def i128_saturate_def
      i128_min_def i128_max_def)

theorem snapshot_roundtrip_witness:
  "fst (restore_into sample_signals sample_persist (snapshot_new sample_persist sample_saved 0) 10 0 (cache_new sample_config)) = 2
   \<and> nx (snd (restore_into sample_signals sample_persist (snapshot_new sample_persist sample_saved 0) 10 0 (cache_new sample_config))) =
     btree_insert name_root \<lparr>ne_expires = 60000000000, ne_rcode = Rcode_NXDOMAIN, ne_soa = None, ne_inserted = 0, ne_served = 0\<rparr>
       (nx (restore_entry sample_signals (restored sample_persist sample_entry Warm 10) 10 (cache_new sample_config)))"
  unfolding snapshot_roundtrip [OF sample_saved_reachable] sample_kept Let_def by simp

text \<open>The cap on the time to live is not part of a snapshot: it is lost by a restore.\<close>

lemma restored_above_cap: "ttl_secs sample_entry = 60 \<and> ttl_secs (restored sample_persist sample_entry Warm 10) = 300"
  by (simp add: ttl_secs_def restored_def sample_entry_def sample_mx_def min_ttl_def wit_record_def)

end
