(* ===== verification/Config_File.thy ===== *)
theory Config_File
  imports Resolver_State
begin

text \<open>
  \<^verbatim>\<open>src/src/config.rs\<close>: from the configuration document to the resolver's configuration.  The document is
  what the third-party JSON reader makes of a file: a record with one optional field per key.  Fields that
  only the floating-point planner and the upstream ranking read are left out, and so are the transports
  to listen on; the floating-point constants and the maximum are the parameter \<open>float_env\<close>.  Of the error
  messages the interpolated arguments are left out.
\<close>

section \<open>Strings\<close>

fun split_once_str :: "rust_str \<Rightarrow> rust_str \<Rightarrow> (rust_str \<times> rust_str) option" where
  "split_once_str pat [] = (case strip_str_prefix pat [] of Some r \<Rightarrow> Some ([], r) | None \<Rightarrow> None)"
| "split_once_str pat (c # s) = (case strip_str_prefix pat (c # s) of
      Some r \<Rightarrow> Some ([], r)
    | None \<Rightarrow> map_option (\<lambda>(a, b). (c # a, b)) (split_once_str pat s))"

definition rsplit_once :: "u32 \<Rightarrow> rust_str \<Rightarrow> (rust_str \<times> rust_str) option" where
  "rsplit_once d s = map_option (\<lambda>(b, a). (rev a, rev b)) (split_once d (rev s))"

definition str_lowercase :: "rust_str \<Rightarrow> rust_str" where
  "str_lowercase = map (\<lambda>c. if 65 \<le> c \<and> c \<le> 90 then c + 32 else c)"

definition str_uppercase :: "rust_str \<Rightarrow> rust_str" where
  "str_uppercase = map (\<lambda>c. if 97 \<le> c \<and> c \<le> 122 then c - 32 else c)"

definition parse_u16 :: "rust_str \<Rightarrow> u16 option" where
  "parse_u16 s =
    (let t = (if length s > 1 \<and> hd s = 43 then tl s else s) in
     if t = [] then None
     else case parse_digits 0 t of None \<Rightarrow> None | Some n \<Rightarrow> if n \<le> 65535 then Some (of_nat n) else None)"

section \<open>The document\<close>

record cache_json =
  cj_hot_capacity :: "usize option"
  cj_warm_capacity :: "usize option"
  cj_cold_capacity :: "usize option"
  cj_nx_capacity :: "usize option"
  cj_stale_window_secs :: "u32 option"
  cj_negative_ttl_cap :: "u32 option"
  cj_max_ttl_cap :: "u32 option"

record forwarder_json =
  fj_ip :: rust_str
  fj_port :: u16
  fj_proto :: rust_str
  fj_host :: "rust_str option"

record engine_json =
  ej_root_servers :: "rust_str list"
  ej_timeout_ms :: "u64 option"
  ej_query_budget_ms :: "u64 option"
  ej_auth_port :: "u16 option"
  ej_qname_minimization :: "bool option"
  ej_use_0x20 :: "bool option"
  ej_max_cname_depth :: "usize option"
  ej_dnssec :: "bool option"
  ej_tcp_fallback :: "bool option"
  ej_decorrelate_refresh :: "bool option"
  ej_forwarders :: "forwarder_json list"

datatype host_value = OneHost rust_str | ManyHosts "rust_str list"

record fallback_filter_json =
  ffj_geoip :: bool
  ffj_geoip_code :: "rust_str list"
  ffj_ipcidr :: "rust_str list option"
  ffj_domain :: "rust_str list"

record dns_json =
  dj_enhanced_mode :: "rust_str option"
  dj_fake_ip_range :: "rust_str option"
  dj_fake_ip_range6 :: "rust_str option"
  dj_fake_ip_filter :: "rust_str list option"
  dj_fake_ip_ttl :: "u64 option"
  dj_fake_ip_answer_ttl :: "u32 option"
  dj_fake_ip_max_entries :: "usize option"
  dj_hosts :: "(rust_str \<times> host_value) list"
  dj_hosts_ttl :: "u32 option"
  dj_nameservers :: "rust_str list"
  dj_fallback :: "rust_str list"
  dj_nameserver_policy :: "(rust_str \<times> rust_str list) list"
  dj_fallback_filter :: "fallback_filter_json option"

record 'f config_doc =
  cd_cache :: cache_json
  cd_engine :: engine_json
  cd_block :: "rust_str list"
  cd_dns :: dns_json
  cd_client_burst :: "'f option"
  cd_client_qps :: "'f option"

definition unwrap_or :: "'a \<Rightarrow> 'a option \<Rightarrow> 'a" where
  "unwrap_or d x = (case x of Some y \<Rightarrow> y | None \<Rightarrow> d)"

section \<open>Defaults\<close>

record 'f float_env =
  fl_hot_admit :: 'f
  fl_warm_admit :: 'f
  fl_min_admit :: 'f
  fl_glue_share :: 'f
  fl_capacity :: 'f
  fl_refill :: 'f
  fl_one :: 'f
  fl_zero :: 'f
  fl_max :: "'f \<Rightarrow> 'f \<Rightarrow> 'f"

definition cache_config_default :: "'f float_env \<Rightarrow> 'f cache_config" where
  "cache_config_default fl =
    \<lparr>hot_capacity = 2048, warm_capacity = 131072, cold_capacity = 32768, nx_capacity = 65536, stale_window_secs = 86400,
     negative_ttl_cap = 300, max_ttl_cap = 7 * 86400, hot_admit_score = fl_hot_admit fl, warm_admit_score = fl_warm_admit fl,
     min_admit_score = fl_min_admit fl\<rparr>"

definition rate_limit_config_default :: "'f float_env \<Rightarrow> 'f rate_limit_config" where
  "rate_limit_config_default fl =
    \<lparr>client_capacity = fl_capacity fl, client_refill_per_sec = fl_refill fl, max_client_buckets = 65536\<rparr>"

section \<open>Upstreams\<close>

definition proto_of_name :: "rust_str \<Rightarrow> proto option" where
  "proto_of_name p =
    (if p = str_lit ''udp'' then Some Udp else if p = str_lit ''tcp'' then Some Tcp else if p = str_lit ''dot'' then Some Tls
     else if p = str_lit ''doh'' then Some DoH else if p = str_lit ''doh3'' then Some DoH3
     else if p = str_lit ''doq'' then Some DoQ else None)"

definition json_endpoint :: "forwarder_json \<Rightarrow> endpoint result" where
  "json_endpoint j =
    rbind (ok_or (error_config ''bad upstream ip {}'') (parse_ip (fj_ip j))) (\<lambda>ip.
    rbind (ok_or (error_config ''unknown upstream proto {other}'') (proto_of_name (fj_proto j))) (\<lambda>proto.
    Ok \<lparr>ep_ip = ip,
        ep_port = (if fj_port j = 0 then (if proto \<in> {Tls, DoQ, DoH3} then 853 else if proto = DoH then 443 else 53)
                   else fj_port j),
        ep_proto = proto\<rparr>))"

definition json_forwarder :: "forwarder_json \<Rightarrow> forwarder result" where
  "json_forwarder j =
    rbind (json_endpoint j) (\<lambda>ep.
    if ep_proto ep \<in> {Udp, Tcp} then Ok (forwarder_plain ep)
    else rbind (ok_or (error_config ''forwarder requires host for TLS verification'') (fj_host j)) (\<lambda>host.
      Ok (forwarder_encrypted ep host)))"

definition authority_port :: "rust_str \<Rightarrow> u16 option option" where
  "authority_port tail =
    (if tail = [] then Some None
     else Option.bind (case strip_str_prefix [58] tail of Some t \<Rightarrow> Some t | None \<Rightarrow> strip_str_prefix [64] tail) (\<lambda>t.
       map_option Some (parse_u16 t)))"

definition parse_authority :: "rust_str \<Rightarrow> (ip_addr \<times> u16 option) option" where
  "parse_authority a =
    (let authority = str_trim a in
     case strip_str_prefix [91] authority of
       Some rest \<Rightarrow> Option.bind (split_once 93 rest) (\<lambda>(host, tail).
         Option.bind (authority_port tail) (\<lambda>port. map_option (\<lambda>ip. (ip, port)) (parse_ip host)))
     | None \<Rightarrow> (case rsplit_once 64 authority of
         Some (host, port) \<Rightarrow> Option.bind (parse_ip host) (\<lambda>ip. map_option (\<lambda>p. (ip, Some p)) (parse_u16 port))
       | None \<Rightarrow> (case rsplit_once 58 authority of
           Some (host, port) \<Rightarrow> (case (parse_ip host, parse_u16 port) of
               (Some ip, Some p) \<Rightarrow> Some (ip, Some p)
             | _ \<Rightarrow> map_option (\<lambda>ip. (ip, None)) (parse_ip authority))
         | None \<Rightarrow> map_option (\<lambda>ip. (ip, None)) (parse_ip authority))))"

definition scheme_proto :: "rust_str \<Rightarrow> (proto \<times> u16) option" where
  "scheme_proto s =
    (if s = str_lit ''udp'' then Some (Udp, 53) else if s = str_lit ''tcp'' then Some (Tcp, 53)
     else if s = str_lit ''tls'' then Some (Tls, 853) else if s = str_lit ''quic'' then Some (DoQ, 853)
     else if s = str_lit ''https'' then Some (DoH, 443) else if s = str_lit ''h3'' then Some (DoH3, 443) else None)"

definition split_path :: "proto \<Rightarrow> rust_str \<Rightarrow> (rust_str \<times> rust_str option) result" where
  "split_path proto rest = (case split_once 47 rest of
      Some (auth, p) \<Rightarrow> if proto \<in> {DoH, DoH3} then Ok (auth, Some p)
                         else Err (error_config ''upstream: {scheme}:// takes no path'')
    | None \<Rightarrow> Ok (rest, None))"

definition finish_upstream :: "endpoint \<Rightarrow> rust_str option \<Rightarrow> rust_str option \<Rightarrow> forwarder result" where
  "finish_upstream ep name path =
    (if ep_proto ep \<in> {Udp, Tcp} then
       (if name \<noteq> None then Err (error_config ''upstream: a plain upstream carries no TLS identity'')
        else Ok (forwarder_plain ep))
     else rbind (ok_or (error_config ''upstream: the encrypted transports need a TLS name to verify against'') name) (\<lambda>n.
       let f = forwarder_encrypted ep n in
       Ok (case path of None \<Rightarrow> f | Some p \<Rightarrow> if p = [] then f else with_path (47 # p) f)))"

definition parse_upstream :: "rust_str \<Rightarrow> forwarder result" where
  "parse_upstream s =
    (let (rest, name) = (case split_once 35 s of
          Some (a, b) \<Rightarrow> (str_trim a, Some (str_trim b))
        | None \<Rightarrow> (str_trim s, None))
     in
     if rest = [] then Err (error_config ''empty upstream string'')
     else if name = Some [] then Err (error_config ''upstream has an empty #name fragment'')
     else
     let (scheme, rest) = (case split_once_str (str_lit ''://'') rest of
          Some (sch, r) \<Rightarrow> (str_lowercase sch, r)
        | None \<Rightarrow> (str_lit ''udp'', rest))
     in
     if rest = [] then Err (error_config ''upstream has no address'')
     else case scheme_proto scheme of
       None \<Rightarrow> Err (error_config ''upstream: unknown scheme'')
     | Some (proto, default_port) \<Rightarrow>
         rbind (split_path proto rest) (\<lambda>(authority, path).
         rbind (ok_or (error_config ''upstream: not an IP literal'') (parse_authority authority)) (\<lambda>(ip, port).
         let port = unwrap_or default_port port in
         if port = 0 then Err (error_config ''upstream: port 0 is not a port'')
         else finish_upstream \<lparr>ep_ip = ip, ep_port = port, ep_proto = proto\<rparr> name path)))"

fun collect_results :: "('a \<Rightarrow> 'b result) \<Rightarrow> 'a list \<Rightarrow> 'b list result" where
  "collect_results f [] = Ok []"
| "collect_results f (x # xs) = rbind (f x) (\<lambda>y. rbind (collect_results f xs) (\<lambda>ys. Ok (y # ys)))"

section \<open>The policy layer\<close>

fun host_values :: "host_value \<Rightarrow> rust_str list" where
  "host_values (OneHost s) = [s]"
| "host_values (ManyHosts v) = v"

fun load_hosts :: "(rust_str \<times> host_value) list \<Rightarrow> hosts_table \<Rightarrow> hosts_table result" where
  "load_hosts [] t = Ok t"
| "load_hosts ((n, v) # hs) t = rbind (insert_from_config n (host_values v) t) (load_hosts hs)"

definition build_fake_ip :: "dns_json \<Rightarrow> fake_ip_settings option result" where
  "build_fake_ip dns =
    (let mode = str_lowercase (str_trim (unwrap_or (str_lit ''normal'') (dj_enhanced_mode dns))) in
     if mode = [] \<or> mode = str_lit ''normal'' \<or> mode = str_lit ''redir-host'' then Ok None
     else if mode = str_lit ''fake-ip'' \<or> mode = str_lit ''fakeip'' \<or> mode = str_lit ''fake_ip'' then
       rbind (settings_parse (unwrap_or DEFAULT_FAKE_IP_RANGE (dj_fake_ip_range dns)) (dj_fake_ip_range6 dns) (dj_fake_ip_filter dns)
           (unwrap_or DEFAULT_FAKE_IP_TTL_SECS (dj_fake_ip_ttl dns)) (unwrap_or DEFAULT_FAKE_IP_MAX_ENTRIES (dj_fake_ip_max_entries dns)))
         (\<lambda>s. Ok (Some (case dj_fake_ip_answer_ttl dns of Some t \<Rightarrow> with_answer_ttl t s | None \<Rightarrow> s)))
     else Err (error_config ''dns.enhanced-mode is not a mode''))"

definition build_fallback :: "dns_json \<Rightarrow> fallback_filter result" where
  "build_fallback dns = (case dj_fallback_filter dns of
      Some f \<Rightarrow> if ffj_geoip_code f \<noteq> [] then Err (error_config ''dns.fallback-filter.geoipCode has no effect'')
                else fallback_new (ffj_domain f) (ffj_ipcidr f) (ffj_geoip f)
    | None \<Rightarrow> Ok fallback_default)"

fun build_groups :: "(rust_str \<times> rust_str list) list \<Rightarrow> (rust_str \<times> group_id) list \<Rightarrow> forwarder list list
    \<Rightarrow> ((rust_str \<times> group_id) list \<times> forwarder list list) result" where
  "build_groups [] rules extra = Ok (rules, extra)"
| "build_groups ((pattern, servers) # ps) rules extra =
    (if servers = [] then Err (error_config ''dns.nameserver-policy entry lists no servers'')
     else rbind (collect_results parse_upstream servers) (\<lambda>grp.
       build_groups ps (rules @ [(pattern, 2 + length extra)]) (extra @ [grp])))"

definition build_dns_policy :: "'f config_doc \<Rightarrow> dns_policy result" where
  "build_dns_policy doc =
    (let dns = cd_dns doc; legacy = ej_forwarders (cd_engine doc) in
     if dj_nameservers dns \<noteq> [] \<and> legacy \<noteq> []
     then Err (error_config ''set either `dns.nameservers` or `engine.forwarders`, not both'')
     else
       rbind (load_hosts (dj_hosts dns) (hosts_new (unwrap_or DEFAULT_HOSTS_TTL (dj_hosts_ttl dns)))) (\<lambda>hosts.
       rbind (build_fake_ip dns) (\<lambda>fake_ip.
       rbind (build_fallback dns) (\<lambda>fallback.
       rbind (if dj_nameservers dns = [] then collect_results json_forwarder legacy
              else collect_results parse_upstream (dj_nameservers dns)) (\<lambda>default.
       rbind (collect_results parse_upstream (dj_fallback dns)) (\<lambda>fb.
       rbind (build_groups (dj_nameserver_policy dns) [] []) (\<lambda>(rules, extra).
       rbind (policy_new rules) (\<lambda>policy.
       Ok \<lparr>dp_hosts = hosts, dp_fake_ip = fake_ip, dp_policy = policy, dp_fallback = fallback,
           dp_upstreams = \<lparr>ug_default = default, ug_fallback = fb, ug_extra = extra\<rparr>\<rparr>))))))))"

section \<open>The resolver's configuration\<close>

definition into_cache :: "'f float_env \<Rightarrow> cache_json \<Rightarrow> 'f cache_config" where
  "into_cache fl j =
    (let d = cache_config_default fl in
     d\<lparr>hot_capacity := unwrap_or (hot_capacity d) (cj_hot_capacity j), warm_capacity := unwrap_or (warm_capacity d) (cj_warm_capacity j),
       cold_capacity := unwrap_or (cold_capacity d) (cj_cold_capacity j), nx_capacity := unwrap_or (nx_capacity d) (cj_nx_capacity j),
       stale_window_secs := unwrap_or (stale_window_secs d) (cj_stale_window_secs j),
       negative_ttl_cap := unwrap_or (negative_ttl_cap d) (cj_negative_ttl_cap j), max_ttl_cap := unwrap_or (max_ttl_cap d) (cj_max_ttl_cap j)\<rparr>)"

definition into_policy :: "rust_str list \<Rightarrow> policy_config" where
  "into_policy block = policy_config_default\<lparr>pc_block :=
     map rule_subtree (List.map_filter (\<lambda>s. case name_from_ascii (utf8 s) of Inr n \<Rightarrow> Some n | Inl _ \<Rightarrow> None) block)\<rparr>"

text \<open>
  \<^verbatim>\<open>SocketAddr\<close> from a string: an address and a port, the second family in brackets and with an optional
  zone.  The zone is not part of the model's addresses.
\<close>

definition read_port :: "rust_str \<Rightarrow> u16 option" where
  "read_port s = (case s of [] \<Rightarrow> None | c # r \<Rightarrow> if c \<noteq> 58 then None
     else case read_number 10 (length r) True 65535 r of Some (p, []) \<Rightarrow> Some (of_nat p) | _ \<Rightarrow> None)"

definition parse_socket_addr :: "rust_str \<Rightarrow> (ip_addr \<times> u16) option" where
  "parse_socket_addr s = (case Option.bind (read_ipv4 s) (\<lambda>(a, r). map_option (\<lambda>p. (IpV4 a, p)) (read_port r)) of
      Some x \<Rightarrow> Some x
    | None \<Rightarrow> Option.bind (strip_str_prefix [91] s) (\<lambda>r. Option.bind (read_ipv6 r) (\<lambda>(a, r).
        let r = (case strip_str_prefix [37] r of
            None \<Rightarrow> r
          | Some z \<Rightarrow> (case read_number 10 (length z) True (2 ^ 32 - 1) z of Some (_, r') \<Rightarrow> r' | None \<Rightarrow> r))
        in Option.bind (strip_str_prefix [93] r) (\<lambda>r. map_option (\<lambda>p. (IpV6 a, p)) (read_port r)))))"

definition parse_root :: "rust_str \<Rightarrow> (ip_addr \<times> u16) option" where
  "parse_root s = (case parse_socket_addr s of Some sa \<Rightarrow> Some sa | None \<Rightarrow> map_option (\<lambda>ip. (ip, 53)) (parse_ip s))"

definition into_engine :: "'f float_env \<Rightarrow> engine_json \<Rightarrow> 'f engine_config" where
  "into_engine fl j =
    (let d = engine_config_default (fl_glue_share fl) in
     d\<lparr>root_servers := List.map_filter parse_root (ej_root_servers j), timeout_ms := unwrap_or (timeout_ms d) (ej_timeout_ms j),
       query_budget_ms := unwrap_or (query_budget_ms d) (ej_query_budget_ms j), auth_port := unwrap_or (auth_port d) (ej_auth_port j),
       qname_minimization := unwrap_or (qname_minimization d) (ej_qname_minimization j),
       use_0x20 := unwrap_or (use_0x20 d) (ej_use_0x20 j), max_cname_depth := unwrap_or (max_cname_depth d) (ej_max_cname_depth j),
       tcp_fallback := unwrap_or (tcp_fallback d) (ej_tcp_fallback j),
       decorrelate_refresh := unwrap_or (decorrelate_refresh d) (ej_decorrelate_refresh j),
       ec_dnssec := unwrap_or (ec_dnssec d) (ej_dnssec j)\<rparr>)"

definition into_resolver_config :: "'f float_env \<Rightarrow> 'f config_doc \<Rightarrow> 'f resolver_config result" where
  "into_resolver_config fl doc =
    rbind (collect_results json_forwarder (ej_forwarders (cd_engine doc))) (\<lambda>_.
    rbind (build_dns_policy doc) (\<lambda>dns.
    let d = rate_limit_config_default fl in
    Ok \<lparr>rc_cache = into_cache fl (cd_cache doc), rc_policy = into_policy (cd_block doc), rc_dns = dns,
        rc_engine = into_engine fl (cd_engine doc),
        rc_rate_limit = \<lparr>client_capacity = fl_max fl (unwrap_or (client_capacity d) (cd_client_burst doc)) (fl_one fl),
          client_refill_per_sec = fl_max fl (unwrap_or (client_refill_per_sec d) (cd_client_qps doc)) (fl_zero fl),
          max_client_buckets = max_client_buckets d\<rparr>,
        max_inflight = 4096, max_concurrent_refreshes = 8, max_chain_refresh = 4, stale_serve_ttl = 30\<rparr>))"

section \<open>Record types by name\<close>

function trim_type_prefix :: "rust_str \<Rightarrow> rust_str" where
  "trim_type_prefix s = (case strip_str_prefix (str_lit ''TYPE'') s of Some r \<Rightarrow> trim_type_prefix r | None \<Rightarrow> s)"
  by pat_completeness auto

lemma strip_str_prefix_append: "strip_str_prefix p s = Some r \<Longrightarrow> s = p @ r"
  by (induction p s rule: strip_str_prefix.induct) (auto split: if_splits)

termination trim_type_prefix
  by (relation "measure length") (auto simp: str_lit_def dest!: strip_str_prefix_append)

declare trim_type_prefix.simps [simp del]

definition named_types :: "(rust_str \<times> rr_type) list" where
  "named_types = map (\<lambda>(s, n). (str_lit s, RrType n))
     [(''A'', 1), (''AAAA'', 28), (''CNAME'', 5), (''MX'', 15), (''NS'', 2), (''TXT'', 16), (''SOA'', 6), (''PTR'', 12), (''SRV'', 33),
      (''CAA'', 257), (''HTTPS'', 65), (''SVCB'', 64), (''DS'', 43), (''DNSKEY'', 48), (''TLSA'', 52), (''ANY'', 255)]"

definition parse_rr_type :: "rust_str \<Rightarrow> rr_type option" where
  "parse_rr_type s =
    (let up = str_uppercase s in
     case map_of named_types up of
       Some t \<Rightarrow> Some t
     | None \<Rightarrow> map_option RrType (parse_u16 (trim_type_prefix up)))"

end
