(* ===== verification/Config_Claims.thy ===== *)
theory Config_Claims
  imports Config_File
begin

text \<open>
  What a configuration that is accepted guarantees: every upstream can be used as it stands, and every
  route of the nameserver policy leads to a group of servers.
\<close>

section \<open>Upstreams\<close>

definition upstream_ok :: "forwarder \<Rightarrow> bool" where
  "upstream_ok f \<longleftrightarrow>
    (ep_proto (fw_endpoint f) \<in> {Udp, Tcp} \<longleftrightarrow> fw_host f = None)
    \<and> fw_host f \<noteq> Some []
    \<and> (case fw_path f of None \<Rightarrow> True | Some p \<Rightarrow> ep_proto (fw_endpoint f) \<in> {DoH, DoH3} \<and> p \<noteq> [] \<and> hd p = 47)
    \<and> ep_port (fw_endpoint f) \<noteq> 0"

lemma finish_upstream_ok:
  assumes "finish_upstream ep name path = Ok f" and "name \<noteq> Some []" and "ep_port ep \<noteq> 0"
    and "path \<noteq> None \<longrightarrow> ep_proto ep \<in> {DoH, DoH3}"
  shows "upstream_ok f \<and> fw_endpoint f = ep"
  using assms
  by (auto simp: finish_upstream_def upstream_ok_def forwarder_plain_def forwarder_encrypted_def with_path_def Let_def ok_or_def
      split: if_splits option.splits)

lemma split_path_Ok: "split_path proto rest = Ok (a, p) \<Longrightarrow> p \<noteq> None \<longrightarrow> proto \<in> {DoH, DoH3}"
  by (auto simp: split_path_def split: option.splits if_splits)

lemma parse_upstream_ok: "parse_upstream s = Ok f \<Longrightarrow> upstream_ok f"
  by (auto simp: parse_upstream_def Let_def dest!: finish_upstream_ok split_path_Ok split: option.splits if_splits prod.splits)

text \<open>The scheme a string spells, and the identity after its first \<^verbatim>\<open>#\<close>.\<close>

definition upstream_scheme :: "rust_str \<Rightarrow> rust_str" where
  "upstream_scheme s =
    (case split_once_str (str_lit ''://'') (str_trim (case split_once 35 s of Some (a, _) \<Rightarrow> a | None \<Rightarrow> s)) of
       Some (sch, _) \<Rightarrow> str_lowercase sch | None \<Rightarrow> str_lit ''udp'')"

definition upstream_identity :: "rust_str \<Rightarrow> rust_str option" where
  "upstream_identity s = map_option (str_trim \<circ> snd) (split_once 35 s)"

definition transport_schemes :: "(rust_str \<times> proto) list" where
  "transport_schemes = [(str_lit ''udp'', Udp), (str_lit ''tcp'', Tcp), (str_lit ''tls'', Tls), (str_lit ''quic'', DoQ),
     (str_lit ''https'', DoH), (str_lit ''h3'', DoH3)]"

lemma scheme_proto_table: "scheme_proto s = Some (p, port) \<Longrightarrow> (s, p) \<in> set transport_schemes"
  by (simp add: scheme_proto_def transport_schemes_def split: if_splits)

lemma finish_upstream_fields: "finish_upstream ep name path = Ok f \<Longrightarrow> fw_endpoint f = ep \<and> fw_host f = name"
  by (auto simp: finish_upstream_def forwarder_plain_def forwarder_encrypted_def with_path_def Let_def ok_or_def
      split: if_splits option.splits)

lemma parse_upstream_fields:
  "parse_upstream s = Ok f \<Longrightarrow>
    (upstream_scheme s, ep_proto (fw_endpoint f)) \<in> set transport_schemes \<and> fw_host f = upstream_identity s"
  by (auto simp: parse_upstream_def upstream_scheme_def upstream_identity_def Let_def dest!: finish_upstream_fields scheme_proto_table
      split: option.splits if_splits prod.splits)

lemma finish_upstream_err: "finish_upstream ep name path = Err e \<Longrightarrow> kind e = Config"
  by (auto simp: finish_upstream_def Let_def ok_or_def error_config_def error_new_def split: if_splits option.splits)

lemma parse_upstream_err: "parse_upstream s = Err e \<Longrightarrow> kind e = Config"
  by (auto simp: parse_upstream_def split_path_def Let_def ok_or_def error_config_def error_new_def dest: finish_upstream_err
      split: option.splits if_splits prod.splits)

text \<open>
  A string that names no scheme is plain DNS, which takes no identity: of the forms the documentation of
  \<^verbatim>\<open>parse_upstream\<close> accepts, the bracketed IPv6 address with an identity and the line copied from Unbound are
  refused.
\<close>

lemma schemeless_identity_refused:
  assumes "split_once 35 s = Some (a, b)" and "split_once_str (str_lit ''://'') (str_trim a) = None"
  shows "\<exists>e. parse_upstream s = Err e"
proof (cases "parse_upstream s")
  case (Inr f)
  have "ep_proto (fw_endpoint f) = Udp" "fw_host f = Some (str_trim b)"
    using parse_upstream_fields [OF Inr] assms by (auto simp: upstream_scheme_def upstream_identity_def transport_schemes_def str_lit_def)
  with parse_upstream_ok [OF Inr] show ?thesis by (simp add: upstream_ok_def)
qed blast

lemma documented_forms_refused:
  "\<exists>e. parse_upstream (str_lit ''[2001:db8::1]:853#dns.example'') = Err e"
  "\<exists>e. parse_upstream (str_lit ''1.1.1.1@853#cloudflare-dns.com'') = Err e"
proof -
  let ?v6 = "str_lit ''[2001:db8::1]:853''" and ?v4 = "str_lit ''1.1.1.1@853''"
  have trim: "str_trim ?v6 = ?v6" "str_trim ?v4 = ?v4" by (simp_all add: str_lit_def str_trim_def is_whitespace_def)
  show "\<exists>e. parse_upstream (str_lit ''[2001:db8::1]:853#dns.example'') = Err e"
    by (rule schemeless_identity_refused [of _ ?v6], simp add: str_lit_def, unfold trim, simp add: str_lit_def)
  show "\<exists>e. parse_upstream (str_lit ''1.1.1.1@853#cloudflare-dns.com'') = Err e"
    by (rule schemeless_identity_refused [of _ ?v4], simp add: str_lit_def, unfold trim, simp add: str_lit_def)
qed

section \<open>Groups\<close>

lemma collect_results_length: "collect_results f xs = Ok ys \<Longrightarrow> length ys = length xs"
  by (induction xs arbitrary: ys) auto

lemma build_groups_spec:
  assumes "build_groups ps rules extra = Ok (rules', extra')"
    and "\<forall>(p, g) \<in> set rules. 2 \<le> g \<and> g - 2 < length extra" and "\<forall>g \<in> set extra. g \<noteq> []"
  shows "(\<forall>(p, g) \<in> set rules'. 2 \<le> g \<and> g - 2 < length extra') \<and> (\<forall>g \<in> set extra'. g \<noteq> [])"
  using assms
proof (induction ps rules extra rule: build_groups.induct)
  case (2 pattern servers ps rules extra)
  then obtain grp where grp: "servers \<noteq> []" "collect_results parse_upstream servers = Ok grp"
      "build_groups ps (rules @ [(pattern, 2 + length extra)]) (extra @ [grp]) = Ok (rules', extra')"
    by (auto split: if_splits)
  have ne: "grp \<noteq> []" using grp(1) collect_results_length [OF grp(2)] by auto
  show ?case
    by (rule 2(1) [OF grp(1,2,3)]) (use 2(3,4) ne in auto)
qed auto

lemma parse_rules_groups: "parse_rules rules = Ok ps \<Longrightarrow> snd ` set ps \<subseteq> snd ` set rules"
proof (induction rules arbitrary: ps)
  case (Cons x rules)
  obtain pat grp where x: "x = (pat, grp)" by fastforce
  from Cons.prems x obtain q qs where "parse_rules rules = Ok qs" "ps = (q, grp) # qs" by (auto split: if_splits)
  with Cons.IH x show ?case by fastforce
qed simp

lemma policy_new_groups: "policy_new rules = Ok p \<Longrightarrow> policy_route p n = Group g \<Longrightarrow> \<exists>pat. (pat, g) \<in> set rules"
proof -
  assume new: "policy_new rules = Ok p" and route: "policy_route p n = Group g"
  then obtain ps where ps: "parse_rules rules = Ok ps" "p = policy_arrange ps" by (auto simp: policy_new_def)
  from route have "first_match pattern_matches p n = Some g" by (auto simp: policy_route_def split: option.splits)
  from first_match_Some [OF this] ps(2) have "g \<in> snd ` set ps" by (force simp: policy_arrange_def)
  with parse_rules_groups [OF ps(1)] show ?thesis by force
qed

lemma build_dns_policy_parts:
  assumes "build_dns_policy doc = Ok d"
  obtains rules where "build_groups (dj_nameserver_policy (cd_dns doc)) [] [] = Ok (rules, ug_extra (dp_upstreams d))"
    and "policy_new rules = Ok (dp_policy d)"
  using assms by (auto simp: build_dns_policy_def Let_def split: if_splits prod.splits)

section \<open>Samples\<close>

definition sample_doc :: "nat config_doc" where
  "sample_doc =
    \<lparr>cd_cache = \<lparr>cj_hot_capacity = None, cj_warm_capacity = None, cj_cold_capacity = None, cj_nx_capacity = None,
       cj_stale_window_secs = None, cj_negative_ttl_cap = None, cj_max_ttl_cap = None\<rparr>,
     cd_engine = \<lparr>ej_root_servers = [], ej_timeout_ms = None, ej_query_budget_ms = None, ej_auth_port = None,
       ej_qname_minimization = None, ej_use_0x20 = None, ej_max_cname_depth = None, ej_dnssec = None, ej_tcp_fallback = None,
       ej_decorrelate_refresh = None, ej_forwarders = []\<rparr>,
     cd_block = [],
     cd_dns = \<lparr>dj_enhanced_mode = None, dj_fake_ip_range = None, dj_fake_ip_range6 = None, dj_fake_ip_filter = None,
       dj_fake_ip_ttl = None, dj_fake_ip_answer_ttl = None, dj_fake_ip_max_entries = None, dj_hosts = [], dj_hosts_ttl = None,
       dj_nameservers = [], dj_fallback = [],
       dj_nameserver_policy = [(str_lit ''b'', [str_lit ''tls://1.1.1.1@8853#one''])], dj_fallback_filter = None\<rparr>,
     cd_client_burst = None, cd_client_qps = None\<rparr>"

definition sample_upstream :: forwarder where
  "sample_upstream = \<lparr>fw_endpoint = \<lparr>ep_ip = IpV4 0x01010101, ep_port = 8853, ep_proto = Tls\<rparr>, fw_host = Some (str_lit ''one''), fw_path = None\<rparr>"

lemma sample_ip: "parse_ip [49, 46, 49, 46, 49, 46, 49] = Some (IpV4 0x01010101)"
proof -
  have "ipv4_str 0x01010101 = [49, 46, 49, 46, 49, 46, 49]"
    by (simp add: ipv4_str_def to_be_bytes_def upt_rec decimal_str.simps)
  with read_ipv4_str [where a = "0x01010101"] show ?thesis by (simp add: parse_ip_def)
qed

lemma sample_authority: "parse_authority [49, 46, 49, 46, 49, 46, 49, 64, 56, 56, 53, 51] = Some (IpV4 0x01010101, Some 8853)"
  by (simp add: parse_authority_def str_trim_def is_whitespace_def rsplit_once_def sample_ip parse_u16_def to_digit_def Let_def)

lemma sample_upstream_parsed: "parse_upstream (str_lit ''tls://1.1.1.1@8853#one'') = Ok sample_upstream"
proof -
  have s: "str_lit ''tls://1.1.1.1@8853#one'' = [116, 108, 115, 58, 47, 47, 49, 46, 49, 46, 49, 46, 49, 64, 56, 56, 53, 51, 35, 111, 110, 101]"
    "str_lit ''://'' = [58, 47, 47]" "str_lit ''one'' = [111, 110, 101]" "str_lit ''udp'' = [117, 100, 112]"
    "str_lit ''tcp'' = [116, 99, 112]" "str_lit ''tls'' = [116, 108, 115]"
    by (simp_all add: str_lit_def)
  show ?thesis
    by (simp add: s parse_upstream_def str_trim_def is_whitespace_def str_lowercase_def scheme_proto_def split_path_def
        sample_authority unwrap_or_def finish_upstream_def forwarder_encrypted_def sample_upstream_def Let_def)
qed

lemma sample_pattern: "pattern_parse (str_lit ''b'') = Ok (ExactName (Name [1, 98, 0]))"
proof -
  have n: "name_from_ascii [98] = Ok (Name [1, 98, 0])" by code_simp
  show ?thesis
    by (simp add: pattern_parse_def str_lit_def str_trim_def is_whitespace_def utf8_def utf8_char_def is_ascii_whitespace_def
        leading_marker_def trim_end_matches_def n name_is_root_def Let_def)
qed

definition sample_policy :: dns_policy where
  "sample_policy = \<lparr>dp_hosts = hosts_new DEFAULT_HOSTS_TTL, dp_fake_ip = None, dp_policy = [(ExactName (Name [1, 98, 0]), 2)],
     dp_fallback = fallback_default, dp_upstreams = \<lparr>ug_default = [], ug_fallback = [], ug_extra = [[sample_upstream]]\<rparr>\<rparr>"

lemma sample_built: "build_dns_policy sample_doc = Ok sample_policy"
proof -
  have m: "str_lowercase (str_trim (str_lit ''normal'')) = str_lit ''normal''"
    by (simp add: str_lit_def str_trim_def is_whitespace_def str_lowercase_def)
  show ?thesis
    by (simp add: build_dns_policy_def sample_doc_def build_fake_ip_def build_fallback_def unwrap_or_def m sample_upstream_parsed
        policy_new_def sample_pattern policy_arrange_def sort_desc_def sample_policy_def Let_def)
qed

section \<open>The properties\<close>

text \<open>
  C37. Upstream strings: whatever the string, it is refused with a configuration error or gives an upstream that is
  usable as it stands.  Its scheme is one of the six and names the transport, plain UDP when there is none;
  the TLS identity is what follows the first \<^verbatim>\<open>#\<close>, never empty, and is there exactly for the encrypted
  transports; the port is not zero; a path starts with a slash and is present only for DNS over HTTPS.
\<close>

theorem upstream_parse_sound:
  "case parse_upstream s of
     Inl e \<Rightarrow> kind e = Config
   | Inr f \<Rightarrow> (upstream_scheme s, ep_proto (fw_endpoint f)) \<in> set transport_schemes
       \<and> fw_host f = upstream_identity s \<and> fw_host f \<noteq> Some []
       \<and> (ep_proto (fw_endpoint f) \<in> {Udp, Tcp} \<longleftrightarrow> fw_host f = None) \<and> ep_port (fw_endpoint f) \<noteq> 0
       \<and> (case fw_path f of None \<Rightarrow> True | Some p \<Rightarrow> ep_proto (fw_endpoint f) \<in> {DoH, DoH3} \<and> p \<noteq> [] \<and> hd p = 47)"
proof (cases "parse_upstream s")
  case (Inl e)
  with parse_upstream_err show ?thesis by simp
next
  case (Inr f)
  with parse_upstream_ok [OF Inr] parse_upstream_fields [OF Inr] show ?thesis by (simp add: upstream_ok_def)
qed

theorem upstream_parse_sound_witness:
  "parse_upstream (str_lit ''tls://1.1.1.1@8853#one'') = Ok sample_upstream
    \<and> upstream_identity (str_lit ''tls://1.1.1.1@8853#one'') = Some (str_lit ''one'')"
  using upstream_parse_sound [of "str_lit ''tls://1.1.1.1@8853#one''"] sample_upstream_parsed by (simp add: sample_upstream_def)

text \<open>
  C36. Routing: when the policy of an accepted configuration routes a name to a group, that group exists
  among the configured upstreams and has a server.
\<close>

theorem configured_groups_exist:
  assumes "build_dns_policy doc = Ok d" and "policy_route (dp_policy d) n = Group g"
  shows "\<exists>fs. groups_get (dp_upstreams d) g = Some fs \<and> fs \<noteq> []"
proof -
  from build_dns_policy_parts [OF assms(1)] obtain rules where
    b: "build_groups (dj_nameserver_policy (cd_dns doc)) [] [] = Ok (rules, ug_extra (dp_upstreams d))"
    and p: "policy_new rules = Ok (dp_policy d)" .
  from policy_new_groups [OF p assms(2)] obtain pat where "(pat, g) \<in> set rules" ..
  with build_groups_spec [OF b] have "2 \<le> g" "g - 2 < length (ug_extra (dp_upstreams d))"
      "\<forall>x \<in> set (ug_extra (dp_upstreams d)). x \<noteq> []" by auto
  then show ?thesis by (auto simp: groups_get_def)
qed

theorem configured_groups_exist_witness:
  "\<exists>fs. groups_get (dp_upstreams sample_policy) 2 = Some fs \<and> fs \<noteq> []"
  using configured_groups_exist [OF sample_built, of "Name [1, 98, 0]" 2] by (simp add: sample_policy_def policy_route_def)

end
