(* ===== verification/Spec2Isabelle.thy ===== *)
theory Spec2Isabelle
  imports Samples Pool_Samples Rsa_Verify Alias Engine Hosts Routing Prng_Correct Cache_Machine Dnssec_Correct Forward Core_Claims Resolver_Claims Quic_Claims Persist_Claims Config_Claims Server_Claims
begin

text \<open>
  A verification development for RecurseX, a recursive DNS resolver with a semantic cache, DNSSEC
  validation, forwarding and a fake-IP pool (\<^verbatim>\<open>src/src\<close>).

  \<^bold>\<open>How the program is put together.\<close>  A client's bytes are parsed into a message and handed to
  \<^verbatim>\<open>Resolver::handle_query\<close>.  The resolver validates the query against its policy, charges the client's
  token bucket, answers locally when a pinned host or the fake-IP pool can, and otherwise claims an
  in-flight slot for the query's key.  The owner of the slot answers from the cache, or asks the
  configured forwarders, or walks the delegations from the root under a deadline and a work budget.  A
  result may be validated, which resolves DNSKEY and DS sets through the resolver again; it then fills
  the cache and the alias graph and is published to the slot.  Stale answers and hot entries queue
  background refreshes, which run through the same path, and a maintenance tick sweeps the tables.

  \<^bold>\<open>The theories,\<close> lower layers first.

  \<^item> \<open>Prelude\<close>, \<open>Machine\<close>, \<open>Ordered_Map\<close>, \<open>Ranked\<close>, \<open>Rust_Str\<close>: machine types, results as sums, the parts
    of Rust's standard library the sources use (checked slices, \<^verbatim>\<open>BTreeMap\<close>, stable sorts, strings,
    address parsers), and the contracts of state machines (\<open>inductive_invariant\<close>, \<open>simulation\<close>), tables and
    ranked rule lists as locales.
  \<^item> \<open>Errors\<close> (error.rs), \<open>Clock\<close> (time.rs), \<open>Wire_Bytes\<close> (wire.rs), \<open>Qtype\<close> (qtype.rs), \<open>Bounded\<close>
    (bounded.rs), \<open>Cidr\<close> (cidr.rs).
  \<^item> \<open>Dns_Name\<close>, \<open>Name_Parse\<close>, \<open>Name_Labels\<close>, \<open>Name_Ascii\<close>, \<open>Name_Compress\<close> (name.rs): names in wire form,
    the parser against the inductive meaning \<open>name_at\<close> of RFC 1035, accessors on label lists, the
    presentation format, and the compressor with its table invariant.
  \<^item> \<open>Type_Bitmap\<close>, \<open>Rdata\<close>, \<open>Wire_Out\<close>, \<open>Rdata_Roundtrip\<close>, \<open>Records\<close> (rdata.rs), \<open>Edns\<close> (edns.rs), \<open>Message\<close>,
    \<open>Message_Roundtrip\<close>, \<open>Truncation\<close> (message.rs): the codec.  \<open>wire_codec\<close> is the contract of a
    serializer with its parser; records, questions and whole sections are instances.
  \<^item> \<open>Pattern\<close> (pattern.rs), \<open>Hosts\<close> (hosts.rs), \<open>Routing\<close> (routing.rs), \<open>Fakeip\<close> and \<open>Fakeip_Inv\<close> (fakeip.rs):
    the local tables.  The pool simulates an abstract table of one-to-one mappings.
  \<^item> \<open>Rrset\<close> (rrset.rs), \<open>Cache_Key\<close> (query.rs and the keys of cache/mod.rs), \<open>Cache\<close>, \<open>Cache_Inv\<close>,
    \<open>Cache_State\<close>, \<open>Cache_Lookup\<close>, \<open>Cache_Machine\<close> (cache/mod.rs), \<open>Persist\<close>, \<open>Persist_Filed\<close> (cache/persist.rs),
    \<open>Alias\<close> (alias.rs).
  \<^item> \<open>Prng\<close>, \<open>Prng_Correct\<close> (prng.rs), \<open>Rsa\<close>, \<open>Rsa_Correct\<close>, \<open>Rsa_Verify\<close> (dnssec/rsa.rs), \<open>Dnssec\<close>,
    \<open>Dnssec_Correct\<close> (dnssec/mod.rs).
  \<^item> \<open>Engine\<close> (engine.rs), \<open>Budget\<close> (budget.rs), \<open>Access_Policy\<close> (policy.rs), \<open>Forward\<close> (forward.rs and the
    forwarding part of resolver.rs), \<open>Inflight\<close>, \<open>Resolver_State\<close>, \<open>Local_Answers\<close>, \<open>Resolver_Steps\<close>,
    \<open>Resolver_Walk\<close>, \<open>Resolver\<close> (resolver.rs, stats.rs, the endpoints of upstream.rs), \<open>Config_File\<close>
    (config.rs), \<open>Server\<close> (server.rs).
  \<^item> \<open>Callbacks\<close>, \<open>Resolver_Inv\<close>, \<open>Resolver_Correct\<close>, \<open>Resolver_Total\<close>, \<open>Resolver_Faults\<close>, \<open>Name_Store\<close>: what holds of the
    resolver.  \<open>run_invariant\<close> shows once that whatever the elementary updates keep, every composite
    operation keeps; its instances give the consistency of all tables, the bound on the work of a
    query and the steps of the termination argument.
  \<^item> \<open>Quic_Crypto\<close>, \<open>Quic_Ack\<close>, \<open>Quic\<close>, \<open>Quic_Correct\<close> (transports/doq/quic.rs): the DNS-over-QUIC client's
    reassembly of the CRYPTO stream, acknowledgements, headers, padding, streams, flow control and loss
    recovery.
  \<^item> \<open>Samples\<close>, \<open>Pool_Samples\<close>: concrete values the properties are evaluated on.  \<open>Core_Claims\<close>,
    \<open>Resolver_Claims\<close>, \<open>Quic_Claims\<close>, \<open>Persist_Claims\<close>, \<open>Config_Claims\<close>, \<open>Server_Claims\<close> and this
    theory state the properties.

  \<^bold>\<open>Correspondence.\<close>  A definition has the name of the function it translates, prefixed by its type where
  the bare name would be ambiguous.  A function on \<^verbatim>\<open>&mut self\<close> returns the changed state with its
  result.  \<^verbatim>\<open>Result\<close> is a sum whose left side is the error, \<^verbatim>\<open>Option\<close> is option, fixed-width integers are
  words wherever their width matters, instants are integers with the saturation written out, and a
  \<^verbatim>\<open>BTreeMap\<close> is the ascending list of its entries.  An error text that the source builds with
  \<^verbatim>\<open>format!\<close> is its literal part.  Loops over slices are recursions on lists.  The three loops that may run
  forever (\<open>below_loop\<close>, \<open>walk_loop\<close>, and waiting on an in-flight slot) are option-valued, with \<open>None\<close> for
  not returning; \<open>below_uniform\<close>, \<open>resolution_returns\<close> and \<open>resolver_answers\<close> show that they return, and
  \<open>dnskey_resolution_blocks\<close> shows where they do not.  The other bounds are those of the code:
  \<^verbatim>\<open>MAX_POINTER_HOPS\<close>, the length of the buffer, the section counts; \<open>take_key_loop\<close> tries one key more than
  there are entries, as the code does.  The recursion of \<open>resolve_inner\<close> through the addresses of name
  servers is bounded by the code's own depth; the recursion of the validator through \<open>resolve_key\<close> is an
  argument of the definitions, tied once in \<open>resolve_nested\<close>, where the flag \<^verbatim>\<open>validating\<close> of the code ends it.

  \<^bold>\<open>Parameters.\<close>  What is outside the crate or rests on floating-point arithmetic is an argument, collected
  in the records \<open>resolver_env\<close>, \<open>signals\<close>, \<open>level_ops\<close>, \<open>quic_env\<close>, \<open>persist_env\<close> and \<open>float_env\<close>: the clocks, the file system, the random source, the
  transports, the third-party SHA-256, QUIC codecs and packet protection, the scores and stability estimates of cache entries, the levels of token buckets,
  the ranking of upstreams, the popularity estimates, the planner of stale answers and the glue-ratio
  test of the budget.  Theorems hold for every value of them unless a hypothesis says otherwise.  The
  crate is taken with the features \<^verbatim>\<open>dnssec\<close> and \<^verbatim>\<open>std\<close>.  One thread of control is modelled: locks are free when
  taken, and a spawned refresh is a step of its own between client queries.

  \<^bold>\<open>What is shown.\<close>  The codec: serialized messages parse back to themselves, hostile input stays within
  the limits, the name parser is exact, truncated responses fit.  The tables: the pool is a bijection and
  refines its abstract table, the tiers of the cache, the alias graph, the in-flight and rate-limit
  tables keep their invariants in every state of the resolver.  The cache: a lookup returns only what a
  permitted insert stored and only while it may be served, and returns what was inserted; a restored
  snapshot gives back what was saved, to the second and up to the normal form of parsed records.  Validation:
  signature verification is RFC 8017 exactly, a verified chain is backed by signatures over every set,
  and where the chain check accepts too much.  The resolver: with validation off every resolution
  returns, every client query is answered with its ID and question, and the charged work of a query is
  bounded.  QUIC: handshake messages are reassembled from the stream whatever the order of its pieces, the
  chunks of a query are the query, and an acknowledgement means the packets it was built from.  Configuration: accepted upstreams are complete
  and every route leads to a group of servers.  The server: every datagram is answered, and a connection
  answers the queries framed on it however its stream is cut.

  \<^bold>\<open>Not modelled.\<close>  The floating-point estimators (hazard.rs, risk.rs, voi.rs, estimator.rs, calibration.rs,
  stability.rs, behavior.rs, planner.rs, float.rs, cache/score.rs, rendezvous.rs and the health statistics
  of upstream.rs), whose meaning is IEEE 754 rounding; sockets, threads and TLS (of server.rs the binding, the accept loop and shutdown; transport.rs,
  transports/ but for quic.rs, and of that the event loop, Retry and the handshake steps, which drive the
  TLS module); the reading of JSON and the keys of config.rs that only unmodelled parts use; the write-only audit log (provenance.rs); lock wrappers and operating-system entropy
  (sync.rs, entropy.rs); Debug and Display.
\<close>

section \<open>The message codec\<close>

text \<open>
  C1. Round trip of messages.  Every message whose fields fit the format (\<open>message_ok\<close>) and that
  \<^verbatim>\<open>Message::to_bytes\<close> serializes is returned by \<^verbatim>\<open>Message::parse\<close> on those bytes, name compression,
  patched counts and patched RDLENGTH fields included, up to the order of NSEC bitmaps and the
  lengths of padding options (\<open>message_norm\<close>).
\<close>

theorem message_roundtrip:
  assumes "message_ok m" and "to_bytes m = Ok bs" and "rust_slice bs"
  shows "message_parse bs = Ok (message_norm m)"
  using assms by (rule message_parse_written)

theorem message_roundtrip_witness:
  "message_ok wit_message \<and> to_bytes wit_message = Ok wit_bytes \<and> message_parse wit_bytes = Ok wit_message"
  using message_roundtrip [OF wit_ok wit_to_bytes wit_bytes_slice] wit_ok wit_to_bytes by (simp add: wit_norm)

text \<open>The loops over the sections return as many records as the header counts, the OPT record included.\<close>

lemma get_many_length: "get_many get n buf p = Ok (xs, q) \<Longrightarrow> length xs = n"
  by (induction n arbitrary: p xs) auto

lemma parse_additionals_count:
  "parse_additionals n buf p acc e = Ok (rs, e') \<Longrightarrow>
    length acc + n + (if e = None then 0 else 1) = length rs + (if e' = None then 0 else 1)"
proof (induction n arbitrary: p acc e)
  case 0
  then show ?case by (auto simp: parse_additionals.simps)
next
  case (Suc n)
  from Suc.prems obtain r q where r: "record_parse buf p = Ok (r, q)" by (auto simp: parse_additionals.simps)
  with Suc show ?case by (fastforce simp: parse_additionals.simps split: if_splits)
qed

lemma message_parse_counts:
  assumes "message_parse buf = Ok m"
  shows "\<exists>qd an ns ar. u16_at buf 4 = Ok qd \<and> u16_at buf 6 = Ok an \<and> u16_at buf 8 = Ok ns \<and> u16_at buf 10 = Ok ar
    \<and> length (questions m) = unat qd \<and> length (answers m) = unat an \<and> length (authorities m) = unat ns
    \<and> length (additionals m) + (if msg_edns m = None then 0 else 1) = unat ar"
  using assms
  by (auto simp: message_parse_def split: if_splits dest!: parse_additionals_count dest: get_many_length)

text \<open>
  C4. What the parser can return.  However hostile the bytes, a message that is accepted respects
  the limits of the source: at most \<^verbatim>\<open>MAX_QUESTIONS\<close> questions and \<^verbatim>\<open>MAX_SECTION_RECORDS\<close> records per
  section, every name well formed (lower case, at most 255 octets, fewer than 127 labels) and every
  payload of the shape its type selects.  Every record the header counts is accounted for: the sections
  have as many entries as their counts say, and the additional records are the ones kept, none of them
  an OPT record, and the one OPT record when there is one, so a second one is never accepted.  (An OPT
  record among the answers or the authorities is a plain record.)
\<close>

theorem message_parse_limits:
  assumes "rust_slice buf" and "message_parse buf = Ok m"
  shows "length (questions m) \<le> MAX_QUESTIONS \<and> length (answers m) \<le> MAX_SECTION_RECORDS
    \<and> length (authorities m) \<le> MAX_SECTION_RECORDS \<and> list_all (\<lambda>r. rec_type r \<noteq> RrType_OPT) (additionals m) \<and> message_ok m
    \<and> (\<exists>qd an ns ar. u16_at buf 4 = Ok qd \<and> u16_at buf 6 = Ok an \<and> u16_at buf 8 = Ok ns \<and> u16_at buf 10 = Ok ar
      \<and> length (questions m) = unat qd \<and> length (answers m) = unat an \<and> length (authorities m) = unat ns
      \<and> length (additionals m) + (if msg_edns m = None then 0 else 1) = unat ar \<and> unat ar \<le> MAX_SECTION_RECORDS)"
proof -
  have ok: "message_ok m" using message_parse_ok [OF assms] .
  then have "length (additionals m) + (if msg_edns m = None then 0 else 1) \<le> MAX_SECTION_RECORDS"
    by (auto simp: message_ok_def Let_def split: if_splits)
  with ok message_parse_counts [OF assms(2)] show ?thesis by (auto simp: message_ok_def Let_def)
qed

theorem message_parse_limits_witness:
  "message_ok wit_message
    \<and> (\<exists>ar. u16_at wit_bytes 10 = Ok ar \<and> length (additionals wit_message) + (if msg_edns wit_message = None then 0 else 1) = unat ar)"
  using message_parse_limits [OF wit_bytes_slice wit_parse] by blast

text \<open>
  C25. Truncation fits.  Whenever the header, the questions and the OPT record alone fit, the
  response that \<^verbatim>\<open>truncate_for_udp\<close> leaves serializes, and to no more than the limit (at least 512).
\<close>

theorem truncate_fits:
  assumes "base_len m + opt_footprint m \<le> max limit 512" and "max limit 512 < usize_bound - 1"
  shows "\<exists>bs. to_bytes (truncate_for_udp limit m) = Ok bs \<and> length bs \<le> max limit 512"
  using assms by (rule truncate_for_udp_fits)

theorem truncate_fits_witness:
  "\<exists>bs. to_bytes (truncate_for_udp 512 wit_big) = Ok bs \<and> length bs \<le> 512"
  using truncate_fits [of wit_big 512] by (simp add: wit_big_base usize_bound_def)

text \<open>
  What truncation does.  Either the message already fits and is left alone, or TC is set and
  each section is cut to a prefix; the ID, the questions, the other flags and the OPT record stay.
\<close>

theorem truncate_shape:
  "truncate_for_udp limit m = m \<and> message_wire_len m \<le> max limit 512 \<or>
   is_truncated (truncate_for_udp limit m) \<and> message_wire_len m > max limit 512 \<and>
   (\<exists>a b c. truncate_for_udp limit m = m\<lparr>msg_flags := (msg_flags m)\<lparr>hf_tc := True\<rparr>, answers := take a (answers m),
     authorities := take b (authorities m), additionals := take c (additionals m)\<rparr>)"
  by (rule truncate_for_udp_cases)

text \<open>
  Truncation is greedy.  The pass drops answers only when the next one, written after the ones
  kept, does not fit the budget (or cannot be written), and then drops the later sections as well.
\<close>

theorem truncate_greedy:
  assumes "fit_sections m limit = (a, b, c)" and "a < length (answers m)"
  shows "b = 0 \<and> c = 0 \<and>
    \<not> (\<exists>w. put_all record_to_wire (take (Suc a) (answers m)) (put_questions (questions m) (message_start m)) = Ok w
       \<and> written w \<le> limit - opt_footprint m)"
proof -
  obtain a' r where f: "fit_records (limit - opt_footprint m) (answers m) (put_questions (questions m) (message_start m)) 0 = (a', r)"
    by fastforce
  have "r = None"
  proof (cases r)
    case (Some w)
    with fit_records_take [OF f] have "a' = length (answers m)" by auto
    moreover from assms(1) f Some have "a = a'" by (auto simp: fit_sections_def Let_def split: prod.splits option.splits)
    ultimately show ?thesis using assms(2) by simp
  qed simp
  with assms(1) f have "a = a'" "b = 0" "c = 0" by (simp_all add: fit_sections_def)
  with fit_records_stop [OF f [unfolded \<open>r = None\<close>]] assms(2) show ?thesis by (force simp: take_Suc_conv_app_nth)
qed

theorem truncate_greedy_witness:
  "\<not> (\<exists>w. put_all record_to_wire (take (Suc 0) (answers wit_big)) (put_questions (questions wit_big) (message_start wit_big)) = Ok w
     \<and> written w \<le> 0 - opt_footprint wit_big)"
  using truncate_greedy [OF wit_big_cut] wit_big_answers by simp

section \<open>Records and their payloads\<close>

text \<open>
  C26. Round trip of records, with or without compression, at any offset of a longer message.  For a
  record with a well-formed name whose payload has the shape of its type and fits its fields
  (\<open>record_ok\<close>), what \<^verbatim>\<open>Record::to_wire\<close> appended is what \<^verbatim>\<open>Record::parse\<close> returns there, up to the
  order and repetitions of the type lists of NSEC and NSEC3 records, which come back ascending
  (\<open>record_norm\<close>), and the parser ends where the writer ended.
\<close>

theorem record_roundtrip:
  assumes "out_inv w" and "record_ok r" and "record_to_wire r w = Ok w'" and "rust_slice buf" and "prefix (snd w') buf"
  shows "record_parse buf (written w) = Ok (record_norm r, written w')"
  using assms by (rule record_parse_written)

theorem record_roundtrip_witness: "record_parse wit_record_bytes 0 = Ok (wit_record, 22)"
proof -
  have "out_inv (None, [])" "rust_slice wit_record_bytes" by (simp_all add: out_inv_def rust_slice_def wit_record_bytes_def)
  from record_roundtrip [OF this(1) wit_record_ok wit_record_written this(2)] show ?thesis
    by (simp add: wit_record_norm) (simp add: wit_record_bytes_def)
qed

text \<open>
  C27. An RDATA parser never reads or returns past its own record: whatever the bytes, an accepted
  payload has the constructor its type selects, well-formed names and strings that fit their length
  octets, and the cursor stays within the end given by RDLENGTH.
\<close>

theorem rdata_in_bounds:
  assumes "rust_slice buf" and "rdata_parse buf pos stop t = Ok (rd, q)"
  shows "rdata_fits t rd \<and> q \<le> stop"
  using assms by (rule rdata_parse_fits)

theorem rdata_in_bounds_witness: "rdata_fits RrType_A (A 0x01020304) \<and> (4 :: nat) \<le> 4"
proof -
  have r: "rust_slice [1, 2, 3, 4 :: u8]" by (simp add: rust_slice_def)
  have "rdata_parse [1, 2, 3, 4] 0 4 RrType_A = Ok (A 0x01020304, 4)"
    by (simp add: rdata_parse_def rdata_parser_def parse_a_def array_at_slice_at slice_at_cases [OF r] from_be_bytes_def)
  from rdata_in_bounds [OF r this] show ?thesis .
qed

text \<open>
  C28. NSEC and NSEC3 type bitmaps: reading back what \<^verbatim>\<open>write_type_bitmap\<close> wrote gives the types in
  ascending order, each once, whatever order and repetition they were given in.
\<close>

theorem type_bitmap_roundtrip:
  assumes "occurs buf p bs" and "write_type_bitmap [] types = bs"
  shows "parse_type_bitmap buf p (p + length bs)
    = Ok (map RrType (remdups_adj (sort (map rr_type_to_u16 types))), p + length bs)"
  using assms by (rule parse_write_type_bitmap)

theorem type_bitmap_roundtrip_witness:
  "parse_type_bitmap [0, 1, 0x40] 0 3 = Ok ([RrType_A], 3)"
proof -
  have "write_type_bitmap [] [RrType_A, RrType_A] = [0, 1, 0x40]" by code_simp
  from type_bitmap_roundtrip [OF occurs_self this] show ?thesis by (simp add: RrType_A_def numeral_3_eq_3)
qed

section \<open>Names\<close>

text \<open>
  C7. \<^verbatim>\<open>Name::from_wire\<close> computes RFC 1035's relation: it succeeds at an offset exactly when the bytes
  there encode, possibly through compression pointers, fewer than 127 labels of at most 63 octets in
  at most 255 octets with at most 128 pointers, and returns their lower-cased uncompressed form and
  the end of the encoding at the top level.
\<close>

theorem name_parse_exact:
  assumes "rust_slice buf"
  shows "name_from_wire buf pos = Ok (n, e) \<longleftrightarrow>
    (\<exists>ls h. name_at buf pos ls h e \<and> h \<le> 128 \<and> labels_size ls + 1 \<le> 255 \<and> length ls < 127
        \<and> n = Name (encode_labels (map (map to_ascii_lowercase) ls)))"
  using assms by (rule name_from_wire_iff)

theorem name_parse_exact_witness: "name_from_wire [1, 65, 0, 192, 0] 3 = Ok (Name [1, 97, 0], 5)"
proof -
  let ?b = "[1, 65, 0, 192, 0] :: bytes"
  have "name_at ?b 2 [] 0 3" using name_at.root [of 2 ?b] by simp
  then have "name_at ?b 0 [[65]] 0 3"
    using name_at.label [of 0 ?b "[65]" "[]" 0 3] by (simp add: valid_label_def occurs_Cons numeral_2_eq_2)
  then have "name_at ?b 3 [[65]] 1 5" using name_at.pointer [of 3 ?b 0 "[[65]]" 0 3] by simp
  moreover have "rust_slice ?b" by (simp add: rust_slice_def)
  ultimately show ?thesis
    by (subst name_parse_exact)
      (auto simp: to_ascii_lowercase_def is_ascii_uppercase_def intro!: exI [of _ "[[65]]"] exI [of _ 1])
qed

text \<open>
  C8. Compression is transparent: a name written through the \<^verbatim>\<open>NameCompressor\<close> is read back from
  every continuation of the buffer, and the table keeps pointing at encodings of its names.
\<close>

theorem compression_roundtrip:
  assumes "comp_inv c out" and "wf_name n" and "compressor_write c n out = (c', out')" and "rust_slice (out' @ rest)"
  shows "name_from_wire (out' @ rest) (length out) = Ok (n, length out') \<and> comp_inv c' out'"
  using compressor_write_roundtrip [OF assms] compressor_write_inv [OF assms(1-3)] by blast

theorem compression_roundtrip_witness:
  "name_from_wire ([0, 0, 0, 0, 0, 0, 0, 0, 0, 0, 0, 0] @ [1, 97, 1, 98, 0])
     (length [0, 0, 0, 0, 0, 0, 0, 0, 0, 0, 0, 0 :: u8]) = Ok (wit_name, 17)"
proof -
  let ?o = "[0, 0, 0, 0, 0, 0, 0, 0, 0, 0, 0, 0] :: bytes"
  have "compressor_write compressor_new wit_name ?o = (wit_table, ?o @ [1, 97, 1, 98, 0])" by (rule wit_first) simp
  from compression_roundtrip [OF comp_inv_new wit_name_wf this, of "[]"] show ?thesis by (simp add: rust_slice_def)
qed

text \<open>
  C30. \<^verbatim>\<open>Name::is_subdomain_of\<close> is label-suffix containment, provided the length octet of the suffix's
  first label occurs inside no label of the name.
\<close>

theorem subdomain_exact:
  assumes "wf_name n" and "wf_name m"
    and "\<forall>k \<in> set (take 1 (name_labels m)). \<forall>l \<in> set (name_labels n). of_nat (length k) \<notin> set l"
  shows "is_subdomain_of n m \<longleftrightarrow> suffix (name_labels m) (name_labels n)"
  using assms by (rule is_subdomain_of_iff)

theorem subdomain_exact_witness: "is_subdomain_of wit_name wit_name \<longleftrightarrow> suffix [[97], [98]] ([[97], [98 :: u8]] :: bytes list)"
  using subdomain_exact [OF wit_name_wf wit_name_wf] by (simp add: wit_name_labels)

text \<open>
  Without that proviso the byte-suffix test is not label-bounded: the single-label name whose
  label is \<^verbatim>\<open>x\001b\<close> counts as a subdomain of \<^verbatim>\<open>b\<close>.
\<close>

theorem subdomain_not_label_bounded:
  "wf_name (Name [3, 120, 1, 98, 0]) \<and> is_subdomain_of (Name [3, 120, 1, 98, 0]) (Name [1, 98, 0])
     \<and> \<not> suffix (name_labels (Name [1, 98, 0])) (name_labels (Name [3, 120, 1, 98, 0]))"
  by code_simp

text \<open>
  C31. Presentation format: a well-formed name without a double quote survives
  \<^verbatim>\<open>to_ascii\<close> followed by \<^verbatim>\<open>from_ascii\<close>.
\<close>

theorem ascii_roundtrip:
  assumes "wf_name n" and "\<forall>l \<in> set (name_labels n). 34 \<notin> set l"
  shows "name_from_ascii (name_to_ascii n) = Ok n"
  using assms by (rule from_to_ascii_roundtrip)

theorem ascii_roundtrip_witness: "name_from_ascii (name_to_ascii wit_name) = Ok wit_name"
  using ascii_roundtrip [OF wit_name_wf] by (simp add: wit_name_labels)

text \<open>
  The double quote is printed with the octal code of RFC 4343's table in a format whose escapes
  are decimal, so it does not survive: the label \<^verbatim>\<open>"\<close> comes back as \<^verbatim>\<open>*\<close>.
\<close>

theorem ascii_quote_changes: "name_from_ascii (name_to_ascii (Name [1, 34, 0])) = Ok (Name [1, 42, 0])"
  by code_simp


text \<open>
  \<^verbatim>\<open>Name::from_ascii\<close> returns lower-cased names of at most 127 labels of at most 63 octets; the
  labels take at most 255 octets, the root octet not counted.
\<close>

theorem from_ascii_bounds:
  assumes "name_from_ascii s = Ok n"
  shows "\<exists>ls. n = Name (encode_labels ls) \<and> list_all valid_label ls \<and> list_all lower_label ls
    \<and> length ls \<le> 127 \<and> labels_size ls \<le> 255"
  using name_from_ascii_labels [OF assms] by metis

theorem from_ascii_bounds_witness:
  "\<exists>ls. Name [1, 97, 0] = Name (encode_labels ls) \<and> list_all valid_label ls \<and> list_all lower_label ls
    \<and> length ls \<le> 127 \<and> labels_size ls \<le> 255"
proof -
  have "name_from_ascii [65] = Ok (Name [1, 97, 0])" by code_simp
  then show ?thesis by (rule from_ascii_bounds)
qed

text \<open>
  That bound is one octet too wide: \<^verbatim>\<open>from_ascii\<close> accepts a name of 256 octets, which
  \<^verbatim>\<open>from_wire\<close> accepts at no offset of any message.
\<close>

theorem from_ascii_too_long:
  "\<exists>s n. name_from_ascii s = Ok n \<and> name_wire_len n = 256 \<and>
     \<not> (\<exists>buf p e. rust_slice buf \<and> name_from_wire buf p = Ok (n, e))"
proof -
  let ?l = "\<lambda>k. replicate k (97 :: u8)"
  define ls where "ls = [?l 63, ?l 63, ?l 63, ?l 62]"
  have v: "list_all valid_label ls" "labels_size ls = 255" "length ls = 4" "\<forall>l \<in> set ls. 34 \<notin> set l"
    by (simp_all add: ls_def valid_label_def)
  have low: "map (map to_ascii_lowercase) ls = ls"
    by (simp add: ls_def to_ascii_lowercase_def is_ascii_uppercase_def)
  have "name_from_ascii (dotted ls) = Ok (Name (encode_labels ls))"
    using name_from_ascii_dotted [of ls] v low by simp
  moreover have "name_wire_len (Name (encode_labels ls)) = 256" using v by (simp add: name_wire_len_def)
  moreover have "\<not> wf_name (Name (encode_labels ls))"
    unfolding wf_name_def name_labels_encode [OF v(1)] wf_labels_def using v(2) by simp
  ultimately show ?thesis using name_from_wire_wf by blast
qed

text \<open>
  \<^verbatim>\<open>Name::common_suffix\<close> returns the longest common suffix of the two label lists.
\<close>

theorem common_suffix_exact:
  assumes "wf_name n" and "wf_name m"
  shows "name_labels (common_suffix n m)
    = rev (longest_common_prefix (rev (name_labels n)) (rev (name_labels m)))"
  using assms by (rule common_suffix_labels)

theorem common_suffix_exact_witness: "name_labels (common_suffix wit_name wit_name) = [[97], [98]]"
  using common_suffix_exact [OF wit_name_wf wit_name_wf] by (simp add: wit_name_labels)

text \<open>
  0x20 case randomization changes only the case: whatever the generator draws, the canonical
  form of the name is unchanged.
\<close>

theorem randomized_case_canonical: "name_canonical (fst (randomized_case next_u64 n g)) = name_canonical n"
proof -
  have "map to_ascii_lowercase (fst (randomize_bytes next_u64 g bs)) = map to_ascii_lowercase bs" for bs
    by (induction next_u64 g bs rule: randomize_bytes.induct)
      (auto simp: lowercase_uppercase Let_def split: prod.splits)
  then show ?thesis by (auto simp: name_canonical_def randomized_case_def split: prod.splits) (metis fst_conv)
qed

section \<open>Header flags, EDNS\<close>

text \<open>The header flags survive the 16-bit word.\<close>

theorem flags_roundtrip:
  assumes "flags_ok h"
  shows "flags_from_u16 (flags_to_u16 h) = h"
  using assms by (rule flags_from_to)

theorem flags_roundtrip_witness: "flags_from_u16 (flags_to_u16 header_flags_default) = header_flags_default"
  by (rule flags_roundtrip) (simp add: flags_ok_def header_flags_default_def Opcode_QUERY_def Rcode_NOERROR_def)

text \<open>Decoding and encoding a flags word clears the reserved Z bit and nothing else.\<close>

theorem flags_word_roundtrip: "flags_to_u16 (flags_from_u16 v) = v AND NOT 0x40"
  by (rule flags_to_from)

text \<open>
  The OPT pseudo-record: the class, TTL and payload written for an EDNS value are parsed back to
  it, with padding lengths reset (\<open>edns_norm\<close>).
\<close>

theorem edns_roundtrip:
  assumes "edns_ok e"
  shows "edns_parse (udp_payload_size e) (ttl_field e) (options_wire e) = Ok (edns_norm e)"
  using assms by (rule edns_parse_written)

theorem edns_roundtrip_witness:
  "edns_parse 1232 0x8000 (options_wire wit_edns) = Ok wit_edns"
  using edns_roundtrip [OF wit_edns_ok] by (simp add: wit_edns_def edns_new_def ttl_field_def edns_norm_def)

text \<open>
  A padding option does not survive: its length is parsed but never written.
\<close>

theorem padding_lost:
  "parse_options (options_wire ((edns_new 1232)\<lparr>edns_options := [Padding n]\<rparr>)) = Ok [Padding 0]"
  using parse_options_wire [of "(edns_new 1232)\<lparr>edns_options := [Padding n]\<rparr>"]
  by (simp add: edns_ok_def options_wire_def option_wire_def)

text \<open>
  A client-subnet option built from an address keeps exactly the first \<open>pre\<close> bits of the
  address, in network order, and is canonical.
\<close>

theorem ecs_keeps_prefix_bits:
  assumes "ecs_ipv4 ip pre = Ok e" and "i < length (ecs_address e)" and "j < 8"
  shows "ecs_ok e \<and> (bit (ecs_address e ! i) j \<longleftrightarrow> bit (to_be_bytes 4 ip ! i) j \<and> 8 * i + (7 - j) < unat pre)"
proof -
  from assms(1) have e: "ecs_address e = ecs_mask (to_be_bytes 4 ip) pre" and pre: "\<not> 32 < pre"
    by (auto simp: ecs_ipv4_def split: if_splits)
  then have "div_ceil (unat pre) 8 \<le> 4" by (simp add: div_ceil_8 word_less_nat_alt)
  with assms(2,3) e show ?thesis
    using ecs_ipv4_ok [OF assms(1)] bit_ecs_mask [of i pre "to_be_bytes 4 ip" j] by (simp add: length_ecs_mask)
qed

theorem ecs_keeps_prefix_bits_witness:
  "ecs_ok \<lparr>ecs_family = 1, source_prefix = 9, scope_prefix = 0, ecs_address = [10, 128]\<rparr> \<and>
   (bit (128 :: u8) 7 \<longleftrightarrow> bit (to_be_bytes 4 (0x0affffff :: u32) ! 1) 7 \<and> 8 * 1 + (7 - 7) < unat (9 :: u8))"
proof -
  have "ecs_ipv4 0x0affffff 9 = Ok \<lparr>ecs_family = 1, source_prefix = 9, scope_prefix = 0, ecs_address = [10, 128]\<rparr>"
    by code_simp
  from ecs_keeps_prefix_bits [OF this, of 1 7] show ?thesis by simp
qed

text \<open>
  The client-subnet parser is exact: what it accepts is canonical and is written back octet for
  octet.
\<close>

theorem ecs_parse_exact:
  assumes "ecs_parse data = Ok e"
  shows "ecs_ok e \<and> ecs_to_wire e = data"
  using assms by (rule ecs_parse_ok)

theorem ecs_parse_exact_witness:
  "ecs_to_wire \<lparr>ecs_family = 1, source_prefix = 8, scope_prefix = 0, ecs_address = [10]\<rparr> = [0, 1, 8, 0, 10]"
proof -
  have "ecs_ok \<lparr>ecs_family = 1, source_prefix = 8, scope_prefix = 0, ecs_address = [10]\<rparr>"
    by (simp add: ecs_ok_def div_ceil_def ecs_canonical_def)
  from ecs_parse_to_wire [OF this] show ?thesis
    by (intro ecs_parse_exact [THEN conjunct2]) (simp add: ecs_to_wire_def to_be_bytes_numerals)
qed

text \<open>
  The presentation of record types is not injective: unassigned types below 65, and types above
  the known ranges, all print as \<^verbatim>\<open>TYPE\<close> without their number.
\<close>

theorem rr_type_display_ambiguous: "rr_type_display (RrType 19) = rr_type_display (RrType 20)"
  by code_simp

section \<open>The fake-IP pool\<close>

text \<open>
  C12. The invariant of the pool.  In every state that any sequence of allocations, lookups, restores,
  clean-ups, releases and clears leads to from a configured pool, each family's two indexes describe
  one bijection between names and addresses, and every address lies in the configured range.
\<close>

theorem pool_bijective:
  assumes "reachable pool_initial pool_step p" and "pool_space p f = Some s"
  shows "(btree_get (by_name s) n = Some k \<longleftrightarrow> (\<exists>e. btree_get (by_key s) k = Some e \<and> entry_name e = n))
    \<and> dom (btree_get (by_key s)) \<subseteq> {first_key s..last_key s}"
proof -
  have "space_inv s" using spaceD [OF pool_machine.reachable_inv [OF assms(1)] assms(2)] by (simp add: space_of_def)
  then show ?thesis by (auto simp: space_inv_def bijective_def)
qed

theorem pool_bijective_witness:
  "(btree_get (by_name (v4_space restored_pool)) (one_letter 97) = Some 0x0a000001 \<longleftrightarrow>
     (\<exists>e. btree_get (by_key (v4_space restored_pool)) 0x0a000001 = Some e \<and> entry_name e = one_letter 97))
   \<and> dom (btree_get (by_key (v4_space restored_pool))) \<subseteq> {first_key (v4_space restored_pool)..last_key (v4_space restored_pool)}"
  by (rule pool_bijective [OF restored_pool_reachable, where f = V4]) simp

text \<open>
  C13. Refinement.  Seen through its name index, every step of a reachable pool is a step of an abstract
  table of one-to-one mappings: an allocation keeps or adds the name's own mapping and never moves
  another name, a restore adds exactly the mapping it is given or nothing, and the other operations
  only forget.
\<close>

theorem pool_refines_mappings:
  assumes "reachable pool_initial pool_step p" and "pool_step p opn p'"
  shows "mapping_step (pool_abs p) opn (pool_abs p') \<and> one_to_one (pool_abs p')"
  using pool_machine.reachable_inv [OF assms(1)] assms(2)
  by (blast intro: pool_step_simulates pool_step_inv pool_abs_one_to_one)

theorem pool_refines_mappings_witness:
  "mapping_step (pool_abs sample_pool) (OpRestore (one_letter 97) (IpV4 0x0a000001) 0)
     (pool_abs (snd (pool_restore (one_letter 97) (IpV4 0x0a000001) 0 sample_pool)))"
  using pool_refines_mappings [OF sample_pool_reachable pool_step.intros(3) [OF prod.collapse [symmetric]]] by blast

text \<open>
  C14. Allocation always succeeds.  For a name that no filter pattern matches and a configured family,
  the pool returns an address of its range, even when every address is taken: it then reclaims.  The
  address is looked up back to the name, and asking again returns the same address.
\<close>

theorem pool_allocate_total:
  assumes "reachable pool_initial pool_step p" and "\<not> pool_is_filtered p n" and "pool_synthesizes p f"
  shows "\<exists>ip p'. pool_allocate n f now p = (Ok (Address ip), p') \<and> pool_contains p' ip \<and> pool_peek p' ip = Some n
    \<and> (\<forall>now'. fst (pool_allocate n f now' p') = Ok (Address ip))"
  using pool_allocate_ok [OF pool_machine.reachable_inv [OF assms(1)] assms(2,3)] by metis

theorem pool_allocate_total_witness:
  "\<exists>ip p'. pool_allocate (one_letter 97) V4 0 sample_pool = (Ok (Address ip), p') \<and> pool_contains p' ip
    \<and> pool_peek p' ip = Some (one_letter 97)"
  using pool_allocate_total [OF sample_pool_reachable sample_pool_unfiltered] by blast

text \<open>
  Clean-up is exact: of a space it removes precisely the mappings that were not used within the
  time to live, reports their number, and keeps the reverse index in step.
\<close>

theorem cleanup_exact:
  assumes "reachable pool_initial pool_step p" and "pool_space p f = Some s" and "space_cleanup now s = (dropped, s')"
  shows "(btree_get (by_key s') k = Some e \<longleftrightarrow>
      btree_get (by_key s) k = Some e \<and> saturating_sub now (sp_ttl_nanos s) \<le> last_access e)
    \<and> dropped + space_len s' = space_len s \<and> bijective (btree_get (by_key s')) (btree_get (by_name s'))"
proof -
  have inv: "space_inv s" using spaceD [OF pool_machine.reachable_inv [OF assms(1)] assms(2)] by (simp add: space_of_def)
  then have "btree_inv (by_key s)" by (simp add: space_inv_def)
  with space_cleanup_inv [OF inv assms(3)] space_inv_bijective [of s'] show ?thesis
    by (auto simp: get_retain space_len_def split: option.splits)
qed

theorem cleanup_exact_witness:
  "fst (space_cleanup 70000000000 (v4_space restored_pool)) + space_len (snd (space_cleanup 70000000000 (v4_space restored_pool))) = 3"
proof -
  have "space_len (v4_space restored_pool) = 3" using restored_pool_size(1) by (simp add: pool_len_for_def)
  then show ?thesis
    using cleanup_exact [OF restored_pool_reachable pool_space.simps(1) prod.collapse [symmetric]] by metis
qed

text \<open>
  The cap of the pool is not a bound on its size: \<^verbatim>\<open>restore\<close> does not compare the number of
  entries with \<^verbatim>\<open>max_entries\<close>, so a reachable pool can hold more live entries than its cap.
\<close>

theorem restore_exceeds_cap:
  "\<exists>p. reachable pool_initial pool_step p \<and> pool_max_entries p V4 < pool_len_for p V4"
  using restored_pool_reachable restored_pool_size by (intro exI [of _ restored_pool]) simp

section \<open>Bounded tables and time\<close>

text \<open>
  C38. Making room.  On a table that is not empty \<^verbatim>\<open>evict_for_capacity\<close> always frees an entry, and
  reports how many.  When there are stale entries it drops those and no others; otherwise it drops one
  entry in every stride, at least one.
\<close>

theorem evict_guarantee:
  assumes "btree_inv m" and "m \<noteq> []" and "evict_for_capacity m cutoff stride stamp = (m', freed)"
  shows "0 < freed \<and> length m' + freed = length m \<and> set m' \<subseteq> set m \<and> btree_inv m'
    \<and> (if \<exists>e \<in> set m. stamp (snd e) < cutoff then m' = btree_retain (\<lambda>_ v. cutoff \<le> stamp v) m
       else freed = max 1 (length m div max stride 2))"
proof (cases "\<exists>e \<in> set m. stamp (snd e) < cutoff")
  case True
  then obtain e where e: "e \<in> set m" "stamp (snd e) < cutoff" by blast
  have "m' = btree_retain (\<lambda>_ v. cutoff \<le> stamp v) m"
    using evict_stale [where stamp = stamp and cutoff = cutoff, OF e, of stride] assms(3) by simp
  with True evict_for_capacity_ok [OF assms] show ?thesis by auto
next
  case False
  then have "\<forall>e \<in> set m. cutoff \<le> stamp (snd e)" by (auto simp: not_less)
  with False evict_for_capacity_ok [OF assms] evict_fresh [OF assms(1,2) _ assms(3)] show ?thesis by auto
qed

theorem evict_guarantee_witness:
  "evict_for_capacity [(1 :: nat, 5 :: int), (2, 9)] 7 8 id = ([(2, 9)], 1) \<and> btree_inv [(2 :: nat, 9 :: int)]"
proof -
  have e: "evict_for_capacity [(1 :: nat, 5 :: int), (2, 9)] 7 8 id = ([(2, 9)], 1)"
    by (simp add: evict_for_capacity_def btree_retain_def)
  have "btree_inv [(1 :: nat, 5 :: int), (2, 9)]" by simp
  from evict_guarantee [OF this _ e] e show ?thesis by simp
qed

text \<open>
  Deadlines.  The seconds remaining until a deadline set \<^verbatim>\<open>secs\<close> ahead are exactly \<^verbatim>\<open>secs\<close>, unless
  the deadline leaves the range of the clock, where it saturates.
\<close>

theorem deadline_remaining:
  assumes "is_i128 (t + uint secs * NS_PER_SEC)"
  shows "remaining_secs t (add_secs t secs) = secs"
  using assms by (rule remaining_add_secs)

theorem deadline_remaining_witness: "remaining_secs 5 (add_secs 5 300) = 300"
  by (rule deadline_remaining) (simp add: is_i128_def i128_min_def i128_max_def NS_PER_SEC_def)

section \<open>Prefixes and patterns\<close>

text \<open>
  Prefix containment is the interval between network and broadcast address, for both families.
\<close>

theorem cidr_contains_interval:
  assumes "cidr4_ok c" and "cidr6_ok d"
  shows "{ip. cidr4_contains c ip} = {cidr4_network c..cidr4_broadcast c}
    \<and> {ip. cidr6_contains d ip} = {cidr6_network d..cidr6_broadcast d}
    \<and> card {ip. cidr4_contains c ip} = unat (cidr4_len c)"
proof -
  have "card {cidr4_network c..cidr4_broadcast c} = unat (cidr4_len c)"
    unfolding cidr4_len_unat [OF assms(1)] card_word_interval cidr4_broadcast_unat [OF assms(1)] by simp
  with cidr4_contains_range [OF assms(1)] cidr6_contains_range [OF assms(2)] show ?thesis
    by (simp add: atLeastAtMost_def atLeast_def atMost_def Int_def)
qed

theorem cidr_contains_interval_witness:
  "card {ip. cidr4_contains pool_cidr ip} = 8"
proof -
  have "cidr6_ok \<lparr>cidr6_base = 0, cidr6_prefix = 0\<rparr>" by (simp add: cidr6_ok_def cidr6_new_def mask_v6_def)
  from cidr_contains_interval [OF pool_cidr_ok this]
  have "card {ip. cidr4_contains pool_cidr ip} = unat (cidr4_len pool_cidr)" by blast
  also have "\<dots> = 8" unfolding cidr4_len_unat [OF pool_cidr_ok] by (simp add: pool_cidr_def)
  finally show ?thesis .
qed

text \<open>
  The textual form of an IPv4 prefix is read back as the prefix.
\<close>

theorem cidr_roundtrip:
  assumes "cidr4_ok c"
  shows "cidr4_parse (cidr4_display c) = Some c"
  using assms by (rule cidr4_parse_display)

theorem cidr_roundtrip_witness: "cidr4_parse (cidr4_display pool_cidr) = Some pool_cidr"
  by (rule cidr_roundtrip [OF pool_cidr_ok])

text \<open>
  C39. The pattern matcher, which works on wire forms, decides the label-wise meaning of patterns on
  well-formed names: equality, label suffixes, and wildcards that stand for exactly one label (a leading
  one for any number).  For an exact pattern the pattern's name must be well formed; for a subtree
  pattern also the proviso of the subdomain test must hold: the octet that starts the pattern occurs
  inside no label of the name (\<open>pattern_aligned\<close>).
\<close>

theorem pattern_matcher_exact:
  assumes "wf_name n" and "pattern_aligned p n"
  shows "pattern_matches p n \<longleftrightarrow> pattern_denotes p (name_labels n)"
  using assms by (rule pattern_matches_denotes)

theorem pattern_matcher_exact_witness: "pattern_matches (Subtree (Name [1, 98, 0])) wit_name \<and> suffix [[98]] (name_labels wit_name)"
proof -
  have "Name [1, 98, 0] = Name (encode_labels [[98]])" by simp
  then have b: "wf_name (Name [1, 98, 0])"
    using wf_name_encode [of "[[98]]"] by (simp add: wf_labels_def valid_label_def lower_label_def is_ascii_uppercase_def)
  have ls: "name_labels (Name [1, 98, 0]) = [[98]]" "name_labels wit_name = [[97], [98]]" by code_simp+
  have "pattern_aligned (Subtree (Name [1, 98, 0])) wit_name" using b by (simp add: octet_aligned_def ls)
  from pattern_matcher_exact [OF wit_name_wf this] show ?thesis by (simp add: ls suffix_def)
qed

section \<open>Signatures\<close>

text \<open>
  The big-integer routine is modular exponentiation: on big-endian octet strings, for a non-zero
  modulus and a non-empty exponent, the schoolbook product, bitwise long division and square-and-multiply
  loops over 32-bit limbs return the natural number \<open>b ^ e mod m\<close>.
\<close>

theorem mod_pow_exact:
  assumes "0 < be_val m" and "e \<noteq> []"
  shows "be_val (mod_pow b e m) = be_val b ^ be_val e mod be_val m"
  using assms by (rule mod_pow_val)

theorem mod_pow_exact_witness: "be_val (mod_pow [3] [5] [7]) = 5"
  using mod_pow_exact [of "[7]" "[5]" "[3]"] by simp

text \<open>
  C16. Signature verification is exact.  A signature is accepted if and only if the key parses and the
  signature raised to the exponent modulo the modulus is the one encoded message of RFC 8017 for the
  digest that fills the modulus: two header octets, at least eight octets of padding, a zero, the
  SHA-256 DigestInfo prefix and the digest, and nothing else.
\<close>

theorem rsa_verify_exact:
  assumes "length digest = 32"
  shows "verify_pkcs1v15_sha256 key digest signature \<longleftrightarrow>
    (\<exists>modulus exponent pad. parse_dnskey_rsa key = Some (modulus, exponent) \<and> 8 \<le> pad
      \<and> length (trim_leading_zeros modulus) = length (encoded_message pad digest)
      \<and> be_val signature ^ be_val exponent mod be_val modulus = be_val (encoded_message pad digest))"
  using assms by (rule verify_pkcs1v15_iff)

theorem rsa_verify_exact_witness:
  "verify_pkcs1v15_sha256 (1 # 1 # replicate 62 0xff) (replicate 32 0) (encoded_message 8 (replicate 32 0))"
proof -
  let ?d = "replicate 32 0 :: bytes"
  have p: "parse_dnskey_rsa (1 # 1 # replicate 62 0xff) = Some (replicate 62 0xff, [1])"
    by (simp add: parse_dnskey_rsa_def checked_add_def get_range_def get_from_def usize_bound_def)
  have t: "trim_leading_zeros (replicate 62 0xff) = replicate 62 0xff"
    by (simp add: trim_leading_zeros_def Let_def dropWhile_eq_self_iff)
  have "be_val (encoded_message 8 ?d) < be_val (replicate 62 0xff)"
  proof -
    have "be_val (encoded_message 8 ?d) = be_val (tl (encoded_message 8 ?d))" by (simp add: encoded_message_def)
    also have "\<dots> < 256 ^ length (tl (encoded_message 8 ?d))" by (rule be_val_less)
    also have "\<dots> = 256 ^ 61" by (simp add: length_encoded)
    also have "\<dots> \<le> be_val ([0xff] @ replicate 61 0xff)" by (simp add: be_val_append)
    also have "[0xff] @ replicate 61 0xff = (replicate 62 0xff :: bytes)" by (simp add: numeral_eq_Suc)
    finally show ?thesis .
  qed
  then show ?thesis
    using rsa_verify_exact [of ?d "1 # 1 # replicate 62 0xff"] p t by (auto simp: length_encoded)
qed

end
